(* ===== verification/Prelude.thy ===== *)
theory Prelude
  imports Main "HOL-Library.Char_ord" "HOL-Library.List_Lexorder" "HOL-Library.Product_Lexorder"
begin

text \<open>
  Shared ground of the development: the collections of rewrite rules the component theories
  extend, the relational operations the SQL statements of \<open>internal/store\<close> are written with
  (a conditional \<open>UPDATE ... RETURNING\<close>, \<open>ORDER BY ... LIMIT\<close>), a lookup by key, and the facts
  about them that every component uses.
\<close>

named_theorems store_defs "definitions of the store's operations and of the rows they write"
named_theorems row_defs "definitions of the row predicates and row updates"
named_theorems key_simps "a table update keeps the keys of the table"

section \<open>Looking a row up by its key\<close>

definition lookup_row :: "('r \<Rightarrow> 'k) \<Rightarrow> 'k \<Rightarrow> 'r list \<Rightarrow> 'r option" where
  "lookup_row key k rs = find (\<lambda>r. key r = k) rs"

lemma lookup_row_Some:
  "lookup_row key k rs = Some r \<Longrightarrow> r \<in> set rs \<and> key r = k"
  by (auto simp: lookup_row_def find_Some_iff)

lemma lookup_row_None:
  "lookup_row key k rs = None \<longleftrightarrow> k \<notin> key ` set rs"
  by (auto simp: lookup_row_def find_None_iff)

lemma lookup_row_unique:
  assumes "distinct (map key rs)" and "r \<in> set rs"
  shows "lookup_row key (key r) rs = Some r"
proof (cases "lookup_row key (key r) rs")
  case None
  with assms(2) show ?thesis by (auto simp: lookup_row_None)
next
  case (Some r')
  then have "r' \<in> set rs" and "key r' = key r" by (auto dest: lookup_row_Some)
  with assms Some show ?thesis by (auto simp: distinct_map dest: inj_onD)
qed

lemma lookup_row_iff:
  "distinct (map key rs) \<Longrightarrow> lookup_row key k rs = Some r \<longleftrightarrow> r \<in> set rs \<and> key r = k"
  by (auto dest: lookup_row_Some lookup_row_unique)

lemma lookup_row_Nil [simp]: "lookup_row key k [] = None"
  by (simp add: lookup_row_def)

lemma lookup_row_Cons [simp]:
  "lookup_row key k (r # rs) = (if key r = k then Some r else lookup_row key k rs)"
  by (simp add: lookup_row_def)

lemma lookup_row_append:
  "lookup_row key k (rs @ qs) =
     (case lookup_row key k rs of None \<Rightarrow> lookup_row key k qs | Some r \<Rightarrow> Some r)"
  by (induction rs) auto

section \<open>The conditional UPDATE\<close>

text \<open>
  \<open>UPDATE t SET f WHERE P RETURNING *\<close>: the rows after the update that matched, and the new table.
\<close>

definition sql_update :: "('r \<Rightarrow> bool) \<Rightarrow> ('r \<Rightarrow> 'r) \<Rightarrow> 'r list \<Rightarrow> 'r list \<times> 'r list" where
  "sql_update P f rs = (map f (filter P rs), map (\<lambda>r. if P r then f r else r) rs)"

lemma snd_sql_update [simp]: "snd (sql_update P f rs) = map (\<lambda>r. if P r then f r else r) rs"
  by (simp add: sql_update_def)

lemma fst_sql_update_Nil:
  "fst (sql_update P f rs) = [] \<longleftrightarrow> (\<forall>r \<in> set rs. \<not> P r)"
  by (auto simp: sql_update_def filter_empty_conv)

lemma map_update_noop:
  "\<forall>r \<in> set rs. \<not> P r \<Longrightarrow> map (\<lambda>r. if P r then f r else r) rs = rs"
  by (induction rs) auto

lemma map_key_update [key_simps]:
  assumes "\<And>r. key (f r) = key r"
  shows "map key (map (\<lambda>r. if P r then f r else r) rs) = map key rs"
  using assms by (induction rs) auto

lemma lookup_row_update:
  assumes "\<And>r. key (f r) = key r"
  shows "lookup_row key k (map (\<lambda>r. if P r then f r else r) rs) =
           map_option (\<lambda>r. if P r then f r else r) (lookup_row key k rs)"
  using assms by (induction rs) auto

lemma filter_key_unique:
  assumes "distinct (map key rs)"
  shows "filter (\<lambda>r. key r = k \<and> P r) rs =
           (case lookup_row key k rs of None \<Rightarrow> [] | Some r \<Rightarrow> if P r then [r] else [])"
  using assms
proof (induction rs)
  case Nil
  then show ?case by simp
next
  case (Cons a rs)
  show ?case
  proof (cases "key a = k")
    case True
    with Cons.prems have "k \<notin> key ` set rs" by auto
    then have "filter (\<lambda>r. key r = k \<and> P r) rs = []" by (auto simp: filter_empty_conv)
    with True show ?thesis by simp
  next
    case False
    with Cons show ?thesis by simp
  qed
qed

section \<open>ORDER BY ... LIMIT\<close>

definition order_limit :: "('r \<Rightarrow> 'k::linorder) \<Rightarrow> nat \<Rightarrow> 'r list \<Rightarrow> 'r list" where
  "order_limit k n rs = take n (sort_key k rs)"

lemma set_order_limit: "set (order_limit k n rs) \<subseteq> set rs"
  using set_take_subset [of n "sort_key k rs"] by (simp add: order_limit_def)

lemma order_limit_in: "r \<in> set (order_limit k n rs) \<Longrightarrow> r \<in> set rs"
  by (rule subsetD [OF set_order_limit])

lemma length_order_limit: "length (order_limit k n rs) = min n (length rs)"
  by (simp add: order_limit_def min.commute)

lemma sorted_order_limit: "sorted (map k (order_limit k n rs))"
proof -
  have "sorted (take n (map k (sort_key k rs)))" by (rule sorted_wrt_take) simp
  then show ?thesis by (simp add: order_limit_def take_map)
qed

lemma distinct_order_limit: "distinct (map key rs) \<Longrightarrow> distinct (map key (order_limit k n rs))"
  by (simp add: order_limit_def take_map [symmetric] distinct_map inj_on_def set_take_subset distinct_take)

lemma order_limit_all: "length rs \<le> n \<Longrightarrow> set (order_limit k n rs) = set rs"
  by (simp add: order_limit_def)

text \<open>The rows a limit cuts off are not smaller than the ones it keeps.\<close>

lemma order_limit_least:
  assumes "x \<in> set (order_limit k n rs)" and "y \<in> set rs" and "y \<notin> set (order_limit k n rs)"
  shows "k x \<le> k y"
proof -
  let ?s = "sort_key k rs"
  have s: "sorted (map k (take n ?s @ drop n ?s))" by simp
  from assms(2,3) have "y \<in> set (drop n ?s)"
    by (metis Un_iff append_take_drop_id order_limit_def set_append set_sort)
  with assms(1) s show ?thesis
    unfolding order_limit_def map_append sorted_append by auto
qed

end
