(* ===== verification/GoStd.thy ===== *)
theory GoStd
  imports Prelude
begin

text \<open>
  The pieces of Go and of its standard library the program computes with: 64-bit signed
  arithmetic (\<open>int\<close>, \<open>int64\<close>, \<open>time.Duration\<close>), the decimal rendering of \<open>%d\<close>, \<open>strconv.Atoi\<close>,
  \<open>strings.TrimSpace\<close>, \<open>strings.Split\<close> and \<open>strings.Join\<close>. A Go string is its list of bytes, so
  a character is one byte of the UTF-8 text.
\<close>

section \<open>64-bit integers\<close>

definition int64_min :: int where "int64_min = - (2 ^ 63)"
definition int64_max :: int where "int64_max = 2 ^ 63 - 1"

definition wrap64 :: "int \<Rightarrow> int" where
  "wrap64 i = (i + 2 ^ 63) mod 2 ^ 64 - 2 ^ 63"

lemma wrap64_id: "int64_min \<le> i \<Longrightarrow> i \<le> int64_max \<Longrightarrow> wrap64 i = i"
  by (simp add: wrap64_def int64_min_def int64_max_def)

lemma wrap64_range: "int64_min \<le> wrap64 i \<and> wrap64 i \<le> int64_max"
proof -
  have "0 \<le> (i + 2 ^ 63) mod (2 ^ 64 :: int)" and "(i + 2 ^ 63) mod (2 ^ 64 :: int) < 2 ^ 64"
    by simp_all
  then show ?thesis by (simp add: wrap64_def int64_min_def int64_max_def)
qed

section \<open>Decimal rendering, as \<open>fmt\<close>'s \<open>%d\<close> writes it\<close>

definition digit_char :: "nat \<Rightarrow> char" where
  "digit_char d = char_of (48 + d)"

fun dec_digits :: "nat \<Rightarrow> string" where
  "dec_digits n = (if n < 10 then [digit_char n] else dec_digits (n div 10) @ [digit_char (n mod 10)])"

declare dec_digits.simps [simp del]

definition itoa :: "int \<Rightarrow> string" where
  "itoa i = (if i < 0 then CHR ''-'' # dec_digits (nat (- i)) else dec_digits (nat i))"

section \<open>\<open>strconv.Atoi\<close>\<close>

definition is_digit :: "char \<Rightarrow> bool" where
  "is_digit c \<longleftrightarrow> 48 \<le> (of_char c :: nat) \<and> (of_char c :: nat) \<le> 57"

definition digit_val :: "char \<Rightarrow> nat" where
  "digit_val c = of_char c - 48"

fun digits_val :: "nat \<Rightarrow> string \<Rightarrow> nat option" where
  "digits_val n [] = Some n"
| "digits_val n (c # cs) = (if is_digit c then digits_val (10 * n + digit_val c) cs else None)"

definition unsigned_val :: "string \<Rightarrow> nat option" where
  "unsigned_val s = (if s = [] then None else digits_val 0 s)"

definition in_int64 :: "int \<Rightarrow> int option" where
  "in_int64 i = (if int64_min \<le> i \<and> i \<le> int64_max then Some i else None)"

definition atoi :: "string \<Rightarrow> int option" where
  "atoi s = (case s of
     [] \<Rightarrow> None
   | c # cs \<Rightarrow>
       if c = CHR ''-'' then Option.bind (unsigned_val cs) (\<lambda>n. in_int64 (- int n))
       else if c = CHR ''+'' then Option.bind (unsigned_val cs) (\<lambda>n. in_int64 (int n))
       else Option.bind (unsigned_val s) (\<lambda>n. in_int64 (int n)))"

lemma digit_char_digit: "d < 10 \<Longrightarrow> is_digit (digit_char d) \<and> digit_val (digit_char d) = d"
  by (simp add: is_digit_def digit_val_def digit_char_def)

lemma digit_not_sign: "is_digit c \<Longrightarrow> c \<noteq> CHR ''-'' \<and> c \<noteq> CHR ''+''"
  by (auto simp: is_digit_def)

lemma digits_val_append:
  "digits_val n (xs @ ys) = Option.bind (digits_val n xs) (\<lambda>m. digits_val m ys)"
  by (induction xs arbitrary: n) auto

lemma dec_digits_nonempty [simp]: "dec_digits n \<noteq> []"
  by (subst dec_digits.simps) simp

lemma dec_digits_all: "c \<in> set (dec_digits n) \<Longrightarrow> is_digit c"
proof (induction n rule: dec_digits.induct)
  case (1 n)
  then show ?case
    by (subst (asm) dec_digits.simps) (auto simp: digit_char_digit split: if_splits)
qed

lemma digits_val_dec: "digits_val 0 (dec_digits n) = Some n"
proof (induction n rule: dec_digits.induct)
  case (1 n)
  show ?case
  proof (cases "n < 10")
    case True
    then show ?thesis by (subst dec_digits.simps) (simp add: digit_char_digit)
  next
    case False
    with 1 show ?thesis
      by (subst dec_digits.simps) (simp add: digits_val_append digit_char_digit)
  qed
qed

lemma unsigned_val_dec: "unsigned_val (dec_digits n) = Some n"
  by (simp add: unsigned_val_def digits_val_dec)

text \<open>Parsing what \<open>%d\<close> prints gives the number back.\<close>

lemma atoi_itoa:
  assumes "int64_min \<le> i" and "i \<le> int64_max"
  shows "atoi (itoa i) = Some i"
proof (cases "i < 0")
  case True
  with assms show ?thesis by (simp add: atoi_def itoa_def unsigned_val_dec in_int64_def)
next
  case False
  obtain c cs where d: "dec_digits (nat i) = c # cs"
    by (cases "dec_digits (nat i)") auto
  then have "is_digit c" using dec_digits_all [of c "nat i"] by simp
  with False d assms show ?thesis
    using unsigned_val_dec [of "nat i"]
    by (simp add: atoi_def itoa_def in_int64_def digit_not_sign)
qed

lemma atoi_range: "atoi s = Some i \<Longrightarrow> int64_min \<le> i \<and> i \<le> int64_max"
  by (auto simp: atoi_def in_int64_def bind_eq_Some_conv split: list.splits if_splits)

section \<open>\<open>strings.TrimSpace\<close>\<close>

text \<open>
  The UTF-8 encodings of the characters \<open>unicode.IsSpace\<close> accepts: tab, line feed, vertical
  tab, form feed, carriage return, space, U+0085, U+00A0, U+1680, U+2000 to U+200A, U+2028,
  U+2029, U+202F, U+205F and U+3000. No encoding is a proper suffix or prefix of another
  character's encoding, so trimming bytes is trimming characters.
\<close>

definition bytes :: "nat list \<Rightarrow> string" where
  "bytes ns = map char_of ns"

definition space_seqs :: "string list" where
  "space_seqs = map bytes
    ([[9], [10], [11], [12], [13], [32], [0xC2, 0x85], [0xC2, 0xA0], [0xE1, 0x9A, 0x80]]
     @ map (\<lambda>b. [0xE2, 0x80, b]) [0x80, 0x81, 0x82, 0x83, 0x84, 0x85, 0x86, 0x87, 0x88, 0x89, 0x8A,
         0xA8, 0xA9, 0xAF]
     @ [[0xE2, 0x81, 0x9F], [0xE3, 0x80, 0x80]])"

fun strip_prefix :: "string \<Rightarrow> string \<Rightarrow> string option" where
  "strip_prefix [] s = Some s"
| "strip_prefix (p # ps) [] = None"
| "strip_prefix (p # ps) (c # cs) = (if p = c then strip_prefix ps cs else None)"

fun first_strip :: "string list \<Rightarrow> string \<Rightarrow> string option" where
  "first_strip [] s = None"
| "first_strip (p # ps) s =
     (case strip_prefix p s of Some r \<Rightarrow> if p = [] then None else Some r | None \<Rightarrow> first_strip ps s)"

lemma strip_prefix_Some: "strip_prefix p s = Some r \<longleftrightarrow> s = p @ r"
  by (induction p s rule: strip_prefix.induct) auto

lemma first_strip_shorter: "first_strip ps s = Some r \<Longrightarrow> length r < length s"
  by (induction ps) (auto simp: strip_prefix_Some split: option.splits if_splits)

function trim_left_seqs :: "string list \<Rightarrow> string \<Rightarrow> string" where
  "trim_left_seqs ps s = (case first_strip ps s of None \<Rightarrow> s | Some r \<Rightarrow> trim_left_seqs ps r)"
  by pat_completeness auto
termination
  by (relation "measure (\<lambda>(ps, s). length s)") (auto dest: first_strip_shorter)

declare trim_left_seqs.simps [simp del]

definition TrimSpace :: "string \<Rightarrow> string" where
  "TrimSpace s = rev (trim_left_seqs (map rev space_seqs) (rev (trim_left_seqs space_seqs s)))"

lemma trim_left_fixed: "first_strip ps (trim_left_seqs ps s) = None"
  by (induction ps s rule: trim_left_seqs.induct)
     (subst trim_left_seqs.simps, auto split: option.splits)

lemma trim_left_suffix: "\<exists>w. s = w @ trim_left_seqs ps s"
proof (induction ps s rule: trim_left_seqs.induct)
  case (1 ps s)
  show ?case
  proof (cases "first_strip ps s")
    case None
    then show ?thesis by (subst trim_left_seqs.simps) simp
  next
    case (Some r)
    have "\<exists>p. s = p @ r" using Some
      by (induction ps) (auto simp: strip_prefix_Some split: option.splits if_splits)
    with "1.IH" [OF Some] Some show ?thesis
      by (subst trim_left_seqs.simps) (metis append.assoc option.simps(5))
  qed
qed

text \<open>Trimming returns a contiguous part of its input.\<close>

lemma TrimSpace_infix: "\<exists>u v. s = u @ TrimSpace s @ v"
proof -
  obtain u where u: "s = u @ trim_left_seqs space_seqs s" using trim_left_suffix by blast
  obtain v where "rev (trim_left_seqs space_seqs s) = v @ rev (TrimSpace s)"
    using trim_left_suffix unfolding TrimSpace_def by fastforce
  then have "trim_left_seqs space_seqs s = TrimSpace s @ rev v"
    by (metis rev_append rev_rev_ident)
  with u show ?thesis by metis
qed

section \<open>\<open>strings.Split\<close> on one byte, \<open>strings.Join\<close>\<close>

fun split_on :: "char \<Rightarrow> string \<Rightarrow> string list" where
  "split_on c [] = [[]]"
| "split_on c (x # xs) =
     (if x = c then [] # split_on c xs
      else (case split_on c xs of [] \<Rightarrow> [[x]] | p # ps \<Rightarrow> (x # p) # ps))"

fun join_with :: "string \<Rightarrow> string list \<Rightarrow> string" where
  "join_with sep [] = []"
| "join_with sep [s] = s"
| "join_with sep (s # t # ts) = s @ sep @ join_with sep (t # ts)"

lemma split_on_nonempty [simp]: "split_on c s \<noteq> []"
  by (induction s) (auto split: list.splits)

lemma split_on_no_sep: "p \<in> set (split_on c s) \<Longrightarrow> c \<notin> set p"
  by (induction s arbitrary: p) (auto split: list.splits if_splits)

lemma join_split: "join_with [c] (split_on c s) = s"
proof (induction s)
  case Nil
  then show ?case by simp
next
  case (Cons x xs)
  obtain p ps where "split_on c xs = p # ps" by (cases "split_on c xs") auto
  with Cons show ?case by (cases ps) auto
qed

lemma split_on_id: "c \<notin> set s \<Longrightarrow> split_on c s = [s]"
  by (induction s) auto

lemma split_on_append: "c \<notin> set s \<Longrightarrow> split_on c (s @ c # t) = s # split_on c t"
  by (induction s) auto

lemma split_join:
  "ps \<noteq> [] \<Longrightarrow> \<forall>p \<in> set ps. c \<notin> set p \<Longrightarrow> split_on c (join_with [c] ps) = ps"
proof (induction "[c]" ps rule: join_with.induct)
  case (3 s t ts)
  then show ?case by (simp add: split_on_append)
qed (auto simp: split_on_id)

end
