(* ===== verification/Json.thy ===== *)
theory Json
  imports GoStd
begin

text \<open>
  \<open>encoding/json\<close> as the program uses it, on bytes. Reading: the grammar of a value, with the
  decoder's stack of open arrays and objects and its nesting limit, the unescaping of strings with
  the repair of invalid UTF-8, and the decoding of an object into the fields of a struct. Writing:
  strings escaped the way \<open>Marshal\<close> escapes them, objects and arrays without white space. A member
  of an object keeps the bytes of its value beside the value, for \<open>json.RawMessage\<close>.
\<close>

section \<open>Bytes and UTF-8\<close>

abbreviation ord :: "char \<Rightarrow> nat" where "ord c \<equiv> of_char c"

definition between :: "nat \<Rightarrow> nat \<Rightarrow> char \<Rightarrow> bool" where
  "between lo hi c \<longleftrightarrow> lo \<le> ord c \<and> ord c \<le> hi"

text \<open>
  The length of the well-formed UTF-8 encoding of one character that a text starts with, 0 when
  there is none: \<open>utf8.DecodeRune\<close> then takes one byte as U+FFFD.
\<close>

definition conts :: "nat \<Rightarrow> string \<Rightarrow> bool" where
  "conts n s \<longleftrightarrow> n \<le> length s \<and> list_all (between 0x80 0xBF) (take n s)"

definition rune_len :: "string \<Rightarrow> nat" where
  "rune_len s = (case s of [] \<Rightarrow> 0 | c # r \<Rightarrow>
     if ord c < 0x80 then 1
     else if between 0xC2 0xDF c \<and> conts 1 r then 2
     else if between 0xE0 0xEF c \<and> conts 2 r
       \<and> (c = char_of (0xE0::nat) \<longrightarrow> 0xA0 \<le> ord (hd r)) \<and> (c = char_of (0xED::nat) \<longrightarrow> ord (hd r) \<le> 0x9F) then 3
     else if between 0xF0 0xF4 c \<and> conts 3 r
       \<and> (c = char_of (0xF0::nat) \<longrightarrow> 0x90 \<le> ord (hd r)) \<and> (c = char_of (0xF4::nat) \<longrightarrow> ord (hd r) \<le> 0x8F) then 4
     else 0)"

definition replacement :: string where "replacement = bytes [0xEF, 0xBF, 0xBD]"

definition utf8_encode :: "nat \<Rightarrow> string" where
  "utf8_encode n =
     (if n < 0x80 then bytes [n]
      else if n < 0x800 then bytes [0xC0 + n div 0x40, 0x80 + n mod 0x40]
      else if n < 0x10000 then bytes [0xE0 + n div 0x1000, 0x80 + n div 0x40 mod 0x40, 0x80 + n mod 0x40]
      else bytes [0xF0 + n div 0x40000, 0x80 + n div 0x1000 mod 0x40, 0x80 + n div 0x40 mod 0x40, 0x80 + n mod 0x40])"

lemma rune_len_le: "rune_len s \<le> length s"
  by (auto simp: rune_len_def conts_def split: list.split)

section \<open>Strings\<close>

definition hex_val :: "char \<Rightarrow> nat option" where
  "hex_val c = (if is_digit c then Some (ord c - 48)
     else if between 97 102 c then Some (ord c - 87)
     else if between 65 70 c then Some (ord c - 55) else None)"

definition hex4 :: "string \<Rightarrow> (nat \<times> string) option" where
  "hex4 s = (case s of a # b # c # d # r \<Rightarrow>
       (case (hex_val a, hex_val b, hex_val c, hex_val d) of
          (Some w, Some x, Some y, Some z) \<Rightarrow> Some (((w * 16 + x) * 16 + y) * 16 + z, r)
        | _ \<Rightarrow> None)
     | _ \<Rightarrow> None)"

text \<open>A second \<open>\uXXXX\<close> completes a surrogate pair or is left for the next character.\<close>

definition hex_escape :: "string \<Rightarrow> (nat \<times> string) option" where
  "hex_escape s = (case s of x # y # r \<Rightarrow> if x = CHR 0x5C \<and> y = CHR ''u'' then hex4 r else None | _ \<Rightarrow> None)"

definition unicode_escape :: "nat \<Rightarrow> string \<Rightarrow> string \<times> string" where
  "unicode_escape n r =
     (if n < 0xD800 \<or> 0xE000 \<le> n then (utf8_encode n, r)
      else case hex_escape r of
        Some (m, r') \<Rightarrow> if n < 0xDC00 \<and> 0xDC00 \<le> m \<and> m < 0xE000
           then (utf8_encode (0x10000 + (n - 0xD800) * 0x400 + (m - 0xDC00)), r') else (replacement, r)
      | None \<Rightarrow> (replacement, r))"

definition simple_escape :: "char \<Rightarrow> char option" where
  "simple_escape c = (if c \<in> {CHR 0x22, CHR 0x5C, CHR ''/''} then Some c
     else if c = CHR ''b'' then Some (CHR 0x08) else if c = CHR ''f'' then Some (CHR 0x0C)
     else if c = CHR ''n'' then Some (CHR 0x0A) else if c = CHR ''r'' then Some (CHR 0x0D)
     else if c = CHR ''t'' then Some (CHR 0x09) else None)"

text \<open>One character of a string's body: the bytes it stands for and the text after it.\<close>

definition str_unit :: "string \<Rightarrow> (string \<times> string) option" where
  "str_unit s = (case s of [] \<Rightarrow> None | c # r \<Rightarrow>
     if c = CHR 0x5C then
       (case r of [] \<Rightarrow> None | x # r' \<Rightarrow>
          if x = CHR ''u'' then map_option (\<lambda>(n, q). unicode_escape n q) (hex4 r')
          else map_option (\<lambda>y. ([y], r')) (simple_escape x))
     else if ord c < 0x20 then None
     else if rune_len s = 0 then Some (replacement, r)
     else Some (take (rune_len s) s, drop (rune_len s) s))"

lemma hex4_shorter: "hex4 s = Some (n, r) \<Longrightarrow> length r < length s"
  by (auto simp: hex4_def split: list.splits option.splits)

lemma hex_escape_shorter: "hex_escape s = Some (n, r) \<Longrightarrow> length r < length s"
  by (auto simp: hex_escape_def split: list.splits if_splits dest: hex4_shorter)

lemma unicode_escape_shorter: "unicode_escape n s = (u, r) \<Longrightarrow> length r \<le> length s"
  by (auto simp: unicode_escape_def split: if_splits option.splits dest: hex_escape_shorter)

lemma str_unit_shorter: "str_unit s = Some (u, r) \<Longrightarrow> length r < length s"
  using rune_len_le [of s]
  by (auto simp: str_unit_def split: list.splits if_splits dest!: hex4_shorter dest: unicode_escape_shorter)

text \<open>The body of a string up to its closing quote.\<close>

function str_body :: "string \<Rightarrow> (string \<times> string) option" where
  "str_body s = (case s of [] \<Rightarrow> None | c # r \<Rightarrow>
     if c = CHR 0x22 then Some ([], r)
     else case str_unit s of None \<Rightarrow> None
       | Some (u, r') \<Rightarrow> map_option (apfst ((@) u)) (str_body r'))"
  by pat_completeness auto
termination
  by (relation "measure length") (auto dest: str_unit_shorter)

declare str_body.simps [simp del]

lemma str_body_cases:
  assumes "str_body s = Some (t, q)"
  obtains (close) r where "s = CHR 0x22 # r" "t = []" "q = r"
    | (unit) c r u r' t' where "s = c # r" "c \<noteq> CHR 0x22" "str_unit s = Some (u, r')" "str_body r' = Some (t', q)" "t = u @ t'"
  using assms by (subst (asm) str_body.simps) (auto split: list.splits if_splits option.splits)

lemma str_body_shorter: "str_body s = Some (t, q) \<Longrightarrow> length q < length s"
proof (induction s arbitrary: t q rule: str_body.induct)
  case (1 s)
  from "1.prems" show ?case
  proof (cases rule: str_body_cases)
    case (unit c r u r' t')
    with "1.IH" [of c r "(u, r')" u r'] str_unit_shorter [OF unit(3)] show ?thesis by simp
  qed simp
qed

section \<open>Numbers and white space\<close>

fun span :: "(char \<Rightarrow> bool) \<Rightarrow> string \<Rightarrow> string \<times> string" where
  "span P [] = ([], [])"
| "span P (c # s) = (if P c then apfst ((#) c) (span P s) else ([], c # s))"

lemma span_append: "span P s = (a, b) \<Longrightarrow> s = a @ b"
  by (induction s arbitrary: a b) (auto simp: apfst_def map_prod_def split: if_splits prod.splits)

lemma span_length: "length (snd (span P s)) \<le> length s"
  by (induction s) auto

definition is_space :: "char \<Rightarrow> bool" where
  "is_space c \<longleftrightarrow> c \<in> {CHR '' '', CHR 0x09, CHR 0x0A, CHR 0x0D}"

definition skip_ws :: "string \<Rightarrow> string" where
  "skip_ws s = snd (span is_space s)"

lemma skip_ws_length: "length (skip_ws s) \<le> length s"
  by (simp add: skip_ws_def span_length)

definition lit_int :: "string \<Rightarrow> (string \<times> string) option" where
  "lit_int s = (case s of [] \<Rightarrow> None | c # r \<Rightarrow>
     if c = CHR ''0'' then Some ([c], r) else if is_digit c then Some (span is_digit s) else None)"

definition lit_frac :: "string \<Rightarrow> (string \<times> string) option" where
  "lit_frac s = (case s of [] \<Rightarrow> Some ([], []) | c # r \<Rightarrow>
     if c \<noteq> CHR ''.'' then Some ([], s)
     else case span is_digit r of (ds, q) \<Rightarrow> if ds = [] then None else Some (c # ds, q))"

definition lit_exp :: "string \<Rightarrow> (string \<times> string) option" where
  "lit_exp s = (case s of [] \<Rightarrow> Some ([], []) | c # r \<Rightarrow>
     if c \<noteq> CHR ''e'' \<and> c \<noteq> CHR ''E'' then Some ([], s)
     else case (case r of [] \<Rightarrow> ([], []) | x # r' \<Rightarrow> if x = CHR ''+'' \<or> x = CHR ''-'' then ([x], r') else ([], r)) of
       (sg, r1) \<Rightarrow> case span is_digit r1 of (ds, q) \<Rightarrow> if ds = [] then None else Some (c # sg @ ds, q))"

definition lit_number :: "string \<Rightarrow> (string \<times> string) option" where
  "lit_number s = (case (case s of [] \<Rightarrow> ([], []) | c # r \<Rightarrow> if c = CHR ''-'' then ([c], r) else ([], s)) of
     (sg, s1) \<Rightarrow> case lit_int s1 of None \<Rightarrow> None | Some (i, s2) \<Rightarrow>
       case lit_frac s2 of None \<Rightarrow> None | Some (f, s3) \<Rightarrow>
         map_option (\<lambda>(x, s4). (sg @ i @ f @ x, s4)) (lit_exp s3))"

lemma lit_int_shorter: "lit_int s = Some (t, r) \<Longrightarrow> length r < length s"
proof -
  have "length q < length (c # w)" if "is_digit c" "span is_digit (c # w) = (p, q)" for c w p q
    using that span_length [of is_digit w] by (auto simp: apfst_def map_prod_def split: prod.splits)
  then show "lit_int s = Some (t, r) \<Longrightarrow> length r < length s"
    by (auto simp: lit_int_def simp del: span.simps split: list.splits if_splits)
qed

lemma lit_frac_length: "lit_frac s = Some (t, r) \<Longrightarrow> length r \<le> length s"
  using span_length [of is_digit "tl s"]
  by (auto simp: lit_frac_def split: list.splits if_splits prod.splits)

lemma lit_exp_length: "lit_exp s = Some (t, r) \<Longrightarrow> length r \<le> length s"
  using span_length [of is_digit "tl s"] span_length [of is_digit "tl (tl s)"]
  by (auto simp: lit_exp_def simp del: span.simps split: list.splits if_splits prod.splits)

lemma lit_number_shorter: "lit_number s = Some (t, r) \<Longrightarrow> length r < length s"
  by (fastforce simp: lit_number_def split: list.splits if_splits prod.splits option.splits
      dest: lit_int_shorter lit_frac_length lit_exp_length)

section \<open>Values\<close>

datatype json = JNull | JBool bool | JNum string | JStr string | JArr "json list"
  | JObj "(string \<times> string \<times> json) list"   \<comment> \<open>key, the value's bytes, the value\<close>

datatype json_error = JsonSyntax | JsonEOF | JsonType string | JsonUnknownField string

text \<open>
  The decoder keeps a stack of the arrays and objects it is inside of: the elements so far, latest
  first, and for an object the current key and the text at the start of its value.
\<close>

datatype frame = InArr "json list" | InObj "(string \<times> string \<times> json) list" string string

datatype parse_state =
    Want "frame list" string         \<comment> \<open>a value starts here, after white space\<close>
  | Have "frame list" json string   \<comment> \<open>a value was read, this text follows\<close>

definition max_depth :: nat where "max_depth = 10000"

text \<open>
  One token: \<open>Inl\<close> an error, or \<open>Inr\<close> the next state. \<open>JsonSyntax\<close> stands for every malformed or
  truncated text (\<open>SyntaxError\<close> and \<open>io.ErrUnexpectedEOF\<close>): the program never tells them apart.
\<close>

definition want_key :: "frame list \<Rightarrow> (string \<times> string \<times> json) list \<Rightarrow> string \<Rightarrow> json_error + parse_state" where
  "want_key fs ms s = (case skip_ws s of [] \<Rightarrow> Inl JsonSyntax | c # r \<Rightarrow>
     if c \<noteq> CHR 0x22 then Inl JsonSyntax
     else case str_body r of None \<Rightarrow> Inl JsonSyntax
       | Some (k, q) \<Rightarrow> (case skip_ws q of [] \<Rightarrow> Inl JsonSyntax
           | x # q1 \<Rightarrow> if x = CHR '':'' then Inr (Want (InObj ms k (skip_ws q1) # fs) q1) else Inl JsonSyntax))"

definition lit_word :: "string \<Rightarrow> (json \<times> string) option" where
  "lit_word s = (case strip_prefix ''null'' s of Some r \<Rightarrow> Some (JNull, r) | None \<Rightarrow>
     (case strip_prefix ''true'' s of Some r \<Rightarrow> Some (JBool True, r) | None \<Rightarrow>
     map_option (\<lambda>r. (JBool False, r)) (strip_prefix ''false'' s)))"

definition want_value :: "frame list \<Rightarrow> string \<Rightarrow> json_error + parse_state" where
  "want_value fs s = (case skip_ws s of [] \<Rightarrow> Inl JsonSyntax | c # r \<Rightarrow>
     if c = CHR 0x22 then
       (case str_body r of None \<Rightarrow> Inl JsonSyntax | Some (t, q) \<Rightarrow> Inr (Have fs (JStr t) q))
     else if c = CHR ''['' then
       (if max_depth \<le> length fs then Inl JsonSyntax
        else case skip_ws r of [] \<Rightarrow> Inl JsonSyntax
          | x # q \<Rightarrow> if x = CHR '']'' then Inr (Have fs (JArr []) q) else Inr (Want (InArr [] # fs) r))
     else if c = CHR ''{'' then
       (if max_depth \<le> length fs then Inl JsonSyntax
        else case skip_ws r of [] \<Rightarrow> Inl JsonSyntax
          | x # q \<Rightarrow> if x = CHR ''}'' then Inr (Have fs (JObj []) q) else want_key fs [] r)
     else if c = CHR ''-'' \<or> is_digit c then
       (case lit_number (c # r) of None \<Rightarrow> Inl JsonSyntax | Some (t, q) \<Rightarrow> Inr (Have fs (JNum t) q))
     else case lit_word (c # r) of None \<Rightarrow> Inl JsonSyntax | Some (v, q) \<Rightarrow> Inr (Have fs v q))"

definition after_value :: "frame \<Rightarrow> frame list \<Rightarrow> json \<Rightarrow> string \<Rightarrow> json_error + parse_state" where
  "after_value f fs v s = (case skip_ws s of [] \<Rightarrow> Inl JsonSyntax | c # r \<Rightarrow>
     (case f of
        InArr vs \<Rightarrow> if c = CHR '','' then Inr (Want (InArr (v # vs) # fs) r)
          else if c = CHR '']'' then Inr (Have fs (JArr (rev (v # vs))) r) else Inl JsonSyntax
      | InObj ms k s0 \<Rightarrow>
          (let ms' = (k, take (length s0 - length s) s0, v) # ms in
           if c = CHR '','' then want_key fs ms' r
           else if c = CHR ''}'' then Inr (Have fs (JObj (rev ms')) r) else Inl JsonSyntax)))"

definition state_text :: "parse_state \<Rightarrow> string" where
  "state_text p = (case p of Want fs s \<Rightarrow> s | Have fs v s \<Rightarrow> s)"

definition parse_step :: "parse_state \<Rightarrow> json_error + parse_state" where
  "parse_step p = (case p of
     Want fs s \<Rightarrow> want_value fs s
   | Have [] v s \<Rightarrow> Inr p
   | Have (f # fs) v s \<Rightarrow> after_value f fs v s)"

definition parse_done :: "parse_state \<Rightarrow> bool" where
  "parse_done p = (case p of Have [] v s \<Rightarrow> True | _ \<Rightarrow> False)"

lemma skip_ws_Cons: "skip_ws s = c # r \<Longrightarrow> length r < length s"
  using skip_ws_length [of s] by simp

lemma lit_word_shorter: "lit_word s = Some (v, r) \<Longrightarrow> length r < length s"
  by (auto simp: lit_word_def strip_prefix_Some split: option.splits)

lemma want_key_shorter:
  "want_key fs ms s = Inr p \<Longrightarrow> length (state_text p) < length s \<and> \<not> parse_done p"
  by (auto simp: want_key_def state_text_def parse_done_def split: list.splits if_splits option.splits
      dest!: skip_ws_Cons str_body_shorter)

lemma want_value_shorter: "want_value fs s = Inr p \<Longrightarrow> length (state_text p) < length s"
  by (auto simp: want_value_def state_text_def split: list.splits if_splits option.splits
      dest!: skip_ws_Cons str_body_shorter lit_number_shorter lit_word_shorter want_key_shorter [unfolded state_text_def])

lemma after_value_shorter: "after_value f fs v s = Inr p \<Longrightarrow> length (state_text p) < length s"
  by (auto simp: after_value_def Let_def state_text_def split: list.splits if_splits frame.splits
      dest!: skip_ws_Cons want_key_shorter [unfolded state_text_def])

lemma parse_step_shorter:
  "parse_step p = Inr q \<Longrightarrow> \<not> parse_done p \<Longrightarrow> length (state_text q) < length (state_text p)"
  by (auto simp: parse_step_def parse_done_def state_text_def split: parse_state.splits list.splits
      dest!: want_value_shorter [unfolded state_text_def] after_value_shorter [unfolded state_text_def])

definition parsed :: "parse_state \<Rightarrow> json \<times> string" where
  "parsed p = (case p of Have fs v s \<Rightarrow> (v, s) | Want fs s \<Rightarrow> (JNull, s))"

function parse_run :: "parse_state \<Rightarrow> json_error + json \<times> string" where
  "parse_run p = (if parse_done p then Inr (parsed p)
     else case parse_step p of Inl e \<Rightarrow> Inl e | Inr q \<Rightarrow> parse_run q)"
  by pat_completeness auto
termination
  by (relation "measure (length \<circ> state_text)") (auto dest: parse_step_shorter)

declare parse_run.simps [simp del]

text \<open>\<open>json.Unmarshal\<close>'s grammar: one value and nothing but white space around it.\<close>

definition parse_all :: "string \<Rightarrow> json_error + json" where
  "parse_all s = (case parse_run (Want [] s) of Inl e \<Rightarrow> Inl e
     | Inr (v, r) \<Rightarrow> if skip_ws r = [] then Inr v else Inl JsonSyntax)"

text \<open>\<open>Decoder.Decode\<close>'s: the next value of a stream, and what follows it.\<close>

definition parse_next :: "string \<Rightarrow> json_error + json \<times> string" where
  "parse_next s = (if skip_ws s = [] then Inl JsonEOF else parse_run (Want [] s))"

section \<open>Writing\<close>

definition hex_digit :: "nat \<Rightarrow> char" where
  "hex_digit n = (if n < 10 then char_of (48 + n) else char_of (87 + n))"

definition u_escape :: "nat \<Rightarrow> string" where
  "u_escape n = [CHR 0x5C, CHR ''u'', hex_digit (n div 4096 mod 16), hex_digit (n div 256 mod 16),
     hex_digit (n div 16 mod 16), hex_digit (n mod 16)]"

definition esc_ascii :: "char \<Rightarrow> string" where
  "esc_ascii c =
     (if c = CHR 0x22 \<or> c = CHR 0x5C then [CHR 0x5C, c]
      else if c = CHR 0x08 then [CHR 0x5C, CHR ''b''] else if c = CHR 0x0C then [CHR 0x5C, CHR ''f'']
      else if c = CHR 0x0A then [CHR 0x5C, CHR ''n''] else if c = CHR 0x0D then [CHR 0x5C, CHR ''r'']
      else if c = CHR 0x09 then [CHR 0x5C, CHR ''t'']
      else if ord c < 0x20 \<or> c \<in> {CHR ''<'', CHR ''>'', CHR ''&''} then u_escape (ord c) else [c])"

definition esc_rune :: "string \<Rightarrow> string" where
  "esc_rune u = (if u = bytes [0xE2, 0x80, 0xA8] then u_escape 0x2028
     else if u = bytes [0xE2, 0x80, 0xA9] then u_escape 0x2029 else u)"

text \<open>\<open>appendString\<close> with HTML escaping, as \<open>Marshal\<close> and \<open>Encoder\<close> call it.\<close>

function escape :: "string \<Rightarrow> string" where
  "escape s = (case s of [] \<Rightarrow> [] | c # r \<Rightarrow>
     if ord c < 0x80 then esc_ascii c @ escape r
     else if rune_len s = 0 then u_escape 0xFFFD @ escape r
     else esc_rune (take (rune_len s) s) @ escape (drop (rune_len s) s))"
  by pat_completeness auto
termination
  by (relation "measure length") (auto simp: gr0_conv_Suc)

declare escape.simps [simp del]

text \<open>A text with every byte that is not part of a well-formed character replaced by U+FFFD.\<close>

function utf8_fix :: "string \<Rightarrow> string" where
  "utf8_fix s = (case s of [] \<Rightarrow> [] | c # r \<Rightarrow>
     if rune_len s = 0 then replacement @ utf8_fix r
     else take (rune_len s) s @ utf8_fix (drop (rune_len s) s))"
  by pat_completeness auto
termination
  by (relation "measure length") (auto simp: gr0_conv_Suc)

declare utf8_fix.simps [simp del]

function valid_utf8 :: "string \<Rightarrow> bool" where
  "valid_utf8 s = (case s of [] \<Rightarrow> True | c # r \<Rightarrow>
     if rune_len s = 0 then False else valid_utf8 (drop (rune_len s) s))"
  by pat_completeness auto
termination
  by (relation "measure length") (auto simp: gr0_conv_Suc)

declare valid_utf8.simps [simp del]

definition quote :: "string \<Rightarrow> string" where
  "quote s = CHR 0x22 # escape s @ [CHR 0x22]"

fun print_json :: "json \<Rightarrow> string" where
  "print_json JNull = ''null''"
| "print_json (JBool b) = (if b then ''true'' else ''false'')"
| "print_json (JNum t) = t"
| "print_json (JStr s) = quote s"
| "print_json (JArr vs) = ''['' @ join_with '','' (map print_json vs) @ '']''"
| "print_json (JObj ms) = ''{'' @ join_with '','' (map (\<lambda>(k, raw, v). quote k @ '':'' @ print_json v) ms) @ ''}''"

definition member :: "string \<Rightarrow> json \<Rightarrow> string \<times> string \<times> json" where
  "member k v = (k, print_json v, v)"

definition json_int :: "int \<Rightarrow> json" where
  "json_int i = JNum (itoa i)"

section \<open>Decoding an object into a struct\<close>

text \<open>
  Field names match exactly or else up to case: the folding of \<open>encoding/json\<close>, under which U+017F
  is an S and U+212A (the Kelvin sign) a K. No other character outside ASCII folds into ASCII.
\<close>

definition upper_char :: "char \<Rightarrow> char" where
  "upper_char c = (if between 97 122 c then char_of (ord c - 32) else c)"

function fold_name :: "string \<Rightarrow> string" where
  "fold_name s = (case s of [] \<Rightarrow> [] | c # r \<Rightarrow>
     (case strip_prefix (bytes [0xC5, 0xBF]) s of Some q \<Rightarrow> CHR ''S'' # fold_name q | None \<Rightarrow>
     (case strip_prefix (bytes [0xE2, 0x84, 0xAA]) s of Some q \<Rightarrow> CHR ''K'' # fold_name q | None \<Rightarrow>
        upper_char c # fold_name r)))"
  by pat_completeness auto
termination
  by (relation "measure length") (auto simp: strip_prefix_Some bytes_def split: if_splits)

declare fold_name.simps [simp del]

text \<open>A setter gets the bytes and the value of its member.\<close>

type_synonym 's setter = "string \<Rightarrow> json \<Rightarrow> 's \<Rightarrow> json_error option \<times> 's"

definition find_field :: "(string \<times> 's setter) list \<Rightarrow> string \<Rightarrow> 's setter option" where
  "find_field fields k = (case map_of fields k of Some f \<Rightarrow> Some f
     | None \<Rightarrow> map_option snd (find (\<lambda>(n, f). fold_name n = fold_name k) fields))"

text \<open>Decoding goes on after an error; the first one is reported.\<close>

fun decode_members ::
  "bool \<Rightarrow> (string \<times> 's setter) list \<Rightarrow> (string \<times> string \<times> json) list \<Rightarrow> 's \<Rightarrow> json_error option \<times> 's" where
  "decode_members strict fields [] s = (None, s)"
| "decode_members strict fields ((k, raw, v) # ms) s =
     (let (e1, s1) = (case find_field fields k of
                        Some f \<Rightarrow> f raw v s
                      | None \<Rightarrow> (if strict then Some (JsonUnknownField k) else None, s));
          (e2, s2) = decode_members strict fields ms s1
      in (if e1 = None then e2 else e1, s2))"

definition decode_struct ::
  "bool \<Rightarrow> (string \<times> 's setter) list \<Rightarrow> json \<Rightarrow> 's \<Rightarrow> json_error option \<times> 's" where
  "decode_struct strict fields v s = (case v of
     JObj ms \<Rightarrow> decode_members strict fields ms s | JNull \<Rightarrow> (None, s) | _ \<Rightarrow> (Some (JsonType []), s))"

definition set_int :: "string \<Rightarrow> (int \<Rightarrow> 's \<Rightarrow> 's) \<Rightarrow> 's setter" where
  "set_int name upd raw v s = (case v of
     JNull \<Rightarrow> (None, s)
   | JNum t \<Rightarrow> (case atoi t of None \<Rightarrow> (Some (JsonType name), s) | Some i \<Rightarrow> (None, upd i s))
   | _ \<Rightarrow> (Some (JsonType name), s))"

definition set_string :: "string \<Rightarrow> (string \<Rightarrow> 's \<Rightarrow> 's) \<Rightarrow> 's setter" where
  "set_string name upd raw v s = (case v of
     JNull \<Rightarrow> (None, s) | JStr t \<Rightarrow> (None, upd t s) | _ \<Rightarrow> (Some (JsonType name), s))"

text \<open>A pointer field: \<open>null\<close> clears it.\<close>

definition set_ptr :: "('a option \<Rightarrow> 's \<Rightarrow> 's) \<Rightarrow> (('a \<Rightarrow> 's \<Rightarrow> 's) \<Rightarrow> 's setter) \<Rightarrow> 's setter" where
  "set_ptr upd f raw v s = (if v = JNull then (None, upd None s) else f (\<lambda>x. upd (Some x)) raw v s)"

definition set_raw :: "(string \<Rightarrow> 's \<Rightarrow> 's) \<Rightarrow> 's setter" where
  "set_raw upd raw v s = (None, upd raw s)"

definition unmarshal :: "(string \<times> 's setter) list \<Rightarrow> string \<Rightarrow> 's \<Rightarrow> json_error + 's" where
  "unmarshal fields b s = (case parse_all b of Inl e \<Rightarrow> Inl e
     | Inr v \<Rightarrow> (case decode_struct False fields v s of (None, s') \<Rightarrow> Inr s' | (Some e, _) \<Rightarrow> Inl e))"

text \<open>\<open>Decoder.Decode\<close>, with \<open>DisallowUnknownFields\<close> or without: the struct and the unread text.\<close>

definition decode_next :: "bool \<Rightarrow> (string \<times> 's setter) list \<Rightarrow> string \<Rightarrow> 's \<Rightarrow> json_error + 's \<times> string" where
  "decode_next strict fields b s = (case parse_next b of Inl e \<Rightarrow> Inl e
     | Inr (v, r) \<Rightarrow> (case decode_struct strict fields v s of (None, s') \<Rightarrow> Inr (s', r) | (Some e, _) \<Rightarrow> Inl e))"

section \<open>\<open>%q\<close>\<close>

text \<open>
  \<open>strconv.Quote\<close>: exact on ASCII and on malformed UTF-8; a character outside ASCII is kept as it is,
  where Go escapes the few that are not printable.
\<close>

definition quote_ascii :: "char \<Rightarrow> string" where
  "quote_ascii c =
     (if c = CHR 0x22 \<or> c = CHR 0x5C then [CHR 0x5C, c]
      else if c = CHR 0x07 then [CHR 0x5C, CHR ''a''] else if c = CHR 0x08 then [CHR 0x5C, CHR ''b'']
      else if c = CHR 0x0C then [CHR 0x5C, CHR ''f''] else if c = CHR 0x0A then [CHR 0x5C, CHR ''n'']
      else if c = CHR 0x0D then [CHR 0x5C, CHR ''r''] else if c = CHR 0x09 then [CHR 0x5C, CHR ''t'']
      else if c = CHR 0x0B then [CHR 0x5C, CHR ''v'']
      else if ord c < 0x20 \<or> ord c = 0x7F
        then [CHR 0x5C, CHR ''x'', hex_digit (ord c div 16), hex_digit (ord c mod 16)] else [c])"

function quote_body :: "string \<Rightarrow> string" where
  "quote_body s = (case s of [] \<Rightarrow> [] | c # r \<Rightarrow>
     if ord c < 0x80 then quote_ascii c @ quote_body r
     else if rune_len s = 0
       then [CHR 0x5C, CHR ''x'', hex_digit (ord c div 16), hex_digit (ord c mod 16)] @ quote_body r
     else take (rune_len s) s @ quote_body (drop (rune_len s) s))"
  by pat_completeness auto
termination
  by (relation "measure length") (auto simp: gr0_conv_Suc)

declare quote_body.simps [simp del]

definition go_quote :: "string \<Rightarrow> string" where
  "go_quote s = CHR 0x22 # quote_body s @ [CHR 0x22]"

end
