(* ===== verification/Models.thy ===== *)
theory Models
  imports Json
begin

text \<open>
  The data of \<open>internal/store/models.go\<close>, the tables of \<open>migrations/001_init.sql\<close> they are stored
  in, and the way one call of the store meets Postgres: what other sessions commit before it,
  the transaction's clock, the rows others hold locked, and the ways the call itself can fail.
\<close>

section \<open>Statuses, jobs, runs, log lines\<close>

type_synonym uuid = string
type_synonym time = int      \<comment> \<open>microseconds, the resolution of \<open>timestamptz\<close>\<close>
type_synonym duration = int  \<comment> \<open>nanoseconds, Go's \<open>time.Duration\<close>\<close>

datatype status = StatusQueued | StatusRunning | StatusSucceeded | StatusFailed | StatusCancelled

fun status_text :: "status \<Rightarrow> string" where
  "status_text StatusQueued = ''QUEUED''"
| "status_text StatusRunning = ''RUNNING''"
| "status_text StatusSucceeded = ''SUCCEEDED''"
| "status_text StatusFailed = ''FAILED''"
| "status_text StatusCancelled = ''CANCELLED''"

datatype trigger = TriggerSchedule | TriggerManual

record job =
  j_id :: uuid
  j_name :: string
  j_type :: string
  j_payload :: string
  j_cron_expr :: "string option"
  j_timezone :: string
  j_next_run_at :: "time option"
  j_enabled :: bool
  j_max_retries :: int
  j_timeout_sec :: int
  j_created_at :: time
  j_updated_at :: time

record new_job =
  n_name :: string
  n_type :: string
  n_payload :: string
  n_cron_expr :: "string option"
  n_timezone :: string
  n_next_run_at :: "time option"
  n_max_retries :: int
  n_timeout_sec :: int

record run =
  r_id :: uuid
  r_job_id :: uuid
  r_scheduled_time :: time
  r_trigger :: trigger
  r_status :: status
  r_attempt :: int
  r_worker_id :: "string option"
  r_queued_at :: time
  r_started_at :: "time option"
  r_finished_at :: "time option"
  r_last_heartbeat_at :: "time option"
  r_next_attempt_at :: "time option"
  r_error :: "string option"
  r_output :: "string option"

record redispatch =
  d_run_id :: uuid
  d_job_id :: uuid
  d_job_type :: string
  d_status :: status
  d_attempt :: int

record log_line =
  l_attempt :: int
  l_seq :: int
  l_ts :: time
  l_level :: string
  l_line :: string

section \<open>Errors\<close>

text \<open>
  \<open>ErrPg code\<close> is a \<open>pgconn.PgError\<close> with its SQLSTATE, \<open>ErrJson\<close> an error of \<open>encoding/json\<close>,
  \<open>ErrWrap s e\<close> is \<open>fmt.Errorf("s: %w", e)\<close>, \<open>ErrText\<close> any other error with its text. A call that
  can fail returns \<open>Inl\<close> of the error or \<open>Inr\<close> of the result.
\<close>

datatype error = ErrNotFound | ErrPg string | ErrText string | ErrJson json_error | ErrWrap string error

type_synonym 'a res = "error + 'a"

text \<open>\<open>errors.Is(err, ErrNotFound)\<close>.\<close>

fun is_not_found :: "error \<Rightarrow> bool" where
  "is_not_found ErrNotFound = True"
| "is_not_found (ErrWrap s e) = is_not_found e"
| "is_not_found _ = False"

text \<open>
  The text of an error. The wording of the libraries' own errors is a stand-in: the program only
  passes it on.
\<close>

fun json_error_text :: "json_error \<Rightarrow> string" where
  "json_error_text JsonSyntax = ''invalid JSON''"
| "json_error_text JsonEOF = ''EOF''"
| "json_error_text (JsonType f) = ''json: cannot unmarshal '' @ f"
| "json_error_text (JsonUnknownField k) = ''json: unknown field '' @ go_quote k"

fun error_text :: "error \<Rightarrow> string" where
  "error_text ErrNotFound = ''not found''"
| "error_text (ErrPg code) = ''SQLSTATE '' @ code"
| "error_text (ErrText s) = s"
| "error_text (ErrJson e) = json_error_text e"
| "error_text (ErrWrap s e) = s @ '': '' @ error_text e"

definition ErrCanceled :: error where "ErrCanceled = ErrText ''context canceled''"
definition ErrDeadline :: error where "ErrDeadline = ErrText ''context deadline exceeded''"

definition pgForeignKeyViolation :: string where "pgForeignKeyViolation = ''23503''"
definition pgUniqueViolation :: string where "pgUniqueViolation = ''23505''"
definition pgNotInRepertoire :: string where "pgNotInRepertoire = ''22021''"   \<comment> \<open>a zero byte in \<open>text\<close>\<close>
definition pgCheckViolation :: string where "pgCheckViolation = ''23514''"
definition pgNumericOverflow :: string where "pgNumericOverflow = ''22003''"

section \<open>The database\<close>

record db =
  jobs :: "job list"
  runs :: "run list"
  logs :: "(uuid \<times> log_line) list"

definition empty_db :: db where
  "empty_db = \<lparr>jobs = [], runs = [], logs = []\<rparr>"

lemma empty_db_tables [simp]: "jobs empty_db = []" "runs empty_db = []" "logs empty_db = []"
  by (simp_all add: empty_db_def)

abbreviation find_job :: "uuid \<Rightarrow> db \<Rightarrow> job option" where
  "find_job i d \<equiv> lookup_row j_id i (jobs d)"

abbreviation find_run :: "uuid \<Rightarrow> db \<Rightarrow> run option" where
  "find_run i d \<equiv> lookup_row r_id i (runs d)"

text \<open>The bound of the column type \<open>integer\<close>.\<close>

definition int4_max :: int where "int4_max = 2147483647"

section \<open>One call to Postgres\<close>

text \<open>
  A call can fail before it takes effect (a broken connection, a malformed argument, a cancelled
  context), or after it: the commit happened and its acknowledgement was lost.
\<close>

datatype fault = LostBefore error | LostAfter error

record env =
  e_others :: "db \<Rightarrow> db"      \<comment> \<open>what other sessions commit before this call\<close>
  e_now :: time              \<comment> \<open>\<open>now()\<close>, the start of the call's transaction\<close>
  e_clock :: time            \<comment> \<open>\<open>clock_timestamp()\<close>\<close>
  e_locked :: "uuid list"    \<comment> \<open>the rows \<open>SKIP LOCKED\<close> passes over\<close>
  e_uuids :: "nat \<Rightarrow> uuid"    \<comment> \<open>the identifiers \<open>NewID\<close> returns during the call\<close>
  e_fault :: "fault option"
  e_jsonb :: "string \<Rightarrow> string res" \<comment> \<open>what \<open>jsonb\<close> keeps of a text: its normal form, or an error\<close>

definition pg :: "env \<Rightarrow> (db \<Rightarrow> 'a res \<times> db) \<Rightarrow> db \<Rightarrow> 'a res \<times> db" where
  "pg e q d = (let d1 = e_others e d in
     case e_fault e of
       None \<Rightarrow> q d1
     | Some (LostBefore x) \<Rightarrow> (Inl x, d1)
     | Some (LostAfter x) \<Rightarrow> (Inl x, snd (q d1)))"

text \<open>The database after a call is the one the others left, or the statement's effect on it.\<close>

lemma pg_db_cases:
  "snd (pg e q d) = e_others e d \<or> snd (pg e q d) = snd (q (e_others e d))"
  by (auto simp: pg_def Let_def split: option.splits fault.splits)

lemma pg_Inr:
  "pg e q d = (Inr x, d') \<Longrightarrow> q (e_others e d) = (Inr x, d')"
  by (auto simp: pg_def Let_def split: option.splits fault.splits)

lemma pg_fst_Inr:
  "fst (pg e q d) = Inr x \<Longrightarrow> q (e_others e d) = (Inr x, snd (pg e q d))"
  by (rule pg_Inr) (simp add: prod_eq_iff)

lemma pg_preserves:
  assumes "P (e_others e d)" and "\<And>d1. P d1 \<Longrightarrow> P (snd (q d1))"
  shows "P (snd (pg e q d))"
  using assms pg_db_cases [of e q d] by auto

definition quiet :: "env \<Rightarrow> bool" where
  "quiet e \<longleftrightarrow> e_fault e = None"

lemma pg_quiet [simp]: "quiet e \<Longrightarrow> pg e q d = q (e_others e d)"
  by (simp add: pg_def quiet_def)

section \<open>Intervals\<close>

text \<open>
  \<open>make_interval(secs => d.Seconds())\<close>: a Go duration in the database's microseconds, rounded to
  the nearest one.
\<close>

definition interval_us :: "duration \<Rightarrow> time" where
  "interval_us d = (d + 500) div 1000"

lemma interval_us_mono: "a \<le> b \<Longrightarrow> interval_us a \<le> interval_us b"
  by (simp add: interval_us_def zdiv_mono1)

lemma interval_us_nonneg: "0 \<le> d \<Longrightarrow> 0 \<le> interval_us d"
  by (simp add: interval_us_def)

section \<open>What the schema enforces\<close>

text \<open>
  The constraints of \<open>001_init.sql\<close>: primary keys, the occurrence key, foreign keys, the CHECKs.
\<close>

definition log_levels :: "string list" where
  "log_levels = [''debug'', ''info'', ''warn'', ''error'']"

definition log_key :: "uuid \<times> log_line \<Rightarrow> uuid \<times> int \<times> int" where
  "log_key x = (fst x, l_attempt (snd x), l_seq (snd x))"

definition job_checks :: "job \<Rightarrow> bool" where
  "job_checks j \<longleftrightarrow> 0 \<le> j_max_retries j \<and> j_max_retries j \<le> int4_max
     \<and> 0 < j_timeout_sec j \<and> j_timeout_sec j \<le> int4_max"

definition occurrence :: "run \<Rightarrow> uuid \<times> time" where
  "occurrence r = (r_job_id r, r_scheduled_time r)"

definition jobs_ok :: "job list \<Rightarrow> bool" where
  "jobs_ok js \<longleftrightarrow> distinct (map j_id js) \<and> (\<forall>j \<in> set js. job_checks j)"

definition runs_ok :: "uuid set \<Rightarrow> run list \<Rightarrow> bool" where
  "runs_ok J rs \<longleftrightarrow> distinct (map r_id rs) \<and> distinct (map occurrence rs)
   \<and> (\<forall>r \<in> set rs. r_job_id r \<in> J \<and> 1 \<le> r_attempt r \<and> r_attempt r \<le> int4_max)"

definition logs_ok :: "uuid set \<Rightarrow> (uuid \<times> log_line) list \<Rightarrow> bool" where
  "logs_ok R ls \<longleftrightarrow> distinct (map log_key ls)
   \<and> (\<forall>x \<in> set ls. fst x \<in> R \<and> l_level (snd x) \<in> set log_levels)"

definition schema_ok :: "db \<Rightarrow> bool" where
  "schema_ok d \<longleftrightarrow> jobs_ok (jobs d) \<and> runs_ok (j_id ` set (jobs d)) (runs d)
   \<and> logs_ok (r_id ` set (runs d)) (logs d)"

lemmas schema_defs = schema_ok_def jobs_ok_def runs_ok_def logs_ok_def

lemma schema_ok_empty [simp]: "schema_ok empty_db"
  by (simp add: schema_defs empty_db_def)

lemma schema_run_job:
  assumes "schema_ok d" and "r \<in> set (runs d)"
  shows "\<exists>j. find_job (r_job_id r) d = Some j \<and> job_checks j"
proof -
  from assms have "r_job_id r \<in> j_id ` set (jobs d)" by (auto simp: schema_ok_def runs_ok_def)
  then obtain j where "find_job (r_job_id r) d = Some j"
    using lookup_row_None [of j_id "r_job_id r" "jobs d"] by (cases "find_job (r_job_id r) d") auto
  with assms show ?thesis by (auto simp: schema_ok_def jobs_ok_def dest: lookup_row_Some)
qed

lemma schema_distinct_ids [simp]: "schema_ok d \<Longrightarrow> distinct (map r_id (runs d))"
  by (simp add: schema_ok_def runs_ok_def)

lemma schema_attempt:
  "schema_ok d \<Longrightarrow> r \<in> set (runs d) \<Longrightarrow> 1 \<le> r_attempt r \<and> r_attempt r \<le> int4_max"
  by (simp add: schema_ok_def runs_ok_def)

section \<open>The rows as values of the library's classes\<close>

instantiation status :: linorder
begin

definition status_rank :: "status \<Rightarrow> nat" where
  "status_rank s = (case s of StatusQueued \<Rightarrow> 0 | StatusRunning \<Rightarrow> 1 | StatusSucceeded \<Rightarrow> 2
     | StatusFailed \<Rightarrow> 3 | StatusCancelled \<Rightarrow> 4)"

definition less_eq_status :: "status \<Rightarrow> status \<Rightarrow> bool" where
  "less_eq_status a b \<longleftrightarrow> status_rank a \<le> status_rank b"

definition less_status :: "status \<Rightarrow> status \<Rightarrow> bool" where
  "less_status a b \<longleftrightarrow> status_rank a < status_rank b"

instance
  by standard
     (auto simp: less_eq_status_def less_status_def status_rank_def split: status.splits)

end

end
