(* ===== verification/Migrate.thy ===== *)
theory Migrate
  imports Models
begin

text \<open>
  \<open>internal/store/migrate.go\<close>: applying the embedded migration files. What a file's SQL does to the
  schema is a parameter, \<open>exec\<close>; the advisory lock makes concurrent callers take turns, so the calls
  of all pods are a sequence.
\<close>

section \<open>Operations\<close>

record 's mig_db =
  m_schema :: 's
  m_applied :: "string list"   \<comment> \<open>the rows of \<open>schema_migrations\<close>\<close>

text \<open>
  What can go wrong with a file's statements: a query that fails before anything is committed, or a
  commit whose acknowledgement is lost.
\<close>

datatype mig_fault = MigBefore error | MigCommitLost error

record 's mig_env =
  g_setup :: "error option"                   \<comment> \<open>acquiring the connection and the lock, creating the table\<close>
  g_query :: "string \<Rightarrow> error option"         \<comment> \<open>the query whether a file is applied\<close>
  g_read :: "string \<Rightarrow> string res"            \<comment> \<open>\<open>fs.ReadFile\<close>\<close>
  g_exec :: "string \<Rightarrow> 's \<Rightarrow> 's res"          \<comment> \<open>the file's SQL\<close>
  g_fault :: "string \<Rightarrow> mig_fault option"

definition applyMigration :: "'s mig_env \<Rightarrow> string \<Rightarrow> string \<Rightarrow> 's mig_db \<Rightarrow> error option \<times> 's mig_db" where
  "applyMigration g name sql d =
     (case g_fault g name of
        Some (MigBefore e) \<Rightarrow> (Some e, d)
      | f \<Rightarrow> (case g_exec g sql (m_schema d) of
           Inl e \<Rightarrow> (Some e, d)
         | Inr s \<Rightarrow>
             if name \<in> set (m_applied d) then (Some (ErrPg pgUniqueViolation), d)
             else (case f of Some (MigCommitLost e) \<Rightarrow> Some e | _ \<Rightarrow> None,
                   d\<lparr>m_schema := s, m_applied := m_applied d @ [name]\<rparr>)))"

fun migrate_files ::
  "'s mig_env \<Rightarrow> string list \<Rightarrow> string list \<Rightarrow> 's mig_db \<Rightarrow> (string list \<times> error option) \<times> 's mig_db" where
  "migrate_files g [] applied d = ((applied, None), d)"
| "migrate_files g (name # names) applied d =
     (case g_query g name of Some e \<Rightarrow> ((applied, Some e), d)
      | None \<Rightarrow>
          if name \<in> set (m_applied d) then migrate_files g names applied d
          else (case g_read g name of Inl e \<Rightarrow> ((applied, Some e), d)
            | Inr sql \<Rightarrow> (case applyMigration g name sql d of
                 (Some e, d') \<Rightarrow> ((applied, Some (ErrWrap (''apply '' @ name) e)), d')
               | (None, d') \<Rightarrow> migrate_files g names (applied @ [name]) d')))"

text \<open>\<open>fs.Glob(files, "*.sql")\<close> over the root of the file system.\<close>

definition is_sql :: "string \<Rightarrow> bool" where
  "is_sql name \<longleftrightarrow> strip_prefix (rev ''.sql'') (rev name) \<noteq> None \<and> CHR ''/'' \<notin> set name"

definition Migrate :: "'s mig_env \<Rightarrow> string list \<Rightarrow> 's mig_db \<Rightarrow> (string list \<times> error option) \<times> 's mig_db" where
  "Migrate g files d =
     (case g_setup g of Some e \<Rightarrow> (([], Some e), d)
      | None \<Rightarrow> migrate_files g (sort (filter is_sql files)) [] d)"

section \<open>What the recorded files did\<close>

text \<open>
  The schema is what the recorded files, in the order of their records, make of an empty database:
  no file is executed twice, none is recorded without its effect or has one without its record.
\<close>

fun replay :: "(string \<Rightarrow> string res) \<Rightarrow> (string \<Rightarrow> 's \<Rightarrow> 's res) \<Rightarrow> string list \<Rightarrow> 's \<Rightarrow> 's res" where
  "replay rd ex [] s = Inr s"
| "replay rd ex (n # ns) s = (case rd n of Inl e \<Rightarrow> Inl e
     | Inr sql \<Rightarrow> (case ex sql s of Inl e \<Rightarrow> Inl e | Inr s' \<Rightarrow> replay rd ex ns s'))"

lemma replay_snoc:
  "replay rd ex ns s = Inr s1 \<Longrightarrow> rd n = Inr sql \<Longrightarrow> ex sql s1 = Inr s2 \<Longrightarrow> replay rd ex (ns @ [n]) s = Inr s2"
  by (induction ns arbitrary: s) (auto split: sum.splits)

definition mig_ok :: "(string \<Rightarrow> string res) \<Rightarrow> (string \<Rightarrow> 's \<Rightarrow> 's res) \<Rightarrow> 's \<Rightarrow> 's mig_db \<Rightarrow> bool" where
  "mig_ok rd ex init d \<longleftrightarrow> distinct (m_applied d) \<and> replay rd ex (m_applied d) init = Inr (m_schema d)"

lemma applyMigration_ok:
  assumes "mig_ok (g_read g) (g_exec g) init d" and "g_read g name = Inr sql" and "name \<notin> set (m_applied d)"
  shows "mig_ok (g_read g) (g_exec g) init (snd (applyMigration g name sql d))"
  using assms replay_snoc [of "g_read g" "g_exec g" "m_applied d" init "m_schema d" name sql]
  by (auto simp: mig_ok_def applyMigration_def split: option.split mig_fault.split sum.split)

lemma migrate_files_step:
  "(snd (migrate_files g (n # names) applied d) = d)
   \<or> snd (migrate_files g (n # names) applied d) = snd (migrate_files g names applied d)
   \<or> (\<exists>sql. g_read g n = Inr sql \<and> n \<notin> set (m_applied d)
        \<and> (snd (migrate_files g (n # names) applied d) = snd (applyMigration g n sql d)
           \<or> snd (migrate_files g (n # names) applied d) =
               snd (migrate_files g names (applied @ [n]) (snd (applyMigration g n sql d)))))"
  by (auto split: option.split sum.split prod.split)

lemma migrate_files_ok:
  "mig_ok (g_read g) (g_exec g) init d \<Longrightarrow> mig_ok (g_read g) (g_exec g) init (snd (migrate_files g names applied d))"
proof (induction names arbitrary: applied d)
  case Nil
  then show ?case by simp
next
  case (Cons n names)
  note ap = applyMigration_ok [OF Cons.prems]
  from migrate_files_step [of g n names applied d] show ?case
  proof (elim disjE exE conjE)
    fix sql assume "g_read g n = Inr sql" "n \<notin> set (m_applied d)"
      "snd (migrate_files g (n # names) applied d) = snd (applyMigration g n sql d)"
    with ap show ?thesis by metis
  next
    fix sql assume "g_read g n = Inr sql" "n \<notin> set (m_applied d)"
      "snd (migrate_files g (n # names) applied d) =
        snd (migrate_files g names (applied @ [n]) (snd (applyMigration g n sql d)))"
    with ap Cons.IH show ?thesis by metis
  qed (use Cons in \<open>metis\<close>)+
qed

text \<open>Whatever a call was interrupted by, the files of the same file system are all it needs to agree on.\<close>

definition same_files :: "'s mig_env \<Rightarrow> (string \<Rightarrow> string res) \<Rightarrow> (string \<Rightarrow> 's \<Rightarrow> 's res) \<Rightarrow> bool" where
  "same_files g rd ex \<longleftrightarrow> g_read g = rd \<and> g_exec g = ex"

fun migrations :: "('s mig_env \<times> string list) list \<Rightarrow> 's mig_db \<Rightarrow> 's mig_db" where
  "migrations [] d = d"
| "migrations ((g, files) # cs) d = migrations cs (snd (Migrate g files d))"

text \<open>
  C33: after any sequence of \<open>Migrate\<close> calls, interrupted at any statement and even when a commit's
  acknowledgement is lost, each file was executed at most once, and the schema is exactly what the
  files recorded in \<open>schema_migrations\<close> make, in that order.
\<close>

theorem migrations_consistent:
  assumes "list_all (\<lambda>(g, _). same_files g rd ex) calls"
  shows "distinct (m_applied (migrations calls \<lparr>m_schema = init, m_applied = []\<rparr>))
    \<and> replay rd ex (m_applied (migrations calls \<lparr>m_schema = init, m_applied = []\<rparr>)) init
        = Inr (m_schema (migrations calls \<lparr>m_schema = init, m_applied = []\<rparr>))"
proof -
  have "mig_ok rd ex init (migrations calls d)" if "mig_ok rd ex init d" for d
    using that assms
  proof (induction calls arbitrary: d)
    case (Cons c cs)
    obtain g files where c: "c = (g, files)" by (cases c)
    with Cons.prems have "g_read g = rd" "g_exec g = ex" by (simp_all add: same_files_def)
    with Cons.prems(1) have "mig_ok rd ex init (snd (Migrate g files d))"
      using migrate_files_ok [of g init d] by (auto simp: Migrate_def split: option.split)
    with Cons c show ?case by simp
  qed simp
  moreover have "mig_ok rd ex init \<lparr>m_schema = init, m_applied = []\<rparr>" by (simp add: mig_ok_def)
  ultimately show ?thesis by (simp add: mig_ok_def)
qed

lemma migrate_files_applied:
  assumes "fst (migrate_files g names applied d) = (xs, None)" and "g_fault g = (\<lambda>_. None)" and "distinct names"
  shows "xs = applied @ filter (\<lambda>n. n \<notin> set (m_applied d)) names
    \<and> m_applied (snd (migrate_files g names applied d)) = m_applied d @ filter (\<lambda>n. n \<notin> set (m_applied d)) names"
  using assms
proof (induction names arbitrary: applied d)
  case (Cons n names)
  show ?case
  proof (cases "n \<in> set (m_applied d)")
    case True
    with Cons show ?thesis by (auto split: option.splits)
  next
    case False
    obtain sql s where s: "g_read g n = Inr sql" "g_exec g sql (m_schema d) = Inr s" "g_query g n = None"
      using Cons.prems(1,2) False by (auto simp: applyMigration_def split: option.splits sum.splits)
    let ?d = "d\<lparr>m_schema := s, m_applied := m_applied d @ [n]\<rparr>"
    have eq: "migrate_files g (n # names) applied d = migrate_files g names (applied @ [n]) ?d"
      using s False Cons.prems(2) by (simp add: applyMigration_def)
    have "filter (\<lambda>m. m \<notin> set (m_applied ?d)) names = filter (\<lambda>m. m \<notin> set (m_applied d)) names"
      using Cons.prems(3) by (intro filter_cong) auto
    then show ?thesis using Cons.IH [of "applied @ [n]" ?d] Cons.prems False unfolding eq by simp
  qed
qed simp

text \<open>
  C32: a call that succeeds applies exactly the files not yet applied, in name order, and afterwards
  every migration file is recorded: a second call applies nothing and changes nothing.
\<close>

theorem Migrate_applies_pending:
  assumes "Migrate g files d = ((xs, None), d')" and "g_fault g = (\<lambda>_. None)" and "distinct files"
  shows "xs = filter (\<lambda>n. n \<notin> set (m_applied d)) (sort (filter is_sql files))
    \<and> m_applied d' = m_applied d @ xs
    \<and> Migrate g files d' = (([], None), d')"
proof -
  let ?ns = "sort (filter is_sql files)"
  have g: "g_setup g = None" "migrate_files g ?ns [] d = ((xs, None), d')"
    using assms(1) by (auto simp: Migrate_def split: option.splits)
  have dn: "distinct ?ns" using assms(3) by simp
  have xs: "xs = filter (\<lambda>n. n \<notin> set (m_applied d)) ?ns" "m_applied d' = m_applied d @ xs"
    using migrate_files_applied [of g ?ns "[]" d xs] g(2) assms(2) dn by simp_all
  have q: "list_all (\<lambda>n. g_query g n = None) ns"
    if "fst (migrate_files g ns a e) = (ys, None)" for ns a ys e
    using that by (induction ns arbitrary: a e) (auto split: option.splits sum.splits prod.splits if_splits)
  have "migrate_files g ns [] d' = (([], None), d')"
    if "set ns \<subseteq> set (m_applied d')" "list_all (\<lambda>n. g_query g n = None) ns" for ns
    using that by (induction ns) auto
  moreover have "set ?ns \<subseteq> set (m_applied d')" unfolding xs(2) xs(1) by auto
  ultimately show ?thesis using xs g(1) q [of ?ns "[]" d xs] g(2) by (simp add: Migrate_def)
qed

definition demo_mig :: "nat mig_env" where
  "demo_mig = \<lparr>g_setup = None, g_query = (\<lambda>_. None), g_read = Inr,
     g_exec = (\<lambda>sql s. if sql = ''bad.sql'' then Inl (ErrPg ''42601'') else Inr (10 * s + length sql)),
     g_fault = (\<lambda>_. None)\<rparr>"

lemma demo_mig_simps: "g_setup demo_mig = None" "g_query demo_mig n = None" "g_read demo_mig n = Inr n"
  "g_fault demo_mig = (\<lambda>_. None)"
  "g_exec demo_mig n s = (if n = ''bad.sql'' then Inl (ErrPg ''42601'') else Inr (10 * s + length n))"
  by (simp_all add: demo_mig_def)

lemma demo_files: "sort (filter is_sql [''2.sql'', ''1.sql'', ''x.md'']) = [''1.sql'', ''2.sql'']"
  by (simp add: is_sql_def)

lemma demo_migrate:
  "Migrate demo_mig [''2.sql'', ''1.sql'', ''x.md''] \<lparr>m_schema = 0, m_applied = []\<rparr> =
     (([''1.sql'', ''2.sql''], None), \<lparr>m_schema = 55, m_applied = [''1.sql'', ''2.sql'']\<rparr>)"
  unfolding Migrate_def demo_files by (simp add: demo_mig_simps applyMigration_def)

theorem Migrate_applies_pending_witness:
  "Migrate demo_mig [''2.sql'', ''1.sql'', ''x.md''] \<lparr>m_schema = 55, m_applied = [''1.sql'', ''2.sql'']\<rparr>
     = (([], None), \<lparr>m_schema = 55, m_applied = [''1.sql'', ''2.sql'']\<rparr>)"
proof -
  have "distinct [''2.sql'', ''1.sql'', ''x.md'']" by simp
  with Migrate_applies_pending [OF demo_migrate demo_mig_simps(4)] show ?thesis by blast
qed

theorem migrations_consistent_witness:
  "distinct (m_applied (migrations [(demo_mig, [''2.sql'', ''1.sql'']), (demo_mig, [''1.sql'', ''bad.sql''])]
     \<lparr>m_schema = 0, m_applied = []\<rparr>))"
  using migrations_consistent [where calls = "[(demo_mig, [''2.sql'', ''1.sql'']), (demo_mig, [''1.sql'', ''bad.sql''])]"
 and rd = "g_read demo_mig" and ex = "g_exec demo_mig" and init = 0]
  by (simp add: same_files_def demo_mig_def)

end
