(* ===== verification/StoreJobs.thy ===== *)
theory StoreJobs
  imports Models
begin

text \<open>
  \<open>internal/store/jobs.go\<close>: job definitions. Each operation is one SQL statement, run by \<open>pg\<close>.
\<close>

section \<open>Operations\<close>

text \<open>\<open>scanJob\<close>: the row of a single-row query, or \<open>ErrNotFound\<close> when there is none.\<close>

definition scanJob :: "job list \<Rightarrow> job res" where
  "scanJob js = (case js of [] \<Rightarrow> Inl ErrNotFound | j # _ \<Rightarrow> Inr j)"

definition new_job_row :: "uuid \<Rightarrow> time \<Rightarrow> new_job \<Rightarrow> job" where
  "new_job_row i t n = \<lparr>j_id = i, j_name = n_name n, j_type = n_type n, j_payload = n_payload n,
     j_cron_expr = n_cron_expr n, j_timezone = n_timezone n, j_next_run_at = n_next_run_at n,
     j_enabled = True, j_max_retries = n_max_retries n, j_timeout_sec = n_timeout_sec n,
     j_created_at = t, j_updated_at = t\<rparr>"

definition fits_int4 :: "int \<Rightarrow> bool" where
  "fits_int4 i \<longleftrightarrow> - int4_max - 1 \<le> i \<and> i \<le> int4_max"

definition CreateJob :: "env \<Rightarrow> new_job \<Rightarrow> db \<Rightarrow> job res \<times> db" where
  "CreateJob e n = pg e (\<lambda>d.
     if CHR 0x00 \<in> set (n_name n) then (Inl (ErrPg pgNotInRepertoire), d) else
     case e_jsonb e (n_payload n) of Inl x \<Rightarrow> (Inl x, d) | Inr p \<Rightarrow>
     let j = new_job_row (e_uuids e 0) (e_now e) (n\<lparr>n_payload := p\<rparr>) in
     if \<not> (fits_int4 (n_max_retries n) \<and> fits_int4 (n_timeout_sec n)) then (Inl (ErrPg pgNumericOverflow), d)
     else if \<not> (0 \<le> n_max_retries n \<and> 0 < n_timeout_sec n) then (Inl (ErrPg pgCheckViolation), d)
     else if find_job (j_id j) d \<noteq> None then (Inl (ErrPg pgUniqueViolation), d)
     else (scanJob [j], d\<lparr>jobs := jobs d @ [j]\<rparr>))"

definition set_enabled_row :: "time \<Rightarrow> bool \<Rightarrow> time option \<Rightarrow> job \<Rightarrow> job" where
  "set_enabled_row t en next j = j\<lparr>j_enabled := en, j_next_run_at := next, j_updated_at := t\<rparr>"

definition SetJobEnabled :: "env \<Rightarrow> uuid \<Rightarrow> bool \<Rightarrow> time option \<Rightarrow> db \<Rightarrow> job res \<times> db" where
  "SetJobEnabled e i en next = pg e (\<lambda>d.
     let (hit, js) = sql_update (\<lambda>j. j_id j = i) (set_enabled_row (e_now e) en next) (jobs d)
     in (scanJob hit, d\<lparr>jobs := js\<rparr>))"

definition GetJob :: "env \<Rightarrow> uuid \<Rightarrow> db \<Rightarrow> job res \<times> db" where
  "GetJob e i = pg e (\<lambda>d. (scanJob (filter (\<lambda>j. j_id j = i) (jobs d)), d))"

definition ListJobs :: "env \<Rightarrow> nat \<Rightarrow> db \<Rightarrow> job list res \<times> db" where
  "ListJobs e limit = pg e (\<lambda>d. (Inr (order_limit (\<lambda>j. (- j_created_at j, j_id j)) limit (jobs d)), d))"

section \<open>Lemmas\<close>

lemma scanJob_filter:
  "distinct (map j_id js) \<Longrightarrow>
     scanJob (filter (\<lambda>j. j_id j = i) js) =
       (case lookup_row j_id i js of None \<Rightarrow> Inl ErrNotFound | Some j \<Rightarrow> Inr j)"
  using filter_key_unique [of j_id js i "\<lambda>_. True"]
  by (auto simp: scanJob_def split: option.splits)

lemma schema_ok_job_update:
  assumes "schema_ok d"
    and "\<And>j. j_id (f j) = j_id j \<and> j_max_retries (f j) = j_max_retries j
           \<and> j_timeout_sec (f j) = j_timeout_sec j"
  shows "schema_ok (d\<lparr>jobs := map (\<lambda>j. if P j then f j else j) (jobs d)\<rparr>)"
proof -
  let ?js = "map (\<lambda>j. if P j then f j else j) (jobs d)"
  have k: "map j_id ?js = map j_id (jobs d)" by (rule map_key_update) (simp add: assms(2))
  then have i: "j_id ` set ?js = j_id ` set (jobs d)" by (metis set_map)
  have "job_checks (f j) = job_checks j" for j using assms(2) [of j] by (simp add: job_checks_def)
  with assms(1) have "\<forall>j \<in> set ?js. job_checks j"
    by (simp add: schema_ok_def jobs_ok_def) blast
  with assms(1) k have "jobs_ok ?js" by (simp add: schema_ok_def jobs_ok_def del: map_map set_map)
  with i assms(1) show ?thesis by (simp add: schema_ok_def del: set_map)
qed

lemma runs_ok_mono: "runs_ok J rs \<Longrightarrow> J \<subseteq> J' \<Longrightarrow> runs_ok J' rs"
  unfolding runs_ok_def by blast

lemma schema_ok_add_job:
  assumes "schema_ok d" and "find_job (j_id j) d = None" and "job_checks j"
  shows "schema_ok (d\<lparr>jobs := jobs d @ [j]\<rparr>)"
proof -
  have "jobs_ok (jobs d @ [j])"
    using assms by (simp add: schema_ok_def jobs_ok_def lookup_row_None)
  moreover have "runs_ok (j_id ` set (jobs d @ [j])) (runs d)"
    by (rule runs_ok_mono [of "j_id ` set (jobs d)"]) (use assms(1) in \<open>simp_all add: schema_ok_def subset_insertI\<close>)
  ultimately show ?thesis using assms(1) by (simp add: schema_ok_def)
qed

lemma new_job_row_checks:
  "fits_int4 (n_max_retries n) \<Longrightarrow> fits_int4 (n_timeout_sec n) \<Longrightarrow> 0 \<le> n_max_retries n \<Longrightarrow> 0 < n_timeout_sec n \<Longrightarrow>
     job_checks (new_job_row i t n)"
  by (simp add: job_checks_def new_job_row_def fits_int4_def)

lemma CreateJob_schema:
  "schema_ok (e_others e d) \<Longrightarrow> schema_ok (snd (CreateJob e n d))"
  unfolding CreateJob_def
  by (rule pg_preserves [where P = schema_ok])
     (simp_all add: Let_def schema_ok_add_job new_job_row_checks split: sum.split)

lemma SetJobEnabled_schema:
  assumes "schema_ok (e_others e d)"
  shows "schema_ok (snd (SetJobEnabled e i en next d))"
  unfolding SetJobEnabled_def
proof (rule pg_preserves [where P = schema_ok, OF assms])
  fix d1 assume "schema_ok d1"
  then show "schema_ok (snd (let (hit, js) = sql_update (\<lambda>j. j_id j = i) (set_enabled_row (e_now e) en next) (jobs d1)
     in (scanJob hit, d1\<lparr>jobs := js\<rparr>)))"
    by (simp add: sql_update_def schema_ok_job_update set_enabled_row_def)
qed

lemma GetJob_db: "snd (GetJob e i d) = e_others e d"
  by (simp add: GetJob_def pg_def Let_def split: option.split fault.split)

lemma ListJobs_db: "snd (ListJobs e n d) = e_others e d"
  by (simp add: ListJobs_def pg_def Let_def split: option.split fault.split)

lemma GetJob_quiet:
  "quiet e \<Longrightarrow> distinct (map j_id (jobs (e_others e d))) \<Longrightarrow>
     fst (GetJob e i d) =
       (case find_job i (e_others e d) of None \<Rightarrow> Inl ErrNotFound | Some j \<Rightarrow> Inr j)"
  by (simp add: GetJob_def scanJob_filter)

lemma CreateJob_Inr:
  assumes "CreateJob e n d = (Inr j, d')"
  shows "(\<exists>p. e_jsonb e (n_payload n) = Inr p \<and> j = new_job_row (e_uuids e 0) (e_now e) (n\<lparr>n_payload := p\<rparr>)) \<and> d' = (e_others e d)\<lparr>jobs := jobs (e_others e d) @ [j]\<rparr>
     \<and> find_job (j_id j) (e_others e d) = None \<and> job_checks j"
  using pg_Inr [OF assms [unfolded CreateJob_def]]
  by (auto simp: Let_def scanJob_def job_checks_def new_job_row_def fits_int4_def split: if_splits sum.splits)

text \<open>A job just created is the one \<open>GetJob\<close> finds.\<close>

lemma CreateJob_then_find:
  assumes "CreateJob e n d = (Inr j, d')"
  shows "find_job (j_id j) d' = Some j"
  using CreateJob_Inr [OF assms] by (auto simp: lookup_row_append)

end
