(* ===== verification/StoreRuns.thy ===== *)
theory StoreRuns
  imports StoreJobs
begin

text \<open>
  \<open>internal/store/runs.go\<close>: creating, reading and listing runs and their log lines, and failing a
  run that could not be dispatched.
\<close>

section \<open>Operations\<close>

definition scanRun :: "run list \<Rightarrow> run res" where
  "scanRun rs = (case rs of [] \<Rightarrow> Inl ErrNotFound | r # _ \<Rightarrow> Inr r)"

text \<open>The row an \<open>INSERT INTO job_runs\<close> makes, with the column defaults of the schema.\<close>

definition new_run_row :: "uuid \<Rightarrow> uuid \<Rightarrow> time \<Rightarrow> trigger \<Rightarrow> time \<Rightarrow> run" where
  "new_run_row i ji sched trg now = \<lparr>r_id = i, r_job_id = ji, r_scheduled_time = sched, r_trigger = trg,
     r_status = StatusQueued, r_attempt = 1, r_worker_id = None, r_queued_at = now, r_started_at = None,
     r_finished_at = None, r_last_heartbeat_at = None, r_next_attempt_at = None, r_error = None,
     r_output = None\<rparr>"

text \<open>
  The insert checks the two unique keys, then the foreign key. The SQLSTATE of a missing job is
  the one \<open>CreateManualRun\<close> turns into \<open>ErrNotFound\<close>.
\<close>

definition insert_run :: "run \<Rightarrow> db \<Rightarrow> run list res \<times> db" where
  "insert_run r d =
     (if find_run (r_id r) d \<noteq> None \<or> occurrence r \<in> occurrence ` set (runs d)
        then (Inl (ErrPg pgUniqueViolation), d)
      else if find_job (r_job_id r) d = None then (Inl (ErrPg pgForeignKeyViolation), d)
      else (Inr [r], d\<lparr>runs := runs d @ [r]\<rparr>))"

definition CreateManualRun :: "env \<Rightarrow> uuid \<Rightarrow> db \<Rightarrow> run res \<times> db" where
  "CreateManualRun e jobID d =
     (case pg e (insert_run (new_run_row (e_uuids e 0) jobID (e_clock e) TriggerManual (e_now e))) d of
        (Inl x, d') \<Rightarrow> (if x = ErrPg pgForeignKeyViolation then (Inl ErrNotFound, d') else (Inl x, d'))
      | (Inr rs, d') \<Rightarrow> (scanRun rs, d'))"

definition fail_queued_row :: "time \<Rightarrow> string \<Rightarrow> run \<Rightarrow> run" where
  "fail_queued_row t reason r = r\<lparr>r_status := StatusFailed, r_error := Some reason, r_finished_at := Some t\<rparr>"

definition FailQueuedRun :: "env \<Rightarrow> uuid \<Rightarrow> string \<Rightarrow> db \<Rightarrow> unit res \<times> db" where
  "FailQueuedRun e runID reason = pg e (\<lambda>d.
     (Inr (), d\<lparr>runs := snd (sql_update (\<lambda>r. r_id r = runID \<and> r_status r = StatusQueued)
                                  (fail_queued_row (e_now e) reason) (runs d))\<rparr>))"

definition GetRun :: "env \<Rightarrow> uuid \<Rightarrow> db \<Rightarrow> run res \<times> db" where
  "GetRun e i = pg e (\<lambda>d. (scanRun (filter (\<lambda>r. r_id r = i) (runs d)), d))"

text \<open>\<open>runListColumns\<close> leaves the output out.\<close>

definition runListColumns :: "run \<Rightarrow> run" where
  "runListColumns r = r\<lparr>r_output := None\<rparr>"

definition ListRuns :: "env \<Rightarrow> uuid option \<Rightarrow> nat \<Rightarrow> db \<Rightarrow> run list res \<times> db" where
  "ListRuns e jobID limit = pg e (\<lambda>d.
     (Inr (map runListColumns
        (order_limit (\<lambda>r. (- r_scheduled_time r, r_id r)) limit
          (filter (\<lambda>r. jobID = None \<or> jobID = Some (r_job_id r)) (runs d)))), d))"

text \<open>The lines of one attempt of a run stored at or after \<open>fromSeq\<close>.\<close>

definition attempt_lines :: "uuid \<Rightarrow> int \<Rightarrow> int \<Rightarrow> db \<Rightarrow> log_line list" where
  "attempt_lines runID attempt fromSeq d =
     map snd (filter (\<lambda>x. fst x = runID \<and> l_attempt (snd x) = attempt \<and> fromSeq \<le> l_seq (snd x)) (logs d))"

definition ListLogs :: "env \<Rightarrow> uuid \<Rightarrow> int \<Rightarrow> int \<Rightarrow> nat \<Rightarrow> db \<Rightarrow> log_line list res \<times> db" where
  "ListLogs e runID attempt fromSeq limit = pg e (\<lambda>d.
     (Inr (order_limit l_seq limit (attempt_lines runID attempt fromSeq d)), d))"

section \<open>Lemmas\<close>

lemma scanRun_filter:
  "distinct (map r_id rs) \<Longrightarrow>
     scanRun (filter (\<lambda>r. r_id r = i) rs) =
       (case lookup_row r_id i rs of None \<Rightarrow> Inl ErrNotFound | Some r \<Rightarrow> Inr r)"
  using filter_key_unique [of r_id rs i "\<lambda>_. True"]
  by (auto simp: scanRun_def split: option.splits)

lemma new_run_row_simps [simp]:
  "r_id (new_run_row i ji s t n) = i" "r_job_id (new_run_row i ji s t n) = ji"
  "r_status (new_run_row i ji s t n) = StatusQueued" "r_attempt (new_run_row i ji s t n) = 1"
  "r_scheduled_time (new_run_row i ji s t n) = s"
  "r_worker_id (new_run_row i ji s t n) = None" "r_next_attempt_at (new_run_row i ji s t n) = None"
  "r_finished_at (new_run_row i ji s t n) = None" "r_output (new_run_row i ji s t n) = None"
  "r_last_heartbeat_at (new_run_row i ji s t n) = None" "r_started_at (new_run_row i ji s t n) = None"
  "r_queued_at (new_run_row i ji s t n) = n"
  by (simp_all add: new_run_row_def)

lemma logs_ok_mono: "logs_ok R ls \<Longrightarrow> R \<subseteq> R' \<Longrightarrow> logs_ok R' ls"
  unfolding logs_ok_def by blast

lemma insert_run_schema:
  assumes "schema_ok d" and "r_attempt r = 1"
  shows "schema_ok (snd (insert_run r d))"
proof (cases "snd (insert_run r d) = d")
  case False
  then have n: "find_run (r_id r) d = None" "occurrence r \<notin> occurrence ` set (runs d)"
      "find_job (r_job_id r) d \<noteq> None" and d': "snd (insert_run r d) = d\<lparr>runs := runs d @ [r]\<rparr>"
    by (simp_all add: insert_run_def split: if_splits)
  have "runs_ok (j_id ` set (jobs d)) (runs d @ [r])"
    using n assms by (simp add: schema_ok_def runs_ok_def lookup_row_None int4_max_def)
  moreover have "logs_ok (r_id ` set (runs d @ [r])) (logs d)"
    by (rule logs_ok_mono [of "r_id ` set (runs d)"]) (use assms(1) in \<open>simp_all add: schema_ok_def subset_insertI\<close>)
  ultimately show ?thesis using assms(1) d' by (simp add: schema_ok_def)
qed (use assms in simp)

lemma CreateManualRun_db:
  "snd (CreateManualRun e jobID d) =
     snd (pg e (insert_run (new_run_row (e_uuids e 0) jobID (e_clock e) TriggerManual (e_now e))) d)"
  by (auto simp: CreateManualRun_def split: prod.splits sum.splits)

lemma CreateManualRun_schema:
  "schema_ok (e_others e d) \<Longrightarrow> schema_ok (snd (CreateManualRun e jobID d))"
  unfolding CreateManualRun_db
  by (rule pg_preserves [where P = schema_ok]) (auto intro: insert_run_schema)

lemma GetRun_db: "snd (GetRun e i d) = e_others e d"
  by (simp add: GetRun_def pg_def Let_def split: option.split fault.split)

lemma ListRuns_db: "snd (ListRuns e ji n d) = e_others e d"
  by (simp add: ListRuns_def pg_def Let_def split: option.split fault.split)

lemma ListLogs_db: "snd (ListLogs e i a s n d) = e_others e d"
  by (simp add: ListLogs_def pg_def Let_def split: option.split fault.split)

lemma GetRun_quiet:
  "quiet e \<Longrightarrow> distinct (map r_id (runs (e_others e d))) \<Longrightarrow>
     fst (GetRun e i d) =
       (case find_run i (e_others e d) of None \<Rightarrow> Inl ErrNotFound | Some r \<Rightarrow> Inr r)"
  by (simp add: GetRun_def scanRun_filter)

lemma CreateManualRun_Inr:
  assumes "CreateManualRun e jobID d = (Inr r, d')"
  shows "r = new_run_row (e_uuids e 0) jobID (e_clock e) TriggerManual (e_now e)
     \<and> d' = (e_others e d)\<lparr>runs := runs (e_others e d) @ [r]\<rparr>
     \<and> find_run (r_id r) (e_others e d) = None \<and> find_job jobID (e_others e d) \<noteq> None"
  using assms
  by (auto simp: CreateManualRun_def insert_run_def scanRun_def
      split: prod.splits sum.splits list.splits if_splits dest!: pg_Inr)

lemma CreateManualRun_not_found:
  assumes "quiet e" and "find_job jobID (e_others e d) = None"
    and "e_uuids e 0 \<notin> r_id ` set (runs (e_others e d))"
    and "schema_ok (e_others e d)"
  shows "CreateManualRun e jobID d = (Inl ErrNotFound, e_others e d)"
proof -
  have "(jobID, e_clock e) \<notin> occurrence ` set (runs (e_others e d))"
  proof
    assume "(jobID, e_clock e) \<in> occurrence ` set (runs (e_others e d))"
    then obtain r where "r \<in> set (runs (e_others e d))" "r_job_id r = jobID"
      by (metis fst_conv imageE occurrence_def)
    with assms(2) schema_run_job [OF assms(4)] show False by fastforce
  qed
  with assms show ?thesis
    by (simp add: CreateManualRun_def insert_run_def lookup_row_None occurrence_def)
qed

section \<open>Pages of a log\<close>

text \<open>
  Reading a log page by page, each page starting after the last line of the one before, reads
  every stored line once, in order. A page is the first \<open>limit\<close> lines at or after \<open>fromSeq\<close>.
\<close>

definition log_page :: "nat \<Rightarrow> log_line list \<Rightarrow> int \<Rightarrow> log_line list" where
  "log_page limit ls fromSeq = order_limit l_seq limit (filter (\<lambda>l. fromSeq \<le> l_seq l) ls)"

definition page_next :: "int \<Rightarrow> log_line list \<Rightarrow> int" where
  "page_next fromSeq ls = (if ls = [] then fromSeq else l_seq (last ls) + 1)"

lemma ListLogs_page:
  assumes "quiet e"
  shows "fst (ListLogs e i a s n d) = Inr (log_page n (attempt_lines i a s (e_others e d)) s)"
  using assms
  by (simp add: ListLogs_def log_page_def attempt_lines_def filter_map comp_def conj_ac)

lemma page_in: "l \<in> set (log_page n ls s) \<Longrightarrow> l \<in> set ls \<and> s \<le> l_seq l"
  unfolding log_page_def by (drule order_limit_in) auto

lemma page_before_next:
  assumes "l \<in> set (log_page n ls s)"
  shows "l_seq l < page_next s (log_page n ls s)"
proof -
  let ?p = "log_page n ls s"
  have s: "sorted (map l_seq ?p)" unfolding log_page_def by (rule sorted_order_limit)
  from assms have "?p \<noteq> []" by auto
  then have "?p = butlast ?p @ [last ?p]" by simp
  then have "sorted (map l_seq (butlast ?p) @ [l_seq (last ?p)])" using s by (metis list.simps(8,9) map_append)
  then have "\<forall>x \<in> set ?p. l_seq x \<le> l_seq (last ?p)"
    using \<open>?p = butlast ?p @ [last ?p]\<close>
    by (metis (no_types, lifting) Un_iff image_eqI list.set_map order_refl set_ConsD set_append
        sorted_append in_set_conv_decomp list.set_intros(1) empty_iff empty_set)
  with assms \<open>?p \<noteq> []\<close> show ?thesis by (auto simp: page_next_def)
qed

lemma page_complete:
  assumes "distinct (map l_seq ls)" and "l \<in> set ls" and "s \<le> l_seq l"
    and "l_seq l < page_next s (log_page n ls s)"
  shows "l \<in> set (log_page n ls s)"
proof (rule ccontr)
  let ?q = "filter (\<lambda>l. s \<le> l_seq l) ls"
  let ?p = "log_page n ls s"
  assume out: "l \<notin> set ?p"
  have "?p \<noteq> []" using assms(3,4) by (auto simp: page_next_def)
  then have last: "last ?p \<in> set ?p" by simp
  then have "l_seq (last ?p) \<le> l_seq l"
    using out assms(2,3) order_limit_least [of "last ?p" l_seq n ?q l]
    unfolding log_page_def by auto
  moreover have "l_seq l \<le> l_seq (last ?p)" using assms(4) \<open>?p \<noteq> []\<close> by (simp add: page_next_def)
  ultimately have "l_seq l = l_seq (last ?p)" by simp
  then have "l = last ?p"
    using assms(1,2) page_in [OF last] by (auto simp: distinct_map dest: inj_onD)
  with out last show False by simp
qed

end
