(* ===== verification/JsonRound.thy ===== *)
theory JsonRound
  imports Json
begin

text \<open>
  Reading back what \<open>encoding/json\<close> wrote: for every value whose nesting stays within the decoder's
  limit, parsing the printed text gives the value with its strings repaired to well-formed UTF-8.
\<close>

section \<open>Strings\<close>

lemma ord_char_of: "n < 256 \<Longrightarrow> ord (char_of (n :: nat)) = n"
  by simp

lemma hex_val_digit: "n < 16 \<Longrightarrow> hex_val (hex_digit n) = Some n"
  by (auto simp: hex_val_def hex_digit_def is_digit_def between_def)

lemma hex_digits_sum:
  assumes "n < (0x10000::nat)"
  shows "((n div 4096 mod 16 * 16 + n div 256 mod 16) * 16 + n div 16 mod 16) * 16 + n mod 16 = n"
proof -
  have "n div 4096 mod 16 = n div 256 div 16" using assms by (simp add: div_mult2_eq [symmetric])
  then have a: "n div 4096 mod 16 * 16 + n div 256 mod 16 = n div 256" by simp
  have "n div 256 = n div 16 div 16" by (simp add: div_mult2_eq [symmetric])
  then have b: "n div 256 * 16 + n div 16 mod 16 = n div 16" by simp
  show ?thesis unfolding a b by simp
qed

lemma hex4_u_escape: "n < 0x10000 \<Longrightarrow> hex4 (drop 2 (u_escape n) @ r) = Some (n, r)"
  using hex_digits_sum [of n] by (simp add: hex4_def u_escape_def hex_val_digit)

lemma str_unit_u_escape:
  assumes "n < 0xD800 \<or> 0xE000 \<le> n" and "n < 0x10000"
  shows "str_unit (u_escape n @ r) = Some (utf8_encode n, r)"
proof -
  have e: "u_escape n @ r = CHR 0x5C # CHR ''u'' # (drop 2 (u_escape n) @ r)" by (simp add: u_escape_def)
  have f: "str_unit (CHR 0x5C # CHR ''u'' # w) = map_option (\<lambda>(n, q). unicode_escape n q) (hex4 w)" for w
    by (simp add: str_unit_def)
  show ?thesis unfolding e f hex4_u_escape [OF assms(2)] using assms(1)
    by (simp add: unicode_escape_def)
qed

lemma u_escape_head: "\<exists>t. u_escape n = CHR 0x5C # t"
  by (simp add: u_escape_def)

lemma rune_len_ascii: "ord c < 0x80 \<Longrightarrow> rune_len (c # r) = 1"
  by (simp add: rune_len_def)

lemma utf8_encode_ascii: "ord c < 0x80 \<Longrightarrow> utf8_encode (ord c) = [c]"
  by (simp add: utf8_encode_def bytes_def)

lemma str_unit_esc_ascii:
  assumes "ord c < 0x80"
  shows "str_unit (esc_ascii c @ r) = Some ([c], r) \<and> (\<exists>x t. esc_ascii c = x # t \<and> x \<noteq> CHR 0x22)"
proof -
  have "str_unit (u_escape (ord c) @ r) = Some ([c], r)"
    using str_unit_u_escape [of "ord c" r] assms by (simp add: utf8_encode_ascii)
  moreover have "str_unit (c # r) = Some ([c], r)" if "\<not> ord c < 0x20" "c \<noteq> CHR 0x5C"
    using that assms by (simp add: str_unit_def rune_len_ascii)
  ultimately show ?thesis using u_escape_head [of "ord c"]
    by (auto simp: esc_ascii_def str_unit_def simple_escape_def)
qed

lemma conts_append: "conts k r \<Longrightarrow> conts k (r @ w) \<and> (0 < k \<longrightarrow> hd (r @ w) = hd r)"
  by (cases "r = []") (auto simp: conts_def)

lemma conts_take: "conts k r \<Longrightarrow> conts k (take k r) \<and> (0 < k \<longrightarrow> hd (take k r) = hd r)"
  by (auto simp: conts_def hd_take)

text \<open>The classes of first bytes.\<close>

lemma rune_len_2: "between 0xC2 0xDF c \<Longrightarrow> rune_len (c # r) = (if conts 1 r then 2 else 0)"
  by (auto simp: rune_len_def between_def)

lemma rune_len_3: "between 0xE0 0xEF c \<Longrightarrow> rune_len (c # r) = (if conts 2 r
       \<and> (c = char_of (0xE0::nat) \<longrightarrow> 0xA0 \<le> ord (hd r)) \<and> (c = char_of (0xED::nat) \<longrightarrow> ord (hd r) \<le> 0x9F) then 3 else 0)"
  by (simp add: rune_len_def between_def)

lemma rune_len_4: "between 0xF0 0xF4 c \<Longrightarrow> rune_len (c # r) = (if conts 3 r
       \<and> (c = char_of (0xF0::nat) \<longrightarrow> 0x90 \<le> ord (hd r)) \<and> (c = char_of (0xF4::nat) \<longrightarrow> ord (hd r) \<le> 0x8F) then 4 else 0)"
  by (simp add: rune_len_def between_def)

lemma rune_len_cases:
  assumes "rune_len s \<noteq> 0"
  obtains c r where "s = c # r" "ord c < 0x80" | c r where "s = c # r" "between 0xC2 0xDF c"
    | c r where "s = c # r" "between 0xE0 0xEF c" | c r where "s = c # r" "between 0xF0 0xF4 c"
  using assms by (auto simp: rune_len_def split: list.splits if_splits)

lemma rune_len_append: 
  assumes z: "rune_len s \<noteq> 0"
  shows "rune_len (s @ w) = rune_len s"
  using z
proof (cases rule: rune_len_cases)
  case (2 c r)
  with z show ?thesis using conts_append [of 1 r w] by (simp add: rune_len_2 split: if_splits)
next
  case (3 c r)
  with z show ?thesis using conts_append [of 2 r w] by (simp add: rune_len_3 split: if_splits)
next
  case (4 c r)
  with z show ?thesis using conts_append [of 3 r w] by (simp add: rune_len_4 split: if_splits)
qed (simp add: rune_len_ascii)

lemma rune_len_take: 
  assumes z: "rune_len s \<noteq> 0"
  shows "rune_len (take (rune_len s) s) = rune_len s"
  using z
proof (cases rule: rune_len_cases)
  case (2 c r)
  with z show ?thesis using conts_take [of 1 r] by (simp add: rune_len_2 split: if_splits)
next
  case (3 c r)
  with z show ?thesis using conts_take [of 2 r] by (auto simp: rune_len_3 split: if_splits)
next
  case (4 c r)
  with z show ?thesis using conts_take [of 3 r] by (auto simp: rune_len_4 split: if_splits)
qed (simp add: rune_len_ascii)

lemma str_unit_rune:
  assumes "rune_len s \<noteq> 0" and "\<not> ord (hd s) < 0x80"
  shows "str_unit (take (rune_len s) s @ w) = Some (take (rune_len s) s, w)
    \<and> (\<exists>x t. take (rune_len s) s = x # t \<and> x \<noteq> CHR 0x22)"
proof -
  obtain c r where s: "s = c # r" using assms(1) by (cases s) (auto simp: rune_len_def)
  let ?u = "take (rune_len s) s"
  have l: "length ?u = rune_len s" using rune_len_le [of s] by simp
  have n: "rune_len (?u @ w) = rune_len s"
    using rune_len_append [of ?u w] rune_len_take [OF assms(1)] assms(1) by simp
  obtain t where u: "?u = c # t" using s assms(1) by (cases "rune_len s") auto
  have c: "\<not> ord c < 0x80" using assms(2) s by simp
  then have "c \<noteq> CHR 0x5C" "c \<noteq> CHR 0x22" "\<not> ord c < 0x20" by auto
  moreover have "?u @ w = c # (t @ w)" using u by simp
  moreover have "take (rune_len s) (?u @ w) = ?u" "drop (rune_len s) (?u @ w) = w" using l by simp_all
  ultimately show ?thesis using n u assms(1) by (simp add: str_unit_def)
qed

lemma str_unit_esc_rune:
  assumes "rune_len s \<noteq> 0" and "\<not> ord (hd s) < 0x80"
  shows "str_unit (esc_rune (take (rune_len s) s) @ w) = Some (take (rune_len s) s, w)
    \<and> (\<exists>x t. esc_rune (take (rune_len s) s) = x # t \<and> x \<noteq> CHR 0x22)"
proof -
  have a: "utf8_encode 0x2028 = bytes [0xE2, 0x80, 0xA8]" by (simp add: utf8_encode_def)
  have b: "utf8_encode 0x2029 = bytes [0xE2, 0x80, 0xA9]" by (simp add: utf8_encode_def)
  note e = str_unit_u_escape [where n = "0x2028" and r = w] str_unit_u_escape [where n = "0x2029" and r = w] u_escape_head [of "0x2028"] u_escape_head [of "0x2029"]
  show ?thesis using str_unit_rune [OF assms, of w] e unfolding esc_rune_def a b by auto
qed

lemma str_body_step:
  assumes "x \<noteq> CHR 0x22" and "str_unit (x # t) = Some (u, r)"
  shows "str_body (x # t) = map_option (apfst ((@) u)) (str_body r)"
  using assms by (subst str_body.simps) simp

lemma str_body_unit:
  assumes "str_unit (p @ r) = Some (u, r) \<and> (\<exists>x t. p = x # t \<and> x \<noteq> CHR 0x22)"
    and "str_body r = Some (t, q)"
  shows "str_body (p @ r) = Some (u @ t, q)"
proof -
  obtain x t' where "p = x # t'" "x \<noteq> CHR 0x22" using assms(1) by blast
  with assms str_body_step [of x "t' @ r" u r] show ?thesis by simp
qed

theorem str_body_escape: "str_body (escape s @ CHR 0x22 # r) = Some (utf8_fix s, r)"
proof (induction s rule: escape.induct)
  case (1 s)
  show ?case
  proof (cases s)
    case Nil
    then show ?thesis by (subst escape.simps, subst str_body.simps, subst utf8_fix.simps) simp
  next
    case (Cons c t)
    consider (ascii) "ord c < 0x80" | (bad) "\<not> ord c < 0x80" "rune_len s = 0" | (rune) "\<not> ord c < 0x80" "rune_len s \<noteq> 0"
      by blast
    then show ?thesis
    proof cases
      case ascii
      then have "escape s = esc_ascii c @ escape t" using Cons by (subst escape.simps) simp
      moreover have "utf8_fix s = [c] @ utf8_fix t" using Cons ascii by (subst utf8_fix.simps) (simp add: rune_len_ascii)
      ultimately show ?thesis
        using str_body_unit [OF str_unit_esc_ascii [OF ascii] "1.IH"(1) [OF Cons ascii]] by simp
    next
      case bad
      then have "escape s = u_escape 0xFFFD @ escape t" using Cons by (subst escape.simps) simp
      moreover have "utf8_fix s = replacement @ utf8_fix t" using Cons bad by (subst utf8_fix.simps) simp
      moreover have "utf8_encode 0xFFFD = replacement" by (simp add: utf8_encode_def replacement_def)
      ultimately show ?thesis
        using str_body_unit [OF _ "1.IH"(2) [OF Cons bad], of "u_escape 0xFFFD" replacement]
          str_unit_u_escape [where n = "0xFFFD"] u_escape_head [of "0xFFFD"] by auto
    next
      case rune
      let ?n = "rune_len s"
      have h: "\<not> ord (hd s) < 0x80" using rune Cons by simp
      have "escape s = esc_rune (take ?n s) @ escape (drop ?n s)" using Cons rune by (subst escape.simps) simp
      moreover have "utf8_fix s = take ?n s @ utf8_fix (drop ?n s)" using Cons rune by (subst utf8_fix.simps) simp
      ultimately show ?thesis
        using str_body_unit [OF str_unit_esc_rune [OF rune(2) h] "1.IH"(3) [OF Cons rune]] by simp
    qed
  qed
qed

lemma utf8_fix_valid: "valid_utf8 s \<Longrightarrow> utf8_fix s = s"
proof (induction s rule: utf8_fix.induct)
  case (1 s)
  then show ?case
    by (subst utf8_fix.simps, subst (asm) (3) valid_utf8.simps) (auto split: if_splits list.splits)
qed

section \<open>Numbers\<close>

text \<open>What may follow a value: nothing, a separator, a closing bracket, white space.\<close>

definition delimited :: "string \<Rightarrow> bool" where
  "delimited r = (case r of [] \<Rightarrow> True | c # _ \<Rightarrow> c \<in> {CHR '','', CHR '']'', CHR ''}'', CHR 0x0A, CHR '' ''})"

lemma span_all: "list_all P s \<Longrightarrow> (case r of [] \<Rightarrow> True | c # _ \<Rightarrow> \<not> P c) \<Longrightarrow> span P (s @ r) = (s, r)"
  by (induction s) (auto split: list.splits)

lemma delimited_not:
  assumes "delimited r"
  shows "case r of [] \<Rightarrow> True | c # _ \<Rightarrow> \<not> is_digit c"
    and "lit_frac r = Some ([], r)" and "lit_exp r = Some ([], r)"
  using assms by (auto simp: delimited_def lit_frac_def lit_exp_def is_digit_def split: list.splits)

lemma dec_digits_head: "0 < n \<Longrightarrow> \<exists>c t. dec_digits n = c # t \<and> is_digit c \<and> c \<noteq> CHR ''0''"
proof (induction n rule: dec_digits.induct)
  case (1 n)
  show ?case
  proof (cases "n < 10")
    case True
    have "ord (digit_char n) = 48 + n" using True by (simp add: digit_char_def)
    then have "digit_char n \<noteq> CHR ''0''" using \<open>0 < n\<close> by auto
    with True show ?thesis by (subst dec_digits.simps) (simp add: digit_char_digit)
  next
    case False
    then have "0 < n div 10" by (simp add: div_greater_zero_iff)
    with 1 False show ?thesis by (subst dec_digits.simps) auto
  qed
qed

lemma char_of_48: "char_of (48::nat) = CHR ''0''"
  by code_simp

lemma lit_int_dec:
  assumes "delimited r"
  shows "lit_int (dec_digits n @ r) = Some (dec_digits n, r)"
proof (cases "n = 0")
  case True
  then show ?thesis by (simp add: dec_digits.simps lit_int_def digit_char_def char_of_48)
next
  case False
  then obtain c t where d: "dec_digits n = c # t" "is_digit c" "c \<noteq> CHR ''0''"
    using dec_digits_head [of n] by blast
  have "list_all is_digit (dec_digits n)" using dec_digits_all by (simp add: list_all_iff)
  then have "span is_digit (dec_digits n @ r) = (dec_digits n, r)"
    using delimited_not(1) [OF assms] by (rule span_all)
  with d show ?thesis by (simp add: lit_int_def del: span.simps)
qed

lemma lit_number_itoa:
  assumes "delimited r"
  shows "lit_number (itoa i @ r) = Some (itoa i, r)"
proof (cases "i < 0")
  case True
  then show ?thesis using lit_int_dec [OF assms] delimited_not(2,3) [OF assms]
    by (simp add: lit_number_def itoa_def)
next
  case False
  obtain c t where d: "dec_digits (nat i) = c # t" by (cases "dec_digits (nat i)") auto
  then have "c \<noteq> CHR ''-''" using dec_digits_all [of c "nat i"] by (auto dest: digit_not_sign)
  with False d show ?thesis using lit_int_dec [OF assms, of "nat i"] delimited_not(2,3) [OF assms]
    by (simp add: lit_number_def itoa_def)
qed

section \<open>Values\<close>

fun json_ok :: "json \<Rightarrow> bool" where
  "json_ok (JNum t) = (\<exists>i. t = itoa i)"
| "json_ok (JArr vs) = list_all json_ok vs"
| "json_ok (JObj ms) = list_all (\<lambda>(k, raw, v). json_ok v) ms"
| "json_ok _ = True"

fun json_depth :: "json \<Rightarrow> nat" where
  "json_depth (JArr vs) = Suc (fold max (map json_depth vs) 0)"
| "json_depth (JObj ms) = Suc (fold max (map (\<lambda>(k, raw, v). json_depth v) ms) 0)"
| "json_depth _ = 0"

fun read_back :: "json \<Rightarrow> json" where
  "read_back (JStr s) = JStr (utf8_fix s)"
| "read_back (JArr vs) = JArr (map read_back vs)"
| "read_back (JObj ms) = JObj (map (\<lambda>(k, raw, v). (utf8_fix k, print_json v, read_back v)) ms)"
| "read_back v = v"

definition starts_value :: "string \<Rightarrow> bool" where
  "starts_value s = (case s of [] \<Rightarrow> False | c # _ \<Rightarrow> \<not> is_space c)"

lemma skip_ws_id: "(case s of [] \<Rightarrow> True | c # _ \<Rightarrow> \<not> is_space c) \<Longrightarrow> skip_ws s = s"
  by (auto simp: skip_ws_def split: list.splits)

lemma itoa_head: "\<exists>c t. itoa i = c # t \<and> (c = CHR ''-'' \<or> is_digit c)"
proof (cases "i < 0")
  case False
  obtain c t where d: "dec_digits (nat i) = c # t" by (cases "dec_digits (nat i)") auto
  with False show ?thesis using dec_digits_all [of c "nat i"] by (simp add: itoa_def)
qed (simp add: itoa_def)

lemma print_json_starts: "json_ok v \<Longrightarrow> \<exists>c t. print_json v = c # t \<and> \<not> is_space c \<and> c \<noteq> CHR '']''"
  using itoa_head by (cases v) (fastforce simp: quote_def is_space_def is_digit_def)+

lemma skip_print: "json_ok v \<Longrightarrow> skip_ws (print_json v @ r) = print_json v @ r"
  using print_json_starts [of v] by (auto intro: skip_ws_id)

lemma run_step: "\<not> parse_done p \<Longrightarrow> parse_step p = Inr q \<Longrightarrow> parse_run p = parse_run q"
  by (subst parse_run.simps) simp

text \<open>Reading a printed value takes the machine from wanting it to having it.\<close>

definition reads :: "json \<Rightarrow> bool" where
  "reads v \<longleftrightarrow> (\<forall>fs r. delimited r \<longrightarrow> length fs + json_depth v \<le> max_depth \<longrightarrow>
     parse_run (Want fs (print_json v @ r)) = parse_run (Have fs (read_back v) r))"

lemma run_want:
  assumes "want_value fs s = Inr q"
  shows "parse_run (Want fs s) = parse_run q"
  using assms by (intro run_step) (simp_all add: parse_done_def parse_step_def)

lemma run_have:
  assumes "after_value f fs v s = Inr q"
  shows "parse_run (Have (f # fs) v s) = parse_run q"
  using assms by (intro run_step) (simp_all add: parse_done_def parse_step_def)

lemma reads_literals: "reads JNull" "reads (JBool b)" "reads (JNum (itoa i))" "reads (JStr s)"
proof -
  show "reads JNull" unfolding reads_def
    by (auto intro!: run_want simp: want_value_def skip_ws_def is_space_def is_digit_def lit_word_def)
  show "reads (JBool b)" unfolding reads_def
    by (auto intro!: run_want simp: want_value_def skip_ws_def is_space_def is_digit_def lit_word_def)
  show "reads (JStr s)" unfolding reads_def
    by (auto intro!: run_want simp: want_value_def skip_ws_def is_space_def quote_def str_body_escape)
  show "reads (JNum (itoa i))" unfolding reads_def
  proof (intro allI impI)
    fix fs r assume d: "delimited r"
    obtain c t where h: "itoa i = c # t" "c = CHR ''-'' \<or> is_digit c" using itoa_head by blast
    then have "c \<noteq> CHR 0x22" "c \<noteq> CHR ''[''" "c \<noteq> CHR ''{''" by (auto simp: is_digit_def)
    moreover have "skip_ws (itoa i @ r) = itoa i @ r" using skip_print [of "JNum (itoa i)" r] by auto
    ultimately have "want_value fs (itoa i @ r) = Inr (Have fs (JNum (itoa i)) r)"
      using h lit_number_itoa [OF d, of i] by (simp add: want_value_def)
    then show "parse_run (Want fs (print_json (JNum (itoa i)) @ r)) = parse_run (Have fs (read_back (JNum (itoa i))) r)"
      by (simp add: run_want)
  qed
qed

section \<open>Arrays and objects\<close>

lemma fold_max_le: "fold max ns (m::nat) \<le> b \<longleftrightarrow> m \<le> b \<and> list_all (\<lambda>n. n \<le> b) ns"
  by (induction ns arbitrary: m) auto

definition tail_values :: "json list \<Rightarrow> string" where
  "tail_values vs = concat (map (\<lambda>v. '','' @ print_json v) vs)"

lemma join_tail: "join_with '','' (map print_json (v # vs)) = print_json v @ tail_values vs"
  by (induction vs arbitrary: v) (simp_all add: tail_values_def)

lemma delimited_tail: "delimited (tail_values vs @ '']'' @ r)"
  by (cases vs) (simp_all add: tail_values_def delimited_def)

lemma run_elements:
  assumes "list_all json_ok vs" and "\<And>v. v \<in> set vs \<Longrightarrow> reads v"
    and "list_all (\<lambda>v. length fs + Suc (json_depth v) \<le> max_depth) vs"
  shows "parse_run (Have (InArr us # fs) u (tail_values vs @ '']'' @ r)) =
     parse_run (Have fs (JArr (rev us @ [u] @ map read_back vs)) r)"
  using assms
proof (induction vs arbitrary: us u)
  case Nil
  show ?case by (simp add: tail_values_def, rule run_have) (simp add: after_value_def skip_ws_def is_space_def)
next
  case (Cons v vs)
  let ?r = "tail_values vs @ '']'' @ r"
  have t: "tail_values (v # vs) @ '']'' @ r = CHR '','' # print_json v @ ?r" by (simp add: tail_values_def)
  have "parse_run (Have (InArr us # fs) u (CHR '','' # print_json v @ ?r)) =
      parse_run (Want (InArr (u # us) # fs) (print_json v @ ?r))"
    by (rule run_have) (simp add: after_value_def skip_ws_def is_space_def)
  also have "\<dots> = parse_run (Have (InArr (u # us) # fs) (read_back v) ?r)"
    using Cons.prems(2) [of v] Cons.prems(3) delimited_tail [of vs r] by (simp add: reads_def)
  also have "\<dots> = parse_run (Have fs (JArr (rev (u # us) @ [read_back v] @ map read_back vs)) r)"
    using Cons by simp
  finally show ?case unfolding t by simp
qed

lemma reads_array:
  assumes "list_all json_ok vs" and "\<And>v. v \<in> set vs \<Longrightarrow> reads v"
  shows "reads (JArr vs)"
  unfolding reads_def
proof (intro allI impI)
  fix fs :: "frame list" and r assume d: "delimited r" and n: "length fs + json_depth (JArr vs) \<le> max_depth"
  then have dep: "list_all (\<lambda>v. length fs + Suc (json_depth v) \<le> max_depth) vs" and l: "length fs < max_depth"
    using fold_max_le [of "map json_depth vs" 0 "max_depth - Suc (length fs)"] by (auto simp: list_all_iff)
  show "parse_run (Want fs (print_json (JArr vs) @ r)) = parse_run (Have fs (read_back (JArr vs)) r)"
  proof (cases vs)
    case Nil
    with l show ?thesis by (auto intro!: run_want simp: want_value_def skip_ws_def is_space_def)
  next
    case (Cons v ws)
    let ?r = "tail_values ws @ '']'' @ r"
    have p: "print_json (JArr vs) @ r = CHR ''['' # print_json v @ ?r"
      unfolding Cons print_json.simps join_tail by simp
    obtain c t where "print_json v = c # t" "c \<noteq> CHR '']''" and s: "skip_ws (print_json v @ ?r) = print_json v @ ?r"
      using print_json_starts [of v] skip_print [of v ?r] assms(1) Cons by auto
    then have "want_value fs (CHR ''['' # print_json v @ ?r) = Inr (Want (InArr [] # fs) (print_json v @ ?r))"
      using l skip_ws_id [of "CHR ''['' # print_json v @ ?r"] by (simp add: want_value_def is_space_def)
    then have "parse_run (Want fs (print_json (JArr vs) @ r)) = parse_run (Want (InArr [] # fs) (print_json v @ ?r))"
      unfolding p by (rule run_want)
    also have "\<dots> = parse_run (Have (InArr [] # fs) (read_back v) ?r)"
      using assms(2) [of v] dep Cons delimited_tail [of ws r] by (simp add: reads_def)
    also have "\<dots> = parse_run (Have fs (JArr (rev [] @ [read_back v] @ map read_back ws)) r)"
      using assms dep Cons by (intro run_elements) simp_all
    finally show ?thesis using Cons by simp
  qed
qed

abbreviation print_member :: "string \<times> string \<times> json \<Rightarrow> string" where
  "print_member m \<equiv> quote (fst m) @ '':'' @ print_json (snd (snd m))"

definition read_member :: "string \<times> string \<times> json \<Rightarrow> string \<times> string \<times> json" where
  "read_member m = (utf8_fix (fst m), print_json (snd (snd m)), read_back (snd (snd m)))"

definition tail_members :: "(string \<times> string \<times> json) list \<Rightarrow> string" where
  "tail_members ms = concat (map (\<lambda>m. '','' @ print_member m) ms)"

lemma join_members:
  "join_with '','' (map (\<lambda>(k, raw, v). quote k @ '':'' @ print_json v) (m # ms)) = print_member m @ tail_members ms"
  by (induction ms arbitrary: m) (simp_all add: tail_members_def split_def)

lemma delimited_members: "delimited (tail_members ms @ ''}'' @ r)"
  by (cases ms) (simp_all add: tail_members_def delimited_def)

lemma want_key_printed:
  assumes "json_ok (snd (snd m))"
  shows "want_key fs ms (print_member m @ r) =
     Inr (Want (InObj ms (utf8_fix (fst m)) (print_json (snd (snd m)) @ r) # fs) (print_json (snd (snd m)) @ r))"
proof -
  have "print_member m @ r = CHR 0x22 # escape (fst m) @ CHR 0x22 # '':'' @ print_json (snd (snd m)) @ r"
    by (simp add: quote_def)
  then show ?thesis using skip_print [OF assms, of r]
    by (simp add: want_key_def skip_ws_def is_space_def str_body_escape)
qed

lemma run_members:
  assumes "list_all (\<lambda>(k, raw, v). json_ok v) ns" and "\<And>m. m \<in> set ns \<Longrightarrow> reads (snd (snd m))"
    and "list_all (\<lambda>(k, raw, v). length fs + Suc (json_depth v) \<le> max_depth) ns"
  shows "parse_run (Have (InObj ms k (p @ tail_members ns @ ''}'' @ r) # fs) u (tail_members ns @ ''}'' @ r)) =
     parse_run (Have fs (JObj (rev ms @ [(k, p, u)] @ map read_member ns)) r)"
  using assms
proof (induction ns arbitrary: ms k p u)
  case Nil
  show ?case by (simp add: tail_members_def, rule run_have) (simp add: after_value_def skip_ws_def is_space_def)
next
  case (Cons m ns)
  let ?v = "snd (snd m)"
  let ?r = "tail_members ns @ ''}'' @ r"
  have ok: "json_ok ?v" and dv: "length fs + Suc (json_depth ?v) \<le> max_depth" using Cons.prems by (auto simp: split_def)
  have t: "tail_members (m # ns) @ ''}'' @ r = CHR '','' # print_member m @ ?r" by (simp add: tail_members_def)
  have "after_value (InObj ms k (p @ CHR '','' # print_member m @ ?r)) fs u (CHR '','' # print_member m @ ?r) =
      want_key fs ((k, p, u) # ms) (print_member m @ ?r)"
    by (simp add: after_value_def skip_ws_def is_space_def)
  then have "parse_run (Have (InObj ms k (p @ CHR '','' # print_member m @ ?r) # fs) u (CHR '','' # print_member m @ ?r)) =
      parse_run (Want (InObj ((k, p, u) # ms) (utf8_fix (fst m)) (print_json ?v @ ?r) # fs) (print_json ?v @ ?r))"
    unfolding want_key_printed [OF ok] by (rule run_have)
  also have "\<dots> = parse_run (Have (InObj ((k, p, u) # ms) (utf8_fix (fst m)) (print_json ?v @ ?r) # fs) (read_back ?v) ?r)"
    using Cons.prems(2) [of m] dv delimited_members [of ns r] by (simp add: reads_def)
  also have "\<dots> = parse_run (Have fs (JObj (rev ((k, p, u) # ms) @ [(utf8_fix (fst m), print_json ?v, read_back ?v)] @ map read_member ns)) r)"
    using Cons.prems by (intro Cons.IH) simp_all
  finally show ?case unfolding t by (simp add: read_member_def [of m])
qed

lemma reads_object:
  assumes "list_all (\<lambda>(k, raw, v). json_ok v) ms" and "\<And>m. m \<in> set ms \<Longrightarrow> reads (snd (snd m))"
  shows "reads (JObj ms)"
  unfolding reads_def
proof (intro allI impI)
  fix fs :: "frame list" and r assume d: "delimited r" and n: "length fs + json_depth (JObj ms) \<le> max_depth"
  then have dep: "list_all (\<lambda>(k, raw, v). length fs + Suc (json_depth v) \<le> max_depth) ms" and l: "length fs < max_depth"
    using fold_max_le [of "map (\<lambda>(k, raw, v). json_depth v) ms" 0 "max_depth - Suc (length fs)"]
    by (auto simp: list_all_iff split_def)
  have rb: "read_back (JObj ms) = JObj (map read_member ms)" by (simp add: read_member_def split_def)
  show "parse_run (Want fs (print_json (JObj ms) @ r)) = parse_run (Have fs (read_back (JObj ms)) r)"
  proof (cases ms)
    case Nil
    with l show ?thesis by (auto intro!: run_want simp: want_value_def skip_ws_def is_space_def)
  next
    case (Cons m ns)
    let ?v = "snd (snd m)"
    let ?r = "tail_members ns @ ''}'' @ r"
    have ok: "json_ok ?v" using assms(1) Cons by (simp add: split_def)
    have p: "print_json (JObj ms) @ r = CHR ''{'' # print_member m @ ?r"
      unfolding Cons print_json.simps join_members by simp
    have "want_value fs (CHR ''{'' # print_member m @ ?r) = want_key fs [] (print_member m @ ?r)"
      using l by (simp add: want_value_def skip_ws_def is_space_def quote_def)
    then have "parse_run (Want fs (print_json (JObj ms) @ r)) =
        parse_run (Want (InObj [] (utf8_fix (fst m)) (print_json ?v @ ?r) # fs) (print_json ?v @ ?r))"
      unfolding p want_key_printed [OF ok] by (rule run_want)
    also have "\<dots> = parse_run (Have (InObj [] (utf8_fix (fst m)) (print_json ?v @ ?r) # fs) (read_back ?v) ?r)"
      using assms(2) [of m] dep Cons delimited_members [of ns r] by (simp add: reads_def split_def)
    also have "\<dots> = parse_run (Have fs (JObj (rev [] @ [(utf8_fix (fst m), print_json ?v, read_back ?v)] @ map read_member ns)) r)"
      using assms dep Cons by (intro run_members) simp_all
    finally show ?thesis unfolding rb unfolding Cons by (simp add: read_member_def [of m])
  qed
qed

theorem json_ok_reads: "json_ok v \<Longrightarrow> reads v"
proof (induction v)
  case (JNum t)
  then show ?case using reads_literals(3) by auto
next
  case (JArr vs)
  then show ?case by (intro reads_array) (auto simp: list_all_iff)
next
  case (JObj ms)
  have "reads (snd (snd m))" if "m \<in> set ms" for m
    using JObj.IH [of m "snd m" "snd (snd m)"] JObj.prems that by (cases m) (fastforce simp: list_all_iff)
  with JObj.prems show ?case by (intro reads_object) auto
qed (simp_all add: reads_literals)

lemma parse_run_done: "parse_run (Have [] v r) = Inr (v, r)"
  by (subst parse_run.simps) (simp add: parse_done_def parsed_def)

text \<open>A printed value is read back, whatever delimited text follows it in the stream.\<close>

theorem parse_next_print:
  assumes "json_ok v" and "json_depth v \<le> max_depth" and "delimited r"
  shows "parse_next (print_json v @ r) = Inr (read_back v, r)"
  using json_ok_reads [OF assms(1)] assms skip_print [OF assms(1), of r] print_json_starts [OF assms(1)]
  by (auto simp: parse_next_def reads_def parse_run_done)

theorem parse_all_print:
  assumes "json_ok v" and "json_depth v \<le> max_depth"
  shows "parse_all (print_json v) = Inr (read_back v)"
  using json_ok_reads [OF assms(1)] assms
  by (auto simp: parse_all_def reads_def parse_run_done delimited_def skip_ws_def dest!: spec [of _ "[]"])

section \<open>Struct fields\<close>

lemma utf8_fix_ascii: "list_all (\<lambda>c. ord c < 0x80) s \<Longrightarrow> utf8_fix s = s"
  by (induction s) (simp_all add: utf8_fix.simps rune_len_ascii)

lemma json_int_simps [simp]: "json_ok (json_int i)" "json_depth (json_int i) = 0"
  by (auto simp: json_int_def)

lemma set_int_json:
  "int64_min \<le> i \<Longrightarrow> i \<le> int64_max \<Longrightarrow> set_int n upd raw (read_back (json_int i)) s = (None, upd i s)"
  by (simp add: set_int_def json_int_def atoi_itoa)

end
