(* ===== verification/Job.thy ===== *)
theory Job
  imports Models JsonRound
begin

text \<open>
  \<open>internal/job/job.go\<close>: the job types, their payloads and their execution, and the evaluation of
  cron schedules. The context and the log of a run are explicit: what each look at the context
  finds is an argument, and the lines logged are part of the result.
\<close>

section \<open>Payloads\<close>

definition TypeGenerateText :: string where "TypeGenerateText = ''generate_text''"

record generate_text =
  p_lines :: int
  p_prefix :: string
  p_delay_ms :: int
  p_fail_at :: int
  p_fail_attempts :: int

definition maxLines :: int where "maxLines = 100000"
definition maxDelayMs :: int where "maxDelayMs = 10000"
definition maxFailAttempts :: int where "maxFailAttempts = 10"

definition validate :: "generate_text \<Rightarrow> error option" where
  "validate p =
     (if p_lines p < 1 \<or> p_lines p > maxLines
        then Some (ErrText (''payload.lines must be between 1 and '' @ itoa maxLines))
      else if p_delay_ms p < 0 \<or> p_delay_ms p > maxDelayMs
        then Some (ErrText (''payload.delay_ms must be between 0 and '' @ itoa maxDelayMs))
      else if p_fail_at p < 0 \<or> p_fail_at p > p_lines p
        then Some (ErrText (''payload.fail_at must be between 0 and lines ('' @ itoa (p_lines p) @ '')''))
      else if p_fail_attempts p < 0 \<or> p_fail_attempts p > maxFailAttempts
        then Some (ErrText (''payload.fail_attempts must be between 0 and '' @ itoa maxFailAttempts))
      else None)"

definition payload_fields :: "(string \<times> generate_text setter) list" where
  "payload_fields =
     [(''lines'', set_int ''lines'' (\<lambda>i p. p\<lparr>p_lines := i\<rparr>)),
      (''prefix'', set_string ''prefix'' (\<lambda>t p. p\<lparr>p_prefix := t\<rparr>)),
      (''delay_ms'', set_int ''delay_ms'' (\<lambda>i p. p\<lparr>p_delay_ms := i\<rparr>)),
      (''fail_at'', set_int ''fail_at'' (\<lambda>i p. p\<lparr>p_fail_at := i\<rparr>)),
      (''fail_attempts'', set_int ''fail_attempts'' (\<lambda>i p. p\<lparr>p_fail_attempts := i\<rparr>))]"

definition zero_payload :: generate_text where
  "zero_payload = \<lparr>p_lines = 0, p_prefix = [], p_delay_ms = 0, p_fail_at = 0, p_fail_attempts = 0\<rparr>"

definition parseGenerateText :: "string \<Rightarrow> generate_text res" where
  "parseGenerateText payload =
     (case decode_next True payload_fields payload zero_payload of
        Inl e \<Rightarrow> Inl (ErrWrap ''invalid payload'' (ErrJson e))
      | Inr (p, _) \<Rightarrow> (case validate p of Some e \<Rightarrow> Inl e | None \<Rightarrow> Inr p))"

definition Validate :: "string \<Rightarrow> string \<Rightarrow> error option" where
  "Validate jobType payload =
     (if jobType = TypeGenerateText then (case parseGenerateText payload of Inl e \<Rightarrow> Some e | Inr _ \<Rightarrow> None)
      else if jobType = [] then Some (ErrText ''type is required'')
      else Some (ErrText (''unknown job type '' @ go_quote jobType)))"

section \<open>Execution\<close>

text \<open>
  What the context says: \<open>cx_err i\<close> at the check before line \<open>i\<close>, \<open>cx_sleep i\<close> how the pause after line
  \<open>i\<close> ended.
\<close>

record ctx_view =
  cx_err :: "int \<Rightarrow> error option"
  cx_sleep :: "int \<Rightarrow> error option"

type_synonym log_entry = "string \<times> string"   \<comment> \<open>level and line\<close>

definition newline :: char where "newline = CHR 0x0A"

definition text_line :: "string \<Rightarrow> int \<Rightarrow> string" where
  "text_line prefix i = prefix @ '' '' @ itoa i @ [newline]"

text \<open>\<open>sleep\<close>: the timer or the context, whichever comes first.\<close>

definition sleep :: "ctx_view \<Rightarrow> int \<Rightarrow> error option" where
  "sleep c i = cx_sleep c i"

function gen_loop ::
  "ctx_view \<Rightarrow> generate_text \<Rightarrow> string \<Rightarrow> int \<Rightarrow> int \<Rightarrow> string \<Rightarrow> log_entry list \<Rightarrow> string res \<times> log_entry list" where
  "gen_loop c p prefix every i b log =
     (if i > p_lines p then (Inr b, log)
      else case cx_err c i of Some e \<Rightarrow> (Inl e, log)
      | None \<Rightarrow>
          (let b = b @ text_line prefix i in
           if i = p_fail_at p
           then (Inl (ErrText (''deliberate failure after '' @ itoa i @ '' lines (fail_at)'')),
                 log @ [(''error'', ''failing on purpose after '' @ itoa i @ '' lines'')])
           else
             (let log = (if i mod every = 0 \<or> i = p_lines p
                         then log @ [(''info'', ''wrote '' @ itoa i @ ''/'' @ itoa (p_lines p) @ '' lines'')] else log) in
              if p_delay_ms p > 0 \<and> i < p_lines p
              then (case sleep c i of Some e \<Rightarrow> (Inl e, log)
                    | None \<Rightarrow> gen_loop c p prefix every (i + 1) b log)
              else gen_loop c p prefix every (i + 1) b log)))"
  by pat_completeness auto
termination
  by (relation "measure (\<lambda>(c, p, prefix, every, i, b, log). nat (p_lines p + 1 - i))") auto

declare gen_loop.simps [simp del]

definition generateText :: "ctx_view \<Rightarrow> generate_text \<Rightarrow> int \<Rightarrow> string res \<times> log_entry list" where
  "generateText c p attempt =
     (let prefix = (if p_prefix p = [] then ''line'' else p_prefix p);
          every = max 1 (p_lines p div 20);
          log = [(''info'', ''generating '' @ itoa (p_lines p) @ '' lines'')]
      in case gen_loop c p prefix every 1 [] log of
           (Inl e, log) \<Rightarrow> (Inl e, log)
         | (Inr b, log) \<Rightarrow>
             if attempt \<le> p_fail_attempts p
             then (Inl (ErrText (''deliberate failure of attempt '' @ itoa attempt @ '' (fail_attempts='' @ itoa (p_fail_attempts p) @ '')'')),
                   log @ [(''error'', ''failing attempt '' @ itoa attempt @ '' on purpose (fail_attempts='' @ itoa (p_fail_attempts p) @ '')'')])
             else (Inr b, log))"

definition Run :: "ctx_view \<Rightarrow> string \<Rightarrow> string \<Rightarrow> int \<Rightarrow> string res \<times> log_entry list" where
  "Run c jobType payload attempt =
     (if jobType = TypeGenerateText
      then (case parseGenerateText payload of Inl e \<Rightarrow> (Inl e, []) | Inr p \<Rightarrow> generateText c p attempt)
      else (Inl (ErrText (''unknown job type '' @ go_quote jobType)), []))"

section \<open>Schedules\<close>

text \<open>
  The time zone database and the cron library are parameters: \<open>z_load\<close> is \<open>time.LoadLocation\<close>,
  \<open>z_parse\<close> is \<open>cron.ParseStandard\<close>, and \<open>z_next\<close> its \<open>Next\<close> in a zone, \<open>None\<close> for the zero time.
\<close>

record ('loc, 'sched) zones =
  z_load :: "string \<Rightarrow> 'loc res"
  z_parse :: "string \<Rightarrow> 'sched res"
  z_next :: "'sched \<Rightarrow> 'loc \<Rightarrow> time \<Rightarrow> time option"

definition unknown_timezone :: "string \<Rightarrow> error" where
  "unknown_timezone tz = ErrText (''unknown timezone '' @ go_quote tz)"

definition NextRun :: "('loc, 'sched) zones \<Rightarrow> string \<Rightarrow> string \<Rightarrow> time \<Rightarrow> time res" where
  "NextRun z cronExpr tz after =
     (case z_load z tz of Inl _ \<Rightarrow> Inl (unknown_timezone tz)
      | Inr loc \<Rightarrow>
          if tz = ''Local'' then Inl (unknown_timezone tz)
          else (case z_parse z cronExpr of Inl e \<Rightarrow> Inl (ErrWrap ''invalid cron_expr'' e)
            | Inr sched \<Rightarrow>
                (case z_next z sched loc after of
                   None \<Rightarrow> Inl (ErrText (''cron_expr '' @ go_quote cronExpr @ '' never fires''))
                 | Some t \<Rightarrow> Inr t)))"

end
