(* ===== verification/Queue.thy ===== *)
theory Queue
  imports Models JsonRound
begin

text \<open>
  \<open>internal/queue/queue.go\<close>: dispatch messages and the check that the dispatch topic exists. The
  Kafka client is a parameter: \<open>write\<close> is \<open>Writer.WriteMessages\<close>, \<open>dial\<close> what \<open>kafka.DialContext\<close> and
  \<open>ReadPartitions\<close> return for a broker.
\<close>

section \<open>Operations\<close>

definition DispatchTopic :: string where "DispatchTopic = ''job-dispatch''"
definition WorkerGroup :: string where "WorkerGroup = ''job-workers''"

record dispatch =
  q_run_id :: uuid
  q_job_id :: uuid
  q_job_type :: string
  q_attempt :: int

definition dispatch_fields :: "(string \<times> dispatch setter) list" where
  "dispatch_fields =
     [(''run_id'', set_string ''run_id'' (\<lambda>t d. d\<lparr>q_run_id := t\<rparr>)),
      (''job_id'', set_string ''job_id'' (\<lambda>t d. d\<lparr>q_job_id := t\<rparr>)),
      (''job_type'', set_string ''job_type'' (\<lambda>t d. d\<lparr>q_job_type := t\<rparr>)),
      (''attempt'', set_int ''attempt'' (\<lambda>i d. d\<lparr>q_attempt := i\<rparr>))]"

definition zero_dispatch :: dispatch where
  "zero_dispatch = \<lparr>q_run_id = [], q_job_id = [], q_job_type = [], q_attempt = 0\<rparr>"

definition DecodeDispatch :: "string \<Rightarrow> dispatch res" where
  "DecodeDispatch b = (case unmarshal dispatch_fields b zero_dispatch of
     Inl e \<Rightarrow> Inl (ErrWrap ''decode dispatch'' (ErrJson e))
   | Inr d \<Rightarrow> if q_run_id d = [] then Inl (ErrText ''decode dispatch: missing run_id'') else Inr d)"

definition dispatch_json :: "dispatch \<Rightarrow> json" where
  "dispatch_json d = JObj [member ''run_id'' (JStr (q_run_id d)), member ''job_id'' (JStr (q_job_id d)),
     member ''job_type'' (JStr (q_job_type d)), member ''attempt'' (json_int (q_attempt d))]"

record message =
  m_key :: string
  m_value :: string

text \<open>
  Of the run, \<open>dispatchMessage\<close> reads its id, its job's id and its attempt; \<open>json.Marshal\<close> of a
  struct of strings and an integer does not fail.
\<close>

definition dispatchMessage :: "uuid \<Rightarrow> uuid \<Rightarrow> int \<Rightarrow> string \<Rightarrow> message" where
  "dispatchMessage runID jobID attempt jobType =
     \<lparr>m_key = runID,
      m_value = print_json (dispatch_json \<lparr>q_run_id = runID, q_job_id = jobID, q_job_type = jobType, q_attempt = attempt\<rparr>)\<rparr>"

text \<open>A dispatcher changes the broker and reports an error or none.\<close>

type_synonym 'k writer = "message \<Rightarrow> 'k \<Rightarrow> error option \<times> 'k"

definition Dispatch :: "'k writer \<Rightarrow> uuid \<Rightarrow> uuid \<Rightarrow> int \<Rightarrow> string \<Rightarrow> 'k \<Rightarrow> error option \<times> 'k" where
  "Dispatch write runID jobID attempt jobType = write (dispatchMessage runID jobID attempt jobType)"

fun check_brokers :: "(string \<Rightarrow> error + nat res) \<Rightarrow> error \<Rightarrow> string list \<Rightarrow> nat res" where
  "check_brokers dial lastErr [] = Inl (ErrWrap ''reach kafka'' lastErr)"
| "check_brokers dial lastErr (b # bs) = (case dial b of
     Inl e \<Rightarrow> check_brokers dial e bs
   | Inr (Inl e) \<Rightarrow> Inl (ErrWrap (''topic '' @ DispatchTopic) e)
   | Inr (Inr n) \<Rightarrow> Inr n)"

definition CheckTopic :: "(string \<Rightarrow> error + nat res) \<Rightarrow> string list \<Rightarrow> nat res" where
  "CheckTopic dial brokers =
     (if brokers = [] then Inl (ErrText ''no kafka brokers configured'')
      else check_brokers dial (ErrText []) brokers)"

section \<open>Messages are read back\<close>

lemmas dispatch_names = utf8_fix_ascii [of "''run_id''"] utf8_fix_ascii [of "''job_id''"]
  utf8_fix_ascii [of "''job_type''"] utf8_fix_ascii [of "''attempt''"]

lemma unmarshal_dispatch:
  assumes "int64_min \<le> q_attempt d" and "q_attempt d \<le> int64_max"
  shows "unmarshal dispatch_fields (print_json (dispatch_json d)) zero_dispatch =
     Inr \<lparr>q_run_id = utf8_fix (q_run_id d), q_job_id = utf8_fix (q_job_id d),
          q_job_type = utf8_fix (q_job_type d), q_attempt = q_attempt d\<rparr>"
proof -
  have r: "parse_all (print_json (dispatch_json d)) = Inr (read_back (dispatch_json d))"
    by (rule parse_all_print) (simp_all add: dispatch_json_def member_def max_depth_def)
  have "decode_struct False dispatch_fields (read_back (dispatch_json d)) zero_dispatch =
      (None, \<lparr>q_run_id = utf8_fix (q_run_id d), q_job_id = utf8_fix (q_job_id d),
          q_job_type = utf8_fix (q_job_type d), q_attempt = q_attempt d\<rparr>)"
    using assms
    by (simp add: dispatch_json_def member_def decode_struct_def dispatch_names find_field_def dispatch_fields_def
        set_int_json set_string_def zero_dispatch_def)
  with r show ?thesis by (simp add: unmarshal_def)
qed

lemma dispatch_decodes:
  assumes "runID \<noteq> []" and "valid_utf8 runID" and "valid_utf8 jobID" and "valid_utf8 jobType"
    and "int64_min \<le> attempt" and "attempt \<le> int64_max"
  shows "DecodeDispatch (m_value (dispatchMessage runID jobID attempt jobType)) =
      Inr \<lparr>q_run_id = runID, q_job_id = jobID, q_job_type = jobType, q_attempt = attempt\<rparr>
    \<and> m_key (dispatchMessage runID jobID attempt jobType) = runID"
  using unmarshal_dispatch [of "\<lparr>q_run_id = runID, q_job_id = jobID, q_job_type = jobType, q_attempt = attempt\<rparr>"] assms
  by (simp add: DecodeDispatch_def dispatchMessage_def utf8_fix_valid)

text \<open>
  A worker decodes from a dispatch message exactly the run, job, type and attempt it was published
  for, and the message is keyed by the run.
\<close>

theorem dispatch_roundtrip:
  assumes "runID \<noteq> []" and "valid_utf8 runID" and "valid_utf8 jobID" and "valid_utf8 jobType"
    and "int64_min \<le> attempt" and "attempt \<le> int64_max"
  shows "DecodeDispatch (m_value (dispatchMessage runID jobID attempt jobType)) =
      Inr \<lparr>q_run_id = runID, q_job_id = jobID, q_job_type = jobType, q_attempt = attempt\<rparr>
    \<and> m_key (dispatchMessage runID jobID attempt jobType) = runID"
  by (rule dispatch_decodes [OF assms])

theorem dispatch_roundtrip_witness:
  "DecodeDispatch (m_value (dispatchMessage ''R'' ''J'' 2 ''generate_text'')) =
     Inr \<lparr>q_run_id = ''R'', q_job_id = ''J'', q_job_type = ''generate_text'', q_attempt = 2\<rparr>"
proof -
  have v: "valid_utf8 ''R''" "valid_utf8 ''J''" "valid_utf8 ''generate_text''"
    by (simp_all add: valid_utf8.simps rune_len_ascii)
  show ?thesis using dispatch_roundtrip [OF _ v, of 2] by (simp add: int64_min_def int64_max_def)
qed

text \<open>
  \<open>CheckTopic\<close> answers for the first broker that can be reached, whatever comes after it, and it
  fails with the last connection error only when none can be.
\<close>

theorem CheckTopic_spec:
  "CheckTopic dial brokers =
     (case dropWhile (\<lambda>b. \<exists>e. dial b = Inl e) brokers of
        b # _ \<Rightarrow> (case dial b of Inr (Inr n) \<Rightarrow> Inr n
                  | Inr (Inl e) \<Rightarrow> Inl (ErrWrap (''topic '' @ DispatchTopic) e)
                  | Inl e \<Rightarrow> Inl e)
      | [] \<Rightarrow> if brokers = [] then Inl (ErrText ''no kafka brokers configured'')
              else (case dial (last brokers) of Inl e \<Rightarrow> Inl (ErrWrap ''reach kafka'' e)
                    | Inr _ \<Rightarrow> Inl (ErrText [])))"
proof -
  have "check_brokers dial e bs =
     (case dropWhile (\<lambda>b. \<exists>e. dial b = Inl e) bs of
        b # _ \<Rightarrow> (case dial b of Inr (Inr n) \<Rightarrow> Inr n
                  | Inr (Inl e) \<Rightarrow> Inl (ErrWrap (''topic '' @ DispatchTopic) e)
                  | Inl e \<Rightarrow> Inl e)
      | [] \<Rightarrow> if bs = [] then Inl (ErrWrap ''reach kafka'' e)
              else (case dial (last bs) of Inl e \<Rightarrow> Inl (ErrWrap ''reach kafka'' e)
                    | Inr _ \<Rightarrow> Inl (ErrText [])))" for e bs
    by (induction bs arbitrary: e) (auto split: sum.splits list.splits)
  then show ?thesis by (simp add: CheckTopic_def)
qed

end
