(* ===== verification/Api.thy ===== *)
theory Api
  imports StoreRuns Job Queue
begin

text \<open>
  \<open>internal/api/api.go\<close> and \<open>internal/api/handlers.go\<close>: what each request does to the database and the
  broker, and the response it gets. A response is its status and the value \<open>writeJSON\<close> encodes. What
  \<open>net/http\<close> makes of a request (the \<open>{id}\<close> segment, the query, the body) is the request's record;
  \<open>uuid.Parse\<close> followed by \<open>String\<close> is the parameter \<open>uuid_of\<close>. Each store call has its environment.
\<close>

section \<open>Requests and responses\<close>

record request =
  h_id :: string
  h_query :: "string \<Rightarrow> string"   \<comment> \<open>\<open>r.URL.Query().Get\<close>: empty when absent\<close>
  h_body :: string

record logs_response =
  lr_run_id :: uuid
  lr_attempt :: int
  lr_status :: status
  lr_lines :: "log_line list"
  lr_next_seq :: int

datatype content = BError string | BStatus string | BJob job | BJobs "job list" | BRun run | BRuns "run list"
  | BLogs logs_response

record response =
  re_status :: int
  re_body :: content

definition writeJSON :: "int \<Rightarrow> content \<Rightarrow> response" where
  "writeJSON st v = \<lparr>re_status = st, re_body = v\<rparr>"

definition writeError :: "int \<Rightarrow> string \<Rightarrow> response" where
  "writeError st msg = writeJSON st (BError msg)"

definition storeError :: "string \<Rightarrow> error \<Rightarrow> response" where
  "storeError what err = (if is_not_found err then writeError 404 (what @ '' not found'') else writeError 500 ''internal error'')"

definition maxBodyBytes :: nat where "maxBodyBytes = 1048576"

text \<open>
  \<open>Decoder.More\<close>: the next byte that is not white space, if there is one, does not close an array or
  an object. A body longer than the limit is cut off; the error reading on meets has the wording of
  a malformed body here.
\<close>

definition More :: "string \<Rightarrow> bool" where
  "More rest = (case skip_ws rest of [] \<Rightarrow> False | c # _ \<Rightarrow> c \<noteq> CHR '']'' \<and> c \<noteq> CHR ''}'')"

definition decodeJSON :: "(string \<times> 's setter) list \<Rightarrow> string \<Rightarrow> 's \<Rightarrow> 's res" where
  "decodeJSON fds body v =
     (case decode_next True fds (take maxBodyBytes body) v of
        Inl e \<Rightarrow> Inl (ErrWrap ''invalid JSON body'' (ErrJson e))
      | Inr (v', rest) \<Rightarrow>
          if More rest then Inl (ErrText ''invalid JSON body: unexpected data after object'') else Inr v')"

definition pathID :: "(string \<Rightarrow> uuid option) \<Rightarrow> request \<Rightarrow> response + uuid" where
  "pathID uuid_of r = (case uuid_of (h_id r) of None \<Rightarrow> Inl (writeError 400 ''invalid id'') | Some i \<Rightarrow> Inr i)"

definition queryInt :: "request \<Rightarrow> string \<Rightarrow> int \<Rightarrow> int \<Rightarrow> int \<Rightarrow> int res" where
  "queryInt r name dflt lo hi =
     (let raw = h_query r name in
      if raw = [] then Inr dflt
      else case atoi raw of
             None \<Rightarrow> Inl (ErrText (name @ '' must be an integer between '' @ itoa lo @ '' and '' @ itoa hi))
           | Some n \<Rightarrow> if n < lo \<or> n > hi
                then Inl (ErrText (name @ '' must be an integer between '' @ itoa lo @ '' and '' @ itoa hi))
                else Inr n)"

section \<open>Creating a job\<close>

definition defaultMaxRetries :: int where "defaultMaxRetries = 3"
definition maxMaxRetries :: int where "maxMaxRetries = 10"
definition defaultTimeoutSec :: int where "defaultTimeoutSec = 300"
definition maxTimeoutSec :: int where "maxTimeoutSec = 24 * 60 * 60"

record create_request =
  cr_name :: string
  cr_type :: string
  cr_payload :: string
  cr_cron_expr :: string
  cr_timezone :: string
  cr_max_retries :: "int option"
  cr_timeout_sec :: "int option"

definition create_fields :: "(string \<times> create_request setter) list" where
  "create_fields =
     [(''name'', set_string ''name'' (\<lambda>t r. r\<lparr>cr_name := t\<rparr>)),
      (''type'', set_string ''type'' (\<lambda>t r. r\<lparr>cr_type := t\<rparr>)),
      (''payload'', set_raw (\<lambda>t r. r\<lparr>cr_payload := t\<rparr>)),
      (''cron_expr'', set_string ''cron_expr'' (\<lambda>t r. r\<lparr>cr_cron_expr := t\<rparr>)),
      (''timezone'', set_string ''timezone'' (\<lambda>t r. r\<lparr>cr_timezone := t\<rparr>)),
      (''max_retries'', set_ptr (\<lambda>x r. r\<lparr>cr_max_retries := x\<rparr>) (set_int ''max_retries'')),
      (''timeout_sec'', set_ptr (\<lambda>x r. r\<lparr>cr_timeout_sec := x\<rparr>) (set_int ''timeout_sec''))]"

definition zero_request :: create_request where
  "zero_request = \<lparr>cr_name = [], cr_type = [], cr_payload = [], cr_cron_expr = [], cr_timezone = [],
     cr_max_retries = None, cr_timeout_sec = None\<rparr>"

text \<open>An optional number of the request: its default when absent, an error outside its range.\<close>

definition ranged :: "string \<Rightarrow> int \<Rightarrow> int \<Rightarrow> int \<Rightarrow> int option \<Rightarrow> int res" where
  "ranged name lo hi dflt x = (case x of None \<Rightarrow> Inr dflt
     | Some n \<Rightarrow> if n < lo \<or> n > hi
         then Inl (ErrText (name @ '' must be between '' @ itoa lo @ '' and '' @ itoa hi)) else Inr n)"

definition newJob :: "('loc, 'sched) zones \<Rightarrow> time \<Rightarrow> create_request \<Rightarrow> new_job res" where
  "newJob z now req =
     (let name = TrimSpace (cr_name req);
          payload = (if cr_payload req = [] then ''{}'' else cr_payload req);
          tz = (if cr_timezone req = [] then ''UTC'' else cr_timezone req);
          expr = TrimSpace (cr_cron_expr req)
      in if name = [] then Inl (ErrText ''name is required'')
         else case Validate (cr_type req) payload of Some e \<Rightarrow> Inl e | None \<Rightarrow>
         if (case z_load z tz of Inl _ \<Rightarrow> True | Inr _ \<Rightarrow> False) \<or> tz = ''Local'' then Inl (unknown_timezone tz)
         else case (if expr = [] then Inr (None, None)
                    else case NextRun z expr tz now of Inl e \<Rightarrow> Inl e | Inr t \<Rightarrow> Inr (Some expr, Some t)) of
           Inl e \<Rightarrow> Inl e
         | Inr (cron, next) \<Rightarrow>
             (case ranged ''max_retries'' 0 maxMaxRetries defaultMaxRetries (cr_max_retries req) of Inl e \<Rightarrow> Inl e
              | Inr retries \<Rightarrow>
                  (case ranged ''timeout_sec'' 1 maxTimeoutSec defaultTimeoutSec (cr_timeout_sec req) of Inl e \<Rightarrow> Inl e
                   | Inr timeout \<Rightarrow>
                       Inr \<lparr>n_name = name, n_type = cr_type req, n_payload = payload, n_cron_expr = cron,
                            n_timezone = tz, n_next_run_at = next, n_max_retries = retries, n_timeout_sec = timeout\<rparr>)))"

definition handleCreateJob :: "('loc, 'sched) zones \<Rightarrow> time \<Rightarrow> env \<Rightarrow> request \<Rightarrow> db \<Rightarrow> response \<times> db" where
  "handleCreateJob z now e r d =
     (case decodeJSON create_fields (h_body r) zero_request of
        Inl err \<Rightarrow> (writeError 400 (error_text err), d)
      | Inr req \<Rightarrow>
          (case newJob z now req of
             Inl err \<Rightarrow> (writeError 400 (error_text err), d)
           | Inr n \<Rightarrow>
               (case CreateJob e n d of
                  (Inl err, d') \<Rightarrow> (storeError ''job'' err, d')
                | (Inr j, d') \<Rightarrow> (writeJSON 201 (BJob j), d'))))"

section \<open>The other handlers\<close>

definition handleHealthz :: response where "handleHealthz = writeJSON 200 (BStatus ''ok'')"

text \<open>\<open>ping\<close> is the result of \<open>store.Ping\<close>.\<close>

definition handleReadyz :: "error option \<Rightarrow> response" where
  "handleReadyz ping = (case ping of
     Some err \<Rightarrow> writeJSON 503 (BStatus ''unavailable'') | None \<Rightarrow> writeJSON 200 (BStatus ''ready''))"

definition handleListJobs :: "env \<Rightarrow> request \<Rightarrow> db \<Rightarrow> response \<times> db" where
  "handleListJobs e r d = (case queryInt r ''limit'' 50 1 200 of
     Inl err \<Rightarrow> (writeError 400 (error_text err), d)
   | Inr limit \<Rightarrow> (case ListJobs e (nat limit) d of
       (Inl err, d') \<Rightarrow> (storeError ''jobs'' err, d') | (Inr js, d') \<Rightarrow> (writeJSON 200 (BJobs js), d')))"

definition handleGetJob :: "(string \<Rightarrow> uuid option) \<Rightarrow> env \<Rightarrow> request \<Rightarrow> db \<Rightarrow> response \<times> db" where
  "handleGetJob uuid_of e r d = (case pathID uuid_of r of Inl resp \<Rightarrow> (resp, d)
   | Inr i \<Rightarrow> (case GetJob e i d of
       (Inl err, d') \<Rightarrow> (storeError ''job'' err, d') | (Inr j, d') \<Rightarrow> (writeJSON 200 (BJob j), d')))"

definition handleSetEnabled ::
  "(string \<Rightarrow> uuid option) \<Rightarrow> ('loc, 'sched) zones \<Rightarrow> time \<Rightarrow> bool \<Rightarrow> env \<Rightarrow> env \<Rightarrow> request \<Rightarrow> db \<Rightarrow> response \<times> db" where
  "handleSetEnabled uuid_of z now enabled e1 e2 r d = (case pathID uuid_of r of Inl resp \<Rightarrow> (resp, d)
   | Inr i \<Rightarrow> (case GetJob e1 i d of
       (Inl err, d1) \<Rightarrow> (storeError ''job'' err, d1)
     | (Inr j, d1) \<Rightarrow>
         (case (case j_cron_expr j of
                  Some c \<Rightarrow> if enabled then map_sum (ErrWrap ''compute next run'') Some (NextRun z c (j_timezone j) now) else Inr None
                | None \<Rightarrow> Inr None) of
            Inl err \<Rightarrow> (storeError ''job'' err, d1)
          | Inr next \<Rightarrow>
              (case SetJobEnabled e2 i enabled next d1 of
                 (Inl err, d2) \<Rightarrow> (storeError ''job'' err, d2)
               | (Inr j', d2) \<Rightarrow> (writeJSON 200 (BJob j'), d2)))))"

text \<open>\<open>handleRunJob\<close> also has the broker; the client's disconnecting does not cancel \<open>FailQueuedRun\<close>.\<close>

definition handleRunJob ::
  "(string \<Rightarrow> uuid option) \<Rightarrow> 'k writer \<Rightarrow> env \<Rightarrow> env \<Rightarrow> env \<Rightarrow> request \<Rightarrow> db \<times> 'k \<Rightarrow> response \<times> db \<times> 'k" where
  "handleRunJob uuid_of write e1 e2 e3 r st = (case pathID uuid_of r of Inl resp \<Rightarrow> (resp, st)
   | Inr i \<Rightarrow> (case GetJob e1 i (fst st) of
       (Inl err, d1) \<Rightarrow> (storeError ''job'' err, d1, snd st)
     | (Inr j, d1) \<Rightarrow> (case CreateManualRun e2 (j_id j) d1 of
         (Inl err, d2) \<Rightarrow> (storeError ''job'' err, d2, snd st)
       | (Inr rn, d2) \<Rightarrow> (case Dispatch write (r_id rn) (r_job_id rn) (r_attempt rn) (j_type j) (snd st) of
           (Some err, k) \<Rightarrow> (writeError 502 ''could not dispatch run'',
               snd (FailQueuedRun e3 (r_id rn) (''dispatch failed: '' @ error_text err) d2), k)
         | (None, k) \<Rightarrow> (writeJSON 202 (BRun rn), d2, k)))))"

definition handleListRuns :: "(string \<Rightarrow> uuid option) \<Rightarrow> env \<Rightarrow> request \<Rightarrow> db \<Rightarrow> response \<times> db" where
  "handleListRuns uuid_of e r d = (case queryInt r ''limit'' 50 1 200 of
     Inl err \<Rightarrow> (writeError 400 (error_text err), d)
   | Inr limit \<Rightarrow>
       (let raw = h_query r ''job_id'' in
        if raw \<noteq> [] \<and> uuid_of raw = None then (writeError 400 ''invalid job_id'', d)
        else (case ListRuns e (if raw = [] then None else uuid_of raw) (nat limit) d of
          (Inl err, d') \<Rightarrow> (storeError ''runs'' err, d') | (Inr rs, d') \<Rightarrow> (writeJSON 200 (BRuns rs), d'))))"

definition handleGetRun :: "(string \<Rightarrow> uuid option) \<Rightarrow> env \<Rightarrow> request \<Rightarrow> db \<Rightarrow> response \<times> db" where
  "handleGetRun uuid_of e r d = (case pathID uuid_of r of Inl resp \<Rightarrow> (resp, d)
   | Inr i \<Rightarrow> (case GetRun e i d of
       (Inl err, d') \<Rightarrow> (storeError ''run'' err, d') | (Inr rn, d') \<Rightarrow> (writeJSON 200 (BRun rn), d')))"

text \<open>\<open>math.MaxInt\<close> is the largest 64-bit integer; the sequence number after it wraps around.\<close>

definition handleListLogs :: "(string \<Rightarrow> uuid option) \<Rightarrow> env \<Rightarrow> env \<Rightarrow> request \<Rightarrow> db \<Rightarrow> response \<times> db" where
  "handleListLogs uuid_of e1 e2 r d = (case pathID uuid_of r of Inl resp \<Rightarrow> (resp, d)
   | Inr i \<Rightarrow> (case GetRun e1 i d of
       (Inl err, d1) \<Rightarrow> (storeError ''run'' err, d1)
     | (Inr rn, d1) \<Rightarrow> (case queryInt r ''attempt'' (r_attempt rn) 1 (r_attempt rn) of
         Inl err \<Rightarrow> (writeError 400 (error_text err), d1)
       | Inr attempt \<Rightarrow> (case queryInt r ''from_seq'' 1 1 int64_max of
           Inl err \<Rightarrow> (writeError 400 (error_text err), d1)
         | Inr fromSeq \<Rightarrow> (case queryInt r ''limit'' 500 1 1000 of
             Inl err \<Rightarrow> (writeError 400 (error_text err), d1)
           | Inr limit \<Rightarrow> (case ListLogs e2 (r_id rn) attempt fromSeq (nat limit) d1 of
               (Inl err, d2) \<Rightarrow> (storeError ''run'' err, d2)
             | (Inr ls, d2) \<Rightarrow> (writeJSON 200 (BLogs \<lparr>lr_run_id = r_id rn, lr_attempt = attempt, lr_status = r_status rn,
                 lr_lines = ls, lr_next_seq = (if ls = [] then fromSeq else wrap64 (l_seq (last ls) + 1))\<rparr>), d2)))))))"

end
