(* ===== verification/Stream.thy ===== *)
theory Stream
  imports Api
begin

text \<open>
  \<open>internal/api/stream.go\<close>: a run's log as server-sent events. The handler is a machine that makes one
  store call per step; what it writes to the client is a list of events. Each step's input says how
  the store call goes and what happens to the connection meanwhile.
\<close>

section \<open>Events, state, inputs\<close>

definition streamBatch :: nat where "streamBatch = 500"

fun isFinal :: "status \<Rightarrow> bool" where
  "isFinal StatusSucceeded = True"
| "isFinal StatusFailed = True"
| "isFinal StatusCancelled = True"
| "isFinal _ = False"

datatype sse = SAttempt int | SLine log_line | SEnd status int "string option" | SPing

text \<open>Before \<open>GetRun\<close>, before a \<open>ListLogs\<close> with the run just read, returned.\<close>

datatype stream_pc = PGetRun | PPage run | PDone

record stream =
  s_attempt :: int
  s_next :: int
  s_out :: "sse list"
  s_pc :: stream_pc

text \<open>
  \<open>i_sends\<close>: how many more writes the client takes, \<open>None\<close> for all; \<open>i_idle\<close>: the last write was
  \<open>streamPing\<close> ago; \<open>i_stop\<close>: the flush fails or the context ends before the next poll.
\<close>

record stream_input =
  i_env :: env
  i_sends :: "nat option"
  i_idle :: bool
  i_stop :: bool

section \<open>Operations\<close>

text \<open>Writing events: what reaches the client, and whether all of it did.\<close>

definition send_all :: "stream_input \<Rightarrow> sse list \<Rightarrow> sse list \<times> bool" where
  "send_all x evs = (case i_sends x of None \<Rightarrow> (evs, True) | Some n \<Rightarrow> (take n evs, length evs \<le> n))"

definition start_stream :: "int \<Rightarrow> int \<Rightarrow> stream" where
  "start_stream attempt fromSeq = \<lparr>s_attempt = attempt, s_next = fromSeq, s_out = [SAttempt attempt], s_pc = PGetRun\<rparr>"

text \<open>The handler up to its loop: an error response, or the run's identifier and the started stream.\<close>

definition open_stream :: "(string \<Rightarrow> uuid option) \<Rightarrow> env \<Rightarrow> request \<Rightarrow> db \<Rightarrow> (response + uuid \<times> stream) \<times> db" where
  "open_stream uuid_of e r d = (case pathID uuid_of r of Inl resp \<Rightarrow> (Inl resp, d)
   | Inr i \<Rightarrow> (case GetRun e i d of
       (Inl err, d1) \<Rightarrow> (Inl (storeError ''run'' err), d1)
     | (Inr rn, d1) \<Rightarrow> (case queryInt r ''attempt'' 1 1 (r_attempt rn) of
         Inl err \<Rightarrow> (Inl (writeError 400 (error_text err)), d1)
       | Inr attempt \<Rightarrow> (case queryInt r ''from_seq'' 1 1 int64_max of
           Inl err \<Rightarrow> (Inl (writeError 400 (error_text err)), d1)
         | Inr fromSeq \<Rightarrow> (Inr (i, start_stream attempt fromSeq), d1)))))"

definition next_seq :: "int \<Rightarrow> log_line list \<Rightarrow> int" where
  "next_seq next ls = (if ls = [] then next else wrap64 (l_seq (last ls) + 1))"

text \<open>A page of lines has been read: what is sent, and where the handler goes on.\<close>

definition after_page :: "stream_input \<Rightarrow> run \<Rightarrow> log_line list \<Rightarrow> stream \<Rightarrow> sse list \<times> stream" where
  "after_page x run ls st =
     (let sent = map SLine ls; st1 = st\<lparr>s_next := next_seq (s_next st) ls\<rparr> in
      if \<not> length ls < streamBatch then (sent, st1)
      else if s_attempt st < r_attempt run
        then (sent @ [SAttempt (s_attempt st + 1)], st1\<lparr>s_attempt := s_attempt st + 1, s_next := 1, s_pc := PGetRun\<rparr>)
      else if isFinal (r_status run)
        then (sent @ [SEnd (r_status run) (r_attempt run) (r_error run)], st1\<lparr>s_pc := PDone\<rparr>)
      else (sent @ (if i_idle x then [SPing] else []), st1\<lparr>s_pc := (if i_stop x then PDone else PGetRun)\<rparr>))"

definition stream_step :: "uuid \<Rightarrow> stream_input \<Rightarrow> stream \<times> db \<Rightarrow> stream \<times> db" where
  "stream_step i x sd = (case s_pc (fst sd) of
     PDone \<Rightarrow> sd
   | PGetRun \<Rightarrow> (case GetRun (i_env x) i (snd sd) of
       (Inl err, d) \<Rightarrow> ((fst sd)\<lparr>s_pc := PDone\<rparr>, d)
     | (Inr run, d) \<Rightarrow> ((fst sd)\<lparr>s_pc := PPage run\<rparr>, d))
   | PPage run \<Rightarrow> (case ListLogs (i_env x) i (s_attempt (fst sd)) (s_next (fst sd)) streamBatch (snd sd) of
       (Inl err, d) \<Rightarrow> ((fst sd)\<lparr>s_pc := PDone\<rparr>, d)
     | (Inr ls, d) \<Rightarrow>
         (let (evs, st) = after_page x run ls (fst sd); (sent, ok) = send_all x evs
          in (st\<lparr>s_out := s_out st @ sent, s_pc := (if ok then s_pc st else PDone)\<rparr>, d))))"

fun stream_run :: "uuid \<Rightarrow> stream_input list \<Rightarrow> stream \<times> db \<Rightarrow> stream \<times> db" where
  "stream_run i [] sd = sd"
| "stream_run i (x # xs) sd = stream_run i xs (stream_step i x sd)"

section \<open>The stored log\<close>

text \<open>The lines stored for an attempt, in the order of their numbers, and those from a number on.\<close>

definition all_lines :: "uuid \<Rightarrow> int \<Rightarrow> db \<Rightarrow> log_line list" where
  "all_lines i a d = sort_key l_seq (map snd (filter (\<lambda>x. fst x = i \<and> l_attempt (snd x) = a) (logs d)))"

definition lines_from :: "uuid \<Rightarrow> int \<Rightarrow> int \<Rightarrow> db \<Rightarrow> log_line list" where
  "lines_from i a s d = filter (\<lambda>l. s \<le> l_seq l) (all_lines i a d)"

text \<open>A database in which the handler's \<open>l.Seq + 1\<close> does not wrap.\<close>

definition db_good :: "db \<Rightarrow> bool" where
  "db_good d \<longleftrightarrow> schema_ok d \<and> list_all (\<lambda>x. l_seq (snd x) < int64_max) (logs d)"

section \<open>Pages\<close>

lemma all_lines_sorted: "sorted (map l_seq (all_lines i a d))"
  by (simp add: all_lines_def)

lemma all_lines_distinct: "schema_ok d \<Longrightarrow> distinct (map l_seq (all_lines i a d))"
proof -
  assume "schema_ok d"
  then have "distinct (map log_key (logs d))" by (simp only: schema_ok_def logs_ok_def)
  then have "distinct (logs d)" "inj_on log_key (set (logs d))" by (auto simp: distinct_map)
  then have "inj_on l_seq (set (all_lines i a d))" "distinct (all_lines i a d)"
    by (fastforce simp: all_lines_def inj_on_def log_key_def distinct_map)+
  then show ?thesis by (simp add: distinct_map)
qed

lemma attempt_lines_sorted: "sort_key l_seq (attempt_lines i a s d) = lines_from i a s d"
  by (simp add: attempt_lines_def lines_from_def all_lines_def filter_sort filter_map comp_def conj_ac)

lemma ListLogs_lines:
  assumes "ListLogs e i a s n d = (Inr ls, d')"
  shows "d' = e_others e d \<and> ls = take n (lines_from i a s d')"
  using pg_Inr [OF assms [unfolded ListLogs_def]] by (auto simp: order_limit_def attempt_lines_sorted)

text \<open>A strictly increasing list, cut at a key.\<close>

lemma sorted_cut:
  assumes "sorted (map key xs)" and "distinct (map key xs)"
  shows "xs = filter (\<lambda>x. key x < n) xs @ filter (\<lambda>x. n \<le> key x) xs"
  using assms
proof (induction xs)
  case (Cons x xs)
  show ?case
  proof (cases "key x < n")
    case True
    with Cons show ?thesis by auto
  next
    case False
    with Cons.prems have "\<forall>y \<in> set xs. n \<le> key y" by fastforce
    then have "filter (\<lambda>x. key x < n) xs = []" "filter (\<lambda>x. n \<le> key x) xs = xs"
      by (auto simp: filter_empty_conv filter_id_conv not_less)
    with False show ?thesis by simp
  qed
qed simp

lemma filter_below_split:
  fixes key :: "'a \<Rightarrow> int"
  assumes "sorted (map key (xs @ y # ys))" and "distinct (map key (xs @ y # ys))"
  shows "filter (\<lambda>x. key x < key y + 1) (xs @ y # ys) = xs @ [y]"
proof -
  have "\<forall>x \<in> set xs. key x \<le> key y" "\<forall>x \<in> set ys. key y \<le> key x" "\<forall>x \<in> set ys. key x \<noteq> key y"
    using assms by (auto simp: sorted_append image_iff)
  then have "filter (\<lambda>x. key x < key y + 1) xs = xs" "filter (\<lambda>x. key x < key y + 1) ys = []"
    by (force simp: filter_id_conv filter_empty_conv)+
  then show ?thesis by simp
qed

text \<open>Reading a page extends what was read before it without a gap or a repetition.\<close>

lemma page_extends:
  assumes "sorted (map l_seq xs)" and "distinct (map l_seq xs)" and "\<forall>l \<in> set xs. l_seq l < int64_max"
    and "1 \<le> s"
    and "page = take n (filter (\<lambda>l. s \<le> l_seq l) xs)"
  shows "filter (\<lambda>l. l_seq l < next_seq s page) xs = filter (\<lambda>l. l_seq l < s) xs @ page"
    and "page \<noteq> [] \<Longrightarrow> \<exists>l \<in> set xs. l_seq l + 1 = next_seq s page \<and> s \<le> l_seq l"
proof -
  let ?a = "filter (\<lambda>l. l_seq l < s) xs" and ?b = "filter (\<lambda>l. s \<le> l_seq l) xs"
  have xs: "xs = ?a @ ?b" by (rule sorted_cut) (rule assms(1), rule assms(2))
  have "filter (\<lambda>l. l_seq l < next_seq s page) xs = ?a @ page \<and>
     (page \<noteq> [] \<longrightarrow> (\<exists>l \<in> set xs. l_seq l + 1 = next_seq s page \<and> s \<le> l_seq l))"
  proof (cases "page = []")
    case True
    then show ?thesis by (simp add: next_seq_def)
  next
    case False
    define p l where p: "p = butlast page" "l = last page"
    have pg: "page = p @ [l]" using False by (simp add: p)
    define q where "q = drop n ?b"
    have "?b = page @ q" by (simp add: q_def assms(5))
    then have b: "?b = p @ l # q" by (simp only: pg append_assoc append_Cons append_Nil)
    have l: "l \<in> set xs" "s \<le> l_seq l"
    proof -
      have "l \<in> set ?b" unfolding b by simp
      then show "l \<in> set xs" "s \<le> l_seq l" by simp_all
    qed
    have w: "next_seq s page = l_seq l + 1"
    proof -
      have "l_seq l < int64_max" using l(1) assms(3) by blast
      then have "wrap64 (l_seq l + 1) = l_seq l + 1"
        using l(2) assms(4) by (intro wrap64_id) (simp_all add: int64_min_def)
      then show ?thesis by (simp add: next_seq_def pg)
    qed
    have x: "xs = (?a @ p) @ l # q" using xs b by simp
    have "filter (\<lambda>k. l_seq k < l_seq l + 1) ((?a @ p) @ l # q) = (?a @ p) @ [l]"
      by (rule filter_below_split) (use assms(1,2) x in \<open>simp_all only:\<close>)
    with arg_cong [OF x, of "filter (\<lambda>k. l_seq k < l_seq l + 1)"]
    have "filter (\<lambda>k. l_seq k < l_seq l + 1) xs = (?a @ p) @ [l]" by (rule trans)
    then have "filter (\<lambda>k. l_seq k < l_seq l + 1) xs = ?a @ page" by (simp only: pg append_assoc)
    then show ?thesis using w l by metis
  qed
  then show "filter (\<lambda>l. l_seq l < next_seq s page) xs = ?a @ page"
    and "page \<noteq> [] \<Longrightarrow> \<exists>l \<in> set xs. l_seq l + 1 = next_seq s page \<and> s \<le> l_seq l" by simp_all
qed

end
