(* ===== verification/StoreWorker.thy ===== *)
theory StoreWorker
  imports StoreRuns
begin

text \<open>
  \<open>internal/store/worker.go\<close> and \<open>internal/store/retry.go\<close>: claiming a run, the writes fenced by
  ownership of an attempt (heartbeat, finish, fail or retry, release), log appends, and the
  maintenance queries (reaper, sweeper, retry dispatcher).
\<close>

section \<open>Claiming\<close>

definition claimable :: "time \<Rightarrow> run \<Rightarrow> bool" where
  "claimable now r \<longleftrightarrow> r_status r = StatusQueued
     \<and> (case r_next_attempt_at r of None \<Rightarrow> True | Some t \<Rightarrow> t \<le> now)"

definition claim_row :: "time \<Rightarrow> string \<Rightarrow> run \<Rightarrow> run" where
  "claim_row now w r = r\<lparr>r_status := StatusRunning, r_worker_id := Some w, r_started_at := Some now,
     r_last_heartbeat_at := Some now, r_finished_at := None, r_next_attempt_at := None\<rparr>"

text \<open>\<open>Inr (Some r)\<close> is \<open>(r, true, nil)\<close>, \<open>Inr None\<close> is \<open>(Run{}, false, nil)\<close>.\<close>

definition ClaimRun :: "env \<Rightarrow> uuid \<Rightarrow> string \<Rightarrow> db \<Rightarrow> run option res \<times> db" where
  "ClaimRun e runID workerID d =
     (case pg e (\<lambda>d. let (hit, rs) = sql_update (\<lambda>r. r_id r = runID \<and> claimable (e_now e) r)
                                        (claim_row (e_now e) workerID) (runs d)
                    in (scanRun hit, d\<lparr>runs := rs\<rparr>)) d of
        (Inl x, d') \<Rightarrow> (if x = ErrNotFound then (Inr None, d') else (Inl x, d'))
      | (Inr r, d') \<Rightarrow> (Inr (Some r), d'))"

section \<open>Writes that apply only while the worker owns the attempt\<close>

definition owns :: "string \<Rightarrow> int \<Rightarrow> run \<Rightarrow> bool" where
  "owns w a r \<longleftrightarrow> r_worker_id r = Some w \<and> r_attempt r = a \<and> r_status r = StatusRunning"

definition heartbeat_row :: "time \<Rightarrow> run \<Rightarrow> run" where
  "heartbeat_row now r = r\<lparr>r_last_heartbeat_at := Some now\<rparr>"

definition Heartbeat :: "env \<Rightarrow> uuid \<Rightarrow> string \<Rightarrow> int \<Rightarrow> db \<Rightarrow> bool res \<times> db" where
  "Heartbeat e runID workerID attempt = pg e (\<lambda>d.
     let (hit, rs) = sql_update (\<lambda>r. r_id r = runID \<and> owns workerID attempt r)
                       (heartbeat_row (e_now e)) (runs d)
     in (Inr (length hit = 1), d\<lparr>runs := rs\<rparr>))"

definition finish_row :: "time \<Rightarrow> status \<Rightarrow> string option \<Rightarrow> string option \<Rightarrow> run \<Rightarrow> run" where
  "finish_row now st out er r = r\<lparr>r_status := st, r_output := out, r_error := er, r_finished_at := Some now\<rparr>"

definition FinishRun ::
  "env \<Rightarrow> uuid \<Rightarrow> string \<Rightarrow> int \<Rightarrow> status \<Rightarrow> string option \<Rightarrow> string option \<Rightarrow> db \<Rightarrow> bool res \<times> db" where
  "FinishRun e runID workerID attempt st out er = pg e (\<lambda>d.
     let (hit, rs) = sql_update (\<lambda>r. r_id r = runID \<and> owns workerID attempt r)
                       (finish_row (e_now e) st out er) (runs d)
     in (Inr (length hit = 1), d\<lparr>runs := rs\<rparr>))"

definition release_row :: "time \<Rightarrow> string \<Rightarrow> run \<Rightarrow> run" where
  "release_row now reason r = r\<lparr>r_status := StatusQueued, r_attempt := r_attempt r + 1, r_worker_id := None,
     r_started_at := None, r_last_heartbeat_at := None, r_queued_at := now, r_error := Some reason\<rparr>"

text \<open>\<open>attempt + 1\<close> raises in Postgres when it leaves the column's 32 bits.\<close>

definition attempt_overflows :: "(run \<Rightarrow> bool) \<Rightarrow> run list \<Rightarrow> bool" where
  "attempt_overflows P rs \<longleftrightarrow> (\<exists>r \<in> set rs. P r \<and> int4_max \<le> r_attempt r)"

definition ReleaseRun :: "env \<Rightarrow> uuid \<Rightarrow> string \<Rightarrow> int \<Rightarrow> string \<Rightarrow> db \<Rightarrow> bool res \<times> db" where
  "ReleaseRun e runID workerID attempt reason = pg e (\<lambda>d.
     let P = (\<lambda>r. r_id r = runID \<and> owns workerID attempt r) in
     if attempt_overflows P (runs d) then (Inl (ErrPg pgNumericOverflow), d)
     else let (hit, rs) = sql_update P (release_row (e_now e) reason) (runs d)
          in (Inr (length hit = 1), d\<lparr>runs := rs\<rparr>))"

section \<open>A failed attempt: retry or fail for good\<close>

definition exhausted :: "db \<Rightarrow> run \<Rightarrow> bool" where
  "exhausted d r = (case find_job (r_job_id r) d of None \<Rightarrow> False | Some j \<Rightarrow> j_max_retries j < r_attempt r)"

definition fail_or_retry_row :: "time \<Rightarrow> string \<Rightarrow> duration \<Rightarrow> bool \<Rightarrow> run \<Rightarrow> run" where
  "fail_or_retry_row now errMsg backoff ex r = r\<lparr>
     r_status := (if ex then StatusFailed else StatusQueued),
     r_attempt := (if ex then r_attempt r else r_attempt r + 1),
     r_error := Some errMsg,
     r_finished_at := (if ex then Some now else None),
     r_next_attempt_at := (if ex then None else Some (now + interval_us backoff)),
     r_queued_at := (if ex then r_queued_at r else now),
     r_worker_id := (if ex then r_worker_id r else None),
     r_started_at := (if ex then r_started_at r else None),
     r_last_heartbeat_at := (if ex then r_last_heartbeat_at r else None)\<rparr>"

text \<open>The result is the run's new status, \<open>None\<close> for the empty string.\<close>

definition FailOrRetry ::
  "env \<Rightarrow> uuid \<Rightarrow> string \<Rightarrow> int \<Rightarrow> string \<Rightarrow> duration \<Rightarrow> db \<Rightarrow> status option res \<times> db" where
  "FailOrRetry e runID workerID attempt errMsg backoff = pg e (\<lambda>d.
     let P = (\<lambda>r. r_id r = runID \<and> owns workerID attempt r \<and> find_job (r_job_id r) d \<noteq> None) in
     if attempt_overflows (\<lambda>r. P r \<and> \<not> exhausted d r) (runs d) then (Inl (ErrPg pgNumericOverflow), d)
     else let (hit, rs) = sql_update P (\<lambda>r. fail_or_retry_row (e_now e) errMsg backoff (exhausted d r) r) (runs d)
          in (Inr (case hit of [] \<Rightarrow> None | r # _ \<Rightarrow> Some (r_status r)), d\<lparr>runs := rs\<rparr>))"

section \<open>Logs\<close>

definition insert_log :: "uuid \<Rightarrow> int \<Rightarrow> log_line \<Rightarrow> (uuid \<times> log_line) list \<Rightarrow> (uuid \<times> log_line) list" where
  "insert_log runID attempt l t =
     (let x = (runID, l\<lparr>l_attempt := attempt\<rparr>)
      in if log_key x \<in> log_key ` set t then t else t @ [x])"

definition AppendLogs :: "env \<Rightarrow> uuid \<Rightarrow> int \<Rightarrow> log_line list \<Rightarrow> db \<Rightarrow> unit res \<times> db" where
  "AppendLogs e runID attempt lines d =
     (if lines = [] then (Inr (), d)
      else pg e (\<lambda>d.
        if \<not> (\<forall>l \<in> set lines. l_level l \<in> set log_levels) then (Inl (ErrPg pgCheckViolation), d)
        else if find_run runID d = None then (Inl (ErrPg pgForeignKeyViolation), d)
        else (Inr (), d\<lparr>logs := fold (insert_log runID attempt) lines (logs d)\<rparr>)) d)"

section \<open>Maintenance queries\<close>

text \<open>\<open>collectRedispatches\<close>: what the maintenance loop needs of each changed row.\<close>

definition collectRedispatches :: "db \<Rightarrow> run list \<Rightarrow> redispatch list" where
  "collectRedispatches d = map (\<lambda>r. \<lparr>d_run_id = r_id r, d_job_id = r_job_id r,
     d_job_type = (case find_job (r_job_id r) d of None \<Rightarrow> [] | Some j \<Rightarrow> j_type j),
     d_status = r_status r, d_attempt = r_attempt r\<rparr>)"

definition is_stale :: "env \<Rightarrow> duration \<Rightarrow> db \<Rightarrow> run \<Rightarrow> bool" where
  "is_stale e staleAfter d r \<longleftrightarrow> r_status r = StatusRunning
     \<and> (case r_last_heartbeat_at r of None \<Rightarrow> False | Some t \<Rightarrow> t < e_now e - interval_us staleAfter)
     \<and> find_job (r_job_id r) d \<noteq> None \<and> r_id r \<notin> set (e_locked e)"

definition time_or_0 :: "time option \<Rightarrow> time" where
  "time_or_0 t = (case t of None \<Rightarrow> 0 | Some x \<Rightarrow> x)"

definition stale_runs :: "env \<Rightarrow> duration \<Rightarrow> nat \<Rightarrow> db \<Rightarrow> run list" where
  "stale_runs e staleAfter limit d =
     order_limit (\<lambda>r. time_or_0 (r_last_heartbeat_at r)) limit (filter (is_stale e staleAfter d) (runs d))"

definition lost_worker_error :: "run \<Rightarrow> string" where
  "lost_worker_error r = ''attempt '' @ itoa (r_attempt r) @ '' lost worker ''
     @ (case r_worker_id r of None \<Rightarrow> [] | Some w \<Rightarrow> w)"

definition reap_row :: "time \<Rightarrow> bool \<Rightarrow> run \<Rightarrow> run" where
  "reap_row now ex r = r\<lparr>
     r_status := (if ex then StatusFailed else StatusQueued),
     r_attempt := (if ex then r_attempt r else r_attempt r + 1),
     r_error := Some (lost_worker_error r),
     r_finished_at := (if ex then Some now else None),
     r_queued_at := (if ex then r_queued_at r else now),
     r_worker_id := (if ex then r_worker_id r else None),
     r_started_at := (if ex then r_started_at r else None),
     r_last_heartbeat_at := (if ex then r_last_heartbeat_at r else None)\<rparr>"

definition ReapStale :: "env \<Rightarrow> duration \<Rightarrow> nat \<Rightarrow> db \<Rightarrow> redispatch list res \<times> db" where
  "ReapStale e staleAfter limit = pg e (\<lambda>d.
     let stale = map r_id (stale_runs e staleAfter limit d); P = (\<lambda>r. r_id r \<in> set stale) in
     if attempt_overflows (\<lambda>r. P r \<and> \<not> exhausted d r) (runs d) then (Inl (ErrPg pgNumericOverflow), d)
     else let (hit, rs) = sql_update P (\<lambda>r. reap_row (e_now e) (exhausted d r) r) (runs d)
          in (Inr (collectRedispatches d hit), d\<lparr>runs := rs\<rparr>))"

definition is_stuck :: "env \<Rightarrow> duration \<Rightarrow> db \<Rightarrow> run \<Rightarrow> bool" where
  "is_stuck e olderThan d r \<longleftrightarrow> r_status r = StatusQueued
     \<and> r_queued_at r < e_now e - interval_us olderThan
     \<and> (case r_next_attempt_at r of None \<Rightarrow> True | Some t \<Rightarrow> t \<le> e_now e)
     \<and> find_job (r_job_id r) d \<noteq> None \<and> r_id r \<notin> set (e_locked e)"

definition stuck_runs :: "env \<Rightarrow> duration \<Rightarrow> nat \<Rightarrow> db \<Rightarrow> run list" where
  "stuck_runs e olderThan limit d = order_limit r_queued_at limit (filter (is_stuck e olderThan d) (runs d))"

definition sweep_row :: "time \<Rightarrow> run \<Rightarrow> run" where
  "sweep_row now r = r\<lparr>r_queued_at := now\<rparr>"

definition SweepQueued :: "env \<Rightarrow> duration \<Rightarrow> nat \<Rightarrow> db \<Rightarrow> redispatch list res \<times> db" where
  "SweepQueued e olderThan limit = pg e (\<lambda>d.
     let due = map r_id (stuck_runs e olderThan limit d);
         (hit, rs) = sql_update (\<lambda>r. r_id r \<in> set due) (sweep_row (e_now e)) (runs d)
     in (Inr (collectRedispatches d hit), d\<lparr>runs := rs\<rparr>))"

definition is_due_retry :: "env \<Rightarrow> db \<Rightarrow> run \<Rightarrow> bool" where
  "is_due_retry e d r \<longleftrightarrow> r_status r = StatusQueued
     \<and> (case r_next_attempt_at r of None \<Rightarrow> False | Some t \<Rightarrow> t \<le> e_now e)
     \<and> find_job (r_job_id r) d \<noteq> None \<and> r_id r \<notin> set (e_locked e)"

definition due_retries :: "env \<Rightarrow> nat \<Rightarrow> db \<Rightarrow> run list" where
  "due_retries e limit d =
     order_limit (\<lambda>r. time_or_0 (r_next_attempt_at r)) limit (filter (is_due_retry e d) (runs d))"

definition retry_row :: "time \<Rightarrow> run \<Rightarrow> run" where
  "retry_row now r = r\<lparr>r_next_attempt_at := None, r_queued_at := now\<rparr>"

definition DueRetries :: "env \<Rightarrow> nat \<Rightarrow> db \<Rightarrow> redispatch list res \<times> db" where
  "DueRetries e limit = pg e (\<lambda>d.
     let due = map r_id (due_retries e limit d);
         (hit, rs) = sql_update (\<lambda>r. r_id r \<in> set due) (retry_row (e_now e)) (runs d)
     in (Inr (collectRedispatches d hit), d\<lparr>runs := rs\<rparr>))"

end
