(* ===== verification/StoreSchedule.thy ===== *)
theory StoreSchedule
  imports StoreWorker
begin

text \<open>
  \<open>internal/store/schedule.go\<close>: one transaction that queues a run for every due occurrence and
  advances the jobs' \<open>next_run_at\<close>.
\<close>

section \<open>Operations\<close>

record due_job =
  u_id :: uuid
  u_type :: string
  u_cron_expr :: string
  u_timezone :: string
  u_next_run_at :: time

definition is_due :: "env \<Rightarrow> job \<Rightarrow> bool" where
  "is_due e j \<longleftrightarrow> j_enabled j \<and> j_cron_expr j \<noteq> None
     \<and> (case j_next_run_at j of None \<Rightarrow> False | Some t \<Rightarrow> t \<le> e_now e)
     \<and> j_id j \<notin> set (e_locked e)"

definition due_job_of :: "job \<Rightarrow> due_job" where
  "due_job_of j = \<lparr>u_id = j_id j, u_type = j_type j,
     u_cron_expr = (case j_cron_expr j of None \<Rightarrow> [] | Some c \<Rightarrow> c),
     u_timezone = j_timezone j, u_next_run_at = time_or_0 (j_next_run_at j)\<rparr>"

definition due_jobs :: "env \<Rightarrow> nat \<Rightarrow> db \<Rightarrow> due_job list" where
  "due_jobs e limit d =
     map due_job_of (order_limit (\<lambda>j. time_or_0 (j_next_run_at j)) limit (filter (is_due e) (jobs d)))"

text \<open>\<open>INSERT ... ON CONFLICT ON CONSTRAINT job_runs_occurrence_uniq DO NOTHING RETURNING\<close>.\<close>

definition insert_occurrence :: "run \<Rightarrow> db \<Rightarrow> run list res \<times> db" where
  "insert_occurrence r d =
     (if occurrence r \<in> occurrence ` set (runs d) then (Inr [], d) else insert_run r d)"

definition advance_row :: "time \<Rightarrow> time option \<Rightarrow> job \<Rightarrow> job" where
  "advance_row now nextAt j = j\<lparr>j_next_run_at := nextAt, j_updated_at := now\<rparr>"

definition set_next_run_at :: "time \<Rightarrow> uuid \<Rightarrow> time option \<Rightarrow> db \<Rightarrow> db" where
  "set_next_run_at now i nextAt d =
     d\<lparr>jobs := snd (sql_update (\<lambda>j. j_id j = i) (advance_row now nextAt) (jobs d))\<rparr>"

definition fired_of :: "due_job \<Rightarrow> run list \<Rightarrow> redispatch list" where
  "fired_of j rs = map (\<lambda>r. \<lparr>d_run_id = r_id r, d_job_id = u_id j, d_job_type = u_type j,
     d_status = r_status r, d_attempt = r_attempt r\<rparr>) rs"

definition next_at :: "(due_job \<Rightarrow> time res) \<Rightarrow> due_job \<Rightarrow> time option" where
  "next_at next j = (case next j of Inl _ \<Rightarrow> None | Inr t \<Rightarrow> Some t)"

definition next_err :: "(due_job \<Rightarrow> time res) \<Rightarrow> due_job \<Rightarrow> error list" where
  "next_err next j = (case next j of
     Inl x \<Rightarrow> [ErrText (''job '' @ u_id j @ '': '' @ error_text x)] | Inr _ \<Rightarrow> [])"

text \<open>The loop over the due jobs; \<open>k\<close> counts the identifiers \<open>NewID\<close> has made.\<close>

fun fire_jobs :: "env \<Rightarrow> (due_job \<Rightarrow> time res) \<Rightarrow> nat \<Rightarrow> due_job list \<Rightarrow> redispatch list \<Rightarrow> error list
    \<Rightarrow> db \<Rightarrow> (redispatch list \<times> error list) res \<times> db" where
  "fire_jobs e next k [] fired errs d = (Inr (fired, errs), d)"
| "fire_jobs e next k (j # js) fired errs d =
     (case insert_occurrence (new_run_row (e_uuids e k) (u_id j) (u_next_run_at j) TriggerSchedule (e_now e)) d of
        (Inl x, d1) \<Rightarrow> (Inl x, d1)
      | (Inr rs, d1) \<Rightarrow>
          fire_jobs e next (Suc k) js (fired @ fired_of j rs) (errs @ next_err next j)
            (set_next_run_at (e_now e) (u_id j) (next_at next j) d1))"

text \<open>\<open>errors.Join\<close>: no error when the list is empty, else the texts on separate lines.\<close>

definition errors_Join :: "error list \<Rightarrow> error option" where
  "errors_Join errs = (if errs = [] then None else Some (ErrText (join_with [char_of (10::nat)] (map error_text errs))))"

text \<open>
  The transaction: an error inside it rolls everything back. The Go function returns the runs
  and an error side by side, so the model returns the pair.
\<close>

definition FireDueJobs :: "env \<Rightarrow> nat \<Rightarrow> (due_job \<Rightarrow> time res) \<Rightarrow> db \<Rightarrow> (redispatch list \<times> error option) \<times> db" where
  "FireDueJobs e limit next d =
     (case pg e (\<lambda>d. case fire_jobs e next 0 (due_jobs e limit d) [] [] d of
                     (Inl x, _) \<Rightarrow> (Inl x, d)
                   | (Inr y, d') \<Rightarrow> (Inr y, d')) d of
        (Inl x, d') \<Rightarrow> (([], Some x), d')
      | (Inr (fired, errs), d') \<Rightarrow> ((fired, errors_Join errs), d'))"

end
