(* ===== verification/RunRows.thy ===== *)
theory RunRows
  imports StoreSchedule
begin

text \<open>
  The life of one row of \<open>job_runs\<close>: the rows an operation of the store can turn it into
  (\<open>row_step\<close>), the shape every row keeps (\<open>row_ok\<close>), how far it has come (\<open>row_progress\<close>), and
  how each statement moves the whole table.
\<close>

section \<open>One row\<close>

inductive row_step :: "run \<Rightarrow> run \<Rightarrow> bool" where
  same: "row_step r r"
| claim: "r_status r = StatusQueued \<Longrightarrow> row_step r (claim_row now w r)"
| beat: "r_status r = StatusRunning \<Longrightarrow> row_step r (heartbeat_row now r)"
| succeed: "r_status r = StatusRunning \<Longrightarrow> row_step r (finish_row now StatusSucceeded (Some out) None r)"
| release: "r_status r = StatusRunning \<Longrightarrow> r_attempt r < int4_max \<Longrightarrow> row_step r (release_row now reason r)"
| fail_or_retry: "r_status r = StatusRunning \<Longrightarrow> ex \<or> r_attempt r < int4_max \<Longrightarrow>
     row_step r (fail_or_retry_row now msg backoff ex r)"
| reap: "r_status r = StatusRunning \<Longrightarrow> ex \<or> r_attempt r < int4_max \<Longrightarrow> row_step r (reap_row now ex r)"
| sweep: "r_status r = StatusQueued \<Longrightarrow> row_step r (sweep_row now r)"
| retry: "r_status r = StatusQueued \<Longrightarrow> row_step r (retry_row now r)"
| undispatched: "r_status r = StatusQueued \<Longrightarrow> row_step r (fail_queued_row now reason r)"

lemmas row_updates = claim_row_def heartbeat_row_def finish_row_def release_row_def
  fail_or_retry_row_def reap_row_def sweep_row_def retry_row_def fail_queued_row_def

lemma row_update_ids [simp]:
  "r_id (claim_row now w r) = r_id r" "r_id (heartbeat_row now r) = r_id r"
  "r_id (finish_row now st out er r) = r_id r" "r_id (release_row now reason r) = r_id r"
  "r_id (fail_or_retry_row now msg b ex r) = r_id r" "r_id (reap_row now ex r) = r_id r"
  "r_id (sweep_row now r) = r_id r" "r_id (retry_row now r) = r_id r"
  "r_id (fail_queued_row now reason r) = r_id r"
  by (simp_all add: row_updates)

lemma row_step_identity:
  "row_step r r' \<Longrightarrow> r_id r' = r_id r \<and> r_job_id r' = r_job_id r
     \<and> r_scheduled_time r' = r_scheduled_time r \<and> r_trigger r' = r_trigger r"
  by (induction rule: row_step.induct) (simp_all add: row_updates)

lemma row_step_attempt:
  "row_step r r' \<Longrightarrow> r_attempt r \<le> r_attempt r' \<and> (r_attempt r \<le> int4_max \<longrightarrow> r_attempt r' \<le> int4_max)"
  by (induction rule: row_step.induct) (auto simp: row_updates)

section \<open>The shape of a row in each status\<close>

text \<open>
  A queued row has no owner and nothing of an attempt; a running row has its owner, its start and
  a heartbeat, and is not waiting for anything; a finished row has its end. No operation makes a
  row \<open>CANCELLED\<close>.
\<close>

definition row_ok :: "run \<Rightarrow> bool" where
  "row_ok r \<longleftrightarrow> 1 \<le> r_attempt r \<and> (case r_status r of
     StatusQueued \<Rightarrow> r_worker_id r = None \<and> r_started_at r = None \<and> r_last_heartbeat_at r = None
       \<and> r_finished_at r = None \<and> r_output r = None
   | StatusRunning \<Rightarrow> r_worker_id r \<noteq> None \<and> r_started_at r \<noteq> None \<and> r_last_heartbeat_at r \<noteq> None
       \<and> r_finished_at r = None \<and> r_next_attempt_at r = None \<and> r_output r = None
   | StatusSucceeded \<Rightarrow> r_worker_id r \<noteq> None \<and> r_finished_at r \<noteq> None \<and> r_output r \<noteq> None \<and> r_error r = None
   | StatusFailed \<Rightarrow> r_finished_at r \<noteq> None \<and> r_error r \<noteq> None \<and> r_output r = None
   | StatusCancelled \<Rightarrow> False)"

lemma row_step_ok: "row_step r r' \<Longrightarrow> row_ok r \<Longrightarrow> row_ok r'"
  by (induction rule: row_step.induct) (auto simp: row_updates row_ok_def)

lemma row_ok_new: "row_ok (new_run_row i ji s t n)"
  by (simp add: row_ok_def new_run_row_def)

section \<open>Progress\<close>

text \<open>
  Attempts count up and, within an attempt, the status only moves forward in the order
  \<open>QUEUED < RUNNING < SUCCEEDED < FAILED\<close>. So a row never sees the same attempt queued twice.
\<close>

definition row_progress :: "run \<Rightarrow> int \<times> status" where
  "row_progress r = (r_attempt r, r_status r)"

lemmas status_order = less_eq_status_def less_status_def status_rank_def

lemma row_step_progress: "row_step r r' \<Longrightarrow> row_progress r \<le> row_progress r'"
  by (induction rule: row_step.induct)
     (auto simp: row_updates row_progress_def less_eq_prod_def status_order)

definition final_status :: "status \<Rightarrow> bool" where
  "final_status s \<longleftrightarrow> s \<in> {StatusSucceeded, StatusFailed, StatusCancelled}"

inductive_cases row_step_elim: "row_step r r'"

lemma row_step_final: "row_step r r' \<Longrightarrow> final_status (r_status r) \<Longrightarrow> r' = r"
  by (auto simp: final_status_def elim: row_step_elim)

section \<open>The abstract machine of a run\<close>

text \<open>
  What the rest of the system may rely on, without timestamps and texts: a run is waiting for
  attempt \<open>a\<close>, being executed by a worker, or finished.
\<close>

datatype phase = Waiting int | Executing int string | Succeeded int | Gone int

inductive phase_step :: "phase \<Rightarrow> phase \<Rightarrow> bool" where
  ph_claim: "phase_step (Waiting a) (Executing a w)"
| ph_requeue: "phase_step (Executing a w) (Waiting (a + 1))"
| ph_succeed: "phase_step (Executing a w) (Succeeded a)"
| ph_fail: "phase_step (Executing a w) (Gone a)"
| ph_undispatched: "phase_step (Waiting a) (Gone a)"

definition phase_of :: "run \<Rightarrow> phase" where
  "phase_of r = (case r_status r of
     StatusQueued \<Rightarrow> Waiting (r_attempt r)
   | StatusRunning \<Rightarrow> Executing (r_attempt r) (case r_worker_id r of None \<Rightarrow> [] | Some w \<Rightarrow> w)
   | StatusSucceeded \<Rightarrow> Succeeded (r_attempt r)
   | _ \<Rightarrow> Gone (r_attempt r))"

lemma row_step_refines:
  "row_step r r' \<Longrightarrow> phase_of r' = phase_of r \<or> phase_step (phase_of r) (phase_of r')"
  by (induction rule: row_step.induct)
     (auto simp: row_updates phase_of_def intro: phase_step.intros)

inductive_simps waiting_step: "phase_step (Waiting a) p"
inductive_simps executing_step: "phase_step (Executing a w) p"
inductive_simps succeeded_step: "phase_step (Succeeded a) p"
inductive_simps gone_step: "phase_step (Gone a) p"

section \<open>The table\<close>

text \<open>
  \<open>runs_step rs rs'\<close>: every old row made one \<open>row_step\<close> in its place, and the rows added at the
  end are fresh, queued for their first attempt.
\<close>

definition fresh_row :: "run \<Rightarrow> bool" where
  "fresh_row r \<longleftrightarrow> (\<exists>i ji s t n. r = new_run_row i ji s t n)"

definition runs_step :: "run list \<Rightarrow> run list \<Rightarrow> bool" where
  "runs_step rs rs' \<longleftrightarrow> (\<exists>olds news. rs' = olds @ news \<and> list_all2 row_step rs olds \<and> (\<forall>r \<in> set news. fresh_row r))"

lemma row_steps_refl: "list_all2 row_step rs rs"
  by (rule list_all2_refl) (rule row_step.same)

lemma runs_step_refl [simp, intro]: "runs_step rs rs"
  unfolding runs_step_def using row_steps_refl [of rs] by (intro exI [of _ rs] exI [of _ "[]"]) simp

lemma runs_step_update:
  assumes "\<And>r. r \<in> set rs \<Longrightarrow> P r \<Longrightarrow> row_step r (f r)"
  shows "runs_step rs (map (\<lambda>r. if P r then f r else r) rs)"
proof -
  have "list_all2 row_step rs (map (\<lambda>r. if P r then f r else r) rs)"
    using assms by (auto simp: list_all2_conv_all_nth intro: row_step.same)
  then show ?thesis unfolding runs_step_def by (intro exI [of _ "map (\<lambda>r. if P r then f r else r) rs"] exI [of _ "[]"]) simp
qed

lemma runs_step_add: "fresh_row r \<Longrightarrow> runs_step rs (rs @ [r])"
  unfolding runs_step_def using row_steps_refl [of rs] by (intro exI [of _ rs] exI [of _ "[r]"]) simp

lemma fresh_new [simp]: "fresh_row (new_run_row i ji s t n)"
  unfolding fresh_row_def by blast

lemma runs_step_insert:
  "fresh_row r \<Longrightarrow> runs_step (runs d) (runs (snd (insert_run r d)))"
  by (auto simp: insert_run_def intro: runs_step_add)

text \<open>What a table step says of the row with a given identifier.\<close>

lemma row_steps_lookup:
  "list_all2 row_step rs olds \<Longrightarrow>
     (case lookup_row r_id i rs of
        None \<Rightarrow> lookup_row r_id i olds = None
      | Some r \<Rightarrow> (\<exists>r'. lookup_row r_id i olds = Some r' \<and> row_step r r'))"
  by (induction rule: list_all2_induct) (auto dest: row_step_identity split: option.splits)

lemma runs_step_find:
  assumes "runs_step rs rs'" and "lookup_row r_id i rs = Some r"
  shows "\<exists>r'. lookup_row r_id i rs' = Some r' \<and> row_step r r'"
proof -
  obtain olds news where "rs' = olds @ news" and "list_all2 row_step rs olds"
    using assms(1) by (auto simp: runs_step_def)
  with assms(2) row_steps_lookup [of rs olds i] show ?thesis
    by (auto simp: lookup_row_append)
qed

lemma runs_step_new:
  assumes "runs_step rs rs'" and "lookup_row r_id i rs = None" and "lookup_row r_id i rs' = Some r"
  shows "fresh_row r"
proof -
  obtain olds news where o: "rs' = olds @ news" "list_all2 row_step rs olds" and n: "\<forall>r \<in> set news. fresh_row r"
    using assms(1) by (auto simp: runs_step_def)
  from assms(2) o(2) have "lookup_row r_id i olds = None" using row_steps_lookup [of rs olds i] by simp
  with assms(3) o(1) have "lookup_row r_id i news = Some r" by (simp add: lookup_row_append)
  with n show ?thesis by (auto dest: lookup_row_Some)
qed

lemma runs_step_rows_ok:
  assumes "runs_step rs rs'" and "\<forall>r \<in> set rs. row_ok r"
  shows "\<forall>r \<in> set rs'. row_ok r"
proof -
  obtain olds news where o: "rs' = olds @ news" "list_all2 row_step rs olds" and n: "\<forall>r \<in> set news. fresh_row r"
    using assms(1) by (auto simp: runs_step_def)
  from o(2) assms(2) have "\<forall>r \<in> set olds. row_ok r"
    by (induction rule: list_all2_induct) (auto dest: row_step_ok)
  moreover have "\<forall>r \<in> set news. row_ok r" using n by (auto simp: fresh_row_def row_ok_new)
  ultimately show ?thesis using o(1) by auto
qed

end
