(* ===== verification/StoreSteps.thy ===== *)
theory StoreSteps
  imports RunRows
begin

text \<open>
  Every operation of the store, as a step of the tables: the operations on existing runs move each
  row by one \<open>row_step\<close> and touch nothing else (\<open>table_step\<close>), the inserts add fresh rows. From
  this follow that the schema holds after every call and what a call can do to one run.
\<close>

section \<open>Steps of the run table\<close>

definition table_step :: "db \<Rightarrow> db \<Rightarrow> bool" where
  "table_step d d' \<longleftrightarrow> (\<exists>olds. d' = d\<lparr>runs := olds\<rparr> \<and> list_all2 row_step (runs d) olds)"

lemma table_step_refl [simp, intro]: "table_step d d"
  unfolding table_step_def by (rule exI [of _ "runs d"]) (simp add: row_steps_refl)

lemma table_step_update:
  assumes "\<And>r. r \<in> set (runs d) \<Longrightarrow> P r \<Longrightarrow> row_step r (f r)"
  shows "table_step d (d\<lparr>runs := map (\<lambda>r. if P r then f r else r) (runs d)\<rparr>)"
  using assms unfolding table_step_def
  by (intro exI conjI refl) (auto simp: list_all2_conv_all_nth intro: row_step.same)

lemma table_step_runs: "table_step d d' \<Longrightarrow> runs_step (runs d) (runs d')"
  unfolding table_step_def runs_step_def by (metis append_Nil2 empty_iff empty_set simps(2) runs_step_def
    db.select_convs(2) db.surjective db.update_convs(2))

lemma table_step_frame: "table_step d d' \<Longrightarrow> jobs d' = jobs d \<and> logs d' = logs d"
  by (auto simp: table_step_def)

lemma row_steps_keys:
  "list_all2 row_step rs olds \<Longrightarrow> map r_id olds = map r_id rs \<and> map occurrence olds = map occurrence rs
     \<and> map r_job_id olds = map r_job_id rs"
  by (induction rule: list_all2_induct) (auto dest: row_step_identity simp: occurrence_def)

lemma row_steps_attempts:
  "list_all2 row_step rs olds \<Longrightarrow> \<forall>r \<in> set rs. 1 \<le> r_attempt r \<and> r_attempt r \<le> int4_max \<Longrightarrow>
     \<forall>r \<in> set olds. 1 \<le> r_attempt r \<and> r_attempt r \<le> int4_max"
  by (induction rule: list_all2_induct) (auto dest: row_step_attempt)

lemma row_steps_ids: "list_all2 row_step rs olds \<Longrightarrow> r_id ` set olds = r_id ` set rs"
  using row_steps_keys [of rs olds] by (metis set_map)

lemma row_steps_jobs:
  "list_all2 row_step rs olds \<Longrightarrow> \<forall>r \<in> set rs. Q (r_job_id r) \<Longrightarrow> \<forall>r \<in> set olds. Q (r_job_id r)"
  by (induction rule: list_all2_induct) (auto dest: row_step_identity)

lemma table_step_schema:
  assumes "table_step d d'" and "schema_ok d"
  shows "schema_ok d'"
proof -
  obtain olds where o: "d' = d\<lparr>runs := olds\<rparr>" "list_all2 row_step (runs d) olds"
    using assms(1) by (auto simp: table_step_def)
  have "\<forall>r \<in> set olds. 1 \<le> r_attempt r \<and> r_attempt r \<le> int4_max"
    using assms(2) by (intro row_steps_attempts [OF o(2)]) (simp add: schema_defs)
  moreover have "\<forall>r \<in> set olds. r_job_id r \<in> j_id ` set (jobs d)"
    using assms(2) by (intro row_steps_jobs [OF o(2)]) (simp add: schema_defs)
  ultimately show ?thesis
    using assms(2) row_steps_keys [OF o(2)] row_steps_ids [OF o(2)] unfolding o(1) schema_defs
    by simp
qed

lemma pg_post:
  assumes "R (e_others e d)" and "R (snd (q (e_others e d)))"
  shows "R (snd (pg e q d))"
  using assms pg_db_cases [of e q d] by auto

section \<open>The operations on existing runs\<close>

lemma ClaimRun_db:
  "snd (ClaimRun e i w d) = snd (pg e (\<lambda>d. let (hit, rs) = sql_update (\<lambda>r. r_id r = i \<and> claimable (e_now e) r)
     (claim_row (e_now e) w) (runs d) in (scanRun hit, d\<lparr>runs := rs\<rparr>)) d)"
  by (auto simp: ClaimRun_def split: prod.splits sum.splits)

lemma ClaimRun_step: "table_step (e_others e d) (snd (ClaimRun e i w d))"
  unfolding ClaimRun_db
  by (rule pg_post) (auto simp: sql_update_def claimable_def intro!: table_step_update row_step.claim)

lemma Heartbeat_step: "table_step (e_others e d) (snd (Heartbeat e i w a d))"
  unfolding Heartbeat_def
  by (rule pg_post) (auto simp: sql_update_def owns_def intro!: table_step_update row_step.beat)

lemma FinishRun_step: "table_step (e_others e d) (snd (FinishRun e i w a StatusSucceeded (Some out) None d))"
  unfolding FinishRun_def
  by (rule pg_post) (auto simp: sql_update_def owns_def intro!: table_step_update row_step.succeed)

lemma ReleaseRun_step: "table_step (e_others e d) (snd (ReleaseRun e i w a reason d))"
  unfolding ReleaseRun_def
  by (rule pg_post)
     (auto simp: Let_def sql_update_def owns_def attempt_overflows_def not_le
        intro!: table_step_update row_step.release)

lemma FailOrRetry_step: "table_step (e_others e d) (snd (FailOrRetry e i w a msg b d))"
  unfolding FailOrRetry_def
  by (rule pg_post)
     (auto simp: Let_def sql_update_def owns_def attempt_overflows_def not_le
        intro!: table_step_update row_step.fail_or_retry)

lemma stale_runs_in: "r \<in> set (stale_runs e s n d) \<Longrightarrow> r \<in> set (runs d) \<and> is_stale e s d r"
  unfolding stale_runs_def by (drule order_limit_in) simp

lemma stuck_runs_in: "r \<in> set (stuck_runs e s n d) \<Longrightarrow> r \<in> set (runs d) \<and> is_stuck e s d r"
  unfolding stuck_runs_def by (drule order_limit_in) simp

lemma due_retries_in: "r \<in> set (due_retries e n d) \<Longrightarrow> r \<in> set (runs d) \<and> is_due_retry e d r"
  unfolding due_retries_def by (drule order_limit_in) simp

text \<open>Identifiers are keys, so a row whose identifier was picked is the row that was picked.\<close>

lemma picked_row:
  assumes "schema_ok d" and "\<And>q. q \<in> set qs \<Longrightarrow> q \<in> set (runs d) \<and> Q q"
    and "r \<in> set (runs d)" and "r_id r \<in> r_id ` set qs"
  shows "Q r"
proof -
  from assms(4) obtain q where q: "q \<in> set qs" "r_id q = r_id r" by auto
  have "inj_on r_id (set (runs d))" using assms(1) by (simp add: distinct_map schema_defs)
  with q assms(2,3) have "q = r" by (auto dest: inj_onD)
  with assms(2) q(1) show ?thesis by simp
qed

lemma ReapStale_step:
  assumes "schema_ok (e_others e d)"
  shows "table_step (e_others e d) (snd (ReapStale e s n d))"
  unfolding ReapStale_def
proof (rule pg_post, simp)
  let ?d = "e_others e d"
  have run: "r_status r = StatusRunning" if "r \<in> set (runs ?d)" "r_id r \<in> r_id ` set (stale_runs e s n ?d)" for r
    using picked_row [OF assms stale_runs_in that] by (simp add: is_stale_def)
  show "table_step ?d (snd (let stale = map r_id (stale_runs e s n ?d); P = (\<lambda>r. r_id r \<in> set stale) in
     if attempt_overflows (\<lambda>r. P r \<and> \<not> exhausted ?d r) (runs ?d) then (Inl (ErrPg pgNumericOverflow), ?d)
     else let (hit, rs) = sql_update P (\<lambda>r. reap_row (e_now e) (exhausted ?d r) r) (runs ?d)
          in (Inr (collectRedispatches ?d hit), ?d\<lparr>runs := rs\<rparr>)))"
    by (auto simp: Let_def sql_update_def attempt_overflows_def not_le run
        intro!: table_step_update row_step.reap)
qed

lemma SweepQueued_step:
  assumes "schema_ok (e_others e d)"
  shows "table_step (e_others e d) (snd (SweepQueued e s n d))"
  unfolding SweepQueued_def
proof (rule pg_post, simp)
  let ?d = "e_others e d"
  have q: "r_status r = StatusQueued" if "r \<in> set (runs ?d)" "r_id r \<in> r_id ` set (stuck_runs e s n ?d)" for r
    using picked_row [OF assms stuck_runs_in that] by (simp add: is_stuck_def)
  show "table_step ?d (snd (let due = map r_id (stuck_runs e s n ?d);
         (hit, rs) = sql_update (\<lambda>r. r_id r \<in> set due) (sweep_row (e_now e)) (runs ?d)
     in (Inr (collectRedispatches ?d hit), ?d\<lparr>runs := rs\<rparr>)))"
    by (auto simp: Let_def sql_update_def q intro!: table_step_update row_step.sweep)
qed

lemma DueRetries_step:
  assumes "schema_ok (e_others e d)"
  shows "table_step (e_others e d) (snd (DueRetries e n d))"
  unfolding DueRetries_def
proof (rule pg_post, simp)
  let ?d = "e_others e d"
  have q: "r_status r = StatusQueued" if "r \<in> set (runs ?d)" "r_id r \<in> r_id ` set (due_retries e n ?d)" for r
    using picked_row [OF assms due_retries_in that] by (simp add: is_due_retry_def)
  show "table_step ?d (snd (let due = map r_id (due_retries e n ?d);
         (hit, rs) = sql_update (\<lambda>r. r_id r \<in> set due) (retry_row (e_now e)) (runs ?d)
     in (Inr (collectRedispatches ?d hit), ?d\<lparr>runs := rs\<rparr>)))"
    by (auto simp: Let_def sql_update_def q intro!: table_step_update row_step.retry)
qed

lemma FailQueuedRun_step: "table_step (e_others e d) (snd (FailQueuedRun e i reason d))"
  unfolding FailQueuedRun_def
  by (rule pg_post) (auto intro!: table_step_update row_step.undispatched)

lemmas table_steps = ClaimRun_step Heartbeat_step FinishRun_step ReleaseRun_step FailOrRetry_step
  ReapStale_step SweepQueued_step DueRetries_step FailQueuedRun_step

end
