(* ===== verification/Lifecycle.thy ===== *)
theory Lifecycle
  imports StoreSteps
begin

text \<open>
  The store as one machine: every state-changing operation of \<open>internal/store\<close> as a constructor of
  \<open>store_op\<close>, executed by \<open>exec_op\<close>, and histories of calls by any number of API servers and
  workers as lists of operations. The locale \<open>progress_store\<close> is the contract by which attempts are
  executed and settled at most once; the database model is its interpretation.
\<close>

section \<open>Inserts add fresh rows\<close>

definition adds_runs :: "db \<Rightarrow> db \<Rightarrow> bool" where
  "adds_runs d d' \<longleftrightarrow> (\<exists>news. runs d' = runs d @ news \<and> (\<forall>r \<in> set news. fresh_row r)) \<and> logs d' = logs d"

lemma adds_runs_refl [simp, intro]: "adds_runs d d"
  by (auto simp: adds_runs_def)

lemma adds_runs_trans: "adds_runs a b \<Longrightarrow> adds_runs b c \<Longrightarrow> adds_runs a c"
  by (fastforce simp: adds_runs_def)

lemma adds_runs_step: "adds_runs d d' \<Longrightarrow> runs_step (runs d) (runs d')"
  unfolding adds_runs_def runs_step_def using row_steps_refl by blast

lemma adds_runs_insert: "fresh_row r \<Longrightarrow> adds_runs d (snd (insert_run r d))"
  by (auto simp: insert_run_def adds_runs_def)

lemma adds_runs_occurrence: "fresh_row r \<Longrightarrow> adds_runs d (snd (insert_occurrence r d))"
  by (auto simp: insert_occurrence_def intro: adds_runs_insert)

lemma adds_runs_next [simp]: "adds_runs d (set_next_run_at now i n d)"
  by (simp add: adds_runs_def set_next_run_at_def)

lemma set_next_run_at_schema: "schema_ok d \<Longrightarrow> schema_ok (set_next_run_at now i n d)"
  unfolding set_next_run_at_def snd_sql_update
  by (erule schema_ok_job_update) (simp add: advance_row_def)

lemma insert_occurrence_schema:
  "schema_ok d \<Longrightarrow> r_attempt r = 1 \<Longrightarrow> schema_ok (snd (insert_occurrence r d))"
  by (simp add: insert_occurrence_def insert_run_schema)

lemma fire_jobs_adds: "adds_runs d (snd (fire_jobs e next k js fired errs d))"
proof (induction js arbitrary: k fired errs d)
  case Nil
  then show ?case by simp
next
  case (Cons j js)
  let ?r = "new_run_row (e_uuids e k) (u_id j) (u_next_run_at j) TriggerSchedule (e_now e)"
  have i: "adds_runs d (snd (insert_occurrence ?r d))" by (rule adds_runs_occurrence) simp
  show ?case
    using i by (auto split: sum.split prod.split
        intro: adds_runs_trans [OF _ adds_runs_trans [OF adds_runs_next Cons.IH]])
qed

lemma fire_jobs_schema: "schema_ok d \<Longrightarrow> schema_ok (snd (fire_jobs e next k js fired errs d))"
proof (induction js arbitrary: k fired errs d)
  case Nil
  then show ?case by simp
next
  case (Cons j js)
  let ?r = "new_run_row (e_uuids e k) (u_id j) (u_next_run_at j) TriggerSchedule (e_now e)"
  have i: "schema_ok (snd (insert_occurrence ?r d))"
    using Cons.prems by (rule insert_occurrence_schema) simp
  then show ?case
    using Cons.IH by (auto split: sum.split prod.split simp: set_next_run_at_schema)
qed

lemma FireDueJobs_db_cases:
  "snd (FireDueJobs e n next d) = e_others e d
   \<or> snd (FireDueJobs e n next d) =
       snd (fire_jobs e next 0 (due_jobs e n (e_others e d)) [] [] (e_others e d))"
  using pg_db_cases [of e "\<lambda>d. case fire_jobs e next 0 (due_jobs e n d) [] [] d of
      (Inl x, _) \<Rightarrow> (Inl x, d) | (Inr y, d') \<Rightarrow> (Inr y, d')" d]
  by (auto simp: FireDueJobs_def split: prod.splits sum.splits)

lemma FireDueJobs_adds: "adds_runs (e_others e d) (snd (FireDueJobs e n next d))"
  using FireDueJobs_db_cases [of e n "next" d] fire_jobs_adds by auto

lemma FireDueJobs_schema:
  "schema_ok (e_others e d) \<Longrightarrow> schema_ok (snd (FireDueJobs e n next d))"
  using FireDueJobs_db_cases [of e n "next" d] fire_jobs_schema by metis

section \<open>Logs keep the schema\<close>

lemma insert_log_schema:
  assumes "distinct (map log_key t)"
    and "\<forall>x \<in> set t. fst x \<in> S \<and> l_level (snd x) \<in> set log_levels"
    and "i \<in> S" and "l_level l \<in> set log_levels"
  shows "distinct (map log_key (insert_log i a l t))
     \<and> (\<forall>x \<in> set (insert_log i a l t). fst x \<in> S \<and> l_level (snd x) \<in> set log_levels)"
  using assms by (auto simp: insert_log_def Let_def)

lemma insert_logs_schema:
  assumes "distinct (map log_key t)"
    and "\<forall>x \<in> set t. fst x \<in> S \<and> l_level (snd x) \<in> set log_levels"
    and "i \<in> S" and "\<forall>l \<in> set ls. l_level l \<in> set log_levels"
  shows "distinct (map log_key (fold (insert_log i a) ls t))
     \<and> (\<forall>x \<in> set (fold (insert_log i a) ls t). fst x \<in> S \<and> l_level (snd x) \<in> set log_levels)"
  using assms
proof (induction ls arbitrary: t)
  case Nil
  then show ?case by simp
next
  case (Cons l ls)
  have l: "distinct (map log_key (insert_log i a l t))
     \<and> (\<forall>x \<in> set (insert_log i a l t). fst x \<in> S \<and> l_level (snd x) \<in> set log_levels)"
    using Cons.prems by (intro insert_log_schema) auto
  have "\<forall>l \<in> set ls. l_level l \<in> set log_levels" using Cons.prems(4) by simp
  with Cons.IH [OF l [THEN conjunct1] l [THEN conjunct2] Cons.prems(3)] show ?case
    unfolding fold_Cons comp_apply by blast
qed

lemma AppendLogs_db_cases:
  "snd (AppendLogs e i a ls d) = d \<or> snd (AppendLogs e i a ls d) = e_others e d
   \<or> (find_run i (e_others e d) \<noteq> None \<and> (\<forall>l \<in> set ls. l_level l \<in> set log_levels)
      \<and> snd (AppendLogs e i a ls d) =
          (e_others e d)\<lparr>logs := fold (insert_log i a) ls (logs (e_others e d))\<rparr>)"
  by (auto simp: AppendLogs_def pg_def Let_def split: option.splits fault.splits if_splits)

lemma AppendLogs_schema:
  assumes "schema_ok d" and "schema_ok (e_others e d)"
  shows "schema_ok (snd (AppendLogs e i a ls d))"
proof -
  let ?d = "e_others e d"
  have "schema_ok (?d\<lparr>logs := fold (insert_log i a) ls (logs ?d)\<rparr>)"
    if "find_run i ?d \<noteq> None" and "\<forall>l \<in> set ls. l_level l \<in> set log_levels"
  proof -
    have "i \<in> r_id ` set (runs ?d)" using that(1) by (simp add: lookup_row_None)
    then show ?thesis
      using insert_logs_schema [of "logs ?d" "r_id ` set (runs ?d)" i ls a] that(2) assms(2)
      by (simp add: schema_defs)
  qed
  with AppendLogs_db_cases [of e i a ls d] assms show ?thesis by auto
qed

lemma AppendLogs_runs: "e_others e = (\<lambda>d. d) \<Longrightarrow> runs (snd (AppendLogs e i a ls d)) = runs d"
  using AppendLogs_db_cases [of e i a ls d] by auto

section \<open>The store as one machine\<close>

text \<open>
  The operations that change state. \<open>FinishRun\<close> appears with the arguments of its only call,
  \<open>(StatusSucceeded, &output, nil)\<close> in \<open>Worker.succeed\<close>.
\<close>

datatype store_op =
    OpCreateJob new_job
  | OpSetJobEnabled uuid bool "time option"
  | OpCreateManualRun uuid
  | OpFailQueuedRun uuid string
  | OpClaimRun uuid string
  | OpHeartbeat uuid string int
  | OpSucceed uuid string int string
  | OpFailOrRetry uuid string int string duration
  | OpReleaseRun uuid string int string
  | OpAppendLogs uuid int "log_line list"
  | OpReapStale duration nat
  | OpSweepQueued duration nat
  | OpDueRetries nat
  | OpFireDueJobs nat "due_job \<Rightarrow> time res"

datatype reply =
    RJob "job res"
  | RRun "run res"
  | RClaim "run option res"
  | RBool "bool res"
  | RStatus "status option res"
  | RUnit "unit res"
  | RRedispatch "redispatch list res"
  | RFired "redispatch list \<times> error option"

text \<open>
  In a history the calls of all sessions are in the order Postgres serialises them, so nothing
  happens between them that is not in the history itself.
\<close>

definition alone :: "env \<Rightarrow> env" where
  "alone e = e\<lparr>e_others := (\<lambda>d. d)\<rparr>"

lemma alone_others [simp]: "e_others (alone e) d = d"
  by (simp add: alone_def)

fun exec_op :: "env \<Rightarrow> store_op \<Rightarrow> db \<Rightarrow> reply \<times> db" where
  "exec_op e (OpCreateJob n) d = apfst RJob (CreateJob (alone e) n d)"
| "exec_op e (OpSetJobEnabled i en next) d = apfst RJob (SetJobEnabled (alone e) i en next d)"
| "exec_op e (OpCreateManualRun ji) d = apfst RRun (CreateManualRun (alone e) ji d)"
| "exec_op e (OpFailQueuedRun i reason) d = apfst RUnit (FailQueuedRun (alone e) i reason d)"
| "exec_op e (OpClaimRun i w) d = apfst RClaim (ClaimRun (alone e) i w d)"
| "exec_op e (OpHeartbeat i w a) d = apfst RBool (Heartbeat (alone e) i w a d)"
| "exec_op e (OpSucceed i w a out) d =
     apfst RBool (FinishRun (alone e) i w a StatusSucceeded (Some out) None d)"
| "exec_op e (OpFailOrRetry i w a msg b) d = apfst RStatus (FailOrRetry (alone e) i w a msg b d)"
| "exec_op e (OpReleaseRun i w a reason) d = apfst RBool (ReleaseRun (alone e) i w a reason d)"
| "exec_op e (OpAppendLogs i a ls) d = apfst RUnit (AppendLogs (alone e) i a ls d)"
| "exec_op e (OpReapStale s n) d = apfst RRedispatch (ReapStale (alone e) s n d)"
| "exec_op e (OpSweepQueued s n) d = apfst RRedispatch (SweepQueued (alone e) s n d)"
| "exec_op e (OpDueRetries n) d = apfst RRedispatch (DueRetries (alone e) n d)"
| "exec_op e (OpFireDueJobs n next) d = apfst RFired (FireDueJobs (alone e) n next d)"

fun run_ops :: "(env \<times> store_op) list \<Rightarrow> db \<Rightarrow> (store_op \<times> reply) list \<times> db" where
  "run_ops [] d = ([], d)"
| "run_ops ((e, p) # ops) d =
     (let (r, d1) = exec_op e p d; (rs, d2) = run_ops ops d1 in ((p, r) # rs, d2))"

lemma CreateJob_runs: "runs (snd (CreateJob e n d)) = runs (e_others e d)"
  by (auto simp: CreateJob_def pg_def Let_def split: option.split fault.split sum.split)

lemma SetJobEnabled_runs: "runs (snd (SetJobEnabled e i en next d)) = runs (e_others e d)"
  by (auto simp: SetJobEnabled_def pg_def Let_def split: option.split fault.split prod.split)

lemma CreateManualRun_adds: "adds_runs (e_others e d) (snd (CreateManualRun e ji d))"
  unfolding CreateManualRun_db by (rule pg_post) (auto intro: adds_runs_insert)

lemma exec_op_step:
  assumes "schema_ok d"
  shows "runs_step (runs d) (runs (snd (exec_op e p d)))"
proof (cases p)
  case (OpReapStale s n)
  with assms ReapStale_step [of "alone e" d s n] show ?thesis by (simp add: table_step_runs)
next
  case (OpSweepQueued s n)
  with assms SweepQueued_step [of "alone e" d s n] show ?thesis by (simp add: table_step_runs)
next
  case (OpDueRetries n)
  with assms DueRetries_step [of "alone e" d n] show ?thesis by (simp add: table_step_runs)
next
  case (OpAppendLogs i a ls)
  then show ?thesis by (simp add: AppendLogs_runs alone_def)
next
  case (OpFireDueJobs n f)
  then show ?thesis using FireDueJobs_adds [of "alone e" d n f] by (simp add: adds_runs_step)
next
  case (OpCreateManualRun ji)
  then show ?thesis using CreateManualRun_adds [of "alone e" d ji] by (simp add: adds_runs_step)
qed (simp_all add: CreateJob_runs SetJobEnabled_runs table_steps [of "alone e" d, simplified] table_step_runs)

lemma exec_op_schema:
  assumes "schema_ok d"
  shows "schema_ok (snd (exec_op e p d))"
proof (cases p)
  case (OpCreateJob n)
  with assms show ?thesis by (simp add: CreateJob_schema)
next
  case (OpSetJobEnabled i en n)
  with assms show ?thesis by (simp add: SetJobEnabled_schema)
next
  case (OpCreateManualRun ji)
  with assms show ?thesis by (simp add: CreateManualRun_schema)
next
  case (OpAppendLogs i a ls)
  with assms show ?thesis by (simp add: AppendLogs_schema)
next
  case (OpFireDueJobs n f)
  with assms show ?thesis by (simp add: FireDueJobs_schema)
qed (use assms in \<open>simp_all add: table_step_schema [OF table_steps(1) [of "alone e" d, simplified]]
   table_step_schema [OF table_steps(2) [of "alone e" d, simplified]]
   table_step_schema [OF table_steps(3) [of "alone e" d, simplified]]
   table_step_schema [OF table_steps(4) [of "alone e" d, simplified]]
   table_step_schema [OF table_steps(5) [of "alone e" d, simplified]]
   table_step_schema [OF table_steps(6) [of "alone e" d, simplified]]
   table_step_schema [OF table_steps(7) [of "alone e" d, simplified]]
   table_step_schema [OF table_steps(8) [of "alone e" d, simplified]]
   table_step_schema [OF table_steps(9) [of "alone e" d, simplified]]\<close>)

end
