(* ===== verification/AtMostOnce.thy ===== *)
theory AtMostOnce
  imports Lifecycle
begin

text \<open>
  Each attempt of a run is claimed at most once and settled at most once, whatever the order of the
  calls, the faults and the duplicate messages. The argument needs little of the store: the
  contract \<open>progress_store\<close> states it, and the database model satisfies it twice, once for claims
  and once for results.
\<close>

section \<open>The contract\<close>

text \<open>
  A store whose keys only move up in some order, with events that report that a key left a point:
  the reply to a call says which keys it moved, and from where.
\<close>

locale progress_store =
  fixes invar :: "'s \<Rightarrow> bool"
    and progress :: "'s \<Rightarrow> 'k \<Rightarrow> ('p::linorder) option"
    and exec :: "'e \<Rightarrow> 'o \<Rightarrow> 's \<Rightarrow> 'r \<times> 's"
    and leaves :: "'o \<Rightarrow> 'r \<Rightarrow> ('k \<times> 'p) list"
  assumes invar_exec: "invar s \<Longrightarrow> invar (snd (exec e p s))"
    and progress_mono: "invar s \<Longrightarrow> progress s k = Some x \<Longrightarrow>
          \<exists>y. progress (snd (exec e p s)) k = Some y \<and> x \<le> y"
    and leaves_from: "invar s \<Longrightarrow> (k, x) \<in> set (leaves p (fst (exec e p s))) \<Longrightarrow>
          progress s k = Some x \<and> (\<exists>y. progress (snd (exec e p s)) k = Some y \<and> x < y)"
    and leaves_distinct: "invar s \<Longrightarrow> distinct (leaves p (fst (exec e p s)))"
begin

fun history :: "('e \<times> 'o) list \<Rightarrow> 's \<Rightarrow> ('k \<times> 'p) list" where
  "history [] s = []"
| "history ((e, p) # ops) s = leaves p (fst (exec e p s)) @ history ops (snd (exec e p s))"

lemma history_above:
  "invar s \<Longrightarrow> progress s k = Some y \<Longrightarrow> (k, x) \<in> set (history ops s) \<Longrightarrow> y \<le> x"
proof (induction ops s arbitrary: y rule: history.induct)
  case (1 s)
  then show ?case by simp
next
  case (2 e p ops s)
  show ?case
  proof (cases "(k, x) \<in> set (leaves p (fst (exec e p s)))")
    case True
    with leaves_from [OF "2.prems"(1)] "2.prems"(2) show ?thesis by auto
  next
    case False
    obtain z where z: "progress (snd (exec e p s)) k = Some z" "y \<le> z"
      using progress_mono [OF "2.prems"(1,2)] by blast
    have "(k, x) \<in> set (history ops (snd (exec e p s)))" using False "2.prems"(3) by simp
    with "2.IH" [OF invar_exec [OF "2.prems"(1)] z(1)] z(2) show ?thesis by auto
  qed
qed

theorem history_distinct: "invar s \<Longrightarrow> distinct (history ops s)"
proof (induction ops s rule: history.induct)
  case (1 s)
  then show ?case by simp
next
  case (2 e p ops s)
  have "False" if now: "(k, x) \<in> set (leaves p (fst (exec e p s)))"
    and later: "(k, x) \<in> set (history ops (snd (exec e p s)))" for k x
  proof -
    obtain y where "progress (snd (exec e p s)) k = Some y" "x < y"
      using leaves_from [OF "2.prems" now] by blast
    with history_above [OF invar_exec [OF "2.prems"] _ later] show False by fastforce
  qed
  with "2.IH" [OF invar_exec [OF "2.prems"]] leaves_distinct [OF "2.prems"] show ?case by auto
qed

end

section \<open>The database model under the contract\<close>

definition db_progress :: "db \<Rightarrow> uuid \<Rightarrow> (int \<times> status) option" where
  "db_progress d i = map_option row_progress (find_run i d)"

lemma db_progress_mono:
  assumes "schema_ok d" and "db_progress d i = Some x"
  shows "\<exists>y. db_progress (snd (exec_op e p d)) i = Some y \<and> x \<le> y"
proof -
  obtain r where r: "find_run i d = Some r" "x = row_progress r"
    using assms(2) by (auto simp: db_progress_def)
  obtain r' where "find_run i (snd (exec_op e p d)) = Some r'" "row_step r r'"
    using runs_step_find [OF exec_op_step [OF assms(1)] r(1)] by blast
  with r(2) show ?thesis by (simp add: db_progress_def row_step_progress)
qed

section \<open>What the fenced writes do, given that identifiers are keys\<close>

lemma hit_by_id:
  assumes "distinct (map r_id rs)"
  shows "fst (sql_update (\<lambda>r. r_id r = i \<and> P r) f rs) =
     (case lookup_row r_id i rs of None \<Rightarrow> [] | Some r \<Rightarrow> if P r then [f r] else [])"
  by (simp add: sql_update_def filter_key_unique [OF assms] split: option.split)

lemma find_after_update:
  assumes "lookup_row r_id i rs = Some r" and "\<And>r. r_id (f r) = r_id r"
  shows "lookup_row r_id i (map (\<lambda>r. if P r then f r else r) rs) = Some (if P r then f r else r)"
  using lookup_row_update [of r_id f i P rs] assms by simp

lemma ClaimRun_quiet:
  assumes "quiet e" and "schema_ok (e_others e d)"
  shows "fst (ClaimRun e i w d) =
     (case find_run i (e_others e d) of
        None \<Rightarrow> Inr None
      | Some r \<Rightarrow> if claimable (e_now e) r then Inr (Some (claim_row (e_now e) w r)) else Inr None)"
  using assms hit_by_id [of "runs (e_others e d)" i "claimable (e_now e)" "claim_row (e_now e) w"]
  by (auto simp: ClaimRun_def scanRun_def split_def Let_def split: option.splits)

lemma ClaimRun_claimed:
  assumes "schema_ok (e_others e d)" and "ClaimRun e i w d = (Inr (Some r), d')"
  shows "\<exists>r0. find_run i (e_others e d) = Some r0 \<and> claimable (e_now e) r0
     \<and> r = claim_row (e_now e) w r0 \<and> find_run i d' = Some r"
proof -
  let ?d = "e_others e d"
  let ?u = "sql_update (\<lambda>r. r_id r = i \<and> claimable (e_now e) r) (claim_row (e_now e) w) (runs ?d)"
  have u: "scanRun (fst ?u) = Inr r" "d' = ?d\<lparr>runs := snd ?u\<rparr>"
    using assms(2) by (auto simp: ClaimRun_def split_def Let_def split: prod.splits sum.splits if_splits
        dest!: pg_fst_Inr)
  from u(1) have "scanRun (case find_run i ?d of None \<Rightarrow> [] | Some r \<Rightarrow>
      if claimable (e_now e) r then [claim_row (e_now e) w r] else []) = Inr r"
    using hit_by_id [of "runs ?d" i "claimable (e_now e)" "claim_row (e_now e) w"] assms(1) by simp
  then obtain r0 where r0: "find_run i ?d = Some r0" "claimable (e_now e) r0" "r = claim_row (e_now e) w r0"
    by (auto simp: scanRun_def split: option.splits if_splits)
  have "find_run i d' = Some (if r_id r0 = i \<and> claimable (e_now e) r0 then claim_row (e_now e) w r0 else r0)"
    unfolding u(2) using find_after_update [OF r0(1), of "claim_row (e_now e) w"] by simp
  with r0 show ?thesis by (auto dest: lookup_row_Some)
qed

text \<open>
  The writes fenced by ownership succeed exactly when the run is running that attempt on that
  worker, and then they change that row.
\<close>

definition owned_by :: "db \<Rightarrow> uuid \<Rightarrow> string \<Rightarrow> int \<Rightarrow> bool" where
  "owned_by d i w a \<longleftrightarrow> (case find_run i d of None \<Rightarrow> False | Some r \<Rightarrow> owns w a r)"

lemma fenced_hit:
  assumes "schema_ok d"
  shows "length (fst (sql_update (\<lambda>r. r_id r = i \<and> owns w a r) f (runs d))) = 1 \<longleftrightarrow> owned_by d i w a"
  using hit_by_id [of "runs d" i "owns w a" f] assms by (simp add: owned_by_def split: option.split)

lemma fenced_write:
  assumes "owned_by d i w a" and "\<And>r. r_id (f r) = r_id r"
  shows "\<exists>r. find_run i d = Some r \<and> owns w a r
    \<and> lookup_row r_id i (map (\<lambda>r. if r_id r = i \<and> owns w a r then f r else r) (runs d)) = Some (f r)"
proof -
  obtain r where r: "find_run i d = Some r" "owns w a r"
    using assms(1) by (auto simp: owned_by_def split: option.splits)
  with find_after_update [OF r(1) assms(2), of "\<lambda>r. r_id r = i \<and> owns w a r"] show ?thesis
    by (auto dest: lookup_row_Some)
qed

lemma Heartbeat_true:
  assumes "schema_ok (e_others e d)" and "Heartbeat e i w a d = (Inr b, d')"
  shows "b = owned_by (e_others e d) i w a"
  using pg_Inr [OF assms(2) [unfolded Heartbeat_def]] fenced_hit [OF assms(1)]
  by (auto simp: Let_def split_def)

lemma FinishRun_true:
  assumes "schema_ok (e_others e d)" and "FinishRun e i w a st out er d = (Inr b, d')"
  shows "b = owned_by (e_others e d) i w a
    \<and> (b \<longrightarrow> (\<exists>r. find_run i (e_others e d) = Some r \<and> owns w a r \<and> find_run i d' = Some (finish_row (e_now e) st out er r)))"
proof -
  have q: "b = owned_by (e_others e d) i w a"
    "d' = (e_others e d)\<lparr>runs := map (\<lambda>r. if r_id r = i \<and> owns w a r then finish_row (e_now e) st out er r else r) (runs (e_others e d))\<rparr>"
    using pg_Inr [OF assms(2) [unfolded FinishRun_def]] fenced_hit [OF assms(1)]
    by (auto simp: Let_def split_def)
  with fenced_write [of "e_others e d" i w a "finish_row (e_now e) st out er"] show ?thesis
    by auto
qed

lemma ReleaseRun_true:
  assumes "schema_ok (e_others e d)" and "ReleaseRun e i w a reason d = (Inr b, d')"
  shows "b = owned_by (e_others e d) i w a
    \<and> (b \<longrightarrow> (\<exists>r. find_run i (e_others e d) = Some r \<and> owns w a r \<and> find_run i d' = Some (release_row (e_now e) reason r)))"
proof -
  have q: "b = owned_by (e_others e d) i w a"
    "d' = (e_others e d)\<lparr>runs := map (\<lambda>r. if r_id r = i \<and> owns w a r then release_row (e_now e) reason r else r) (runs (e_others e d))\<rparr>"
    using pg_Inr [OF assms(2) [unfolded ReleaseRun_def]] fenced_hit [OF assms(1)]
    by (auto simp: Let_def split_def split: if_splits)
  with fenced_write [of "e_others e d" i w a "release_row (e_now e) reason"] show ?thesis
    by auto
qed

lemma schema_find_job:
  "schema_ok d \<Longrightarrow> find_run i d = Some r \<Longrightarrow> find_job (r_job_id r) d \<noteq> None"
  using schema_run_job [of d r] by (auto dest: lookup_row_Some)

lemma FailOrRetry_result:
  assumes "schema_ok (e_others e d)" and "FailOrRetry e i w a msg b d = (Inr st, d')"
  shows "(if owned_by (e_others e d) i w a
          then \<exists>r. find_run i (e_others e d) = Some r \<and> owns w a r
             \<and> find_run i d' = Some (fail_or_retry_row (e_now e) msg b (exhausted (e_others e d) r) r)
             \<and> st = Some (if exhausted (e_others e d) r then StatusFailed else StatusQueued)
          else st = None \<and> d' = e_others e d)"
proof -
  let ?d = "e_others e d"
  let ?Q = "\<lambda>r. owns w a r \<and> find_job (r_job_id r) ?d \<noteq> None"
  let ?f = "\<lambda>r. fail_or_retry_row (e_now e) msg b (exhausted ?d r) r"
  let ?u = "sql_update (\<lambda>r. r_id r = i \<and> ?Q r) ?f (runs ?d)"
  have q: "st = (case fst ?u of [] \<Rightarrow> None | r # _ \<Rightarrow> Some (r_status r))" "d' = ?d\<lparr>runs := snd ?u\<rparr>"
    using pg_Inr [OF assms(2) [unfolded FailOrRetry_def]] by (auto simp: Let_def split_def split: if_splits)
  have f: "fst ?u = (case find_run i ?d of None \<Rightarrow> [] | Some r \<Rightarrow> if ?Q r then [?f r] else [])"
    using assms(1) by (intro hit_by_id) simp
  show ?thesis
  proof (cases "owned_by ?d i w a")
    case True
    then obtain r where r: "find_run i ?d = Some r" "owns w a r" by (auto simp: owned_by_def split: option.splits)
    have j: "find_job (r_job_id r) ?d \<noteq> None" using assms(1) r(1) by (rule schema_find_job)
    have "find_run i d' = Some (?f r)"
      using find_after_update [OF r(1), of ?f "\<lambda>r. r_id r = i \<and> ?Q r"] r j lookup_row_Some [OF r(1)]
      unfolding q(2) by simp
    moreover have "st = Some (r_status (?f r))" using q(1) f r j by simp
    ultimately show ?thesis using r True by (simp add: fail_or_retry_row_def)
  next
    case False
    then have "fst ?u = []" using f by (auto simp: owned_by_def split: option.splits)
    then have "snd ?u = runs ?d" unfolding fst_sql_update_Nil by (simp add: map_update_noop)
    with q \<open>fst ?u = []\<close> False show ?thesis by simp
  qed
qed

section \<open>Claims and results as events\<close>

text \<open>
  \<open>claim_events\<close>: the attempt a worker was told it may execute. \<open>settle_events\<close>: the attempts whose
  outcome was recorded by a call, by the worker itself or by the reaper.
\<close>

fun reply_claimed :: "reply \<Rightarrow> run option" where
  "reply_claimed (RClaim (Inr x)) = x"
| "reply_claimed _ = None"

fun reply_true :: "reply \<Rightarrow> bool" where
  "reply_true (RBool (Inr b)) = b"
| "reply_true _ = False"

fun reply_status :: "reply \<Rightarrow> status option" where
  "reply_status (RStatus (Inr x)) = x"
| "reply_status _ = None"

fun reply_rows :: "reply \<Rightarrow> redispatch list" where
  "reply_rows (RRedispatch (Inr xs)) = xs"
| "reply_rows _ = []"

definition claim_events :: "store_op \<Rightarrow> reply \<Rightarrow> (uuid \<times> int) list" where
  "claim_events p rep = (case p of
     OpClaimRun i w \<Rightarrow> (case reply_claimed rep of None \<Rightarrow> [] | Some r \<Rightarrow> [(r_id r, r_attempt r)])
   | _ \<Rightarrow> [])"

definition settled_attempt :: "redispatch \<Rightarrow> uuid \<times> int" where
  "settled_attempt x = (d_run_id x, if d_status x = StatusQueued then d_attempt x - 1 else d_attempt x)"

definition settle_events :: "store_op \<Rightarrow> reply \<Rightarrow> (uuid \<times> int) list" where
  "settle_events p rep = (case p of
     OpSucceed i w a out \<Rightarrow> (if reply_true rep then [(i, a)] else [])
   | OpReleaseRun i w a reason \<Rightarrow> (if reply_true rep then [(i, a)] else [])
   | OpFailOrRetry i w a msg b \<Rightarrow> (if reply_status rep \<noteq> None then [(i, a)] else [])
   | OpReapStale s n \<Rightarrow> map settled_attempt (reply_rows rep)
   | _ \<Rightarrow> [])"

lemma settle_events_cases:
  assumes "(i, a) \<in> set (settle_events p rep)"
  obtains (finish) w out where "p = OpSucceed i w a out" "reply_true rep"
    | (release) w reason where "p = OpReleaseRun i w a reason" "reply_true rep"
    | (fail) w msg b st where "p = OpFailOrRetry i w a msg b" "reply_status rep = Some st"
    | (reap) s n where "p = OpReapStale s n" "(i, a) \<in> set (map settled_attempt (reply_rows rep))"
  using assms by (cases p) (auto simp: settle_events_def split: if_splits)

definition at_status :: "status \<Rightarrow> (uuid \<times> int) list \<Rightarrow> (uuid \<times> int \<times> status) list" where
  "at_status st xs = map (\<lambda>(i, a). (i, a, st)) xs"

lemma distinct_at_status [simp]: "distinct (at_status st xs) = distinct xs"
  by (auto simp: at_status_def distinct_map inj_on_def)

lemma at_status_append [simp]: "at_status st (xs @ ys) = at_status st xs @ at_status st ys"
  by (simp add: at_status_def)

lemma at_status_Nil [simp]: "at_status st [] = []"
  by (simp add: at_status_def)

lemma in_at_status: "(i, x) \<in> set (at_status st xs) \<longleftrightarrow> (\<exists>a. x = (a, st) \<and> (i, a) \<in> set xs)"
  by (auto simp: at_status_def)

abbreviation claim_leaves :: "store_op \<Rightarrow> reply \<Rightarrow> (uuid \<times> int \<times> status) list" where
  "claim_leaves p r \<equiv> at_status StatusQueued (claim_events p r)"

abbreviation settle_leaves :: "store_op \<Rightarrow> reply \<Rightarrow> (uuid \<times> int \<times> status) list" where
  "settle_leaves p r \<equiv> at_status StatusRunning (settle_events p r)"

lemma claim_events_cases:
  "x \<in> set (claim_events p rep) \<Longrightarrow>
     \<exists>i w y. p = OpClaimRun i w \<and> reply_claimed rep = Some y \<and> x = (r_id y, r_attempt y)"
  by (cases p; cases "reply_claimed rep") (simp_all add: claim_events_def)

lemma reply_iffs [simp]:
  "reply_claimed (RClaim x) = Some r \<longleftrightarrow> x = Inr (Some r)"
  "reply_true (RBool y) \<longleftrightarrow> y = Inr True"
  "reply_status (RStatus z) = Some st \<longleftrightarrow> z = Inr (Some st)"
  "reply_rows (RRedispatch u) = (case u of Inl _ \<Rightarrow> [] | Inr xs \<Rightarrow> xs)"
  by (cases x; cases y; cases z; cases u; simp)+

lemma reply_claimed_exec:
  "reply_claimed (fst (exec_op e (OpClaimRun i w) d)) = Some r \<Longrightarrow>
     ClaimRun (alone e) i w d = (Inr (Some r), snd (exec_op e (OpClaimRun i w) d))"
  by (simp add: prod_eq_iff)

lemma claim_leaves_from:
  assumes "schema_ok d" and "(i, x) \<in> set (claim_leaves p (fst (exec_op e p d)))"
  shows "db_progress d i = Some x \<and> (\<exists>y. db_progress (snd (exec_op e p d)) i = Some y \<and> x < y)"
proof -
  obtain a where a: "x = (a, StatusQueued)" "(i, a) \<in> set (claim_events p (fst (exec_op e p d)))"
    using assms(2) by (auto simp: in_at_status)
  obtain k w y where p: "p = OpClaimRun k w" and c: "reply_claimed (fst (exec_op e p d)) = Some y"
      "i = r_id y" "a = r_attempt y"
    using claim_events_cases [OF a(2)] by auto
  from ClaimRun_claimed [OF _ reply_claimed_exec [OF c(1) [unfolded p]]] assms(1)
  obtain r0 where r0: "find_run k d = Some r0" "claimable (e_now (alone e)) r0"
      "y = claim_row (e_now (alone e)) w r0" "find_run k (snd (exec_op e p d)) = Some y"
    unfolding p by auto
  then have "k = i" using c(2) by (auto dest: lookup_row_Some)
  with r0 a(1) c(3) show ?thesis
    by (simp add: db_progress_def row_progress_def claimable_def claim_row_def less_prod_def status_order)
qed

lemma ReapStale_Inr:
  assumes "ReapStale e s n d = (Inr xs, d')"
  defines "d1 \<equiv> e_others e d"
  defines "P \<equiv> \<lambda>r. r_id r \<in> r_id ` set (stale_runs e s n d1)"
  shows "xs = collectRedispatches d1 (map (\<lambda>r. reap_row (e_now e) (exhausted d1 r) r) (filter P (runs d1)))
    \<and> d' = d1\<lparr>runs := map (\<lambda>r. if P r then reap_row (e_now e) (exhausted d1 r) r else r) (runs d1)\<rparr>"
  using pg_Inr [OF assms(1) [unfolded ReapStale_def]] unfolding d1_def P_def
  by (auto simp: Let_def sql_update_def split: if_splits)

lemma settled_reap_row:
  "map settled_attempt (collectRedispatches d (map (\<lambda>r. reap_row now (ex r) r) rs)) =
     map (\<lambda>r. (r_id r, r_attempt r)) rs"
  by (auto simp: collectRedispatches_def settled_attempt_def reap_row_def)

lemma reap_leaves:
  assumes "schema_ok d" and "ReapStale (alone e) s n d = (Inr xs, d')"
  shows "distinct (map settled_attempt xs)
    \<and> (\<forall>(i, a) \<in> set (map settled_attempt xs). db_progress d i = Some (a, StatusRunning)
         \<and> (\<exists>y. db_progress d' i = Some y \<and> (a, StatusRunning) < y))"
proof -
  let ?e = "alone e"
  let ?P = "\<lambda>r. r_id r \<in> r_id ` set (stale_runs ?e s n d)"
  let ?f = "\<lambda>r. reap_row (e_now ?e) (exhausted d r) r"
  note r = ReapStale_Inr [OF assms(2), unfolded alone_others]
  have m: "map settled_attempt xs = map (\<lambda>r. (r_id r, r_attempt r)) (filter ?P (runs d))"
    using r settled_reap_row by simp
  have "distinct (map (\<lambda>r. (r_id r, r_attempt r)) (filter ?P (runs d)))"
    using assms(1) by (auto simp: distinct_map inj_on_def schema_defs)
  moreover have "db_progress d (r_id q) = Some (r_attempt q, StatusRunning)
      \<and> (\<exists>y. db_progress d' (r_id q) = Some y \<and> (r_attempt q, StatusRunning) < y)"
    if q: "q \<in> set (runs d)" "?P q" for q
  proof -
    have st: "r_status q = StatusRunning"
      using picked_row [OF assms(1) stale_runs_in q] by (simp add: is_stale_def)
    have f: "find_run (r_id q) d = Some q" using assms(1) q(1) by (simp add: lookup_row_unique)
    have "find_run (r_id q) d' = Some (?f q)"
      using r find_after_update [OF f, of ?f ?P] q(2) by simp
    with f st show ?thesis
      by (auto simp: db_progress_def row_progress_def reap_row_def less_prod_def status_order)
  qed
  ultimately show ?thesis unfolding m by auto
qed

lemma reap_leaves_reply:
  fixes e :: env and s :: duration and n :: nat
  assumes "schema_ok d"
  defines "x \<equiv> ReapStale (alone e) s n d"
  shows "distinct (map settled_attempt (reply_rows (fst (apfst RRedispatch x))))"
    and "(i, a) \<in> set (map settled_attempt (reply_rows (fst (apfst RRedispatch x)))) \<Longrightarrow>
      db_progress d i = Some (a, StatusRunning) \<and> (\<exists>y. db_progress (snd x) i = Some y \<and> (a, StatusRunning) < y)"
proof -
  have *: "distinct (map settled_attempt xs)
    \<and> (\<forall>(i, a) \<in> set (map settled_attempt xs). db_progress d i = Some (a, StatusRunning)
         \<and> (\<exists>y. db_progress (snd x) i = Some y \<and> (a, StatusRunning) < y))" if "fst x = Inr xs" for xs
    using reap_leaves [OF assms(1), of e s n xs "snd x"] that by (simp add: x_def prod_eq_iff)
  show "distinct (map settled_attempt (reply_rows (fst (apfst RRedispatch x))))"
    using * by (cases "fst x") auto
  assume m: "(i, a) \<in> set (map settled_attempt (reply_rows (fst (apfst RRedispatch x))))"
  then obtain xs where xs: "fst x = Inr xs" by (cases "fst x") auto
  with m have "(i, a) \<in> set (map settled_attempt xs)" by simp
  with * [OF xs] show "db_progress d i = Some (a, StatusRunning)
      \<and> (\<exists>y. db_progress (snd x) i = Some y \<and> (a, StatusRunning) < y)" by blast
qed

lemma settle_leaves_from:
  assumes "schema_ok d" and "(i, x) \<in> set (settle_leaves p (fst (exec_op e p d)))"
  shows "db_progress d i = Some x \<and> (\<exists>y. db_progress (snd (exec_op e p d)) i = Some y \<and> x < y)"
proof -
  let ?d' = "snd (exec_op e p d)"
  let ?now = "e_now (alone e)"
  obtain a where a: "x = (a, StatusRunning)" "(i, a) \<in> set (settle_events p (fst (exec_op e p d)))"
    using assms(2) by (auto simp: in_at_status)
  have moved: "?thesis" if "find_run i d = Some r" "owns w a r" "find_run i ?d' = Some r'"
      "(a, StatusRunning) < row_progress r'" for r r' w
    using that a(1) by (simp add: db_progress_def row_progress_def owns_def)
  note lt = row_progress_def owns_def less_prod_def status_order row_updates
  from a(2) show ?thesis
  proof (cases rule: settle_events_cases)
    case (finish w out)
    then have "FinishRun (alone e) i w a StatusSucceeded (Some out) None d = (Inr True, ?d')"
      by (simp add: prod_eq_iff)
    from FinishRun_true [OF _ this] assms(1) obtain r where r: "find_run i d = Some r" "owns w a r"
        "find_run i ?d' = Some (finish_row ?now StatusSucceeded (Some out) None r)" by auto
    then show ?thesis by (intro moved [OF r]) (simp add: lt)
  next
    case (release w reason)
    then have "ReleaseRun (alone e) i w a reason d = (Inr True, ?d')" by (simp add: prod_eq_iff)
    from ReleaseRun_true [OF _ this] assms(1) obtain r where r: "find_run i d = Some r" "owns w a r"
        "find_run i ?d' = Some (release_row ?now reason r)" by auto
    then show ?thesis by (intro moved [OF r]) (simp add: lt)
  next
    case (fail w msg t st)
    then have "FailOrRetry (alone e) i w a msg t d = (Inr (Some st), ?d')" by (simp add: prod_eq_iff)
    from FailOrRetry_result [OF _ this] assms(1) obtain r where r: "find_run i d = Some r" "owns w a r"
        "find_run i ?d' = Some (fail_or_retry_row ?now msg t (exhausted d r) r)"
      by (auto split: if_splits)
    then show ?thesis by (intro moved [OF r]) (simp add: lt)
  next
    case (reap s n)
    then show ?thesis using reap_leaves_reply(2) [OF assms(1), of i a e s n] a(1) by simp
  qed
qed

lemma claim_leaves_distinct: "distinct (claim_leaves p r)"
  by (cases p) (simp_all add: claim_events_def split: option.split)

lemma settle_leaves_distinct:
  assumes "schema_ok d"
  shows "distinct (settle_leaves p (fst (exec_op e p d)))"
proof (cases p)
  case (OpReapStale s n)
  with reap_leaves_reply(1) [OF assms, of e s n] show ?thesis by (simp add: settle_events_def)
qed (simp_all add: settle_events_def)

interpretation claims: progress_store schema_ok db_progress exec_op claim_leaves
  by unfold_locales
     (erule exec_op_schema, erule (1) db_progress_mono, erule (1) claim_leaves_from, rule claim_leaves_distinct)

interpretation results: progress_store schema_ok db_progress exec_op settle_leaves
  by unfold_locales
     (erule exec_op_schema, erule (1) db_progress_mono, erule (1) settle_leaves_from, erule settle_leaves_distinct)

section \<open>At most once\<close>

definition events :: "(store_op \<Rightarrow> reply \<Rightarrow> (uuid \<times> int) list) \<Rightarrow> (env \<times> store_op) list \<Rightarrow> db \<Rightarrow> (uuid \<times> int) list" where
  "events f ops d = concat (map (\<lambda>(p, r). f p r) (fst (run_ops ops d)))"

lemma events_simps [simp]:
  "events f [] d = []"
  "events f ((e, p) # ops) d = f p (fst (exec_op e p d)) @ events f ops (snd (exec_op e p d))"
  by (simp_all add: events_def split_def Let_def)

lemma claims_history: "claims.history ops d = at_status StatusQueued (events claim_events ops d)"
  by (induction ops d rule: claims.history.induct) simp_all

lemma results_history: "results.history ops d = at_status StatusRunning (events settle_events ops d)"
  by (induction ops d rule: results.history.induct) simp_all

end
