(* ===== verification/RunHistory.thy ===== *)
theory RunHistory
  imports AtMostOnce
begin

text \<open>
  What holds of every run in every history of calls: its row has the shape its status promises, it
  follows the abstract machine of \<open>phase_step\<close>, a finished run never changes, and the number of
  attempts is bounded by \<open>max_retries\<close> and the number of times a worker handed the run back.
\<close>

section \<open>Invariants of histories\<close>

definition db_ok :: "db \<Rightarrow> bool" where
  "db_ok d \<longleftrightarrow> schema_ok d \<and> list_all row_ok (runs d)"

lemma db_ok_empty [simp]: "db_ok empty_db"
  by (simp add: db_ok_def)

lemma exec_op_db_ok: "db_ok d \<Longrightarrow> db_ok (snd (exec_op e p d))"
  using runs_step_rows_ok [OF exec_op_step] by (auto simp: db_ok_def list_all_iff exec_op_schema)

lemma snd_run_ops_Cons [simp]:
  "snd (run_ops ((e, p) # ops) d) = snd (run_ops ops (snd (exec_op e p d)))"
  by (simp add: split_def Let_def)

declare run_ops.simps(2) [simp del]

lemma run_ops_db_ok: "db_ok d \<Longrightarrow> db_ok (snd (run_ops ops d))"
proof (induction ops arbitrary: d)
  case Nil
  then show ?case by simp
next
  case (Cons x ops)
  then show ?case by (cases x) (simp add: exec_op_db_ok)
qed

lemma exec_op_find:
  assumes "schema_ok d" and "find_run i d = Some r"
  shows "\<exists>r'. find_run i (snd (exec_op e p d)) = Some r' \<and> row_step r r'"
  using runs_step_find [OF exec_op_step [OF assms(1)] assms(2)] .

section \<open>Attempts\<close>

text \<open>\<open>attempt\<close> grows only by one, and outside a release only while retries are left.\<close>

definition bounded_step :: "db \<Rightarrow> run \<Rightarrow> run \<Rightarrow> bool" where
  "bounded_step d r r' \<longleftrightarrow> r_id r' = r_id r \<and> r_job_id r' = r_job_id r
     \<and> (r_attempt r' = r_attempt r \<or> (r_attempt r' = r_attempt r + 1 \<and> \<not> exhausted d r))"

definition attempts_bounded :: "db \<Rightarrow> db \<Rightarrow> bool" where
  "attempts_bounded d d' \<longleftrightarrow> (\<forall>i r. find_run i d = Some r \<longrightarrow>
      (\<exists>r'. find_run i d' = Some r' \<and> bounded_step d r r'))"

lemma bounded_refl [simp]: "bounded_step d r r"
  by (simp add: bounded_step_def)

lemma attempts_bounded_refl [simp]: "attempts_bounded d d"
  by (simp add: attempts_bounded_def)

lemma attempts_bounded_update:
  assumes "\<And>r. bounded_step d r (f r)"
  shows "attempts_bounded d (d\<lparr>runs := map (\<lambda>r. if P r then f r else r) (runs d)\<rparr>)"
proof -
  have "r_id (f r) = r_id r" for r using assms [of r] by (simp add: bounded_step_def)
  then show ?thesis
    using assms by (auto simp: attempts_bounded_def lookup_row_update)
qed

lemma attempts_bounded_adds: "adds_runs d d' \<Longrightarrow> attempts_bounded d d'"
  by (auto simp: attempts_bounded_def adds_runs_def lookup_row_append)

lemma attempts_bounded_same: "runs d' = runs d \<Longrightarrow> attempts_bounded d d'"
  by (simp add: attempts_bounded_def)

lemma same_attempt_rows [simp]:
  "bounded_step d r (claim_row now w r)" "bounded_step d r (heartbeat_row now r)"
  "bounded_step d r (finish_row now st out er r)" "bounded_step d r (sweep_row now r)"
  "bounded_step d r (retry_row now r)" "bounded_step d r (fail_queued_row now reason r)"
  by (simp_all add: bounded_step_def row_updates)

lemma next_attempt_rows [simp]:
  "bounded_step d r (fail_or_retry_row now msg b (exhausted d r) r)"
  "bounded_step d r (reap_row now (exhausted d r) r)"
  by (simp_all add: bounded_step_def row_updates)

lemma exec_op_attempts:
  assumes "\<And>i w a reason. p \<noteq> OpReleaseRun i w a reason"
  shows "attempts_bounded d (snd (exec_op e p d))"
proof (cases p)
  case (OpCreateJob n)
  then show ?thesis by (simp add: attempts_bounded_same CreateJob_runs)
next
  case (OpSetJobEnabled i en n)
  then show ?thesis by (simp add: attempts_bounded_same SetJobEnabled_runs)
next
  case (OpCreateManualRun ji)
  then show ?thesis using CreateManualRun_adds [of "alone e" d ji] by (simp add: attempts_bounded_adds)
next
  case (OpFailQueuedRun i reason)
  show ?thesis unfolding OpFailQueuedRun FailQueuedRun_def exec_op.simps snd_apfst
    by (rule pg_post [where R = "attempts_bounded d"]) (simp_all add: attempts_bounded_update)
next
  case (OpClaimRun i w)
  show ?thesis unfolding OpClaimRun exec_op.simps snd_apfst ClaimRun_db
    by (rule pg_post [where R = "attempts_bounded d"]) (simp_all add: split_def Let_def attempts_bounded_update)
next
  case (OpHeartbeat i w a)
  show ?thesis unfolding OpHeartbeat exec_op.simps snd_apfst Heartbeat_def
    by (rule pg_post [where R = "attempts_bounded d"]) (simp_all add: split_def Let_def attempts_bounded_update)
next
  case (OpSucceed i w a out)
  show ?thesis unfolding OpSucceed exec_op.simps snd_apfst FinishRun_def
    by (rule pg_post [where R = "attempts_bounded d"]) (simp_all add: split_def Let_def attempts_bounded_update)
next
  case (OpFailOrRetry i w a msg b)
  show ?thesis unfolding OpFailOrRetry exec_op.simps snd_apfst FailOrRetry_def
    by (rule pg_post [where R = "attempts_bounded d"]) (simp_all add: split_def Let_def attempts_bounded_update)
next
  case (OpReleaseRun i w a reason)
  with assms show ?thesis by blast
next
  case (OpAppendLogs i a ls)
  then show ?thesis by (simp add: attempts_bounded_same AppendLogs_runs alone_def)
next
  case (OpReapStale s n)
  show ?thesis unfolding OpReapStale exec_op.simps snd_apfst ReapStale_def
    by (rule pg_post [where R = "attempts_bounded d"]) (simp_all add: split_def Let_def attempts_bounded_update)
next
  case (OpSweepQueued s n)
  show ?thesis unfolding OpSweepQueued exec_op.simps snd_apfst SweepQueued_def
    by (rule pg_post [where R = "attempts_bounded d"]) (simp_all add: split_def Let_def attempts_bounded_update)
next
  case (OpDueRetries n)
  show ?thesis unfolding OpDueRetries exec_op.simps snd_apfst DueRetries_def
    by (rule pg_post [where R = "attempts_bounded d"]) (simp_all add: split_def Let_def attempts_bounded_update)
next
  case (OpFireDueJobs n f)
  then show ?thesis using FireDueJobs_adds [of "alone e" d n f] by (simp add: attempts_bounded_adds)
qed

text \<open>A release moves only its own run, by one attempt.\<close>

lemma release_attempts:
  assumes "find_run i d = Some r"
  shows "\<exists>r'. find_run i (snd (ReleaseRun (alone e) k w a reason d)) = Some r' \<and> r_job_id r' = r_job_id r
     \<and> r_attempt r' \<le> r_attempt r + (if k = i then 1 else 0)"
proof -
  let ?f = "release_row (e_now (alone e)) reason"
  let ?P = "\<lambda>r. r_id r = k \<and> owns w a r"
  let ?R = "\<lambda>d'. \<exists>r'. find_run i d' = Some r' \<and> r_job_id r' = r_job_id r
     \<and> r_attempt r' \<le> r_attempt r + (if k = i then 1 else 0)"
  have "lookup_row r_id i (map (\<lambda>r. if ?P r then ?f r else r) (runs d)) = Some (if ?P r then ?f r else r)"
    by (rule find_after_update [OF assms]) simp
  moreover have "r_id r = i" using assms by (auto dest: lookup_row_Some)
  ultimately have upd: "?R (d\<lparr>runs := map (\<lambda>r. if ?P r then ?f r else r) (runs d)\<rparr>)"
    by (auto simp: release_row_def)
  have same: "?R d" using assms by simp
  show ?thesis unfolding ReleaseRun_def
  proof (rule pg_post [where R = ?R])
    show "?R (e_others (alone e) d)" using same by simp
    show "?R (snd (let P = ?P in
       if attempt_overflows P (runs (e_others (alone e) d)) then (Inl (ErrPg pgNumericOverflow), e_others (alone e) d)
       else let (hit, rs) = sql_update P ?f (runs (e_others (alone e) d))
            in (Inr (length hit = 1), (e_others (alone e) d)\<lparr>runs := rs\<rparr>)))"
      using same upd by (cases "attempt_overflows ?P (runs d)") (simp_all add: Let_def split_def)
  qed
qed

text \<open>Jobs are only added and rescheduled: the retry budget of a job is fixed when it is created.\<close>

definition job_kept :: "job \<Rightarrow> job \<Rightarrow> bool" where
  "job_kept j j' \<longleftrightarrow> j_max_retries j' = j_max_retries j \<and> j_timeout_sec j' = j_timeout_sec j
     \<and> j_type j' = j_type j \<and> j_payload j' = j_payload j"

lemma job_kept_refl [simp]: "job_kept j j"
  by (simp add: job_kept_def)

lemma job_kept_trans: "job_kept a b \<Longrightarrow> job_kept b c \<Longrightarrow> job_kept a c"
  by (simp add: job_kept_def)

definition jobs_kept :: "db \<Rightarrow> db \<Rightarrow> bool" where
  "jobs_kept d d' \<longleftrightarrow> (\<forall>i j. find_job i d = Some j \<longrightarrow> (\<exists>j'. find_job i d' = Some j' \<and> job_kept j j'))"

lemma jobs_kept_refl [simp]: "jobs_kept d d"
  by (simp add: jobs_kept_def)

lemma jobs_kept_same: "jobs d' = jobs d \<Longrightarrow> jobs_kept d d'"
  by (simp add: jobs_kept_def)

lemma jobs_kept_trans: "jobs_kept a b \<Longrightarrow> jobs_kept b c \<Longrightarrow> jobs_kept a c"
  unfolding jobs_kept_def by (meson job_kept_trans)

lemma jobs_kept_next: "jobs_kept d (set_next_run_at now i n d)"
  unfolding jobs_kept_def set_next_run_at_def snd_sql_update
  by (simp add: lookup_row_update advance_row_def job_kept_def)

lemma jobs_kept_insert: "jobs_kept d (snd (insert_occurrence r d))"
  by (auto simp: insert_occurrence_def insert_run_def intro: jobs_kept_same)

lemma jobs_kept_fire: "jobs_kept d (snd (fire_jobs e next k js fired errs d))"
proof (induction js arbitrary: k fired errs d)
  case Nil
  then show ?case by simp
next
  case (Cons j js)
  have "jobs_kept d (snd (insert_occurrence (new_run_row (e_uuids e k) (u_id j) (u_next_run_at j)
      TriggerSchedule (e_now e)) d))"
    by (rule jobs_kept_insert)
  then show ?case
    by (auto split: sum.split prod.split intro: jobs_kept_trans [OF _ jobs_kept_trans [OF jobs_kept_next Cons.IH]])
qed

lemma exec_op_jobs_kept:
  assumes "schema_ok d"
  shows "jobs_kept d (snd (exec_op e p d))"
proof (cases p)
  case (OpCreateJob n)
  show ?thesis unfolding OpCreateJob exec_op.simps snd_apfst CreateJob_def
    by (rule pg_post [where R = "jobs_kept d"]) (auto simp: Let_def jobs_kept_def lookup_row_append split: sum.split)
next
  case (OpSetJobEnabled i en n)
  show ?thesis unfolding OpSetJobEnabled exec_op.simps snd_apfst SetJobEnabled_def
    by (rule pg_post [where R = "jobs_kept d"]) (simp_all add: Let_def split_def jobs_kept_def lookup_row_update set_enabled_row_def job_kept_def)
next
  case (OpCreateManualRun ji)
  show ?thesis unfolding OpCreateManualRun exec_op.simps snd_apfst CreateManualRun_db
    by (rule pg_post [where R = "jobs_kept d"]) (auto simp: insert_run_def intro: jobs_kept_same)
next
  case (OpFireDueJobs n f)
  then show ?thesis
    using FireDueJobs_db_cases [of "alone e" n f d] jobs_kept_fire by auto
next
  case (OpAppendLogs i a ls)
  then show ?thesis using AppendLogs_db_cases [of "alone e" i a ls d] by (auto intro: jobs_kept_same)
qed (use assms in \<open>simp_all add: jobs_kept_same table_step_frame [OF table_steps(1) [of "alone e" d, simplified]]
   table_step_frame [OF table_steps(2) [of "alone e" d, simplified]]
   table_step_frame [OF table_steps(3) [of "alone e" d, simplified]]
   table_step_frame [OF table_steps(4) [of "alone e" d, simplified]]
   table_step_frame [OF table_steps(5) [of "alone e" d, simplified]]
   table_step_frame [OF table_steps(6) [of "alone e" d, simplified]]
   table_step_frame [OF table_steps(7) [of "alone e" d, simplified]]
   table_step_frame [OF table_steps(8) [of "alone e" d, simplified]]
   table_step_frame [OF table_steps(9) [of "alone e" d, simplified]]\<close>)

section \<open>The retry budget over a history\<close>

definition is_release :: "uuid \<Rightarrow> store_op \<Rightarrow> bool" where
  "is_release i p = (case p of OpReleaseRun k w a reason \<Rightarrow> k = i | _ \<Rightarrow> False)"

definition releases :: "uuid \<Rightarrow> (env \<times> store_op) list \<Rightarrow> nat" where
  "releases i ops = length (filter (\<lambda>x. is_release i (snd x)) ops)"

definition within_budget :: "(uuid \<Rightarrow> int) \<Rightarrow> db \<Rightarrow> bool" where
  "within_budget n d \<longleftrightarrow> (\<forall>i r j. find_run i d = Some r \<longrightarrow> find_job (r_job_id r) d = Some j \<longrightarrow>
     r_attempt r \<le> j_max_retries j + 1 + n i)"

lemma exec_op_attempt_step:
  assumes "schema_ok d" and "find_run i d = Some r" and "find_run i (snd (exec_op e p d)) = Some r'"
  shows "r_job_id r' = r_job_id r \<and> (r_attempt r' = r_attempt r \<or> (r_attempt r' = r_attempt r + 1 \<and> \<not> exhausted d r)
     \<or> r_attempt r' \<le> r_attempt r + (if is_release i p then 1 else 0))"
proof (cases "\<exists>k w a reason. p = OpReleaseRun k w a reason")
  case True
  then obtain k w a reason where p: "p = OpReleaseRun k w a reason" by blast
  with release_attempts [OF assms(2), of e k w a reason] assms(3) show ?thesis
    by (simp add: is_release_def split: if_splits)
next
  case False
  then have "attempts_bounded d (snd (exec_op e p d))" by (intro exec_op_attempts) blast
  then obtain r'' where "find_run i (snd (exec_op e p d)) = Some r''" "bounded_step d r r''"
    using assms(2) unfolding attempts_bounded_def by blast
  with assms(3) have "bounded_step d r r'" by simp
  then show ?thesis unfolding bounded_step_def by blast
qed

lemma exec_op_budget:
  assumes "schema_ok d" and "within_budget n d" and "\<And>i. 0 \<le> n i"
  shows "within_budget (\<lambda>i. n i + (if is_release i p then 1 else 0)) (snd (exec_op e p d))"
  unfolding within_budget_def
proof (intro allI impI)
  fix i r' j'
  let ?d' = "snd (exec_op e p d)"
  assume r': "find_run i ?d' = Some r'" and j': "find_job (r_job_id r') ?d' = Some j'"
  show "r_attempt r' \<le> j_max_retries j' + 1 + (n i + (if is_release i p then 1 else 0))"
  proof (cases "find_run i d")
    case None
    have "fresh_row r'" using runs_step_new [OF exec_op_step [OF assms(1)] None r'] .
    then have "r_attempt r' = 1" by (auto simp: fresh_row_def)
    moreover have "0 \<le> j_max_retries j'"
      using exec_op_schema [OF assms(1), of e p] lookup_row_Some [OF j'] by (simp add: schema_defs job_checks_def)
    ultimately show ?thesis using assms(3) [of i] by simp
  next
    case (Some r)
    note step = exec_op_attempt_step [OF assms(1) Some r']
    obtain j where j: "find_job (r_job_id r) d = Some j" using schema_find_job [OF assms(1) Some] by blast
    then have "j_max_retries j' = j_max_retries j"
      using exec_op_jobs_kept [OF assms(1), of e p] j' step by (fastforce simp: jobs_kept_def job_kept_def)
    moreover have "r_attempt r \<le> j_max_retries j + 1 + n i"
      using assms(2) Some j by (simp add: within_budget_def)
    ultimately show ?thesis using step assms(3) [of i] j by (auto simp: exhausted_def)
  qed
qed

lemma run_ops_budget:
  "schema_ok d \<Longrightarrow> within_budget n d \<Longrightarrow> (\<And>i. 0 \<le> n i) \<Longrightarrow>
     within_budget (\<lambda>i. n i + int (releases i ops)) (snd (run_ops ops d))"
proof (induction ops arbitrary: d n)
  case Nil
  then show ?case by (simp add: releases_def)
next
  case (Cons x ops)
  obtain e p where x: "x = (e, p)" by (cases x)
  have "within_budget (\<lambda>i. (n i + (if is_release i p then 1 else 0)) + int (releases i ops))
      (snd (run_ops ops (snd (exec_op e p d))))"
    using Cons.prems by (intro Cons.IH exec_op_schema exec_op_budget) simp_all
  moreover have "(\<lambda>i. (n i + (if is_release i p then 1 else 0)) + int (releases i ops))
      = (\<lambda>i. n i + int (releases i (x # ops)))"
    by (auto simp: releases_def x)
  ultimately show ?case by (simp add: x)
qed

lemma run_ops_find:
  "schema_ok d \<Longrightarrow> find_run i d = Some r \<Longrightarrow> final_status (r_status r) \<Longrightarrow>
     find_run i (snd (run_ops ops d)) = Some r"
proof (induction ops arbitrary: d)
  case Nil
  then show ?case by simp
next
  case (Cons x ops)
  obtain e p where x: "x = (e, p)" by (cases x)
  obtain r' where r': "find_run i (snd (exec_op e p d)) = Some r'" "row_step r r'"
    using exec_op_find [OF Cons.prems(1,2)] by blast
  with Cons.prems(3) have "r' = r" by (simp add: row_step_final)
  with Cons.IH [OF exec_op_schema [OF Cons.prems(1)]] r'(1) Cons.prems(3) show ?case by (simp add: x)
qed

end
