(* ===== verification/StoreProps.thy ===== *)
theory StoreProps
  imports RunHistory
begin

text \<open>
  The properties of the store: at-most-once execution, the run life cycle and its refinement of
  the abstract machine, ownership fencing, the retry budget, and a small concrete history on which
  they are exercised.
\<close>

section \<open>A concrete history\<close>

definition demo_env :: "time \<Rightarrow> uuid \<Rightarrow> env" where
  "demo_env t i = \<lparr>e_others = (\<lambda>d. d), e_now = t, e_clock = t, e_locked = [], e_uuids = (\<lambda>_. i), e_fault = None,
     e_jsonb = Inr\<rparr>"

definition demo_new_job :: "int \<Rightarrow> new_job" where
  "demo_new_job m = \<lparr>n_name = ''report'', n_type = ''generate_text'', n_payload = ''{}'', n_cron_expr = None,
     n_timezone = ''UTC'', n_next_run_at = None, n_max_retries = m, n_timeout_sec = 300\<rparr>"

text \<open>A job with \<open>m\<close> retries and one manual run of it, queued at time 2.\<close>

definition demo_start :: "int \<Rightarrow> (env \<times> store_op) list" where
  "demo_start m = [(demo_env 1 ''J'', OpCreateJob (demo_new_job m)), (demo_env 2 ''R'', OpCreateManualRun ''J'')]"

definition demo_db :: "int \<Rightarrow> db" where
  "demo_db m = snd (run_ops (demo_start m) empty_db)"

lemmas demo_simps = demo_env_def demo_new_job_def demo_start_def alone_def pg_def CreateJob_def
  CreateManualRun_def insert_run_def new_run_row_def new_job_row_def fits_int4_def int4_max_def
  scanJob_def scanRun_def empty_db_def occurrence_def Let_def

lemmas demo_ops = ClaimRun_def claimable_def claim_row_def owns_def sql_update_def FailOrRetry_def
  fail_or_retry_row_def exhausted_def attempt_overflows_def ReleaseRun_def release_row_def
  FinishRun_def finish_row_def Heartbeat_def heartbeat_row_def interval_us_def

lemma demo_db_eq:
  "0 \<le> m \<Longrightarrow> m \<le> 100 \<Longrightarrow> demo_db m = \<lparr>jobs = [new_job_row ''J'' 1 (demo_new_job m)],
     runs = [new_run_row ''R'' ''J'' 2 TriggerManual 2], logs = []\<rparr>"
  by (simp add: demo_db_def demo_simps)

lemma demo_db_ok: "db_ok (demo_db m)"
  unfolding demo_db_def by (rule run_ops_db_ok) simp

lemma demo_schema_ok: "schema_ok (demo_db m)"
  using demo_db_ok by (simp add: db_ok_def)

section \<open>At most once\<close>

text \<open>
  C3: however the calls of all API servers and workers are ordered, whatever faults they meet and
  however often a dispatch message is delivered, no attempt of a run is handed to a worker twice.
\<close>

theorem attempt_claimed_at_most_once: "distinct (events claim_events ops empty_db)"
  using claims.history_distinct [of empty_db ops] by (simp add: claims_history)

text \<open>
  C4: the outcome of an attempt (success, failure, retry, release, or the reaper's verdict) is
  recorded at most once: a worker the reaper gave up on cannot settle the attempt again.
\<close>

theorem attempt_settled_at_most_once: "distinct (events settle_events ops empty_db)"
  using results.history_distinct [of empty_db ops] by (simp add: results_history)

section \<open>The life of a run\<close>

text \<open>
  C6: after any history of calls on an empty database the constraints of the schema hold and every
  run has the shape of its status: a queued run has no owner, a running one has an owner, a start
  and a heartbeat and no pending backoff, a finished one has its end, and no run is CANCELLED.
\<close>

theorem history_keeps_invariant:
  "schema_ok (snd (run_ops ops empty_db)) \<and> list_all row_ok (runs (snd (run_ops ops empty_db)))"
  using run_ops_db_ok [OF db_ok_empty, of ops] by (simp add: db_ok_def)

text \<open>
  C7: one call of the store takes every run through at most one transition of the abstract machine
  \<open>Waiting a \<rightarrow> Executing a w \<rightarrow> Waiting (a+1) | Succeeded a | Gone a\<close>.
\<close>

theorem store_refines_phases:
  assumes "schema_ok d" and "find_run i d = Some r"
  shows "\<exists>r'. find_run i (snd (exec_op e p d)) = Some r' \<and>
    (phase_of r' = phase_of r \<or> phase_step (phase_of r) (phase_of r'))"
  using exec_op_find [OF assms] row_step_refines by blast

theorem store_refines_phases_witness:
  "\<exists>r'. find_run ''R'' (snd (exec_op (demo_env 3 '''') (OpClaimRun ''R'' ''w'') (demo_db 1))) = Some r' \<and>
    (phase_of r' = Waiting 1 \<or> phase_step (Waiting 1) (phase_of r'))"
  using store_refines_phases [OF demo_schema_ok, of "''R''" 1 "new_run_row ''R'' ''J'' 2 TriggerManual 2"
      "demo_env 3 ''''" "OpClaimRun ''R'' ''w''"]
  by (simp add: demo_db_eq phase_of_def del: exec_op.simps)

text \<open>C14: a run that succeeded or failed is never changed again, by any later history of calls.\<close>

theorem finished_run_is_final:
  assumes "schema_ok d" and "find_run i d = Some r" and "final_status (r_status r)"
  shows "find_run i (snd (run_ops ops d)) = Some r"
  using assms by (rule run_ops_find)

definition demo_done :: db where
  "demo_done = snd (run_ops [(demo_env 3 '''', OpClaimRun ''R'' ''w''), (demo_env 4 '''', OpSucceed ''R'' ''w'' 1 ''out'')]
     (demo_db 1))"

lemma demo_done_run:
  "find_run ''R'' demo_done = Some (finish_row 4 StatusSucceeded (Some ''out'') None
     (claim_row 3 ''w'' (new_run_row ''R'' ''J'' 2 TriggerManual 2)))"
  by (simp add: demo_done_def demo_db_eq demo_ops demo_simps)

lemma demo_done_ok: "schema_ok demo_done"
  unfolding demo_done_def using run_ops_db_ok [OF demo_db_ok] unfolding db_ok_def by blast

theorem finished_run_is_final_witness:
  "find_run ''R'' (snd (run_ops [(demo_env 9 '''', OpClaimRun ''R'' ''v''), (demo_env 9 '''', OpReapStale 0 100)] demo_done))
     = Some (finish_row 4 StatusSucceeded (Some ''out'') None
          (claim_row 3 ''w'' (new_run_row ''R'' ''J'' 2 TriggerManual 2)))"
  by (rule finished_run_is_final [OF demo_done_ok demo_done_run]) (simp add: final_status_def finish_row_def)

section \<open>Claims\<close>

text \<open>
  A call of ClaimRun that reaches the database hands the run over exactly when it is QUEUED and
  its backoff has elapsed; the run it returns is the stored row, RUNNING for that worker with
  a fresh heartbeat and no pending backoff; in every other case it reports false.
\<close>

theorem ClaimRun_spec:
  assumes "quiet e" and "schema_ok (e_others e d)"
  shows "fst (ClaimRun e i w d) =
      (case find_run i (e_others e d) of
         None \<Rightarrow> Inr None
       | Some r \<Rightarrow> if r_status r = StatusQueued
                      \<and> (r_next_attempt_at r = None \<or> (\<exists>t. r_next_attempt_at r = Some t \<and> t \<le> e_now e))
                   then Inr (Some (claim_row (e_now e) w r)) else Inr None)
    \<and> (\<forall>r. fst (ClaimRun e i w d) = Inr (Some r) \<longrightarrow> find_run i (snd (ClaimRun e i w d)) = Some r)"
proof
  have c: "claimable (e_now e) r \<longleftrightarrow> r_status r = StatusQueued
      \<and> (r_next_attempt_at r = None \<or> (\<exists>t. r_next_attempt_at r = Some t \<and> t \<le> e_now e))" for r
    by (cases "r_next_attempt_at r") (simp_all add: claimable_def)
  show "fst (ClaimRun e i w d) =
      (case find_run i (e_others e d) of
         None \<Rightarrow> Inr None
       | Some r \<Rightarrow> if r_status r = StatusQueued
                      \<and> (r_next_attempt_at r = None \<or> (\<exists>t. r_next_attempt_at r = Some t \<and> t \<le> e_now e))
                   then Inr (Some (claim_row (e_now e) w r)) else Inr None)"
    unfolding ClaimRun_quiet [OF assms] c ..
  show "\<forall>r. fst (ClaimRun e i w d) = Inr (Some r) \<longrightarrow> find_run i (snd (ClaimRun e i w d)) = Some r"
    using ClaimRun_claimed [OF assms(2)] by (metis prod.collapse)
qed

theorem ClaimRun_spec_witness:
  "fst (ClaimRun (demo_env 3 '''') ''R'' ''w'' (demo_db 1)) =
     Inr (Some (claim_row 3 ''w'' (new_run_row ''R'' ''J'' 2 TriggerManual 2)))"
  using ClaimRun_spec [of "demo_env 3 ''''" "demo_db 1" "''R''" "''w''"] demo_schema_ok [of 1]
  by (simp add: quiet_def demo_env_def demo_db_eq)

section \<open>Ownership\<close>

lemma unowned_noop:
  assumes "schema_ok d" and "\<not> owned_by d i w a"
  shows "\<not> (\<exists>r \<in> set (runs d). r_id r = i \<and> owns w a r)"
proof
  assume "\<exists>r \<in> set (runs d). r_id r = i \<and> owns w a r"
  then obtain r where "r \<in> set (runs d)" "r_id r = i" "owns w a r" by blast
  with assms show False using lookup_row_unique [of r_id "runs d" r] by (simp add: owned_by_def)
qed

lemma fenced_noop:
  assumes "schema_ok d" and "\<not> owned_by d i w a"
  shows "snd (exec_op e (OpHeartbeat i w a) d) = d \<and> fst (exec_op e (OpHeartbeat i w a) d) \<noteq> RBool (Inr True)
    \<and> snd (exec_op e (OpSucceed i w a out) d) = d \<and> fst (exec_op e (OpSucceed i w a out) d) \<noteq> RBool (Inr True)
    \<and> snd (exec_op e (OpReleaseRun i w a reason) d) = d
    \<and> fst (exec_op e (OpReleaseRun i w a reason) d) \<noteq> RBool (Inr True)
    \<and> snd (exec_op e (OpFailOrRetry i w a msg b) d) = d
    \<and> (\<nexists>st. fst (exec_op e (OpFailOrRetry i w a msg b) d) = RStatus (Inr (Some st)))"
proof -
  note none = unowned_noop [OF assms]
  have noop: "map (\<lambda>r. if r_id r = i \<and> owns w a r \<and> Q r then f r else r) (runs d) = runs d" for f Q
    using none by (intro map_update_noop) blast
  have hits: "filter (\<lambda>r. r_id r = i \<and> owns w a r \<and> Q r) (runs d) = []" for Q
    using none unfolding filter_empty_conv by blast
  have n1: "map (\<lambda>r. if r_id r = i \<and> owns w a r then f r else r) (runs d) = runs d" for f
    using noop [of "\<lambda>_. True" f] by simp
  have h1: "filter (\<lambda>r. r_id r = i \<and> owns w a r) (runs d) = []" using hits [of "\<lambda>_. True"] by simp
  have o1: "\<not> attempt_overflows (\<lambda>r. r_id r = i \<and> owns w a r) (runs d)"
    using none unfolding attempt_overflows_def by blast
  have o2: "\<not> attempt_overflows (\<lambda>r. (r_id r = i \<and> owns w a r \<and> Q r) \<and> \<not> exhausted d r) (runs d)" for Q
    using none unfolding attempt_overflows_def by blast
  note u = pg_def Let_def sql_update_def n1 h1 o1
  have "snd (FailOrRetry (alone e) i w a msg b d) = d \<and> (\<nexists>st. fst (FailOrRetry (alone e) i w a msg b d) = Inr (Some st))"
    unfolding FailOrRetry_def pg_def Let_def sql_update_def alone_others noop hits if_not_P [OF o2]
    by (simp split: option.split fault.split)
  then show ?thesis
    by (simp add: Heartbeat_def FinishRun_def ReleaseRun_def u split: option.split fault.split)
qed

text \<open>
  C5: a worker that does not own the attempt, because it was never claimed, was reaped, retried or
  finished, changes nothing with any of its writes: not by a heartbeat, a result, a failure or a
  release; and none of these calls reports success.
\<close>

theorem stale_worker_changes_nothing:
  assumes "schema_ok d" and "\<not> owned_by d i w a"
  shows "snd (exec_op e (OpHeartbeat i w a) d) = d \<and> fst (exec_op e (OpHeartbeat i w a) d) \<noteq> RBool (Inr True)
    \<and> snd (exec_op e (OpSucceed i w a out) d) = d \<and> fst (exec_op e (OpSucceed i w a out) d) \<noteq> RBool (Inr True)
    \<and> snd (exec_op e (OpReleaseRun i w a reason) d) = d
    \<and> fst (exec_op e (OpReleaseRun i w a reason) d) \<noteq> RBool (Inr True)
    \<and> snd (exec_op e (OpFailOrRetry i w a msg b) d) = d
    \<and> (\<nexists>st. fst (exec_op e (OpFailOrRetry i w a msg b) d) = RStatus (Inr (Some st)))"
  by (rule fenced_noop [OF assms])

theorem stale_worker_changes_nothing_witness:
  "\<not> owned_by (demo_db 1) ''R'' ''w'' 1
   \<and> snd (exec_op (demo_env 3 '''') (OpSucceed ''R'' ''w'' 1 ''out'') (demo_db 1)) = demo_db 1"
proof -
  have o: "\<not> owned_by (demo_db 1) ''R'' ''w'' 1" by (simp add: demo_db_eq owned_by_def owns_def)
  with stale_worker_changes_nothing [OF demo_schema_ok o] show ?thesis by blast
qed

section \<open>Retries\<close>

text \<open>
  Recording a failure of an attempt the worker owns. With retries left the run is queued for the
  next attempt, claimable exactly once the backoff has passed, with no owner; with the budget used
  up it has failed for good. Either way the error is kept and the new status is returned.
\<close>

theorem FailOrRetry_spec:
  assumes "schema_ok d" and "find_run i d = Some r" and "owns w a r"
    and "find_job (r_job_id r) d = Some j" and "a < int4_max"
    and "e_others e = (\<lambda>d. d)" and "quiet e"
  shows "\<exists>r'. find_run i (snd (FailOrRetry e i w a msg b d)) = Some r' \<and> r_error r' = Some msg
    \<and> fst (FailOrRetry e i w a msg b d) = Inr (Some (r_status r'))
    \<and> (if a \<le> j_max_retries j
       then r_status r' = StatusQueued \<and> r_attempt r' = a + 1 \<and> r_worker_id r' = None
          \<and> (\<forall>t. claimable t r' \<longleftrightarrow> e_now e + interval_us b \<le> t)
       else r_status r' = StatusFailed \<and> r_attempt r' = a \<and> r_finished_at r' = Some (e_now e))"
proof -
  have a: "r_attempt r = a" using assms(3) by (simp add: owns_def)
  have ex: "exhausted d r \<longleftrightarrow> j_max_retries j < a" using assms(4) a by (simp add: exhausted_def)
  have own: "owned_by d i w a" using assms(2,3) by (simp add: owned_by_def)
  have no: "\<not> attempt_overflows (\<lambda>r. (r_id r = i \<and> owns w a r \<and> find_job (r_job_id r) d \<noteq> None) \<and> \<not> exhausted d r) (runs d)"
    using assms(5) unfolding attempt_overflows_def owns_def by fastforce
  obtain st where st: "fst (FailOrRetry e i w a msg b d) = Inr st"
    using no assms(6,7) unfolding FailOrRetry_def by (simp add: Let_def split_def)
  then have "FailOrRetry e i w a msg b d = (Inr st, snd (FailOrRetry e i w a msg b d))"
    by (simp add: prod_eq_iff)
  from FailOrRetry_result [OF _ this] assms(1,2,6) own
  have "find_run i (snd (FailOrRetry e i w a msg b d)) = Some (fail_or_retry_row (e_now e) msg b (exhausted d r) r)"
    and "st = Some (if exhausted d r then StatusFailed else StatusQueued)"
    by simp_all
  with a ex st show ?thesis by (simp add: fail_or_retry_row_def claimable_def not_less)
qed

definition demo_claimed :: "int \<Rightarrow> db" where
  "demo_claimed m = snd (run_ops [(demo_env 3 '''', OpClaimRun ''R'' ''w'')] (demo_db m))"

lemma demo_claimed_eq:
  "0 \<le> m \<Longrightarrow> m \<le> 100 \<Longrightarrow> demo_claimed m = \<lparr>jobs = [new_job_row ''J'' 1 (demo_new_job m)],
     runs = [claim_row 3 ''w'' (new_run_row ''R'' ''J'' 2 TriggerManual 2)], logs = []\<rparr>"
  by (simp add: demo_claimed_def demo_db_eq demo_ops demo_simps)

lemma demo_claimed_ok: "schema_ok (demo_claimed m)"
  unfolding demo_claimed_def using run_ops_db_ok [OF demo_db_ok] unfolding db_ok_def by blast

theorem FailOrRetry_spec_witness:
  "\<exists>r'. find_run ''R'' (snd (FailOrRetry (demo_env 9 '''') ''R'' ''w'' 1 ''boom'' 5000000 (demo_claimed 1))) = Some r'
     \<and> r_status r' = StatusQueued \<and> r_attempt r' = 2 \<and> (\<forall>t. claimable t r' \<longleftrightarrow> 5009 \<le> t)"
  using FailOrRetry_spec [OF demo_claimed_ok, of "''R''" 1 "claim_row 3 ''w'' (new_run_row ''R'' ''J'' 2 TriggerManual 2)"
      "''w''" 1 "new_job_row ''J'' 1 (demo_new_job 1)" "demo_env 9 ''''" "''boom''" 5000000]
  by (simp add: demo_claimed_eq owns_def claim_row_def new_job_row_def demo_new_job_def demo_env_def
      quiet_def int4_max_def interval_us_def) blast

text \<open>
  C15: in every history on an empty database, a run is never on a later attempt than its job's
  \<open>max_retries + 1\<close> plus the number of times a worker released it.
\<close>

theorem attempts_within_budget:
  assumes "find_run i (snd (run_ops ops empty_db)) = Some r"
    and "find_job (r_job_id r) (snd (run_ops ops empty_db)) = Some j"
  shows "1 \<le> r_attempt r \<and> r_attempt r \<le> j_max_retries j + 1 + int (releases i ops)"
proof -
  have "within_budget (\<lambda>i. 0 + int (releases i ops)) (snd (run_ops ops empty_db))"
    by (rule run_ops_budget) (simp_all add: within_budget_def)
  moreover have "row_ok r"
    using run_ops_db_ok [OF db_ok_empty, of ops] lookup_row_Some [OF assms(1)]
    unfolding db_ok_def list_all_iff by blast
  ultimately show ?thesis using assms unfolding within_budget_def row_ok_def by fastforce
qed

theorem attempts_within_budget_witness:
  "releases ''R'' (demo_start 1) = 0 \<and> 1 \<le> r_attempt (new_run_row ''R'' ''J'' 2 TriggerManual 2)
   \<and> r_attempt (new_run_row ''R'' ''J'' 2 TriggerManual 2)
       \<le> j_max_retries (new_job_row ''J'' 1 (demo_new_job 1)) + 1 + int (releases ''R'' (demo_start 1))"
proof -
  have "find_run ''R'' (demo_db 1) = Some (new_run_row ''R'' ''J'' 2 TriggerManual 2)"
    and "find_job ''J'' (demo_db 1) = Some (new_job_row ''J'' 1 (demo_new_job 1))"
    by (simp_all add: demo_db_eq) (simp add: new_job_row_def)
  then show ?thesis
    using attempts_within_budget [of "''R''" "demo_start 1" "new_run_row ''R'' ''J'' 2 TriggerManual 2"]
    unfolding demo_db_def by (simp add: releases_def is_release_def demo_start_def)
qed

text \<open>
  A release uses up the retry budget. A job with one retry whose worker is shut down during its
  first attempt fails for good at its first failure: no attempt was ever retried.
\<close>

theorem release_consumes_retry_budget:
  "fst (run_ops [(demo_env 3 '''', OpClaimRun ''R'' ''w''), (demo_env 4 '''', OpReleaseRun ''R'' ''w'' 1 ''stop''),
      (demo_env 5 '''', OpClaimRun ''R'' ''v''), (demo_env 6 '''', OpFailOrRetry ''R'' ''v'' 2 ''boom'' 0)] (demo_db 1)) ! 3
    = (OpFailOrRetry ''R'' ''v'' 2 ''boom'' 0, RStatus (Inr (Some StatusFailed)))"
  by (simp add: run_ops.simps(2) demo_db_eq demo_ops demo_simps)

text \<open>
  FailQueuedRun can fail a run that a worker has claimed: when the worker's attempt failed and the
  run waits for its retry, it is QUEUED again, and the API's late "dispatch failed" ends it.
\<close>

theorem fail_queued_ends_a_retried_run:
  "map_option r_status (find_run ''R'' (snd (run_ops [(demo_env 3 '''', OpClaimRun ''R'' ''w''),
      (demo_env 4 '''', OpFailOrRetry ''R'' ''w'' 1 ''boom'' 5000000),
      (demo_env 5 '''', OpFailQueuedRun ''R'' ''dispatch failed'')] (demo_db 1)))) = Some StatusFailed"
  by (simp add: demo_db_eq demo_ops demo_simps FailQueuedRun_def fail_queued_row_def)

section \<open>The reaper\<close>

lemma picked_lookup:
  assumes "schema_ok d" and "set qs \<subseteq> set (runs d)" and "find_run i d = Some r" and "\<And>r. r_id (f r) = r_id r"
  shows "lookup_row r_id i (map (\<lambda>r. if r_id r \<in> r_id ` set qs then f r else r) (runs d)) =
     Some (if r \<in> set qs then f r else r)"
proof -
  have "inj_on r_id (set (runs d))" using assms(1) by (simp add: schema_defs distinct_map)
  then have "r_id r \<in> r_id ` set qs \<longleftrightarrow> r \<in> set qs"
    using assms(2) lookup_row_Some [OF assms(3)] by (intro inj_on_image_mem_iff) blast+
  with find_after_update [OF assms(3,4), of "\<lambda>r. r_id r \<in> r_id ` set qs"] show ?thesis by simp
qed

lemma ReapStale_find:
  assumes "schema_ok (e_others e d)" and "ReapStale e s n d = (Inr xs, d')" and "find_run i (e_others e d) = Some r"
  shows "find_run i d' = Some (if r \<in> set (stale_runs e s n (e_others e d))
           then reap_row (e_now e) (exhausted (e_others e d) r) r else r)"
proof -
  have "set (stale_runs e s n (e_others e d)) \<subseteq> set (runs (e_others e d))" using stale_runs_in by blast
  from picked_lookup [OF assms(1) this assms(3), of "\<lambda>r. reap_row (e_now e) (exhausted (e_others e d) r) r"]
  show ?thesis using ReapStale_Inr [OF assms(2)] by simp
qed

text \<open>
  The reaper takes a run only if it is RUNNING, its last heartbeat is older than \<open>staleAfter\<close> and no
  other session holds it: a run whose worker keeps heartbeating is left exactly as it is. The run
  it takes is queued for the next attempt with no owner or, with the budget used up, failed; and
  no more than \<open>limit\<close> runs are taken in one pass.
\<close>

theorem ReapStale_spec:
  assumes "schema_ok (e_others e d)" and "ReapStale e s n d = (Inr xs, d')"
    and "find_run i (e_others e d) = Some r" and "find_job (r_job_id r) (e_others e d) = Some j"
  shows "length xs \<le> n \<and> (\<exists>r'. find_run i d' = Some r' \<and>
     (r' = r \<or>
      r_status r = StatusRunning \<and> i \<notin> set (e_locked e)
      \<and> (\<exists>t. r_last_heartbeat_at r = Some t \<and> t < e_now e - interval_us s)
      \<and> i \<in> d_run_id ` set xs
      \<and> (if r_attempt r \<le> j_max_retries j
         then r_status r' = StatusQueued \<and> r_attempt r' = r_attempt r + 1 \<and> r_worker_id r' = None
         else r_status r' = StatusFailed \<and> r_attempt r' = r_attempt r)))"
proof
  let ?d = "e_others e d"
  let ?st = "stale_runs e s n ?d"
  let ?P = "\<lambda>r. r_id r \<in> r_id ` set ?st"
  have sub: "set ?st \<subseteq> set (runs ?d)" using stale_runs_in by blast
  have inj: "inj_on r_id (set (runs ?d))" using assms(1) by (simp add: schema_defs distinct_map)
  then have P: "r \<in> set ?st" if "r \<in> set (runs ?d)" "?P r" for r
    using that sub by (simp add: inj_on_image_mem_iff)
  have xs: "xs = collectRedispatches ?d (map (\<lambda>r. reap_row (e_now e) (exhausted ?d r) r) (filter ?P (runs ?d)))"
    using ReapStale_Inr [OF assms(2)] by blast
  have "distinct (filter ?P (runs ?d))" using assms(1) by (simp add: schema_defs distinct_map)
  moreover have "set (filter ?P (runs ?d)) \<subseteq> set ?st" using P by auto
  ultimately have "length (filter ?P (runs ?d)) \<le> length ?st"
    by (metis List.finite_set card_length card_mono distinct_card le_trans)
  also have "length ?st \<le> n" by (simp add: stale_runs_def length_order_limit)
  finally show "length xs \<le> n" unfolding xs by (simp add: collectRedispatches_def)
  show "\<exists>r'. find_run i d' = Some r' \<and> (r' = r \<or> r_status r = StatusRunning \<and> i \<notin> set (e_locked e)
      \<and> (\<exists>t. r_last_heartbeat_at r = Some t \<and> t < e_now e - interval_us s) \<and> i \<in> d_run_id ` set xs
      \<and> (if r_attempt r \<le> j_max_retries j
         then r_status r' = StatusQueued \<and> r_attempt r' = r_attempt r + 1 \<and> r_worker_id r' = None
         else r_status r' = StatusFailed \<and> r_attempt r' = r_attempt r))"
  proof (cases "r \<in> set ?st")
    case False
    then show ?thesis using ReapStale_find [OF assms(1,2,3)] by simp
  next
    case True
    have id: "r_id r = i" "r \<in> set (runs ?d)" using lookup_row_Some [OF assms(3)] by simp_all
    have stale: "is_stale e s ?d r" using stale_runs_in [OF True] by simp
    have "r_id r \<in> d_run_id ` set xs" unfolding xs collectRedispatches_def using True id(2)
      by (simp add: image_image reap_row_def)
    with stale id(1) assms(4) ReapStale_find [OF assms(1,2,3)] True show ?thesis
      by (simp add: is_stale_def reap_row_def exhausted_def split: option.splits)
  qed
qed

text \<open>
  A pass whose limit is large enough leaves no stale run that it could have taken, so a crashed
  worker's run is recovered at the first pass after its heartbeat expires.
\<close>

theorem ReapStale_takes_all_stale:
  assumes "schema_ok (e_others e d)" and "ReapStale e s n d = (Inr xs, d')"
    and "length (filter (is_stale e s (e_others e d)) (runs (e_others e d))) \<le> n"
    and "find_run i (e_others e d) = Some r" and "is_stale e s (e_others e d) r"
  shows "\<exists>r'. find_run i d' = Some r' \<and> r_status r' \<noteq> StatusRunning"
proof -
  have "set (stale_runs e s n (e_others e d)) = set (filter (is_stale e s (e_others e d)) (runs (e_others e d)))"
    using assms(3) unfolding stale_runs_def by (rule order_limit_all)
  with lookup_row_Some [OF assms(4)] assms(5) have "r \<in> set (stale_runs e s n (e_others e d))" by simp
  with ReapStale_find [OF assms(1,2,4)] show ?thesis by (simp add: reap_row_def)
qed

lemma demo_reap:
  "ReapStale (demo_env 20000000 '''') 15000000000 100 (demo_claimed 1) =
     (Inr [\<lparr>d_run_id = ''R'', d_job_id = ''J'', d_job_type = ''generate_text'', d_status = StatusQueued, d_attempt = 2\<rparr>],
      (demo_claimed 1)\<lparr>runs := [reap_row 20000000 False (claim_row 3 ''w'' (new_run_row ''R'' ''J'' 2 TriggerManual 2))]\<rparr>)"
  by (simp add: demo_claimed_eq ReapStale_def stale_runs_def is_stale_def order_limit_def collectRedispatches_def
      demo_ops demo_simps reap_row_def lost_worker_error_def)

theorem ReapStale_spec_witness:
  "\<exists>r'. find_run ''R'' (snd (ReapStale (demo_env 20000000 '''') 15000000000 100 (demo_claimed 1))) = Some r'
     \<and> r_status r' = StatusQueued \<and> r_attempt r' = 2"
  using ReapStale_spec [OF _ demo_reap, of "''R''" "claim_row 3 ''w'' (new_run_row ''R'' ''J'' 2 TriggerManual 2)"
      "new_job_row ''J'' 1 (demo_new_job 1)"] demo_claimed_ok [of 1] demo_reap
  by (simp add: demo_env_def demo_claimed_eq claim_row_def new_job_row_def demo_new_job_def reap_row_def)

theorem ReapStale_takes_all_stale_witness:
  "\<exists>r'. find_run ''R'' (snd (ReapStale (demo_env 20000000 '''') 15000000000 100 (demo_claimed 1))) = Some r'
     \<and> r_status r' \<noteq> StatusRunning"
  using ReapStale_takes_all_stale [OF _ demo_reap, of "''R''" "claim_row 3 ''w'' (new_run_row ''R'' ''J'' 2 TriggerManual 2)"]
    demo_claimed_ok [of 1] demo_reap
  by (simp add: demo_env_def demo_claimed_eq claim_row_def new_job_row_def is_stale_def interval_us_def)

end
