(* ===== verification/StreamProps.thy ===== *)
theory StreamProps
  imports Stream StoreProps
begin

text \<open>
  What a client of the log stream receives while workers, replicas and other clients go on with the
  database by any calls of the store: every attempt from the one it asked for, each with
  exactly those of its stored lines that were stored in time, in order and without repetition, and the
  run's end last. Nothing is assumed of the workers: a line they store late, below one the client has
  already been sent or after the stream has gone on to the next attempt, is one the client misses.
\<close>

section \<open>What others do meanwhile\<close>

text \<open>
  Other sessions change the database by the calls of the store only, and number their lines below
  \<open>2^63 - 1\<close>.
\<close>

fun numbered_op :: "store_op \<Rightarrow> bool" where
  "numbered_op (OpAppendLogs i a ls) \<longleftrightarrow> list_all (\<lambda>l. l_seq l < int64_max) ls"
| "numbered_op _ \<longleftrightarrow> True"

definition numbered :: "(env \<times> store_op) list \<Rightarrow> bool" where
  "numbered ops \<longleftrightarrow> list_all (\<lambda>x. numbered_op (snd x)) ops"

definition by_store :: "stream_input \<Rightarrow> bool" where
  "by_store x \<longleftrightarrow> (\<forall>d. \<exists>ops. numbered ops \<and> e_others (i_env x) d = snd (run_ops ops d))"

text \<open>What that means for a run and its log: attempts count up, a finished run stays, no line goes away.\<close>

definition run_moves_on :: "run \<Rightarrow> run \<Rightarrow> bool" where
  "run_moves_on r r' \<longleftrightarrow> r_attempt r \<le> r_attempt r'
   \<and> (isFinal (r_status r) \<longrightarrow> r_attempt r' = r_attempt r \<and> r_status r' = r_status r \<and> r_error r' = r_error r)"

definition moves_on :: "uuid \<Rightarrow> db \<Rightarrow> db \<Rightarrow> bool" where
  "moves_on i d d' \<longleftrightarrow> db_good d' \<and> (\<forall>r. find_run i d = Some r \<longrightarrow> (\<exists>r'. find_run i d' = Some r' \<and> run_moves_on r r'))
   \<and> set (logs d) \<subseteq> set (logs d')"

lemma run_moves_on_refl [simp]: "run_moves_on r r"
  by (simp add: run_moves_on_def)

lemma run_moves_on_trans: "run_moves_on r r' \<Longrightarrow> run_moves_on r' r'' \<Longrightarrow> run_moves_on r r''"
  by (auto simp: run_moves_on_def)

lemma moves_on_refl: "db_good d \<Longrightarrow> moves_on i d d"
  by (auto simp: moves_on_def)

lemma moves_on_trans:
  assumes "moves_on i d d'" and "moves_on i d' d''"
  shows "moves_on i d d''"
  using assms run_moves_on_trans unfolding moves_on_def by (meson subset_trans)

lemma row_step_moves: "row_step r r' \<Longrightarrow> run_moves_on r r'"
  using row_step_attempt [of r r'] row_step_final [of r r']
  by (cases "r_status r") (simp_all add: run_moves_on_def final_status_def)

lemma exec_op_logs_same:
  assumes "schema_ok d" and "\<And>i a ls. p \<noteq> OpAppendLogs i a ls"
  shows "logs (snd (exec_op e p d)) = logs d"
proof (cases p)
  case (OpCreateJob n)
  show ?thesis unfolding OpCreateJob exec_op.simps snd_apfst CreateJob_def
    by (rule pg_post [where R = "\<lambda>x. logs x = logs d"]) (auto simp: Let_def split: sum.split)
next
  case (OpSetJobEnabled i en n)
  show ?thesis unfolding OpSetJobEnabled exec_op.simps snd_apfst SetJobEnabled_def
    by (rule pg_post [where R = "\<lambda>x. logs x = logs d"]) (simp_all add: Let_def split_def)
next
  case (OpCreateManualRun ji)
  then show ?thesis using CreateManualRun_adds [of "alone e" d ji] by (simp add: adds_runs_def)
next
  case (OpFireDueJobs n f)
  then show ?thesis using FireDueJobs_adds [of "alone e" d n f] by (simp add: adds_runs_def)
next
  case (OpAppendLogs i a ls)
  with assms(2) show ?thesis by blast
qed (use assms(1) in \<open>simp_all add: table_step_frame [OF table_steps(1) [of "alone e" d, simplified]]
   table_step_frame [OF table_steps(2) [of "alone e" d, simplified]]
   table_step_frame [OF table_steps(3) [of "alone e" d, simplified]]
   table_step_frame [OF table_steps(4) [of "alone e" d, simplified]]
   table_step_frame [OF table_steps(5) [of "alone e" d, simplified]]
   table_step_frame [OF table_steps(6) [of "alone e" d, simplified]]
   table_step_frame [OF table_steps(7) [of "alone e" d, simplified]]
   table_step_frame [OF table_steps(8) [of "alone e" d, simplified]]
   table_step_frame [OF table_steps(9) [of "alone e" d, simplified]]\<close>)

lemma insert_logs_keep:
  "set t \<subseteq> set (fold (insert_log i a) ls t)
   \<and> (list_all (\<lambda>l. l_seq l < n) ls \<longrightarrow> list_all (\<lambda>x. l_seq (snd x) < n) t \<longrightarrow>
       list_all (\<lambda>x. l_seq (snd x) < n) (fold (insert_log i a) ls t))"
proof (induction ls arbitrary: t)
  case (Cons l ls)
  have "set t \<subseteq> set (insert_log i a l t)" by (auto simp: insert_log_def Let_def)
  moreover have "list_all (\<lambda>x. l_seq (snd x) < n) (insert_log i a l t)" if "list_all (\<lambda>x. l_seq (snd x) < n) t" "l_seq l < n"
    using that by (simp add: insert_log_def Let_def)
  ultimately show ?case using Cons.IH [of "insert_log i a l t"] by auto
qed simp

lemma exec_op_logs:
  assumes "db_good d" and "numbered_op p"
  shows "set (logs d) \<subseteq> set (logs (snd (exec_op e p d))) \<and> list_all (\<lambda>x. l_seq (snd x) < int64_max) (logs (snd (exec_op e p d)))"
proof (cases "\<exists>i a ls. p = OpAppendLogs i a ls")
  case True
  then obtain i a ls where p: "p = OpAppendLogs i a ls" by blast
  have "logs (snd (AppendLogs (alone e) i a ls d)) \<in> {logs d, fold (insert_log i a) ls (logs d)}"
    using AppendLogs_db_cases [of "alone e" i a ls d] by auto
  then show ?thesis using insert_logs_keep [of "logs d" i a ls int64_max] assms by (auto simp: p db_good_def)
next
  case False
  then have "logs (snd (exec_op e p d)) = logs d"
    using exec_op_logs_same assms(1) unfolding db_good_def by blast
  then show ?thesis using assms(1) by (simp add: db_good_def)
qed

lemma exec_op_moves:
  assumes "db_good d" and "numbered_op p"
  shows "moves_on i d (snd (exec_op e p d))"
proof -
  have s: "schema_ok d" using assms(1) by (simp add: db_good_def)
  show ?thesis unfolding moves_on_def db_good_def
    using exec_op_schema [OF s, of e p] exec_op_logs [OF assms, of e] exec_op_find [OF s] row_step_moves by blast
qed

lemma run_ops_moves: "db_good d \<Longrightarrow> numbered ops \<Longrightarrow> moves_on i d (snd (run_ops ops d))"
proof (induction ops arbitrary: d)
  case (Cons x ops)
  obtain e p where x: "x = (e, p)" by fastforce
  have m: "moves_on i d (snd (exec_op e p d))" using Cons.prems by (simp add: exec_op_moves numbered_def x)
  then have "moves_on i (snd (exec_op e p d)) (snd (run_ops ops (snd (exec_op e p d))))"
    using Cons.prems(2) by (intro Cons.IH) (simp_all add: moves_on_def numbered_def)
  with m show ?case unfolding x snd_run_ops_Cons by (rule moves_on_trans)
qed (simp add: moves_on_refl)

lemma by_store_moves: "by_store x \<Longrightarrow> db_good d \<Longrightarrow> moves_on i d (e_others (i_env x) d)"
  using run_ops_moves unfolding by_store_def by metis

section \<open>What the client is sent\<close>

text \<open>
  The client has been sent more than \<open>l\<close>: a later attempt's marker, or a line of its attempt with its
  number or a higher one. A line is in time when it is stored, at the moment of one of the stream's
  calls, and that is not yet so.
\<close>

fun overtaken :: "sse list \<Rightarrow> log_line \<Rightarrow> bool" where
  "overtaken [] l \<longleftrightarrow> False"
| "overtaken (SAttempt n # evs) l \<longleftrightarrow> l_attempt l < n \<or> overtaken evs l"
| "overtaken (SLine k # evs) l \<longleftrightarrow> l_attempt k = l_attempt l \<and> l_seq l \<le> l_seq k \<or> overtaken evs l"
| "overtaken (ev # evs) l \<longleftrightarrow> overtaken evs l"

fun in_time :: "uuid \<Rightarrow> stream_input list \<Rightarrow> stream \<times> db \<Rightarrow> log_line \<Rightarrow> bool" where
  "in_time i [] sd l \<longleftrightarrow> False"
| "in_time i (x # xs) (st, d) l \<longleftrightarrow>
     s_pc st \<noteq> PDone \<and> (i, l) \<in> set (logs (e_others (i_env x) d)) \<and> \<not> overtaken (s_out st) l
   \<or> in_time i xs (stream_step i x (st, d)) l"

definition first_seq :: "int \<Rightarrow> int \<Rightarrow> int \<Rightarrow> int" where
  "first_seq a0 s0 a = (if a = a0 then s0 else 1)"

fun line_of :: "int \<Rightarrow> sse \<Rightarrow> log_line list" where
  "line_of n (SLine l) = (if l_attempt l = n then [l] else [])"
| "line_of n _ = []"

definition sent_lines :: "int \<Rightarrow> sse list \<Rightarrow> log_line list" where
  "sent_lines n evs = concat (map (line_of n) evs)"

definition sent_events :: "int \<Rightarrow> int \<Rightarrow> sse list \<Rightarrow> sse list" where
  "sent_events a0 b evs = concat (map (\<lambda>n. SAttempt n # map SLine (sent_lines n evs)) [a0..b])"

definition no_pings :: "sse list \<Rightarrow> sse list" where
  "no_pings evs = filter (\<lambda>ev. ev \<noteq> SPing) evs"

fun is_end :: "sse \<Rightarrow> bool" where
  "is_end (SEnd s a err) = True"
| "is_end _ = False"

text \<open>What has been sent of the attempts up to \<open>b\<close>.\<close>

definition sent_well :: "uuid \<Rightarrow> int \<Rightarrow> int \<Rightarrow> int \<Rightarrow> sse list \<Rightarrow> db \<Rightarrow> bool" where
  "sent_well i a0 s0 b out d \<longleftrightarrow> (\<forall>n. sorted_wrt (<) (map l_seq (sent_lines n out))
     \<and> set (sent_lines n out) \<subseteq> (if a0 \<le> n \<and> n \<le> b then set (lines_from i n (first_seq a0 s0 n) d) else {}))"

definition following :: "uuid \<Rightarrow> int \<Rightarrow> int \<Rightarrow> stream \<Rightarrow> db \<Rightarrow> bool" where
  "following i a0 s0 st d \<longleftrightarrow>
     a0 \<le> s_attempt st \<and> 1 \<le> s_next st \<and> first_seq a0 s0 (s_attempt st) \<le> s_next st
   \<and> no_pings (s_out st) = sent_events a0 (s_attempt st) (s_out st)
   \<and> sent_well i a0 s0 (s_attempt st) (s_out st) d
   \<and> list_all (\<lambda>l. l_seq l < s_next st) (sent_lines (s_attempt st) (s_out st))
   \<and> (s_next st = first_seq a0 s0 (s_attempt st)
      \<or> (\<exists>l \<in> set (sent_lines (s_attempt st) (s_out st)). l_seq l + 1 = s_next st))
   \<and> (\<exists>r. find_run i d = Some r \<and> s_attempt st \<le> r_attempt r
       \<and> (\<forall>run. s_pc st = PPage run \<longrightarrow> run_moves_on run r \<and> s_attempt st \<le> r_attempt run))"

definition ended :: "uuid \<Rightarrow> int \<Rightarrow> int \<Rightarrow> stream \<Rightarrow> db \<Rightarrow> bool" where
  "ended i a0 s0 st d \<longleftrightarrow> (\<exists>r. find_run i d = Some r \<and> isFinal (r_status r) \<and> r_attempt r = s_attempt st
     \<and> no_pings (s_out st) = sent_events a0 (r_attempt r) (s_out st) @ [SEnd (r_status r) (r_attempt r) (r_error r)]
     \<and> sent_well i a0 s0 (r_attempt r) (s_out st) d)"

definition stream_inv :: "uuid \<Rightarrow> int \<Rightarrow> int \<Rightarrow> stream \<Rightarrow> db \<Rightarrow> bool" where
  "stream_inv i a0 s0 st d \<longleftrightarrow> db_good d \<and>
     (if s_pc st = PDone then ended i a0 s0 st d \<or> list_all (\<lambda>ev. \<not> is_end ev) (s_out st) else following i a0 s0 st d)"

section \<open>Events\<close>

lemma no_pings_simps [simp]:
  "no_pings [] = []" "no_pings (a @ b) = no_pings a @ no_pings b" "no_pings (map SLine ls) = map SLine ls"
  "no_pings (ev # evs) = (if ev = SPing then no_pings evs else ev # no_pings evs)"
  by (simp_all add: no_pings_def filter_id_conv)

lemma no_end_lines [simp]: "list_all (\<lambda>ev. \<not> is_end ev) (map SLine ls)"
  by (simp add: list_all_iff)

lemma sent_lines_simps [simp]:
  "sent_lines n [] = []" "sent_lines n (a @ b) = sent_lines n a @ sent_lines n b"
  "sent_lines n (ev # evs) = line_of n ev @ sent_lines n evs"
  by (simp_all add: sent_lines_def)

lemma sent_lines_map [simp]: "sent_lines n (map SLine ls) = filter (\<lambda>l. l_attempt l = n) ls"
  by (induction ls) simp_all

lemma sent_lines_set: "l \<in> set (sent_lines n evs) \<longleftrightarrow> SLine l \<in> set evs \<and> l_attempt l = n"
proof (induction evs)
  case (Cons ev evs)
  then show ?case by (cases ev) auto
qed simp

lemma sent_events_snoc: "a0 \<le> b \<Longrightarrow> sent_events a0 b evs = sent_events a0 (b - 1) evs @ SAttempt b # map SLine (sent_lines b evs)"
  by (simp add: sent_events_def upto_rec2)

lemma sent_events_cong: "(\<And>n. n \<le> b \<Longrightarrow> sent_lines n evs = sent_lines n evs') \<Longrightarrow> sent_events a0 b evs = sent_events a0 b evs'"
  unfolding sent_events_def by (intro arg_cong [where f = concat] map_cong) simp_all

lemma sent_events_no_end: "ev \<in> set (sent_events a0 b evs) \<Longrightarrow> \<not> is_end ev"
  by (auto simp: sent_events_def)

lemma following_no_end:
  assumes "following i a0 s0 st d"
  shows "list_all (\<lambda>ev. \<not> is_end ev) (s_out st)"
proof -
  have "\<not> is_end ev" if "ev \<in> set (s_out st)" for ev
  proof (cases "ev = SPing")
    case False
    then have "ev \<in> set (no_pings (s_out st))" using that by (simp add: no_pings_def)
    then show ?thesis using assms sent_events_no_end unfolding following_def by metis
  qed simp
  then show ?thesis by (simp add: list_all_iff)
qed

lemma overtaken_iff:
  "overtaken evs l \<longleftrightarrow> (\<exists>n. SAttempt n \<in> set evs \<and> l_attempt l < n) \<or> (\<exists>k \<in> set (sent_lines (l_attempt l) evs). l_seq l \<le> l_seq k)"
proof (induction evs)
  case (Cons ev evs)
  then show ?case by (cases ev) auto
qed simp

text \<open>The client has not been sent more than a line exactly when the stream is not past its number.\<close>

definition unread :: "stream \<Rightarrow> log_line \<Rightarrow> bool" where
  "unread st l \<longleftrightarrow> s_attempt st < l_attempt l \<or> s_attempt st = l_attempt l \<and> s_next st \<le> l_seq l"

lemma sent_markers:
  assumes "following i a0 s0 st d"
  shows "SAttempt n \<in> set (s_out st) \<longleftrightarrow> a0 \<le> n \<and> n \<le> s_attempt st"
proof -
  have "SAttempt n \<in> set (s_out st) \<longleftrightarrow> SAttempt n \<in> set (no_pings (s_out st))" by (simp add: no_pings_def)
  also have "\<dots> \<longleftrightarrow> SAttempt n \<in> set (sent_events a0 (s_attempt st) (s_out st))" using assms by (simp add: following_def)
  also have "\<dots> \<longleftrightarrow> a0 \<le> n \<and> n \<le> s_attempt st" by (auto simp: sent_events_def)
  finally show ?thesis .
qed

lemma sent_none:
  assumes "following i a0 s0 st d" and "s_attempt st < n"
  shows "sent_lines n (s_out st) = []"
proof -
  have "sent_well i a0 s0 (s_attempt st) (s_out st) d" using assms(1) unfolding following_def by blast
  then show ?thesis using assms(2) unfolding sent_well_def by (metis leD set_empty subset_empty)
qed

lemma unread_not_overtaken:
  assumes "following i a0 s0 st d" and "unread st l"
  shows "\<not> overtaken (s_out st) l"
proof -
  have "l_seq k < s_next st" if "k \<in> set (sent_lines (l_attempt l) (s_out st))" "l_attempt l = s_attempt st" for k
    using assms(1) that by (simp add: following_def list_all_iff)
  then show ?thesis using assms(2) sent_markers [OF assms(1)] sent_none [OF assms(1), of "l_attempt l"]
    unfolding overtaken_iff unread_def by fastforce
qed

lemma not_overtaken_unread:
  assumes "following i a0 s0 st d" and "\<not> overtaken (s_out st) l" and "a0 \<le> l_attempt l"
    and "first_seq a0 s0 (l_attempt l) \<le> l_seq l"
  shows "unread st l"
proof -
  have f: "a0 \<le> s_attempt st" "s_next st = first_seq a0 s0 (s_attempt st)
      \<or> (\<exists>l \<in> set (sent_lines (s_attempt st) (s_out st)). l_seq l + 1 = s_next st)"
    using assms(1) unfolding following_def by blast+
  have "SAttempt (s_attempt st) \<in> set (s_out st)" using sent_markers [OF assms(1)] f(1) by simp
  then have "s_attempt st \<le> l_attempt l" using assms(2) unfolding overtaken_iff by force
  moreover have "s_next st \<le> l_seq l" if "s_attempt st = l_attempt l"
    using f(2) assms(2,4) that unfolding overtaken_iff by force
  ultimately show ?thesis by (auto simp: unread_def)
qed

section \<open>One step\<close>

lemma lines_from_set: "l \<in> set (lines_from i n s d) \<longleftrightarrow> (i, l) \<in> set (logs d) \<and> l_attempt l = n \<and> s \<le> l_seq l"
  by (auto simp: lines_from_def all_lines_def image_iff)

lemma lines_from_strict: "db_good d \<Longrightarrow> sorted_wrt (<) (map l_seq (lines_from i n s d))"
  using all_lines_sorted [of i n d] all_lines_distinct [of d i n]
  by (simp add: strict_sorted_iff lines_from_def sorted_filter distinct_map_filter db_good_def)

lemma sent_well_grows:
  assumes "sent_well i a0 s0 b out d" and "set (logs d) \<subseteq> set (logs d')"
  shows "sent_well i a0 s0 b out d'"
proof -
  have "set (lines_from i n s d) \<subseteq> set (lines_from i n s d')" for n s
    using assms(2) by (auto simp: lines_from_set)
  then have sub: "set (lines_from i n s d) \<subseteq> set (lines_from i n s d')" for n s .
  have w: "sorted_wrt (<) (map l_seq (sent_lines n out))"
    "set (sent_lines n out) \<subseteq> (if a0 \<le> n \<and> n \<le> b then set (lines_from i n (first_seq a0 s0 n) d) else {})" for n
    using assms(1) unfolding sent_well_def by blast+
  show ?thesis unfolding sent_well_def
  proof (intro allI conjI)
    fix n
    show "set (sent_lines n out) \<subseteq> (if a0 \<le> n \<and> n \<le> b then set (lines_from i n (first_seq a0 s0 n) d') else {})"
    proof (cases "a0 \<le> n \<and> n \<le> b")
      case True
      then show ?thesis using order_trans [OF w(2) [of n, unfolded if_P [OF True]] sub] by (simp only: if_P if_True)
    next
      case False
      then show ?thesis using w(2) [of n] by (simp only: if_not_P if_False)
    qed
  qed (rule w(1))
qed

lemma following_others:
  assumes "following i a0 s0 st d" and "moves_on i d d'"
  shows "following i a0 s0 st d'"
proof -
  obtain r where r: "find_run i d = Some r" "s_attempt st \<le> r_attempt r"
    "\<And>run. s_pc st = PPage run \<Longrightarrow> run_moves_on run r \<and> s_attempt st \<le> r_attempt run"
    using assms(1) unfolding following_def by blast
  obtain r' where r': "find_run i d' = Some r'" "run_moves_on r r'"
    using assms(2) r(1) unfolding moves_on_def by blast
  have "s_attempt st \<le> r_attempt r'" using r(2) r'(2) by (simp add: run_moves_on_def)
  moreover have "run_moves_on run r' \<and> s_attempt st \<le> r_attempt run" if "s_pc st = PPage run" for run
    using r(3) [OF that] run_moves_on_trans [OF _ r'(2)] by blast
  moreover have "sent_well i a0 s0 (s_attempt st) (s_out st) d'"
    by (rule sent_well_grows [where d = d]) (use assms in \<open>simp_all only: following_def moves_on_def\<close>)
  ultimately show ?thesis using assms(1) r'(1) unfolding following_def by (intro conjI exI [of _ r'] allI impI) simp_all
qed

text \<open>Reading a page of the current attempt.\<close>

lemma page_lines:
  assumes "db_good d" and "1 \<le> s" and "ls = take streamBatch (lines_from i a s d)"
  shows "\<And>l. l \<in> set ls \<Longrightarrow> (i, l) \<in> set (logs d) \<and> l_attempt l = a \<and> s \<le> l_seq l \<and> l_seq l < next_seq s ls"
    and "sorted_wrt (<) (map l_seq ls)" and "s \<le> next_seq s ls"
    and "next_seq s ls = s \<or> (\<exists>l \<in> set ls. l_seq l + 1 = next_seq s ls)"
    and "\<And>l. (i, l) \<in> set (logs d) \<Longrightarrow> l_attempt l = a \<Longrightarrow> s \<le> l_seq l \<Longrightarrow>
      l \<in> set ls \<or> streamBatch \<le> length ls \<and> next_seq s ls \<le> l_seq l"
proof -
  let ?xs = "all_lines i a d"
  have ls: "ls = take streamBatch (filter (\<lambda>l. s \<le> l_seq l) ?xs)" using assms(3) by (simp add: lines_from_def)
  have b: "\<forall>l \<in> set ?xs. l_seq l < int64_max" using assms(1) by (auto simp: all_lines_def db_good_def list_all_iff)
  have so: "sorted (map l_seq ?xs)" "distinct (map l_seq ?xs)"
    using all_lines_sorted all_lines_distinct assms(1) by (simp_all add: db_good_def)
  note pe = page_extends [OF so b assms(2) ls]
  have m: "l \<in> set ?xs \<longleftrightarrow> (i, l) \<in> set (logs d) \<and> l_attempt l = a" for l by (auto simp: all_lines_def image_iff)
  show "(i, l) \<in> set (logs d) \<and> l_attempt l = a \<and> s \<le> l_seq l \<and> l_seq l < next_seq s ls" if l: "l \<in> set ls" for l
  proof -
    have "l \<in> set (lines_from i a s d)" using l assms(3) in_set_takeD by metis
    moreover have "l \<in> set (filter (\<lambda>l. l_seq l < next_seq s ls) ?xs)" unfolding pe(1) using l by simp
    ultimately show ?thesis by (simp add: lines_from_set)
  qed
  show "sorted_wrt (<) (map l_seq ls)"
    using lines_from_strict [OF assms(1)] assms(3) by (simp add: take_map [symmetric] sorted_wrt_take)
  show s: "s \<le> next_seq s ls" using pe(2) by (cases "ls = []") (simp add: next_seq_def, force)
  show "next_seq s ls = s \<or> (\<exists>l \<in> set ls. l_seq l + 1 = next_seq s ls)"
  proof (cases "ls = []")
    case False
    then obtain l where l: "l \<in> set ?xs" "l_seq l + 1 = next_seq s ls" "s \<le> l_seq l" using pe(2) by blast
    then have "l \<in> set (filter (\<lambda>l. l_seq l < next_seq s ls) ?xs)" by simp
    then have "l \<in> set ls" unfolding pe(1) using l(3) by simp
    with l(2) show ?thesis by blast
  qed (simp add: next_seq_def)
  show "l \<in> set ls \<or> streamBatch \<le> length ls \<and> next_seq s ls \<le> l_seq l"
    if l: "(i, l) \<in> set (logs d)" "l_attempt l = a" "s \<le> l_seq l" for l
  proof (cases "l_seq l < next_seq s ls")
    case True
    then have "l \<in> set (filter (\<lambda>l. l_seq l < next_seq s ls) ?xs)" using l m by simp
    then show ?thesis unfolding pe(1) using l(3) by simp
  next
    case False
    have "l \<in> set (lines_from i a s d)" using l by (simp add: lines_from_set)
    then have "l \<in> set ls" if "length ls < streamBatch" using that assms(3) by simp
    with False show ?thesis by fastforce
  qed
qed

text \<open>Sending it.\<close>

lemma sent_well_page:
  assumes "following i a0 s0 st d" and "db_good d" and "ls = take streamBatch (lines_from i (s_attempt st) (s_next st) d)"
    and "\<And>n. sent_lines n ev = []"
  shows "sent_well i a0 s0 (s_attempt st) (s_out st @ map SLine ls @ ev) d"
    and "\<And>n. sent_lines n (s_out st @ map SLine ls @ ev) = sent_lines n (s_out st) @ (if n = s_attempt st then ls else [])"
proof -
  let ?cur = "s_attempt st"
  have f: "a0 \<le> ?cur" "1 \<le> s_next st" "first_seq a0 s0 ?cur \<le> s_next st" "sent_well i a0 s0 ?cur (s_out st) d"
    "\<And>l. l \<in> set (sent_lines ?cur (s_out st)) \<Longrightarrow> l_seq l < s_next st"
    using assms(1) by (simp_all add: following_def list_all_iff)
  note pl = page_lines [OF assms(2) f(2) assms(3)]
  show s: "sent_lines n (s_out st @ map SLine ls @ ev) = sent_lines n (s_out st) @ (if n = ?cur then ls else [])" for n
    using pl(1) assms(4) by (auto simp: filter_id_conv filter_empty_conv)
  have "sorted_wrt (<) (map l_seq (sent_lines ?cur (s_out st) @ ls))"
    using f(4) pl(2) f(5) pl(1) by (fastforce simp: sorted_wrt_append sent_well_def)
  moreover have "set ls \<subseteq> set (lines_from i ?cur (first_seq a0 s0 ?cur) d)"
    using pl(1) f(3) by (fastforce simp: lines_from_set)
  ultimately show "sent_well i a0 s0 ?cur (s_out st @ map SLine ls @ ev) d"
    using f(1,4) unfolding sent_well_def s by (simp add: subset_iff)
qed

lemma following_page:
  assumes "following i a0 s0 st d" and "db_good d" and "ls = take streamBatch (lines_from i (s_attempt st) (s_next st) d)"
    and "ev = [] \<or> ev = [SPing]" and "pc = PGetRun \<or> pc = s_pc st"
  shows "following i a0 s0 (st\<lparr>s_next := next_seq (s_next st) ls, s_out := s_out st @ map SLine ls @ ev, s_pc := pc\<rparr>) d"
proof -
  let ?cur = "s_attempt st" and ?n = "next_seq (s_next st) ls" and ?out = "s_out st @ map SLine ls @ ev"
  have f: "a0 \<le> ?cur" "1 \<le> s_next st" "first_seq a0 s0 ?cur \<le> s_next st"
    "no_pings (s_out st) = sent_events a0 ?cur (s_out st)" "list_all (\<lambda>l. l_seq l < s_next st) (sent_lines ?cur (s_out st))"
    "s_next st = first_seq a0 s0 ?cur \<or> (\<exists>l \<in> set (sent_lines ?cur (s_out st)). l_seq l + 1 = s_next st)"
    using assms(1) unfolding following_def by blast+
  obtain r where r: "find_run i d = Some r" "?cur \<le> r_attempt r"
    "\<And>run. s_pc st = PPage run \<Longrightarrow> run_moves_on run r \<and> ?cur \<le> r_attempt run"
    using assms(1) unfolding following_def by blast
  have e: "sent_lines n ev = []" "no_pings ev = []" for n using assms(4) by auto
  note pl = page_lines [OF assms(2) f(2) assms(3)]
  note sw = sent_well_page [OF assms(1-3) e(1)]
  have "sent_events a0 (?cur - 1) ?out = sent_events a0 (?cur - 1) (s_out st)"
    by (rule sent_events_cong) (simp only: sw(2), simp)
  then have np: "no_pings ?out = sent_events a0 ?cur ?out"
    using f(4) by (simp only: sent_events_snoc [OF f(1)] sw(2) no_pings_simps e(2)) simp
  have below: "list_all (\<lambda>l. l_seq l < ?n) (sent_lines ?cur ?out)"
    unfolding sw(2) using f(5) pl(1,3) by (fastforce simp: list_all_iff)
  have at: "?n = first_seq a0 s0 ?cur \<or> (\<exists>l \<in> set (sent_lines ?cur ?out). l_seq l + 1 = ?n)"
    unfolding sw(2) using f(6) pl(4) by auto
  have "run_moves_on run r \<and> ?cur \<le> r_attempt run" if "pc = PPage run" for run
    using r(3) [of run] assms(5) that by fastforce
  then show ?thesis using f(1-3) r(1,2) np below at pl(3) sw(1)
    unfolding following_def by (intro conjI exI [of _ r] allI impI) (simp_all del: sent_lines_simps no_pings_simps)
qed

lemma following_next:
  assumes "following i a0 s0 st d" and "s_pc st = PPage run" and "s_attempt st < r_attempt run"
  shows "following i a0 s0 (st\<lparr>s_attempt := s_attempt st + 1, s_next := 1, s_pc := PGetRun, s_out := s_out st @ [SAttempt (s_attempt st + 1)]\<rparr>) d"
proof -
  let ?cur = "s_attempt st" and ?out = "s_out st @ [SAttempt (s_attempt st + 1)]"
  have f: "a0 \<le> ?cur" "no_pings (s_out st) = sent_events a0 ?cur (s_out st)" "sent_well i a0 s0 ?cur (s_out st) d"
    using assms(1) unfolding following_def by blast+
  obtain r where r: "find_run i d = Some r" "run_moves_on run r"
    using assms(1,2) unfolding following_def by blast
  have s: "sent_lines n ?out = sent_lines n (s_out st)" for n by simp
  have none: "sent_lines (?cur + 1) (s_out st) = []" by (rule sent_none [OF assms(1)]) simp
  have "no_pings ?out = sent_events a0 (?cur + 1) ?out"
    using sent_events_snoc [of a0 "?cur + 1" ?out] f(1,2) none sent_events_cong [of ?cur ?out "s_out st" a0] by simp
  moreover have "sent_well i a0 s0 (?cur + 1) ?out d"
    unfolding sent_well_def s
  proof (intro allI conjI)
    fix n
    show "sorted_wrt (<) (map l_seq (sent_lines n (s_out st)))" using f(3) unfolding sent_well_def by blast
    have w: "set (sent_lines n (s_out st)) \<subseteq> (if a0 \<le> n \<and> n \<le> ?cur then set (lines_from i n (first_seq a0 s0 n) d) else {})"
      using f(3) unfolding sent_well_def by blast
    then show "set (sent_lines n (s_out st)) \<subseteq> (if a0 \<le> n \<and> n \<le> ?cur + 1 then set (lines_from i n (first_seq a0 s0 n) d) else {})"
      by (cases "n = ?cur + 1") (use none in simp, cases "a0 \<le> n \<and> n \<le> ?cur", simp_all)
  qed
  moreover have "first_seq a0 s0 (?cur + 1) = 1" using f(1) by (simp add: first_seq_def)
  moreover have "?cur + 1 \<le> r_attempt r" using r(2) assms(3) by (simp add: run_moves_on_def)
  ultimately show ?thesis using f(1) r(1) none
    unfolding following_def by (intro conjI exI [of _ r] allI impI) (simp_all del: no_pings_simps)
qed

lemma following_end:
  assumes "following i a0 s0 st d" and "s_pc st = PPage run" and "\<not> s_attempt st < r_attempt run" and "isFinal (r_status run)"
  shows "ended i a0 s0 (st\<lparr>s_pc := PDone, s_out := s_out st @ [SEnd (r_status run) (r_attempt run) (r_error run)]\<rparr>) d"
proof -
  obtain r where r: "find_run i d = Some r" "run_moves_on run r" "s_attempt st \<le> r_attempt run"
    using assms(1,2) unfolding following_def by blast
  then have e: "r_attempt r = s_attempt st" "r_attempt run = s_attempt st" "r_status r = r_status run" "r_error r = r_error run"
    using assms(3,4) by (simp_all add: run_moves_on_def)
  have f: "no_pings (s_out st) = sent_events a0 (s_attempt st) (s_out st)" "sent_well i a0 s0 (s_attempt st) (s_out st) d"
    using assms(1) unfolding following_def by blast+
  let ?ev = "SEnd (r_status run) (r_attempt run) (r_error run)"
  have s: "sent_lines n (s_out st @ [?ev]) = sent_lines n (s_out st)" for n by simp
  have "sent_events a0 (s_attempt st) (s_out st @ [?ev]) = sent_events a0 (s_attempt st) (s_out st)"
    by (rule sent_events_cong) (rule s)
  moreover have "sent_well i a0 s0 (s_attempt st) (s_out st @ [?ev]) d" using f(2) unfolding sent_well_def s .
  ultimately show ?thesis using r(1) e f(1) assms(4) unfolding ended_def by (intro exI [of _ r]) simp
qed

lemma page_step:
  assumes "following i a0 s0 st d" and "db_good d" and "s_pc st = PPage run"
    and "after_page x run ls st = (evs, st')" and "ls = take streamBatch (lines_from i (s_attempt st) (s_next st) d)"
  shows "stream_inv i a0 s0 (st'\<lparr>s_out := s_out st' @ evs\<rparr>) d"
proof -
  let ?p = "st\<lparr>s_next := next_seq (s_next st) ls, s_out := s_out st @ map SLine ls, s_pc := s_pc st\<rparr>"
  have p: "following i a0 s0 ?p d" using following_page [OF assms(1,2,5), of "[]" "s_pc st"] by simp
  consider (full) "\<not> length ls < streamBatch" | (more) "length ls < streamBatch" "s_attempt st < r_attempt run"
    | (fin) "length ls < streamBatch" "\<not> s_attempt st < r_attempt run" "isFinal (r_status run)"
    | (wait) "length ls < streamBatch" "\<not> s_attempt st < r_attempt run" "\<not> isFinal (r_status run)" by blast
  then show ?thesis
  proof cases
    case full
    then have "st'\<lparr>s_out := s_out st' @ evs\<rparr> = ?p" using assms(4) by (auto simp: after_page_def Let_def)
    then show ?thesis using p assms(2,3) by (simp add: stream_inv_def)
  next
    case more
    then have "st'\<lparr>s_out := s_out st' @ evs\<rparr> = ?p\<lparr>s_attempt := s_attempt ?p + 1, s_next := 1, s_pc := PGetRun,
        s_out := s_out ?p @ [SAttempt (s_attempt ?p + 1)]\<rparr>" using assms(4) by (auto simp: after_page_def Let_def)
    then show ?thesis using following_next [OF p, of run] more assms(2,3) by (simp add: stream_inv_def)
  next
    case fin
    then have "st'\<lparr>s_out := s_out st' @ evs\<rparr> = ?p\<lparr>s_pc := PDone,
        s_out := s_out ?p @ [SEnd (r_status run) (r_attempt run) (r_error run)]\<rparr>" using assms(4) by (auto simp: after_page_def Let_def)
    then show ?thesis using following_end [OF p, of run] fin assms(2,3) by (simp add: stream_inv_def)
  next
    case wait
    let ?ev = "if i_idle x then [SPing] else []"
    have st': "st'\<lparr>s_out := s_out st' @ evs\<rparr> = st\<lparr>s_next := next_seq (s_next st) ls, s_out := s_out st @ map SLine ls @ ?ev,
        s_pc := (if i_stop x then PDone else PGetRun)\<rparr>"
      using wait assms(4) by (auto simp: after_page_def Let_def)
    have q: "following i a0 s0 (st\<lparr>s_next := next_seq (s_next st) ls, s_out := s_out st @ map SLine ls @ ?ev, s_pc := PGetRun\<rparr>) d"
      by (rule following_page [OF assms(1,2,5)]) simp_all
    show ?thesis using q following_no_end [OF q] assms(2) unfolding st' by (simp add: stream_inv_def)
  qed
qed

lemma GetRun_found:
  assumes "GetRun e i d = (Inr run, d')" and "schema_ok (e_others e d)"
  shows "d' = e_others e d \<and> find_run i d' = Some run"
proof -
  have "scanRun (filter (\<lambda>r. r_id r = i) (runs (e_others e d))) = Inr run \<and> d' = e_others e d"
    using pg_Inr [OF assms(1) [unfolded GetRun_def]] by auto
  then show ?thesis using scanRun_filter [of "runs (e_others e d)" i] assms(2) by (auto split: option.splits)
qed

lemma done_no_step: "s_pc st = PDone \<Longrightarrow> stream_step i x (st, d) = (st, d)"
  by (simp add: stream_step_def)

lemma done_no_run: "s_pc st = PDone \<Longrightarrow> stream_run i xs (st, d) = (st, d)"
  by (induction xs) (simp_all add: done_no_step)

lemma after_page_out: "after_page x run ls st = (evs, st') \<Longrightarrow> s_out st' = s_out st"
  by (auto simp: after_page_def Let_def split: if_splits)

text \<open>Only a complete write of the page's events can contain the end.\<close>

lemma cut_no_end:
  assumes "after_page x run ls st = (evs, st')" and "send_all x evs = (sent, False)"
  shows "list_all (\<lambda>ev. \<not> is_end ev) sent"
proof -
  obtain n where n: "sent = take n evs" "n < length evs"
    using assms(2) by (auto simp: send_all_def not_le split: option.splits)
  obtain l where "evs = map SLine ls @ l" "length l \<le> 1"
    using assms(1) by (auto simp: after_page_def Let_def split: if_splits)
  then have "sent = map SLine (take n ls)" using n by (simp add: take_map)
  then show ?thesis by simp
qed

text \<open>A call of the stream that is not done: the run is read, or a page; or the call fails.\<close>

lemma stream_step_cases:
  assumes "stream_inv i a0 s0 st d" and "by_store x" and "stream_step i x (st, d) = (st', d')" and "s_pc st \<noteq> PDone"
  obtains (failed) "st' = st\<lparr>s_pc := PDone\<rparr>"
    | (read) run where "s_pc st = PGetRun" "st' = st\<lparr>s_pc := PPage run\<rparr>" "find_run i d' = Some run"
    | (page) run ls evs st1 sent ok where "s_pc st = PPage run"
        "ls = take streamBatch (lines_from i (s_attempt st) (s_next st) d')" "after_page x run ls st = (evs, st1)"
        "send_all x evs = (sent, ok)" "st' = st1\<lparr>s_out := s_out st @ sent, s_pc := (if ok then s_pc st1 else PDone)\<rparr>"
proof (cases "s_pc st")
  case PGetRun
  obtain y d1 where y: "GetRun (i_env x) i d = (y, d1)" by fastforce
  have d1: "d1 = e_others (i_env x) d" using GetRun_db [of "i_env x" i d] y by simp
  have "moves_on i d d1" using by_store_moves [OF assms(2)] assms(1) d1 by (simp add: stream_inv_def)
  then have sc: "schema_ok (e_others (i_env x) d)" using d1 by (simp add: moves_on_def db_good_def)
  show ?thesis
  proof (cases y)
    case (Inl err)
    then show ?thesis using assms(3) PGetRun y by (intro failed) (simp add: stream_step_def)
  next
    case (Inr run)
    then have "find_run i d1 = Some run" using GetRun_found y sc by blast
    then show ?thesis using assms(3) PGetRun y Inr by (intro read [of run]) (simp_all add: stream_step_def)
  qed
next
  case (PPage run)
  obtain y d1 where y: "ListLogs (i_env x) i (s_attempt st) (s_next st) streamBatch d = (y, d1)" by fastforce
  show ?thesis
  proof (cases y)
    case (Inl err)
    then show ?thesis using assms(3) PPage y by (intro failed) (simp add: stream_step_def)
  next
    case (Inr ls)
    have ls: "ls = take streamBatch (lines_from i (s_attempt st) (s_next st) d1)"
      using ListLogs_lines [of "i_env x" i "s_attempt st" "s_next st" streamBatch d ls d1] y Inr by simp
    obtain evs st1 where a: "after_page x run ls st = (evs, st1)" by fastforce
    obtain sent ok where o: "send_all x evs = (sent, ok)" by fastforce
    have "st' = st1\<lparr>s_out := s_out st @ sent, s_pc := (if ok then s_pc st1 else PDone)\<rparr>" "d' = d1"
      using assms(3) PPage y Inr a o after_page_out [OF a] by (simp_all add: stream_step_def)
    then show ?thesis using page [OF PPage _ a o] ls by blast
  qed
qed (use assms(4) in simp)

lemma stream_step_db:
  assumes "s_pc st \<noteq> PDone" and "stream_step i x (st, d) = (st', d')"
  shows "d' = e_others (i_env x) d"
  using assms GetRun_db [of "i_env x" i d] ListLogs_db [of "i_env x" i "s_attempt st" "s_next st" streamBatch d]
  by (auto simp: stream_step_def Let_def split: stream_pc.splits prod.splits sum.splits)

lemma stream_step_follows:
  assumes "stream_inv i a0 s0 st d" and "by_store x" and "stream_step i x (st, d) = (st', d')" and "s_pc st \<noteq> PDone"
  shows "db_good d'" and "moves_on i d d'" and "following i a0 s0 st d'"
proof -
  show m: "moves_on i d d'"
    using by_store_moves [OF assms(2)] assms(1) stream_step_db [OF assms(4,3)] by (simp add: stream_inv_def)
  then show "db_good d'" by (simp add: moves_on_def)
  show "following i a0 s0 st d'" by (rule following_others [OF _ m]) (use assms(1,4) in \<open>simp add: stream_inv_def\<close>)
qed

lemma send_ok: "send_all x evs = (sent, True) \<Longrightarrow> sent = evs"
  by (auto simp: send_all_def split: option.splits)

lemma stream_step_inv:
  assumes "stream_inv i a0 s0 st d" and "by_store x" and "stream_step i x (st, d) = (st', d')"
  shows "stream_inv i a0 s0 st' d'"
proof (cases "s_pc st = PDone")
  case True
  with assms show ?thesis by (simp add: done_no_step)
next
  case nd: False
  note f = stream_step_follows [OF assms nd]
  show ?thesis
  proof (cases rule: stream_step_cases [OF assms nd, consumes 0, case_names failed read page])
    case failed
    then show ?thesis using f following_no_end [OF f(3)] by (simp add: stream_inv_def)
  next
    case (read run)
    then have "following i a0 s0 st' d'" using f(3) by (auto simp: following_def)
    then show ?thesis using f(1) read(2) by (simp add: stream_inv_def)
  next
    case (page run ls evs st1 sent ok)
    show ?thesis
    proof (cases ok)
      case True
      then have "sent = evs" "s_out st1 = s_out st" using page(4) send_ok [of x evs sent] after_page_out [OF page(3)] by simp_all
      with page_step [OF f(3,1) page(1,3,2)] True show ?thesis by (simp add: page(5))
    next
      case False
      then have "list_all (\<lambda>ev. \<not> is_end ev) (s_out st @ sent)"
        using following_no_end [OF f(3)] cut_no_end [OF page(3)] page(4) by simp
      then show ?thesis using False f(1) by (simp add: stream_inv_def page(5))
    qed
  qed
qed

lemma stream_run_inv:
  "stream_inv i a0 s0 st d \<Longrightarrow> list_all by_store xs \<Longrightarrow> stream_run i xs (st, d) = (st', d') \<Longrightarrow> stream_inv i a0 s0 st' d'"
proof (induction xs arbitrary: st d)
  case (Cons x xs)
  obtain st1 d1 where s: "stream_step i x (st, d) = (st1, d1)" by fastforce
  have "stream_inv i a0 s0 st1 d1" by (rule stream_step_inv [OF _ _ s]) (use Cons.prems in simp_all)
  then show ?case by (rule Cons.IH) (use Cons.prems s in simp_all)
qed simp

section \<open>Which lines are sent\<close>

text \<open>A stored line the stream is not past stays ahead of it or is sent, unless the stream breaks off.\<close>

definition kept :: "stream \<Rightarrow> log_line \<Rightarrow> bool" where
  "kept st l \<longleftrightarrow> SLine l \<in> set (s_out st) \<or> (if s_pc st = PDone then s_attempt st < l_attempt l else unread st l)"

lemma page_keeps:
  assumes "following i a0 s0 st d" and "db_good d" and "s_pc st = PPage run"
    and "after_page x run ls st = (evs, st1)" and "ls = take streamBatch (lines_from i (s_attempt st) (s_next st) d)"
    and "kept st l" and "(i, l) \<in> set (logs d)" and "1 \<le> l_seq l"
  shows "kept (st1\<lparr>s_out := s_out st @ evs\<rparr>) l"
proof (cases "SLine l \<in> set (s_out st)")
  case False
  then have u: "unread st l" using assms(3,6) by (simp add: kept_def)
  have n: "1 \<le> s_next st" using assms(1) by (simp add: following_def)
  have ls: "SLine k \<in> set evs" if "k \<in> set ls" for k
    using that assms(4) by (auto simp: after_page_def Let_def split: if_splits)
  note p5 = page_lines(5) [OF assms(2) n assms(5,7)]
  show ?thesis
  proof (cases "s_attempt st = l_attempt l")
    case True
    then have "s_next st \<le> l_seq l" using u by (simp add: unread_def)
    with p5 True consider "l \<in> set ls" | "streamBatch \<le> length ls" "next_seq (s_next st) ls \<le> l_seq l" by auto
    then show ?thesis
    proof cases
      case 1
      then show ?thesis using ls by (simp add: kept_def)
    next
      case 2
      then have "st1 = st\<lparr>s_next := next_seq (s_next st) ls\<rparr>" using assms(4) by (auto simp: after_page_def Let_def)
      then show ?thesis using 2 True assms(3) by (simp add: kept_def unread_def)
    qed
  next
    case False
    then have "s_attempt st < l_attempt l" using u by (simp add: unread_def)
    then show ?thesis using assms(4,8) by (auto simp: after_page_def Let_def kept_def unread_def split: if_splits)
  qed
qed (simp add: kept_def)

lemma step_keeps:
  assumes "stream_inv i a0 s0 st d" and "by_store x" and "stream_step i x (st, d) = (st', d')"
    and "kept st l" and "(i, l) \<in> set (logs d')" and "1 \<le> l_seq l"
    and "s_pc st' = PDone \<Longrightarrow> \<not> list_all (\<lambda>ev. \<not> is_end ev) (s_out st')"
  shows "kept st' l"
proof (cases "s_pc st = PDone")
  case True
  with assms show ?thesis by (simp add: done_no_step)
next
  case nd: False
  note f = stream_step_follows [OF assms(1-3) nd]
  show ?thesis
  proof (cases rule: stream_step_cases [OF assms(1-3) nd, consumes 0, case_names failed read page])
    case failed
    then show ?thesis using assms(7) following_no_end [OF f(3)] by simp
  next
    case (read run)
    then show ?thesis using assms(4) by (simp add: kept_def unread_def)
  next
    case (page run ls evs st1 sent ok)
    show ?thesis
    proof (cases ok)
      case True
      then have "sent = evs" using page(4) send_ok [of x evs sent] by simp
      with page_keeps [OF f(3,1) page(1,3,2) assms(4-6)] True show ?thesis by (simp add: page(5))
    next
      case False
      then show ?thesis using assms(7) following_no_end [OF f(3)] cut_no_end [OF page(3)] page(4,5) by simp
    qed
  qed
qed

lemma step_logs:
  assumes "stream_inv i a0 s0 st d" and "by_store x" and "stream_step i x (st, d) = (st', d')"
  shows "set (logs d) \<subseteq> set (logs d')"
  using stream_step_follows(2) [OF assms] assms(3) by (cases "s_pc st = PDone") (auto simp: done_no_step moves_on_def)

lemma run_logs:
  assumes "stream_inv i a0 s0 st d" and "list_all by_store xs" and "stream_run i xs (st, d) = (st', d')"
  shows "set (logs d) \<subseteq> set (logs d')"
  using assms
proof (induction xs arbitrary: st d)
  case (Cons x xs)
  obtain st1 d1 where s: "stream_step i x (st, d) = (st1, d1)" by fastforce
  have x: "by_store x" "list_all by_store xs" using Cons.prems(2) by simp_all
  show ?case
    using step_logs [OF Cons.prems(1) x(1) s] Cons.IH [OF stream_step_inv [OF Cons.prems(1) x(1) s] x(2)] Cons.prems(3) s by simp
qed simp

lemma run_keeps:
  assumes "stream_inv i a0 s0 st d" and "list_all by_store xs" and "stream_run i xs (st, d) = (st', d')"
    and "\<not> list_all (\<lambda>ev. \<not> is_end ev) (s_out st')" and "1 \<le> l_seq l" and "kept st l" and "(i, l) \<in> set (logs d)"
  shows "kept st' l"
  using assms
proof (induction xs arbitrary: st d)
  case (Cons x xs)
  obtain st1 d1 where s: "stream_step i x (st, d) = (st1, d1)" by fastforce
  have x: "by_store x" "list_all by_store xs" and r: "stream_run i xs (st1, d1) = (st', d')"
    using Cons.prems(2,3) s by simp_all
  have l: "(i, l) \<in> set (logs d1)" using step_logs [OF Cons.prems(1) x(1) s] Cons.prems(7) by blast
  have "kept st1 l"
    by (rule step_keeps [OF Cons.prems(1) x(1) s Cons.prems(6) l Cons.prems(5)]) (use done_no_run r Cons.prems(4) in fastforce)
  from Cons.IH [OF stream_step_inv [OF Cons.prems(1) x(1) s] x(2) r Cons.prems(4,5) this l] show ?case .
qed simp

lemma in_time_kept:
  assumes "stream_inv i a0 s0 st d" and "list_all by_store xs" and "stream_run i xs (st, d) = (st', d')"
    and "\<not> list_all (\<lambda>ev. \<not> is_end ev) (s_out st')" and "1 \<le> l_seq l" and "in_time i xs (st, d) l"
    and "a0 \<le> l_attempt l" and "first_seq a0 s0 (l_attempt l) \<le> l_seq l"
  shows "kept st' l"
  using assms
proof (induction xs arbitrary: st d)
  case (Cons x xs)
  obtain st1 d1 where s: "stream_step i x (st, d) = (st1, d1)" by fastforce
  have x: "by_store x" "list_all by_store xs" and r: "stream_run i xs (st1, d1) = (st', d')"
    using Cons.prems(2,3) s by simp_all
  have inv: "stream_inv i a0 s0 st1 d1" by (rule stream_step_inv [OF Cons.prems(1) x(1) s])
  show ?case
  proof (cases "in_time i xs (st1, d1) l")
    case True
    from Cons.IH [OF inv x(2) r Cons.prems(4,5) this Cons.prems(7,8)] show ?thesis .
  next
    case False
    then have n: "s_pc st \<noteq> PDone" "(i, l) \<in> set (logs (e_others (i_env x) d))" "\<not> overtaken (s_out st) l"
      using Cons.prems(6) s by simp_all
    have d1: "d1 = e_others (i_env x) d" by (rule stream_step_db [OF n(1) s])
    have "unread st l"
      by (rule not_overtaken_unread [OF stream_step_follows(3) [OF Cons.prems(1) x(1) s n(1)] n(3) Cons.prems(7,8)])
    then have "kept st l" using n(1) by (simp add: kept_def)
    then have "kept st1 l"
      by (rule step_keeps [OF Cons.prems(1) x(1) s _ n(2) [folded d1] Cons.prems(5)]) (use done_no_run r Cons.prems(4) in fastforce)
    then show ?thesis
      by (rule run_keeps [OF inv x(2) r Cons.prems(4,5)]) (use n(2) d1 in simp)
  qed
qed simp

lemma sent_in_time:
  assumes "stream_inv i a0 s0 st d" and "list_all by_store xs" and "stream_run i xs (st, d) = (st', d')"
    and "SLine l \<in> set (s_out st')"
  shows "SLine l \<in> set (s_out st) \<or> in_time i xs (st, d) l"
  using assms
proof (induction xs arbitrary: st d)
  case (Cons x xs)
  obtain st1 d1 where s: "stream_step i x (st, d) = (st1, d1)" by fastforce
  have x: "by_store x" "list_all by_store xs" and r: "stream_run i xs (st1, d1) = (st', d')"
    using Cons.prems(2,3) s by simp_all
  have "SLine l \<in> set (s_out st1) \<or> in_time i xs (st1, d1) l"
    by (rule Cons.IH [OF stream_step_inv [OF Cons.prems(1) x(1) s] x(2) r Cons.prems(4)])
  moreover have "SLine l \<in> set (s_out st) \<or> in_time i (x # xs) (st, d) l" if new: "SLine l \<in> set (s_out st1)"
  proof (cases "s_pc st = PDone")
    case True
    then show ?thesis using new s by (simp add: done_no_step)
  next
    case nd: False
    note f = stream_step_follows [OF Cons.prems(1) x(1) s nd]
    show ?thesis
    proof (cases rule: stream_step_cases [OF Cons.prems(1) x(1) s nd, consumes 0, case_names failed read page])
      case failed
      then show ?thesis using new by simp
    next
      case (read run)
      then show ?thesis using new by simp
    next
      case (page run ls evs st2 sent ok)
      have "set sent \<subseteq> set evs" using page(4) by (auto simp: send_all_def split: option.splits dest: in_set_takeD)
      moreover have "k \<in> set ls" if "SLine k \<in> set evs" for k
        using that page(3) by (auto simp: after_page_def Let_def split: if_splits)
      ultimately consider "SLine l \<in> set (s_out st)" | "l \<in> set ls" using new page(5) by fastforce
      then show ?thesis
      proof cases
        case 2
        have "1 \<le> s_next st" using f(3) by (simp add: following_def)
        then have l: "(i, l) \<in> set (logs d1)" "l_attempt l = s_attempt st" "s_next st \<le> l_seq l"
          using page_lines(1) [OF f(1) _ page(2) 2] by blast+
        then have "\<not> overtaken (s_out st) l" by (intro unread_not_overtaken [OF f(3)]) (simp add: unread_def)
        then show ?thesis using nd l(1) stream_step_db [OF nd s] by simp
      qed blast
    qed
  qed
  ultimately show ?case using s by auto
qed simp

section \<open>What the client has when the stream ends\<close>

lemma start_inv:
  assumes "db_good d" and "find_run i d = Some r0" and "a0 \<le> r_attempt r0" and "1 \<le> s0"
  shows "stream_inv i a0 s0 (start_stream a0 s0) d"
proof -
  have "following i a0 s0 (start_stream a0 s0) d"
    using assms(2-4) unfolding following_def
    by (intro conjI) (simp_all add: start_stream_def first_seq_def sent_events_def sent_well_def)
  then show ?thesis using assms(1) by (simp add: stream_inv_def start_stream_def)
qed

lemma strict_lists_eq:
  assumes "sorted_wrt (<) (map l_seq xs)" and "sorted_wrt (<) (map l_seq ys)" and "set xs = set ys"
  shows "xs = ys"
proof (rule map_inj_on)
  show "map l_seq xs = map l_seq ys"
    by (rule strict_sorted_equal) (use assms in simp_all)
  have "distinct (map l_seq ys)" using assms(2) by (simp add: strict_sorted_iff)
  then show "inj_on l_seq (set xs \<union> set ys)" using assms(3) by (simp add: distinct_map)
qed

lemma stream_log:
  assumes "db_good d" and "find_run i d = Some r0" and "a0 \<le> r_attempt r0" and "1 \<le> s0"
    and "list_all by_store xs" and "stream_run i xs (start_stream a0 s0, d) = (st, d')"
    and "SEnd fin a err \<in> set (s_out st)"
  shows "\<exists>r. find_run i d' = Some r \<and> isFinal (r_status r) \<and> fin = r_status r \<and> a = r_attempt r \<and> err = r_error r
    \<and> filter (\<lambda>ev. ev \<noteq> SPing) (s_out st) =
        concat (map (\<lambda>n. SAttempt n # map SLine (filter (in_time i xs (start_stream a0 s0, d))
          (lines_from i n (if n = a0 then s0 else 1) d'))) [a0..r_attempt r]) @ [SEnd fin a err]
    \<and> (\<forall>n \<in> {a0..r_attempt r}. list_all (in_time i xs (start_stream a0 s0, d)) (lines_from i n (if n = a0 then s0 else 1) d))"
proof -
  let ?start = "start_stream a0 s0"
  have start: "stream_inv i a0 s0 ?start d" by (rule start_inv [OF assms(1-4)])
  have inv: "stream_inv i a0 s0 st d'" by (rule stream_run_inv [OF start assms(5,6)])
  have no: "\<not> list_all (\<lambda>ev. \<not> is_end ev) (s_out st)" using assms(7) by (force simp: list_all_iff)
  then have over: "s_pc st = PDone" and "ended i a0 s0 st d'"
    using inv following_no_end by (auto simp: stream_inv_def split: if_splits)
  then obtain r where r: "find_run i d' = Some r" "isFinal (r_status r)" "r_attempt r = s_attempt st"
    "no_pings (s_out st) = sent_events a0 (r_attempt r) (s_out st) @ [SEnd (r_status r) (r_attempt r) (r_error r)]"
    "sent_well i a0 s0 (r_attempt r) (s_out st) d'"
    unfolding ended_def by blast
  have "SEnd fin a err \<in> set (no_pings (s_out st))" using assms(7) by (simp add: no_pings_def)
  then have e: "SEnd fin a err = SEnd (r_status r) (r_attempt r) (r_error r)"
    unfolding r(4) using sent_events_no_end [of "SEnd fin a err" a0 "r_attempt r" "s_out st"] by auto
  have sent: "filter (in_time i xs (?start, d)) (lines_from i n (first_seq a0 s0 n) d') = sent_lines n (s_out st)"
    if n: "a0 \<le> n" "n \<le> r_attempt r" for n
  proof (rule strict_lists_eq)
    have w: "sorted_wrt (<) (map l_seq (sent_lines n (s_out st)))"
      "set (sent_lines n (s_out st)) \<subseteq> set (lines_from i n (first_seq a0 s0 n) d')"
      using r(5) n unfolding sent_well_def by (blast, metis)
    show "sorted_wrt (<) (map l_seq (sent_lines n (s_out st)))" by (rule w(1))
    show "sorted_wrt (<) (map l_seq (filter (in_time i xs (?start, d)) (lines_from i n (first_seq a0 s0 n) d')))"
      using lines_from_strict [of d' i n "first_seq a0 s0 n"] inv by (simp add: stream_inv_def sorted_wrt_map sorted_wrt_filter)
    have "in_time i xs (?start, d) l" if "l \<in> set (sent_lines n (s_out st))" for l
      using sent_in_time [OF start assms(5,6), of l] that by (simp add: sent_lines_set start_stream_def)
    moreover have "l \<in> set (sent_lines n (s_out st))"
      if l: "in_time i xs (?start, d) l" "l \<in> set (lines_from i n (first_seq a0 s0 n) d')" for l
    proof -
      have "1 \<le> l_seq l" using l(2) assms(4) by (simp add: lines_from_set first_seq_def split: if_splits)
      then have "kept st l"
        using l n by (intro in_time_kept [OF start assms(5,6) no]) (simp_all add: lines_from_set)
      then show ?thesis using over l(2) n r(3) by (simp add: kept_def sent_lines_set lines_from_set)
    qed
    ultimately show "set (filter (in_time i xs (?start, d)) (lines_from i n (first_seq a0 s0 n) d')) = set (sent_lines n (s_out st))"
      using w(2) by auto
  qed
  have "map (\<lambda>n. SAttempt n # map SLine (filter (in_time i xs (?start, d)) (lines_from i n (first_seq a0 s0 n) d'))) [a0..r_attempt r]
      = map (\<lambda>n. SAttempt n # map SLine (sent_lines n (s_out st))) [a0..r_attempt r]"
    by (rule map_cong) (simp_all add: sent)
  then have ev: "sent_events a0 (r_attempt r) (s_out st) = concat (map (\<lambda>n. SAttempt n # map SLine
      (filter (in_time i xs (?start, d)) (lines_from i n (first_seq a0 s0 n) d'))) [a0..r_attempt r])"
    unfolding sent_events_def by (simp only:)
  obtain x xs' where xs: "xs = x # xs'"
    using assms(6,7) by (cases xs) (auto simp: start_stream_def)
  have "moves_on i d (e_others (i_env x) d)" using by_store_moves assms(1,5) xs by simp
  then have stored: "in_time i xs (?start, d) l" if "l \<in> set (lines_from i n s d)" "a0 \<le> n" for l n s
    using that by (auto simp: xs lines_from_set moves_on_def start_stream_def)
  show ?thesis
    by (rule exI [of _ r]) (use r(1,2,4) e ev stored in \<open>simp add: no_pings_def first_seq_def list_all_iff\<close>)
qed


text \<open>A run that has succeeded, with one line logged, read in two steps.\<close>

definition demo_line :: log_line where
  "demo_line = \<lparr>l_attempt = 1, l_seq = 1, l_ts = 7, l_level = ''info'', l_line = ''hi''\<rparr>"

definition demo_logged :: db where
  "demo_logged = demo_done\<lparr>logs := [(''R'', demo_line)]\<rparr>"

definition demo_input :: stream_input where
  "demo_input = \<lparr>i_env = demo_env 20 [], i_sends = None, i_idle = False, i_stop = False\<rparr>"

lemma demo_by_store: "by_store demo_input"
  unfolding by_store_def by (intro allI exI [of _ "[]"]) (simp add: numbered_def demo_input_def demo_env_def)

lemma demo_logged_facts:
  "db_good demo_logged" "\<exists>r. find_run ''R'' demo_logged = Some r \<and> r_attempt r = 1 \<and> isFinal (r_status r)"
proof -
  obtain r where r: "find_run ''R'' demo_done = Some r" "r_status r = StatusSucceeded" "r_attempt r = 1"
    using demo_done_run by (auto simp: finish_row_def claim_row_def)
  then have "''R'' \<in> r_id ` set (runs demo_done)" using lookup_row_Some [OF r(1)] by force
  then show "db_good demo_logged"
    using demo_done_ok by (simp add: db_good_def demo_logged_def schema_ok_def logs_ok_def demo_line_def log_levels_def int64_max_def)
  show "\<exists>r. find_run ''R'' demo_logged = Some r \<and> r_attempt r = 1 \<and> isFinal (r_status r)"
    using r by (simp add: demo_logged_def)
qed

lemma demo_stream_steps:
  assumes "find_run ''R'' demo_logged = Some r" and "r_attempt r = 1" and "isFinal (r_status r)"
  shows "stream_run ''R'' [demo_input, demo_input] (start_stream 1 1, demo_logged) =
     (\<lparr>s_attempt = 1, s_next = 2, s_out = [SAttempt 1, SLine demo_line, SEnd (r_status r) 1 (r_error r)], s_pc = PDone\<rparr>, demo_logged)"
proof -
  have q: "quiet (i_env demo_input)" "\<And>d. e_others (i_env demo_input) d = d"
    by (simp_all add: demo_input_def quiet_def demo_env_def)
  have sc: "schema_ok demo_logged" using demo_logged_facts(1) by (simp add: db_good_def)
  have g: "GetRun (i_env demo_input) ''R'' demo_logged = (Inr r, demo_logged)"
    using GetRun_quiet [OF q(1), of demo_logged "''R''"] GetRun_db [of "i_env demo_input" "''R''" demo_logged] q(2) sc assms(1)
    by (simp add: prod_eq_iff)
  have l: "ListLogs (i_env demo_input) ''R'' 1 1 streamBatch demo_logged = (Inr [demo_line], demo_logged)"
    using q by (simp add: ListLogs_def attempt_lines_def demo_logged_def demo_line_def order_limit_def streamBatch_def)
  have w: "wrap64 2 = 2" by (rule wrap64_id) (simp_all add: int64_min_def int64_max_def)
  show ?thesis using g l w assms(2,3)
    by (simp add: stream_step_def start_stream_def after_page_def streamBatch_def send_all_def next_seq_def demo_input_def demo_line_def)
qed

lemma demo_lines: "lines_from ''R'' 1 1 demo_logged = [demo_line]"
  by (simp add: lines_from_def all_lines_def demo_logged_def demo_line_def)


end
