(* ===== verification/GoTime.thy ===== *)
theory GoTime
  imports Models
begin

text \<open>
  The parts of Go's package \<open>time\<close> that deal with durations: the constants, \<open>ParseDuration\<close> and
  \<open>Duration.String\<close>. \<open>ParseDuration\<close> scales a decimal fraction exactly here, where Go multiplies
  floating-point numbers; the two can differ by a nanosecond for a fraction with more digits than
  its unit has.
\<close>

section \<open>Constants\<close>

definition Nanosecond :: duration where "Nanosecond = 1"
definition Microsecond :: duration where "Microsecond = 1000"
definition Millisecond :: duration where "Millisecond = 1000000"
definition Second :: duration where "Second = 1000000000"
definition Minute :: duration where "Minute = 60000000000"
definition Hour :: duration where "Hour = 3600000000000"

lemmas time_units = Nanosecond_def Microsecond_def Millisecond_def Second_def Minute_def Hour_def

section \<open>\<open>time.ParseDuration\<close>\<close>

definition units :: "(string \<times> nat) list" where
  "units = [(''ns'', 1), (''us'', 1000), (bytes [0xC2, 0xB5] @ ''s'', 1000), (bytes [0xCE, 0xBC] @ ''s'', 1000),
     (''ms'', 1000000), (''s'', 1000000000), (''m'', 60000000000), (''h'', 3600000000000)]"

text \<open>\<open>leadingInt\<close>: the digits a text starts with; above \<open>2^63\<close> it fails.\<close>

definition leading_int :: "string \<Rightarrow> (nat \<times> nat \<times> string) option" where
  "leading_int s = (case span is_digit s of (ds, r) \<Rightarrow>
     (case digits_val 0 ds of None \<Rightarrow> None | Some n \<Rightarrow> if n \<le> 2 ^ 63 then Some (n, length ds, r) else None))"

text \<open>\<open>leadingFraction\<close>: digits that would overflow are dropped.\<close>

fun fraction_digits :: "nat \<Rightarrow> nat \<Rightarrow> string \<Rightarrow> nat \<times> nat" where
  "fraction_digits n scale [] = (n, scale)"
| "fraction_digits n scale (c # cs) =
     (if n > (2 ^ 63 - 1) div 10 \<or> 10 * n + digit_val c > 2 ^ 63 then (n, scale)
      else fraction_digits (10 * n + digit_val c) (10 * scale) cs)"

text \<open>One number with its unit: its nanoseconds, and the rest.\<close>

definition duration_part :: "string \<Rightarrow> (nat \<times> string) option" where
  "duration_part s = (case leading_int s of None \<Rightarrow> None | Some (v, pre, r) \<Rightarrow>
     (let (frac, r2) = (case r of c # q \<Rightarrow> if c = CHR ''.'' then span is_digit q else ([], r) | [] \<Rightarrow> ([], []));
          (f, scale) = fraction_digits 0 1 frac;
          (u, r3) = span (\<lambda>c. c \<noteq> CHR ''.'' \<and> \<not> is_digit c) r2
      in if pre = 0 \<and> frac = [] then None
         else case map_of units u of None \<Rightarrow> None
           | Some k \<Rightarrow> if 2 ^ 63 div k < v \<or> 2 ^ 63 < v * k + f * k div scale then None
                       else Some (v * k + f * k div scale, r3)))"

lemma span_shorter: "span P s = (a, b) \<Longrightarrow> length s = length a + length b"
  by (drule span_append) simp

lemma unit_not_empty: "map_of units u = Some k \<Longrightarrow> u \<noteq> []"
  by (auto simp: units_def)

lemma duration_part_shorter:
  assumes "duration_part s = Some (n, r)"
  shows "length r < length s"
proof -
  let ?P = "\<lambda>c. c \<noteq> CHR ''.'' \<and> \<not> is_digit c"
  obtain v pre q where l: "leading_int s = Some (v, pre, q)"
    using assms by (auto simp: duration_part_def split: option.splits)
  have "length q \<le> length s" using l
    by (auto simp: leading_int_def simp del: span.simps split: prod.splits option.splits if_splits dest: span_shorter)
  moreover obtain frac r2 where f: "(case q of c # w \<Rightarrow> if c = CHR ''.'' then span is_digit w else ([], q) | [] \<Rightarrow> ([], [])) = (frac, r2)"
    by fastforce
  then have "length r2 \<le> length q"
    by (auto simp del: span.simps split: list.splits if_splits dest: span_shorter)
  moreover obtain u where "span ?P r2 = (u, r)" "u \<noteq> []"
    using assms l f by (auto simp: duration_part_def Let_def simp del: span.simps
        split: prod.splits option.splits if_splits dest: unit_not_empty)
  then have "length r < length r2" using span_shorter [of ?P r2 u r] by simp
  ultimately show ?thesis by simp
qed

function duration_parts :: "nat \<Rightarrow> string \<Rightarrow> nat option" where
  "duration_parts d s =
     (if s = [] then Some d
      else case duration_part s of None \<Rightarrow> None
        | Some (v, r) \<Rightarrow> if 2 ^ 63 < d + v then None else duration_parts (d + v) r)"
  by pat_completeness auto
termination
  by (relation "measure (\<lambda>(d, s). length s)") (auto dest: duration_part_shorter)

declare duration_parts.simps [simp del]

definition parse_unsigned :: "bool \<Rightarrow> string \<Rightarrow> duration option" where
  "parse_unsigned neg s =
     (if s = ''0'' then Some 0 else if s = [] then None
      else case duration_parts 0 s of None \<Rightarrow> None
        | Some d \<Rightarrow> if neg then Some (- int d) else if int64_max < int d then None else Some (int d))"

definition ParseDuration :: "string \<Rightarrow> duration option" where
  "ParseDuration s = (case s of [] \<Rightarrow> None
     | c # r \<Rightarrow> if c = CHR ''-'' then parse_unsigned True r
                else if c = CHR ''+'' then parse_unsigned False r else parse_unsigned False s)"

lemma duration_parts_range: "d \<le> 2 ^ 63 \<Longrightarrow> duration_parts d s = Some n \<Longrightarrow> n \<le> 2 ^ 63"
proof (induction d s rule: duration_parts.induct)
  case (1 d s)
  from "1.prems"(2) show ?case
    by (subst (asm) duration_parts.simps)
       (use "1.prems"(1) "1.IH" in \<open>fastforce split: if_splits option.splits prod.splits\<close>)
qed

lemma ParseDuration_range: "ParseDuration s = Some d \<Longrightarrow> int64_min \<le> d \<and> d \<le> int64_max"
proof -
  have "parse_unsigned neg t = Some d \<Longrightarrow> int64_min \<le> d \<and> d \<le> int64_max" for neg t
    using duration_parts_range [of 0 t]
    by (auto simp: parse_unsigned_def int64_min_def int64_max_def split: if_splits option.splits)
  then show "ParseDuration s = Some d \<Longrightarrow> int64_min \<le> d \<and> d \<le> int64_max"
    by (auto simp: ParseDuration_def split: list.splits if_splits)
qed

section \<open>\<open>Duration.String\<close>\<close>

fun pad_digits :: "nat \<Rightarrow> nat \<Rightarrow> string" where
  "pad_digits 0 v = []"
| "pad_digits (Suc k) v = pad_digits k (v div 10) @ [digit_char (v mod 10)]"

definition frac_text :: "nat \<Rightarrow> nat \<Rightarrow> string" where
  "frac_text prec v =
     (let ds = rev (dropWhile (\<lambda>c. c = CHR ''0'') (rev (pad_digits prec v)))
      in if ds = [] then [] else CHR ''.'' # ds)"

definition with_frac :: "nat \<Rightarrow> nat \<Rightarrow> string" where
  "with_frac prec u = dec_digits (u div 10 ^ prec) @ frac_text prec u"

definition positive_text :: "nat \<Rightarrow> string" where
  "positive_text u =
     (if u = 0 then ''0s''
      else if u < 1000 then with_frac 0 u @ ''ns''
      else if u < 1000000 then with_frac 3 u @ bytes [0xC2, 0xB5] @ ''s''
      else if u < 1000000000 then with_frac 6 u @ ''ms''
      else let secs = u div 10 ^ 9; mins = secs div 60; hours = mins div 60 in
        (if 0 < hours then dec_digits hours @ ''h'' else [])
        @ (if 0 < mins then dec_digits (mins mod 60) @ ''m'' else [])
        @ dec_digits (secs mod 60) @ frac_text 9 u @ ''s'')"

definition duration_text :: "duration \<Rightarrow> string" where
  "duration_text d = (if d < 0 then CHR ''-'' # positive_text (nat (- d)) else positive_text (nat d))"

end
