(* ===== verification/App.thy ===== *)
theory App
  imports GoTime
begin

text \<open>
  \<open>internal/app/app.go\<close> and \<open>loadConfig\<close> of \<open>cmd/worker/main.go\<close>: waiting for a service at startup,
  and configuration from the environment. The operating system is a parameter: the environment, the
  host's name, the process id, the default output directory.
\<close>

section \<open>Waiting for a service\<close>

definition StartupTimeout :: duration where "StartupTimeout = 3 * Minute"
definition maxBackoff :: duration where "maxBackoff = 5 * Second"
definition initialBackoff :: duration where "initialBackoff = 500 * Millisecond"

text \<open>
  \<open>check n\<close> is what attempt \<open>n\<close> finds and \<open>took n\<close> how long it takes; \<open>fin\<close> is when the context ends, its
  own timeout or the caller's. The result comes with the number of attempts made.
\<close>

definition not_ready :: "string \<Rightarrow> duration \<Rightarrow> error \<Rightarrow> error" where
  "not_ready what timeout e = ErrWrap (what @ '' not ready after '' @ duration_text timeout) e"

partial_function (option) wait_loop ::
  "(nat \<Rightarrow> error option) \<Rightarrow> (nat \<Rightarrow> duration) \<Rightarrow> (error \<Rightarrow> error) \<Rightarrow> duration \<Rightarrow> duration \<Rightarrow> nat \<Rightarrow> duration
     \<Rightarrow> (unit res \<times> nat) option" where
  "wait_loop check took giveup fin now attempt backoff =
     (case check attempt of
        None \<Rightarrow> Some (Inr (), attempt)
      | Some e \<Rightarrow>
          if fin \<le> now + took attempt + backoff then Some (Inl (giveup e), attempt)
          else wait_loop check took giveup fin (now + took attempt + backoff) (Suc attempt)
                 (min (backoff * 2) maxBackoff))"

declare wait_loop.simps [code]

definition WaitFor ::
  "duration option \<Rightarrow> string \<Rightarrow> duration \<Rightarrow> (nat \<Rightarrow> error option) \<Rightarrow> (nat \<Rightarrow> duration) \<Rightarrow> (unit res \<times> nat) option" where
  "WaitFor cancelled what timeout check took =
     wait_loop check took (not_ready what timeout)
       (case cancelled of None \<Rightarrow> timeout | Some t \<Rightarrow> min t timeout) 0 1 initialBackoff"

lemma wait_loop_returns:
  assumes "0 < b" and "b \<le> backoff" and "b \<le> maxBackoff" and "\<And>n. 0 \<le> took n" and "now \<le> max 0 fin"
  shows "\<exists>r n. wait_loop check took giveup fin now attempt backoff = Some (r, n)
     \<and> attempt \<le> n \<and> int (n - attempt) * b \<le> max 0 (fin - now)
     \<and> (\<forall>k. attempt \<le> k \<longrightarrow> k < n \<longrightarrow> check k \<noteq> None)
     \<and> r = (case check n of None \<Rightarrow> Inr () | Some e \<Rightarrow> Inl (giveup e))"
  using assms(2,5)
proof (induction "nat (fin - now)" arbitrary: now attempt backoff rule: less_induct)
  case less
  let ?next = "now + took attempt + backoff"
  show ?case
  proof (cases "check attempt = None \<or> fin \<le> ?next")
    case True
    then show ?thesis by (subst wait_loop.simps) (auto split: option.splits)
  next
    case False
    then obtain e where e: "check attempt = Some e" and f: "?next < fin" by auto
    have t: "0 \<le> took attempt" and pos: "0 < backoff" using assms(1,4) less.prems(1) by auto
    have eq: "wait_loop check took giveup fin now attempt backoff =
        wait_loop check took giveup fin ?next (Suc attempt) (min (backoff * 2) maxBackoff)"
      using e f by (subst wait_loop.simps) simp
    have m: "nat (fin - ?next) < nat (fin - now)" using f t pos by linarith
    have "b \<le> min (backoff * 2) maxBackoff" and "?next \<le> max 0 fin" using assms(1,3) less.prems(1) f by auto
    from less.hyps [OF m this, of "Suc attempt"] obtain r n where n:
      "wait_loop check took giveup fin ?next (Suc attempt) (min (backoff * 2) maxBackoff) = Some (r, n)"
      "Suc attempt \<le> n" "int (n - Suc attempt) * b \<le> max 0 (fin - ?next)"
      "\<forall>k. Suc attempt \<le> k \<longrightarrow> k < n \<longrightarrow> check k \<noteq> None"
      "r = (case check n of None \<Rightarrow> Inr () | Some e \<Rightarrow> Inl (giveup e))"
      by blast
    have "int (n - attempt) = int (n - Suc attempt) + 1" using n(2) by simp
    then have "int (n - attempt) * b = int (n - Suc attempt) * b + b"
      by (simp only: distrib_right mult_1_left)
    then have "int (n - attempt) * b \<le> max 0 (fin - now)" using n(3) f t less.prems(1) by linarith
    moreover have "\<forall>k. attempt \<le> k \<longrightarrow> k < n \<longrightarrow> check k \<noteq> None"
      using n(4) e by (metis le_antisym not_less_eq_eq option.distinct(1))
    ultimately show ?thesis using eq n(1,2,5) by (metis Suc_leD)
  qed
qed

lemma wait_ends:
  assumes "\<forall>n. 0 \<le> took n" and "0 \<le> timeout"
  shows "\<exists>r n. WaitFor cancelled what timeout check took = Some (r, n)
     \<and> 1 \<le> n \<and> (int n - 1) * initialBackoff \<le> timeout
     \<and> (\<forall>k. 1 \<le> k \<longrightarrow> k < n \<longrightarrow> check k \<noteq> None)
     \<and> r = (case check n of None \<Rightarrow> Inr () | Some e \<Rightarrow> Inl (not_ready what timeout e))"
proof -
  define fin where "fin = (case cancelled of None \<Rightarrow> timeout | Some t \<Rightarrow> min t timeout)"
  have f: "max 0 fin \<le> timeout" using assms(2) by (auto simp: fin_def split: option.split)
  obtain r n where n: "WaitFor cancelled what timeout check took = Some (r, n)"
    "1 \<le> n" "int (n - 1) * initialBackoff \<le> max 0 (fin - 0)"
    "\<forall>k. 1 \<le> k \<longrightarrow> k < n \<longrightarrow> check k \<noteq> None"
    "r = (case check n of None \<Rightarrow> Inr () | Some e \<Rightarrow> Inl (not_ready what timeout e))"
    using wait_loop_returns [of initialBackoff initialBackoff took 0 fin check "not_ready what timeout" 1] assms(1)
    unfolding WaitFor_def fin_def by (auto simp: initialBackoff_def maxBackoff_def time_units)
  moreover have "int (n - 1) = int n - 1" using n(2) by simp
  moreover have "(int n - 1) * initialBackoff \<le> timeout" using n(3) f \<open>int (n - 1) = int n - 1\<close> by (simp only: diff_zero)
  ultimately show ?thesis by (intro exI [of _ r] exI [of _ n]) simp
qed

text \<open>
  C37: \<open>WaitFor\<close> returns, whatever the checks do and however long they take: at the first check that
  succeeds, or with the error of the last check once the timeout or the caller's context ends,
  after at most one attempt per initial backoff of the timeout and one more.
\<close>

theorem WaitFor_returns:
  assumes "\<forall>n. 0 \<le> took n" and "0 \<le> timeout"
  shows "\<exists>r n. WaitFor cancelled what timeout check took = Some (r, n)
     \<and> 1 \<le> n \<and> (int n - 1) * initialBackoff \<le> timeout
     \<and> (\<forall>k. 1 \<le> k \<longrightarrow> k < n \<longrightarrow> check k \<noteq> None)
     \<and> r = (case check n of None \<Rightarrow> Inr () | Some e \<Rightarrow> Inl (not_ready what timeout e))"
  by (rule wait_ends [OF assms])

theorem WaitFor_returns_witness:
  "\<exists>r n. WaitFor None ''postgres'' StartupTimeout (\<lambda>n. if n < 3 then Some ErrDeadline else None) (\<lambda>_. Second) = Some (r, n)
     \<and> n \<le> 361"
proof -
  have "\<forall>n. 0 \<le> (\<lambda>_. Second) n" and "0 \<le> StartupTimeout" by (simp_all add: StartupTimeout_def time_units)
  from WaitFor_returns [OF this, of None "''postgres''" "\<lambda>n. if n < 3 then Some ErrDeadline else None"]
  show ?thesis by (force simp: StartupTimeout_def initialBackoff_def time_units)
qed

section \<open>Configuration from the environment\<close>

text \<open>\<open>os.Getenv\<close>: the empty string for a variable that is not set.\<close>

type_synonym environ = "string \<Rightarrow> string"

definition Env :: "environ \<Rightarrow> string \<Rightarrow> string \<Rightarrow> string" where
  "Env os key def = (if os key \<noteq> [] then os key else def)"

definition EnvInt :: "environ \<Rightarrow> string \<Rightarrow> int \<Rightarrow> int res" where
  "EnvInt os key def = (if os key = [] then Inr def
     else case atoi (os key) of None \<Rightarrow> Inl (ErrWrap key (ErrText (''strconv.Atoi: parsing '' @ go_quote (os key))))
       | Some n \<Rightarrow> Inr n)"

definition EnvDuration :: "environ \<Rightarrow> string \<Rightarrow> duration \<Rightarrow> duration res" where
  "EnvDuration os key def = (if os key = [] then Inr def
     else case ParseDuration (os key) of None \<Rightarrow> Inl (ErrWrap key (ErrText (''time: invalid duration '' @ go_quote (os key))))
       | Some d \<Rightarrow> Inr d)"

fun split_parts :: "string list \<Rightarrow> string list" where
  "split_parts [] = []"
| "split_parts (p # ps) = (let q = TrimSpace p in if q \<noteq> [] then q # split_parts ps else split_parts ps)"

definition SplitList :: "string \<Rightarrow> string list" where
  "SplitList s = split_parts (split_on CHR '','' s)"

section \<open>Lists in the environment\<close>

lemma first_strip_append: "first_strip ps s = Some r \<Longrightarrow> first_strip ps (s @ t) \<noteq> None"
proof (induction ps)
  case Nil
  then show ?case by simp
next
  case (Cons p ps)
  show ?case
  proof (cases "strip_prefix p s")
    case None
    with Cons have "first_strip ps (s @ t) \<noteq> None" by simp
    then show ?thesis using Cons.prems None by (auto split: option.split if_splits)
  next
    case (Some q)
    then have "strip_prefix p (s @ t) = Some (q @ t)" by (simp add: strip_prefix_Some)
    with Cons.prems Some show ?thesis by (auto split: if_splits)
  qed
qed

lemma TrimSpace_fixed: "first_strip space_seqs (TrimSpace s) = None" "first_strip (map rev space_seqs) (rev (TrimSpace s)) = None"
proof -
  let ?t = "trim_left_seqs space_seqs s"
  obtain w where "rev ?t = w @ rev (TrimSpace s)"
    using trim_left_suffix unfolding TrimSpace_def by fastforce
  then have "?t = TrimSpace s @ rev w" by (metis rev_append rev_rev_ident)
  then show "first_strip space_seqs (TrimSpace s) = None"
    using trim_left_fixed [of space_seqs s] first_strip_append by (metis not_None_eq)
  show "first_strip (map rev space_seqs) (rev (TrimSpace s)) = None"
    unfolding TrimSpace_def by (simp add: trim_left_fixed)
qed

lemma TrimSpace_id:
  assumes "first_strip space_seqs s = None" and "first_strip (map rev space_seqs) (rev s) = None"
  shows "TrimSpace s = s"
proof -
  have "trim_left_seqs ps t = t" if "first_strip ps t = None" for ps t
    using that by (simp add: trim_left_seqs.simps)
  with assms show ?thesis by (simp add: TrimSpace_def)
qed

lemma TrimSpace_idem: "TrimSpace (TrimSpace s) = TrimSpace s"
  by (rule TrimSpace_id) (rule TrimSpace_fixed)+

lemma split_parts_eq: "split_parts ps = filter (\<lambda>q. q \<noteq> []) (map TrimSpace ps)"
  by (induction ps) (simp_all add: Let_def)

text \<open>
  The broker list holds only non-empty trimmed names without a comma, and a list of such names
  written with commas is read back as it was.
\<close>

theorem SplitList_roundtrip:
  "list_all (\<lambda>p. p \<noteq> [] \<and> TrimSpace p = p \<and> CHR '','' \<notin> set p) (SplitList s)
   \<and> (list_all (\<lambda>p. p \<noteq> [] \<and> TrimSpace p = p \<and> CHR '','' \<notin> set p) ps \<longrightarrow>
      SplitList (join_with '','' ps) = ps)"
proof
  have "CHR '','' \<notin> set (TrimSpace p)" if "CHR '','' \<notin> set p" for p
    using TrimSpace_infix [of p] that by (metis Un_iff set_append)
  then show "list_all (\<lambda>p. p \<noteq> [] \<and> TrimSpace p = p \<and> CHR '','' \<notin> set p) (SplitList s)"
    by (auto simp: SplitList_def split_parts_eq list_all_iff TrimSpace_idem dest: split_on_no_sep)
  show "list_all (\<lambda>p. p \<noteq> [] \<and> TrimSpace p = p \<and> CHR '','' \<notin> set p) ps \<longrightarrow> SplitList (join_with '','' ps) = ps"
  proof
    assume p: "list_all (\<lambda>p. p \<noteq> [] \<and> TrimSpace p = p \<and> CHR '','' \<notin> set p) ps"
    then have "map TrimSpace ps = ps" by (auto simp: list_all_iff intro: map_idI)
    moreover have "filter (\<lambda>q. q \<noteq> []) ps = ps" using p by (auto simp: list_all_iff intro: filter_True)
    moreover have "TrimSpace [] = []" by (rule TrimSpace_id) (simp_all add: space_seqs_def bytes_def)
    ultimately show "SplitList (join_with '','' ps) = ps"
      using split_join [of ps "CHR '',''"] p
      by (cases "ps = []") (auto simp: SplitList_def split_parts_eq list_all_iff)
  qed
qed

theorem SplitList_roundtrip_witness: "SplitList ''kafka-0:9092,kafka-1:9092'' = [''kafka-0:9092'', ''kafka-1:9092'']"
proof -
  have "TrimSpace ''kafka-0:9092'' = ''kafka-0:9092''" "TrimSpace ''kafka-1:9092'' = ''kafka-1:9092''"
    by (rule TrimSpace_id; simp add: space_seqs_def bytes_def char_of_eq_iff)+
  with SplitList_roundtrip [THEN conjunct2, of "[''kafka-0:9092'', ''kafka-1:9092'']"] show ?thesis by simp
qed

section \<open>The worker's configuration\<close>

record config =
  c_id :: string
  c_concurrency :: int
  c_heartbeat :: duration
  c_stale_after :: duration
  c_maintenance :: duration
  c_sweep_after :: duration
  c_grace :: duration
  c_retry_base :: duration
  c_retry_max :: duration
  c_output_dir :: string

text \<open>The table of durations: key, default, and the field it sets.\<close>

definition config_durations :: "(string \<times> duration \<times> (duration \<Rightarrow> config \<Rightarrow> config)) list" where
  "config_durations =
     [(''HEARTBEAT_INTERVAL'', 3 * Second, \<lambda>d c. c\<lparr>c_heartbeat := d\<rparr>),
      (''STALE_AFTER'', 15 * Second, \<lambda>d c. c\<lparr>c_stale_after := d\<rparr>),
      (''MAINTENANCE_INTERVAL'', 5 * Second, \<lambda>d c. c\<lparr>c_maintenance := d\<rparr>),
      (''SWEEP_AFTER'', 60 * Second, \<lambda>d c. c\<lparr>c_sweep_after := d\<rparr>),
      (''SHUTDOWN_GRACE'', 10 * Second, \<lambda>d c. c\<lparr>c_grace := d\<rparr>),
      (''RETRY_BASE_DELAY'', 5 * Second, \<lambda>d c. c\<lparr>c_retry_base := d\<rparr>),
      (''RETRY_MAX_DELAY'', 5 * Minute, \<lambda>d c. c\<lparr>c_retry_max := d\<rparr>)]"

fun load_durations :: "environ \<Rightarrow> (string \<times> duration \<times> (duration \<Rightarrow> config \<Rightarrow> config)) list \<Rightarrow> config \<Rightarrow> config res" where
  "load_durations os [] c = Inr c"
| "load_durations os ((key, def, dest) # ds) c =
     (case EnvDuration os key def of Inl e \<Rightarrow> Inl e | Inr d \<Rightarrow> load_durations os ds (dest d c))"

definition check_config :: "config \<Rightarrow> error option" where
  "check_config c =
     (if c_concurrency c < 1 then Some (ErrText ''WORKER_CONCURRENCY must be at least 1'')
      else if c_retry_base c \<le> 0 \<or> c_retry_max c < c_retry_base c
        then Some (ErrText (''need 0 < RETRY_BASE_DELAY ('' @ duration_text (c_retry_base c)
               @ '') <= RETRY_MAX_DELAY ('' @ duration_text (c_retry_max c) @ '')''))
      else if c_stale_after c < wrap64 (3 * c_heartbeat c)
        then Some (ErrText (''STALE_AFTER ('' @ duration_text (c_stale_after c)
               @ '') must be at least 3x HEARTBEAT_INTERVAL ('' @ duration_text (c_heartbeat c)
               @ ''), or a slow heartbeat gets a live worker's run taken away''))
      else None)"

definition loadConfig :: "environ \<Rightarrow> string \<Rightarrow> int \<Rightarrow> string \<Rightarrow> config res" where
  "loadConfig os host pid outputDir =
     (let c = \<lparr>c_id = Env os ''WORKER_ID'' (host @ ''-'' @ itoa pid), c_concurrency = 0, c_heartbeat = 0,
        c_stale_after = 0, c_maintenance = 0, c_sweep_after = 0, c_grace = 0, c_retry_base = 0, c_retry_max = 0,
        c_output_dir = Env os ''OUTPUT_DIR'' outputDir\<rparr>
      in case EnvInt os ''WORKER_CONCURRENCY'' 2 of Inl e \<Rightarrow> Inl e
         | Inr n \<Rightarrow> (case load_durations os config_durations (c\<lparr>c_concurrency := n\<rparr>) of Inl e \<Rightarrow> Inl e
           | Inr c \<Rightarrow> (case check_config c of Some e \<Rightarrow> Inl e | None \<Rightarrow> Inr c)))"

text \<open>
  C40: every configuration the worker starts with has a slot for a run and a positive base delay
  within the maximum, and lets a worker miss two heartbeats before its runs are taken away, as long
  as the heartbeat interval is below the 97 years from which three times it no longer fits 64 bits.
\<close>

theorem loadConfig_safe:
  assumes "loadConfig os host pid out = Inr c"
  shows "1 \<le> c_concurrency c \<and> 0 < c_retry_base c \<and> c_retry_base c \<le> c_retry_max c
    \<and> wrap64 (3 * c_heartbeat c) \<le> c_stale_after c
    \<and> (0 \<le> c_heartbeat c \<and> c_heartbeat c \<le> int64_max div 3 \<longrightarrow> 3 * c_heartbeat c \<le> c_stale_after c)"
proof -
  have "check_config c = None"
    using assms by (auto simp: loadConfig_def Let_def split: sum.splits option.splits)
  moreover have "wrap64 (3 * c_heartbeat c) = 3 * c_heartbeat c"
    if "0 \<le> c_heartbeat c" "c_heartbeat c \<le> int64_max div 3"
    using that by (intro wrap64_id) (simp_all add: int64_min_def int64_max_def)
  ultimately show ?thesis by (auto simp: check_config_def split: if_splits)
qed

text \<open>The empty environment gives the documented defaults.\<close>

definition default_config :: config where
  "default_config = \<lparr>c_id = ''host-7'', c_concurrency = 2, c_heartbeat = 3 * Second, c_stale_after = 15 * Second,
     c_maintenance = 5 * Second, c_sweep_after = 60 * Second, c_grace = 10 * Second, c_retry_base = 5 * Second,
     c_retry_max = 5 * Minute, c_output_dir = ''/tmp/jobsys-output''\<rparr>"

lemma loadConfig_default: "loadConfig (\<lambda>_. []) ''host'' 7 ''/tmp/jobsys-output'' = Inr default_config"
  by (simp add: loadConfig_def Let_def Env_def EnvInt_def EnvDuration_def config_durations_def check_config_def
      default_config_def time_units wrap64_def itoa_def dec_digits.simps digit_char_def char_of_eq_iff)

theorem loadConfig_safe_witness:
  "1 \<le> c_concurrency default_config \<and> 3 * c_heartbeat default_config \<le> c_stale_after default_config"
  using loadConfig_safe [OF loadConfig_default] by (simp add: default_config_def time_units int64_max_def)

text \<open>
  \<open>loadConfig\<close> does not ask that the heartbeat and maintenance intervals are positive, although
  \<open>time.NewTicker\<close> panics on an interval that is not: with \<open>HEARTBEAT_INTERVAL=0\<close> and
  \<open>MAINTENANCE_INTERVAL=0\<close> the configuration is accepted, and the worker crashes once it runs.
\<close>

theorem loadConfig_accepts_zero_intervals:
  "\<exists>c. loadConfig (\<lambda>k. if k = ''HEARTBEAT_INTERVAL'' \<or> k = ''MAINTENANCE_INTERVAL'' then ''0'' else [])
         ''host'' 7 ''/tmp/jobsys-output'' = Inr c \<and> c_heartbeat c = 0 \<and> c_maintenance c = 0"
  by (simp add: loadConfig_def Let_def Env_def EnvInt_def EnvDuration_def config_durations_def check_config_def
      ParseDuration_def parse_unsigned_def time_units wrap64_def)

end
