(* ===== verification/Startup.thy ===== *)
theory Startup
  imports App Queue Migrate
begin

text \<open>
  What a command opens before its work begins: the connection pool of \<open>internal/store/store.go\<close>, the
  Kafka writer and reader of \<open>internal/queue/queue.go\<close>, and the waiting for both of \<open>internal/app/app.go\<close>.
  The answers of Postgres and of the brokers, one per attempt, are parameters; what a command opens
  and closes is recorded as a list of events.
\<close>

section \<open>Resources\<close>

record pool_config =
  pc_dsn :: string
  pc_scan_location :: string     \<comment> \<open>the zone \<open>AfterConnect\<close> has timestamps returned in\<close>

datatype balancer = RoundRobin | HashKey
datatype acks = RequireNone | RequireOne | RequireAll

record writer_config =
  wr_brokers :: "string list"
  wr_topic :: string
  wr_balancer :: balancer
  wr_acks :: acks
  wr_batch_timeout :: duration
  wr_max_attempts :: int
  wr_write_timeout :: duration

record reader_config =
  rd_brokers :: "string list"
  rd_topic :: string
  rd_group :: string
  rd_session_timeout :: duration
  rd_heartbeat :: duration

datatype resource = RPool pool_config | RWriter writer_config | RReader reader_config

datatype proc_event = Acquired resource | Used resource | Released resource

text \<open>What is still open after some events; \<open>None\<close> once something was used or closed that was not open.\<close>

fun held_from :: "resource list \<Rightarrow> proc_event list \<Rightarrow> resource list option" where
  "held_from h [] = Some h"
| "held_from h (Acquired r # t) = held_from (r # h) t"
| "held_from h (Used r # t) = (if r \<in> set h then held_from h t else None)"
| "held_from h (Released r # t) = (if r \<in> set h then held_from (remove1 r h) t else None)"

abbreviation held :: "proc_event list \<Rightarrow> resource list option" where
  "held t \<equiv> held_from [] t"

lemma held_append: "held_from h (t @ u) = Option.bind (held_from h t) (\<lambda>h. held_from h u)"
  by (induction h t rule: held_from.induct) simp_all

text \<open>\<open>DB.Close\<close> and \<open>Publisher.Close\<close>, like \<open>Close\<close> of the reader, let go of what they were called on.\<close>

definition Close :: "resource \<Rightarrow> proc_event" where
  "Close r = Released r"

lemma Close_releases [simp]: "Close r = Released r"
  by (simp add: Close_def)

section \<open>Opening them\<close>

definition NewPublisher :: "string list \<Rightarrow> writer_config" where
  "NewPublisher brokers = \<lparr>wr_brokers = brokers, wr_topic = DispatchTopic, wr_balancer = RoundRobin,
     wr_acks = RequireAll, wr_batch_timeout = 10 * Millisecond, wr_max_attempts = 3, wr_write_timeout = 5 * Second\<rparr>"

definition NewConsumer :: "string list \<Rightarrow> reader_config" where
  "NewConsumer brokers = \<lparr>rd_brokers = brokers, rd_topic = DispatchTopic, rd_group = WorkerGroup,
     rd_session_timeout = 10 * Second, rd_heartbeat = 3 * Second\<rparr>"

text \<open>What \<open>pgxpool\<close> answers when a pool is opened.\<close>

record pg_answers =
  pg_parse :: "string \<Rightarrow> error option"
  pg_new :: "error option"
  pg_ping :: "error option"

definition Open :: "pg_answers \<Rightarrow> string \<Rightarrow> pool_config res \<times> proc_event list" where
  "Open a dsn = (case pg_parse a dsn of
     Some e \<Rightarrow> (Inl (ErrWrap ''parse database url'' e), [])
   | None \<Rightarrow> (let cfg = \<lparr>pc_dsn = dsn, pc_scan_location = ''UTC''\<rparr> in case pg_new a of
       Some e \<Rightarrow> (Inl (ErrWrap ''connect postgres'' e), [])
     | None \<Rightarrow> (case pg_ping a of
         Some e \<Rightarrow> (Inl (ErrWrap ''ping postgres'' e), [Acquired (RPool cfg), Close (RPool cfg)])
       | None \<Rightarrow> (Inr cfg, [Acquired (RPool cfg)]))))"

fun failure :: "'a res \<Rightarrow> error option" where
  "failure (Inl e) = Some e"
| "failure (Inr x) = None"

text \<open>
  What the outside world answers. The times at which the caller's context ends are counted from the
  start of each wait.
\<close>

record outside =
  y_env :: environ
  y_pg :: "nat \<Rightarrow> pg_answers"
  y_pg_took :: "nat \<Rightarrow> duration"
  y_pg_cancel :: "duration option"
  y_dial :: "nat \<Rightarrow> string \<Rightarrow> error + nat res"
  y_dial_took :: "nat \<Rightarrow> duration"
  y_dial_cancel :: "duration option"
  y_host :: string
  y_pid :: int
  y_output_dir :: string

definition OpenDB :: "outside \<Rightarrow> (pool_config res \<times> proc_event list) option" where
  "OpenDB w =
     (let dsn = Env (y_env w) ''DATABASE_URL'' ''postgres://postgres@localhost:5432/jobsys?sslmode=disable'' in
      case WaitFor (y_pg_cancel w) ''postgres'' StartupTimeout (\<lambda>n. failure (fst (Open (y_pg w n) dsn))) (y_pg_took w) of
        None \<Rightarrow> None
      | Some (r, n) \<Rightarrow> Some (case r of Inl e \<Rightarrow> Inl e | Inr _ \<Rightarrow> fst (Open (y_pg w n) dsn),
                          concat (map (\<lambda>k. snd (Open (y_pg w k) dsn)) [1..<Suc n])))"

definition WaitForTopic :: "outside \<Rightarrow> string list \<Rightarrow> nat res option" where
  "WaitForTopic w brokers =
     (case WaitFor (y_dial_cancel w) (''kafka topic '' @ DispatchTopic) StartupTimeout
             (\<lambda>n. failure (CheckTopic (y_dial w n) brokers)) (y_dial_took w) of
        None \<Rightarrow> None
      | Some (r, n) \<Rightarrow> Some (case r of Inl e \<Rightarrow> Inl e | Inr _ \<Rightarrow> CheckTopic (y_dial w n) brokers))"

text \<open>\<open>api migrate\<close>.\<close>

definition migrate ::
  "outside \<Rightarrow> 's mig_env \<Rightarrow> string list \<Rightarrow> 's mig_db \<Rightarrow> ((error option \<times> proc_event list) \<times> 's mig_db) option" where
  "migrate w g files d = (case OpenDB w of
     None \<Rightarrow> None
   | Some (Inl e, t) \<Rightarrow> Some ((Some e, t), d)
   | Some (Inr pool, t) \<Rightarrow>
       (let ((applied, err), d') = Migrate g files d in Some ((err, t @ [Used (RPool pool), Close (RPool pool)]), d')))"

section \<open>What opening leaves open\<close>

definition polite :: "outside \<Rightarrow> bool" where
  "polite w \<longleftrightarrow> (\<forall>n. 0 \<le> y_pg_took w n) \<and> (\<forall>n. 0 \<le> y_dial_took w n)"

lemma failure_None: "failure r = None \<longleftrightarrow> (\<exists>x. r = Inr x)"
  by (cases r) simp_all

lemma Open_failed: "failure (fst (Open a dsn)) \<noteq> None \<Longrightarrow> held_from h (snd (Open a dsn)) = Some h"
  by (cases "pg_parse a dsn"; cases "pg_new a"; cases "pg_ping a") (simp_all add: Open_def Let_def)

lemma Open_worked: "fst (Open a dsn) = Inr cfg \<Longrightarrow> snd (Open a dsn) = [Acquired (RPool cfg)] \<and> pc_dsn cfg = dsn"
  by (auto simp: Open_def Let_def split: option.splits)

lemma failed_opens_hold_nothing:
  assumes "\<forall>k. 1 \<le> k \<longrightarrow> k < n \<longrightarrow> failure (fst (Open (a k) dsn)) \<noteq> None"
  shows "held_from h (concat (map (\<lambda>k. snd (Open (a k) dsn)) [1..<n])) = Some h"
  using assms
proof (induction n)
  case (Suc n)
  then show ?case by (cases "1 \<le> n") (simp_all add: held_append Open_failed)
qed simp

lemma WaitFor_startup:
  assumes "\<forall>n. 0 \<le> took n"
  obtains r n where "WaitFor c what StartupTimeout check took = Some (r, n)" "1 \<le> n"
    "\<forall>k. 1 \<le> k \<longrightarrow> k < n \<longrightarrow> check k \<noteq> None"
    "r = (case check n of None \<Rightarrow> Inr () | Some e \<Rightarrow> Inl (not_ready what StartupTimeout e))"
  using wait_ends [OF assms, of StartupTimeout c what check] by (auto simp: StartupTimeout_def time_units)

lemma OpenDB_ends:
  assumes "polite w"
  obtains r t where "OpenDB w = Some (r, t)"
    "held t = Some (case r of Inl e \<Rightarrow> [] | Inr pool \<Rightarrow> [RPool pool])"
    "\<And>pool. r = Inr pool \<Longrightarrow>
       pc_dsn pool = Env (y_env w) ''DATABASE_URL'' ''postgres://postgres@localhost:5432/jobsys?sslmode=disable''"
proof -
  define dsn where "dsn = Env (y_env w) ''DATABASE_URL'' ''postgres://postgres@localhost:5432/jobsys?sslmode=disable''"
  let ?open = "\<lambda>k. Open (y_pg w k) dsn"
  have took: "\<forall>n. 0 \<le> y_pg_took w n" using assms by (simp add: polite_def)
  obtain r n where n: "WaitFor (y_pg_cancel w) ''postgres'' StartupTimeout (\<lambda>n. failure (fst (?open n))) (y_pg_took w) = Some (r, n)"
    "1 \<le> n" "\<forall>k. 1 \<le> k \<longrightarrow> k < n \<longrightarrow> failure (fst (?open k)) \<noteq> None"
    "r = (case failure (fst (?open n)) of None \<Rightarrow> Inr () | Some e \<Rightarrow> Inl (not_ready ''postgres'' StartupTimeout e))"
    by (rule WaitFor_startup [OF took, where check = "\<lambda>n. failure (fst (?open n))" and what = "''postgres''"])
  let ?r = "case r of Inl e \<Rightarrow> Inl e | Inr _ \<Rightarrow> fst (?open n)"
  let ?t = "concat (map (\<lambda>k. snd (?open k)) [1..<Suc n])"
  have o: "OpenDB w = Some (?r, ?t)" using n(1) by (simp add: OpenDB_def dsn_def [symmetric])
  have t: "held ?t = held_from [] (snd (?open n))"
    using failed_opens_hold_nothing [OF n(3)] n(2) by (simp add: held_append)
  show thesis
  proof (cases "fst (?open n)")
    case (Inl e)
    then have "?r = Inl (not_ready ''postgres'' StartupTimeout e)" using n(4) by simp
    moreover have "held ?t = Some []" using t Open_failed [of "y_pg w n" dsn "[]"] Inl by simp
    ultimately show thesis using that o by simp
  next
    case (Inr pool)
    then have "?r = Inr pool" using n(4) by simp
    moreover have "held ?t = Some [RPool pool]" "pc_dsn pool = dsn" using t Open_worked [OF Inr] by simp_all
    ultimately show thesis using that o by (simp add: dsn_def)
  qed
qed

lemma WaitForTopic_ends:
  assumes "polite w"
  obtains r where "WaitForTopic w brokers = Some r" "\<And>n. r = Inr n \<Longrightarrow> brokers \<noteq> []"
proof -
  have took: "\<forall>n. 0 \<le> y_dial_took w n" using assms by (simp add: polite_def)
  let ?check = "\<lambda>n. CheckTopic (y_dial w n) brokers"
  obtain r n where n: "WaitFor (y_dial_cancel w) (''kafka topic '' @ DispatchTopic) StartupTimeout (\<lambda>n. failure (?check n)) (y_dial_took w) = Some (r, n)"
    by (rule WaitFor_startup [OF took, where check = "\<lambda>n. failure (?check n)" and what = "''kafka topic '' @ DispatchTopic"])
  have b: "brokers \<noteq> []" if "?check n = Inr k" for k using that by (auto simp: CheckTopic_def)
  show thesis
    by (rule that [of "case r of Inl e \<Rightarrow> Inl e | Inr _ \<Rightarrow> ?check n"])
      (use n b in \<open>auto simp: WaitForTopic_def split: sum.splits\<close>)
qed

section \<open>What the commands share\<close>

text \<open>The brokers of the environment, the two clients a goroutine may use, and the exit code of \<open>main\<close>.\<close>

definition kafka_brokers :: "environ \<Rightarrow> string list" where
  "kafka_brokers os = SplitList (Env os ''KAFKA_BROKERS'' ''localhost:9092'')"

datatype client = ToStore | ToBroker

definition exit_code :: "error option \<Rightarrow> int" where
  "exit_code err = (if err \<noteq> None then 1 else 0)"

section \<open>A start at which everything is ready\<close>

definition demo_outside :: outside where
  "demo_outside = \<lparr>y_env = (\<lambda>_. []), y_pg = (\<lambda>_. \<lparr>pg_parse = (\<lambda>_. None), pg_new = None, pg_ping = None\<rparr>),
     y_pg_took = (\<lambda>_. 0), y_pg_cancel = None, y_dial = (\<lambda>_ _. Inr (Inr 3)), y_dial_took = (\<lambda>_. 0), y_dial_cancel = None,
     y_host = ''host'', y_pid = 7, y_output_dir = ''/tmp/jobsys-output''\<rparr>"

lemma WaitFor_at_once: "check 1 = None \<Longrightarrow> WaitFor c what timeout check took = Some (Inr (), 1)"
  unfolding WaitFor_def by (subst wait_loop.simps) simp

lemma demo_brokers: "kafka_brokers (\<lambda>_. []) = [''localhost:9092'']"
proof -
  have "TrimSpace ''localhost:9092'' = ''localhost:9092''"
    by (rule TrimSpace_id; simp add: space_seqs_def bytes_def char_of_eq_iff)
  then show ?thesis by (simp add: kafka_brokers_def Env_def SplitList_def)
qed

lemma demo_opens: "\<exists>pool t. OpenDB demo_outside = Some (Inr pool, t)" "WaitForTopic demo_outside [''localhost:9092''] = Some (Inr 3)"
  by (simp_all add: OpenDB_def WaitForTopic_def demo_outside_def Open_def CheckTopic_def Let_def WaitFor_at_once)

lemma demo_polite: "polite demo_outside"
  by (simp add: polite_def demo_outside_def)

end
