(* ===== verification/RunLog.thy ===== *)
theory RunLog
  imports Lifecycle
begin

text \<open>
  \<open>internal/worker/runlog.go\<close>: the buffer between a job and \<open>job_logs\<close>. Two goroutines share it, the
  job's and the background flusher; what each does between two synchronisation points is one event,
  so a list of events is one interleaving. Taking the buffer (under the mutex) and appending the
  batch to the store (outside it) are separate events.
\<close>

section \<open>State and events\<close>

definition logFlushInterval :: duration where "logFlushInterval = 1000000000"
definition logMaxBatch :: nat where "logMaxBatch = 200"

text \<open>
  Where the job's goroutine is: running the job, in \<open>flush\<close> called by \<open>Log\<close> before or after taking the
  batch, in \<open>Close\<close> waiting for the flusher, in the last \<open>flush\<close>, done. And where the flusher is.
\<close>

datatype job_pc = JRun | JFull | JAppend "log_line list" | JClosing | JTake | JLast "log_line list" | JClosed

datatype flusher_pc = FWait | FTake | FAppend "log_line list" | FDone

record 's run_logger =
  k_attempt :: int
  k_max_batch :: nat
  k_seq :: int
  k_buf :: "log_line list"
  k_stop :: bool           \<comment> \<open>the channel \<open>stop\<close> is closed\<close>
  k_job :: job_pc
  k_flusher :: flusher_pc
  k_sink :: 's             \<comment> \<open>the store\<close>

definition startRunLogger :: "int \<Rightarrow> nat \<Rightarrow> 's \<Rightarrow> 's run_logger" where
  "startRunLogger attempt maxBatch s = \<lparr>k_attempt = attempt, k_max_batch = maxBatch, k_seq = 0, k_buf = [],
     k_stop = False, k_job = JRun, k_flusher = FWait, k_sink = s\<rparr>"

definition newRunLogger :: "int \<Rightarrow> 's \<Rightarrow> 's run_logger" where
  "newRunLogger attempt = startRunLogger attempt logMaxBatch"

datatype 'o log_event =
    ELog time string string   \<comment> \<open>\<open>Log\<close> up to its unlock\<close>
  | ETakeFull                 \<comment> \<open>\<open>flush\<close>, called by \<open>Log\<close>, takes the buffer\<close>
  | EAppendFull 'o            \<comment> \<open>and appends it\<close>
  | EClose                    \<comment> \<open>\<open>Close\<close> closes \<open>stop\<close>\<close>
  | EJoin                     \<comment> \<open>\<open>Close\<close> receives from \<open>done\<close>\<close>
  | ETakeLast
  | EAppendLast 'o
  | ETick                     \<comment> \<open>the flusher's ticker\<close>
  | ETakeTick
  | EAppendTick 'o
  | EStop                     \<comment> \<open>the flusher sees \<open>stop\<close> and closes \<open>done\<close>\<close>

section \<open>Operations\<close>

text \<open>
  \<open>app y b s\<close> is the store after \<open>AppendLogs\<close> of a batch; \<open>y\<close> says how the call went. An error only
  drops the lines (and logs a warning).
\<close>

definition log_line_of :: "int \<Rightarrow> int \<Rightarrow> time \<Rightarrow> string \<Rightarrow> string \<Rightarrow> log_line" where
  "log_line_of attempt sq t level line = \<lparr>l_attempt = attempt, l_seq = sq, l_ts = t, l_level = level, l_line = line\<rparr>"

definition Log :: "time \<Rightarrow> string \<Rightarrow> string \<Rightarrow> 's run_logger \<Rightarrow> 's run_logger" where
  "Log t level line k =
     (let sq = k_seq k + 1; buf = k_buf k @ [log_line_of (k_attempt k) sq t level line]
      in k\<lparr>k_seq := sq, k_buf := buf, k_job := (if length buf \<ge> k_max_batch k then JFull else JRun)\<rparr>)"

text \<open>The first half of \<open>flush\<close>: with an empty buffer it returns, else it holds the batch.\<close>

definition take_buf :: "'p \<Rightarrow> (log_line list \<Rightarrow> 'p) \<Rightarrow> 's run_logger \<Rightarrow> 'p \<times> 's run_logger" where
  "take_buf back hold k = (let batch = k_buf k in (if batch = [] then back else hold batch, k\<lparr>k_buf := []\<rparr>))"

fun log_step :: "('o \<Rightarrow> log_line list \<Rightarrow> 's \<Rightarrow> 's) \<Rightarrow> 'o log_event \<Rightarrow> 's run_logger \<Rightarrow> 's run_logger option" where
  "log_step app (ELog t level line) k = (if k_job k = JRun then Some (Log t level line k) else None)"
| "log_step app ETakeFull k =
     (if k_job k = JFull then (let (pc, k') = take_buf JRun JAppend k in Some (k'\<lparr>k_job := pc\<rparr>)) else None)"
| "log_step app (EAppendFull y) k = (case k_job k of
     JAppend b \<Rightarrow> Some (k\<lparr>k_sink := app y b (k_sink k), k_job := JRun\<rparr>) | _ \<Rightarrow> None)"
| "log_step app EClose k = (if k_job k = JRun then Some (k\<lparr>k_stop := True, k_job := JClosing\<rparr>) else None)"
| "log_step app EJoin k = (if k_job k = JClosing \<and> k_flusher k = FDone then Some (k\<lparr>k_job := JTake\<rparr>) else None)"
| "log_step app ETakeLast k =
     (if k_job k = JTake then (let (pc, k') = take_buf JClosed JLast k in Some (k'\<lparr>k_job := pc\<rparr>)) else None)"
| "log_step app (EAppendLast y) k = (case k_job k of
     JLast b \<Rightarrow> Some (k\<lparr>k_sink := app y b (k_sink k), k_job := JClosed\<rparr>) | _ \<Rightarrow> None)"
| "log_step app ETick k = (if k_flusher k = FWait then Some (k\<lparr>k_flusher := FTake\<rparr>) else None)"
| "log_step app ETakeTick k =
     (if k_flusher k = FTake then (let (pc, k') = take_buf FWait FAppend k in Some (k'\<lparr>k_flusher := pc\<rparr>)) else None)"
| "log_step app (EAppendTick y) k = (case k_flusher k of
     FAppend b \<Rightarrow> Some (k\<lparr>k_sink := app y b (k_sink k), k_flusher := FWait\<rparr>) | _ \<Rightarrow> None)"
| "log_step app EStop k = (if k_flusher k = FWait \<and> k_stop k then Some (k\<lparr>k_flusher := FDone\<rparr>) else None)"

text \<open>An interleaving; \<open>None\<close> when an event is not possible where it stands.\<close>

fun log_run :: "('o \<Rightarrow> log_line list \<Rightarrow> 's \<Rightarrow> 's) \<Rightarrow> 'o log_event list \<Rightarrow> 's run_logger \<Rightarrow> 's run_logger option" where
  "log_run app [] k = Some k"
| "log_run app (ev # evs) k = (case log_step app ev k of None \<Rightarrow> None | Some k' \<Rightarrow> log_run app evs k')"

text \<open>The lines a job logged, numbered from the one after \<open>n\<close>.\<close>

fun logged :: "int \<Rightarrow> int \<Rightarrow> 'o log_event list \<Rightarrow> log_line list" where
  "logged a n [] = []"
| "logged a n (ELog t level line # evs) = log_line_of a (n + 1) t level line # logged a (n + 1) evs"
| "logged a n (_ # evs) = logged a n evs"

lemma logged_Cons: "logged a n (ev # evs) = logged a n [ev] @ logged a (n + int (length (logged a n [ev]))) evs"
  by (cases ev) simp_all

text \<open>Whether every append of an interleaving reached the store.\<close>

fun append_of :: "'o log_event \<Rightarrow> 's run_logger \<Rightarrow> ('o \<times> log_line list) option" where
  "append_of (EAppendFull y) k = (case k_job k of JAppend b \<Rightarrow> Some (y, b) | _ \<Rightarrow> None)"
| "append_of (EAppendLast y) k = (case k_job k of JLast b \<Rightarrow> Some (y, b) | _ \<Rightarrow> None)"
| "append_of (EAppendTick y) k = (case k_flusher k of FAppend b \<Rightarrow> Some (y, b) | _ \<Rightarrow> None)"
| "append_of _ k = None"

fun all_delivered ::
  "('o \<Rightarrow> log_line list \<Rightarrow> 's \<Rightarrow> 's) \<Rightarrow> ('o \<Rightarrow> log_line list \<Rightarrow> 's \<Rightarrow> bool) \<Rightarrow> 'o log_event list \<Rightarrow> 's run_logger \<Rightarrow> bool" where
  "all_delivered app delivers [] k = True"
| "all_delivered app delivers (ev # evs) k =
     ((case append_of ev k of None \<Rightarrow> True | Some (y, b) \<Rightarrow> delivers y b (k_sink k))
      \<and> (case log_step app ev k of None \<Rightarrow> False | Some k' \<Rightarrow> all_delivered app delivers evs k'))"

text \<open>The lines on their way: in the buffer and in the hands of the two goroutines.\<close>

fun pc_lines :: "job_pc \<Rightarrow> log_line list" where
  "pc_lines (JAppend b) = b"
| "pc_lines (JLast b) = b"
| "pc_lines _ = []"

fun fpc_lines :: "flusher_pc \<Rightarrow> log_line list" where
  "fpc_lines (FAppend b) = b"
| "fpc_lines _ = []"

definition pending :: "'s run_logger \<Rightarrow> log_line list" where
  "pending k = k_buf k @ pc_lines (k_job k) @ fpc_lines (k_flusher k)"

text \<open>
  How far the job's goroutine has wound up: it closes \<open>stop\<close>, the flusher answers with \<open>done\<close>, and only
  then is the last batch taken.
\<close>

fun wound_up :: "job_pc \<Rightarrow> nat" where
  "wound_up JClosing = 1"
| "wound_up JTake = 2"
| "wound_up (JLast b) = 3"
| "wound_up JClosed = 3"
| "wound_up _ = 0"

definition joined :: "'s run_logger \<Rightarrow> bool" where
  "joined k \<longleftrightarrow> (k_flusher k = FDone \<longrightarrow> k_stop k) \<and> (k_stop k \<longleftrightarrow> 1 \<le> wound_up (k_job k))
     \<and> (2 \<le> wound_up (k_job k) \<longrightarrow> k_flusher k = FDone) \<and> (wound_up (k_job k) = 3 \<longrightarrow> k_buf k = [])"

lemma joined_step:
  assumes "joined k" and "log_step app ev k = Some k'"
  shows "joined k'"
proof (cases ev)
  case (EAppendFull y)
  with assms show ?thesis by (cases "k_job k") (auto simp: joined_def)
next
  case (EAppendLast y)
  with assms show ?thesis by (cases "k_job k") (auto simp: joined_def)
next
  case (EAppendTick y)
  with assms show ?thesis by (cases "k_flusher k") (auto simp: joined_def)
qed (use assms in \<open>auto simp: joined_def take_buf_def Log_def Let_def split: if_splits\<close>)

lemma disjoint_part: "A \<inter> B = {} \<Longrightarrow> A \<inter> C = {} \<Longrightarrow> D \<subseteq> B \<union> C \<Longrightarrow> A \<inter> D = {}"
  by blast

lemma distinct_swap: "distinct (map f (a @ b @ c)) \<Longrightarrow> distinct (map f (b @ a @ c))"
  "distinct (map f (a @ c @ b)) \<Longrightarrow> distinct (map f (b @ a @ c))"
  by auto

section \<open>What a store of log lines promises\<close>

text \<open>
  Appending a batch adds lines of the batch only, and all of them when the call succeeds and their
  numbers are new.
\<close>

locale log_sink =
  fixes app :: "'o \<Rightarrow> log_line list \<Rightarrow> 's \<Rightarrow> 's"
    and stored :: "'s \<Rightarrow> log_line set"
    and delivers :: "'o \<Rightarrow> log_line list \<Rightarrow> 's \<Rightarrow> bool"
    and attempt :: int
  assumes app_adds: "list_all (\<lambda>l. l_attempt l = attempt) b \<Longrightarrow>
        stored s \<subseteq> stored (app y b s) \<and> stored (app y b s) \<subseteq> stored s \<union> set b"
    and app_delivers: "delivers y b s \<Longrightarrow> list_all (\<lambda>l. l_attempt l = attempt) b \<Longrightarrow> distinct (map l_seq b) \<Longrightarrow>
        l_seq ` set b \<inter> l_seq ` stored s = {} \<Longrightarrow> set b \<subseteq> stored (app y b s)"
begin

definition sound :: "log_line list \<Rightarrow> 's run_logger \<Rightarrow> bool" where
  "sound hist k \<longleftrightarrow> k_attempt k = attempt \<and> list_all (\<lambda>l. l_attempt l = attempt) hist
     \<and> 0 \<le> k_seq k \<and> map l_seq hist = [1..k_seq k] \<and> distinct (map l_seq (pending k)) \<and> set (pending k) \<subseteq> set hist
     \<and> stored (k_sink k) \<subseteq> set hist \<and> l_seq ` set (pending k) \<inter> l_seq ` stored (k_sink k) = {}"

definition complete :: "log_line list \<Rightarrow> 's run_logger \<Rightarrow> bool" where
  "complete hist k \<longleftrightarrow> set hist \<subseteq> stored (k_sink k) \<union> set (pending k)"

text \<open>The three ways an event changes the lines on their way.\<close>

lemma sound_append:
  assumes "sound hist k" and "set (pending k) = set b \<union> set (pending k')" and "distinct (map l_seq (b @ pending k'))"
    and "k_sink k' = app y b (k_sink k)" and "k_seq k' = k_seq k" and "k_attempt k' = k_attempt k"
  shows "sound hist k'"
    and "complete hist k \<Longrightarrow> delivers y b (k_sink k) \<Longrightarrow> complete hist k'"
proof -
  have b: "list_all (\<lambda>l. l_attempt l = attempt) b" using assms(1,2) by (auto simp: sound_def list_all_iff)
  note st = app_adds [OF b, of "k_sink k" y]
  have "l_seq ` set (pending k') \<inter> l_seq ` stored (k_sink k) = {}"
    using assms(1) unfolding sound_def assms(2) by blast
  moreover have "l_seq ` set (pending k') \<inter> l_seq ` set b = {}" using assms(3) by auto
  moreover have "l_seq ` stored (k_sink k') \<subseteq> l_seq ` stored (k_sink k) \<union> l_seq ` set b"
    using st unfolding assms(4) by blast
  ultimately have "l_seq ` set (pending k') \<inter> l_seq ` stored (k_sink k') = {}"
    by (rule disjoint_part)
  moreover have "stored (k_sink k') \<subseteq> set hist"
    using st assms(1) unfolding sound_def assms(2,4) by blast
  ultimately show "sound hist k'" using assms by (simp add: sound_def)
  assume c: "complete hist k" and d: "delivers y b (k_sink k)"
  have "set b \<subseteq> stored (app y b (k_sink k))"
  proof (rule app_delivers [OF d b])
    show "distinct (map l_seq b)" using assms(3) by simp
    show "l_seq ` set b \<inter> l_seq ` stored (k_sink k) = {}"
      using assms(1) unfolding sound_def assms(2) by blast
  qed
  with c st show "complete hist k'" unfolding complete_def assms(2,4) by blast
qed

lemma sound_same:
  assumes "sound hist k" and "set (pending k') = set (pending k)" and "distinct (map l_seq (pending k'))"
    and "k_sink k' = k_sink k" and "k_seq k' = k_seq k" and "k_attempt k' = k_attempt k"
  shows "sound hist k'" and "complete hist k \<Longrightarrow> complete hist k'"
  using assms by (simp_all add: sound_def complete_def)

lemma sound_log:
  assumes "sound hist k" and "k_job k = JRun"
  shows "sound (hist @ [log_line_of attempt (k_seq k + 1) t level line]) (Log t level line k)"
    and "complete hist k \<Longrightarrow> complete (hist @ [log_line_of attempt (k_seq k + 1) t level line]) (Log t level line k)"
proof -
  let ?l = "log_line_of attempt (k_seq k + 1) t level line"
  have a: "k_attempt k = attempt" and h: "map l_seq hist = [1..k_seq k]" using assms(1) by (simp_all add: sound_def)
  have p: "pending (Log t level line k) = k_buf k @ [?l] @ fpc_lines (k_flusher k)"
    using a assms(2) by (simp add: Log_def Let_def pending_def)
  have seq: "k_seq (Log t level line k) = k_seq k + 1" "k_sink (Log t level line k) = k_sink k"
    by (simp_all add: Log_def Let_def)
  have n: "0 \<le> k_seq k" using assms(1) by (simp add: sound_def)
  have new: "k_seq k + 1 \<notin> l_seq ` set hist" using h by (metis atLeastAtMost_iff list.set_map not_less set_upto zless_add1_eq order_refl)
  show "sound (hist @ [?l]) (Log t level line k)"
    using assms new p seq upto_rec2 [of 1 "k_seq k + 1"] n
    by (auto simp: sound_def pending_def log_line_of_def Log_def Let_def)
  show "complete hist k \<Longrightarrow> complete (hist @ [?l]) (Log t level line k)"
    using p seq assms(2) by (auto simp: complete_def pending_def)
qed

lemma sound_step:
  assumes "sound hist k" and "joined k" and "log_step app ev k = Some k'"
  shows "sound (hist @ logged attempt (k_seq k) [ev]) k' \<and> k_seq k' = k_seq k + int (length (logged attempt (k_seq k) [ev]))
    \<and> (complete hist k \<longrightarrow> (case append_of ev k of None \<Rightarrow> True | Some (y, b) \<Rightarrow> delivers y b (k_sink k)) \<longrightarrow>
         complete (hist @ logged attempt (k_seq k) [ev]) k')"
proof -
  have dist: "distinct (map l_seq (pending k))" using assms(1) by (simp add: sound_def)
  show ?thesis
proof (cases "append_of ev k")
  case (Some yb)
  obtain y b where yb: "yb = (y, b)" by (cases yb)
  have l: "logged attempt (k_seq k) [ev] = []" using Some by (cases ev) simp_all
  have "set (pending k) = set b \<union> set (pending k') \<and> distinct (map l_seq (b @ pending k'))
      \<and> k_sink k' = app y b (k_sink k) \<and> k_seq k' = k_seq k \<and> k_attempt k' = k_attempt k"
  proof (cases ev)
    case (EAppendFull x)
    with Some yb have j: "k_job k = JAppend b" "x = y" by (auto split: job_pc.splits)
    with assms(3) EAppendFull have k': "k' = k\<lparr>k_sink := app y b (k_sink k), k_job := JRun\<rparr>" by simp
    have "distinct (map l_seq (b @ k_buf k @ fpc_lines (k_flusher k)))"
      by (rule distinct_swap(1)) (use dist in \<open>simp add: pending_def j\<close>)
    then have d: "distinct (map l_seq (b @ pending k'))" by (simp add: pending_def j k')
    have "set (pending k) = set b \<union> set (pending k')" unfolding k' by (auto simp: pending_def j)
    then show ?thesis by (rule conjI, intro conjI d) (simp_all add: k')
  next
    case (EAppendLast x)
    with Some yb have j: "k_job k = JLast b" "x = y" by (auto split: job_pc.splits)
    with assms(3) EAppendLast have k': "k' = k\<lparr>k_sink := app y b (k_sink k), k_job := JClosed\<rparr>" by simp
    have "distinct (map l_seq (b @ k_buf k @ fpc_lines (k_flusher k)))"
      by (rule distinct_swap(1)) (use dist in \<open>simp add: pending_def j\<close>)
    then have d: "distinct (map l_seq (b @ pending k'))" by (simp add: pending_def j k')
    have "set (pending k) = set b \<union> set (pending k')" unfolding k' by (auto simp: pending_def j)
    then show ?thesis by (rule conjI, intro conjI d) (simp_all add: k')
  next
    case (EAppendTick x)
    with Some yb have j: "k_flusher k = FAppend b" "x = y" by (auto split: flusher_pc.splits)
    with assms(3) EAppendTick have k': "k' = k\<lparr>k_sink := app y b (k_sink k), k_flusher := FWait\<rparr>" by simp
    have "distinct (map l_seq (b @ k_buf k @ pc_lines (k_job k)))"
      by (rule distinct_swap(2)) (use dist in \<open>simp add: pending_def j\<close>)
    then have d: "distinct (map l_seq (b @ pending k'))" by (simp add: pending_def j k')
    have "set (pending k) = set b \<union> set (pending k')" unfolding k' by (auto simp: pending_def j)
    then show ?thesis by (rule conjI, intro conjI d) (simp_all add: k')
  qed (use Some in simp_all)
  with sound_append [OF assms(1), of b k' y] l Some yb show ?thesis by simp
next
  case None
  show ?thesis
  proof (cases "\<exists>t level line. ev = ELog t level line")
    case True
    then obtain t level line where "ev = ELog t level line" by blast
    with assms(3) have "k_job k = JRun" "k' = Log t level line k" "ev = ELog t level line" by (auto split: if_splits)
    with sound_log [OF assms(1)] show ?thesis by (simp add: Log_def Let_def)
  next
    case False
    then have l: "logged attempt (k_seq k) [ev] = []" by (cases ev) auto
    have other: "pending k' = pending k \<and> k_sink k' = k_sink k \<and> k_seq k' = k_seq k \<and> k_attempt k' = k_attempt k"
      if "ev \<in> {EClose, EJoin, ETick, EStop}"
      using that assms(3) by (auto simp: pending_def split: if_splits)
    have "set (pending k') = set (pending k) \<and> distinct (map l_seq (pending k'))
        \<and> k_sink k' = k_sink k \<and> k_seq k' = k_seq k \<and> k_attempt k' = k_attempt k"
    proof (cases ev)
      case ETakeFull
      with assms(3) have "k_job k = JFull" "k' = k\<lparr>k_buf := [], k_job := (if k_buf k = [] then JRun else JAppend (k_buf k))\<rparr>"
        by (simp_all add: take_buf_def Let_def split: if_splits)
      with dist show ?thesis by (simp add: pending_def)
    next
      case ETakeLast
      with assms(3) have "k_job k = JTake" "k' = k\<lparr>k_buf := [], k_job := (if k_buf k = [] then JClosed else JLast (k_buf k))\<rparr>"
        by (simp_all add: take_buf_def Let_def split: if_splits)
      with dist show ?thesis by (simp add: pending_def)
    next
      case ETakeTick
      with assms(3) have k: "k_flusher k = FTake" "k' = k\<lparr>k_buf := [], k_flusher := (if k_buf k = [] then FWait else FAppend (k_buf k))\<rparr>"
        by (simp_all add: take_buf_def Let_def split: if_splits)
      have "distinct (map l_seq (pc_lines (k_job k) @ k_buf k @ []))"
        by (rule distinct_swap(1)) (use dist in \<open>simp add: pending_def k(1)\<close>)
      then have d: "distinct (map l_seq (pending k'))" by (simp add: pending_def k)
      have "set (pending k') = set (pending k)" unfolding k(2) by (auto simp: pending_def k(1))
      then show ?thesis by (rule conjI, intro conjI d) (simp_all add: k(2))
    qed (use other None False assms(3) dist in \<open>auto split: job_pc.splits flusher_pc.splits\<close>)
    with sound_same [OF assms(1), of k'] l show ?thesis by simp
  qed
qed
qed

lemma run_sound:
  assumes "sound hist k" and "joined k" and "log_run app evs k = Some k'"
  shows "sound (hist @ logged attempt (k_seq k) evs) k' \<and> joined k'
    \<and> (complete hist k \<longrightarrow> all_delivered app delivers evs k \<longrightarrow> complete (hist @ logged attempt (k_seq k) evs) k')"
  using assms
proof (induction evs arbitrary: hist k)
  case Nil
  then show ?case by simp
next
  case (Cons ev evs)
  then obtain k1 where k1: "log_step app ev k = Some k1" "log_run app evs k1 = Some k'" by (auto split: option.splits)
  note st = sound_step [OF Cons.prems(1,2) k1(1)]
  have "joined k1" using Cons.prems(2) k1(1) by (rule joined_step)
  from Cons.IH [OF st [THEN conjunct1] this k1(2)] st show ?case
    unfolding logged_Cons [of attempt "k_seq k" ev evs] using k1(1) by (auto split: option.splits)
qed

lemma start_sound:
  assumes "stored s = {}"
  shows "sound [] (startRunLogger attempt m s) \<and> joined (startRunLogger attempt m s) \<and> complete [] (startRunLogger attempt m s)"
  using assms by (simp add: sound_def joined_def complete_def startRunLogger_def pending_def)

text \<open>Whatever happens to the appends, the store holds lines of the job only, each under its own number.\<close>

theorem stored_logged:
  assumes "stored s = {}" and "log_run app evs (startRunLogger attempt m s) = Some k"
  shows "stored (k_sink k) \<subseteq> set (logged attempt 0 evs) \<and> map l_seq (logged attempt 0 evs) = [1..k_seq k]"
  using run_sound [OF start_sound [OF assms(1), THEN conjunct1] start_sound [OF assms(1), THEN conjunct2, THEN conjunct1] assms(2)]
  by (simp add: sound_def startRunLogger_def)

text \<open>When \<open>Close\<close> has returned and no append failed, the store holds every line.\<close>

theorem closed_complete:
  assumes "stored s = {}" and "log_run app evs (startRunLogger attempt m s) = Some k"
    and "k_job k = JClosed" and "all_delivered app delivers evs (startRunLogger attempt m s)"
  shows "stored (k_sink k) = set (logged attempt 0 evs)"
proof -
  note st = start_sound [OF assms(1)]
  have r: "sound (logged attempt 0 evs) k \<and> joined k \<and> complete (logged attempt 0 evs) k"
    using run_sound [OF st [THEN conjunct1] st [THEN conjunct2, THEN conjunct1] assms(2)] st assms(4)
    by (simp add: startRunLogger_def)
  then have "pending k = []" using assms(3) by (simp add: joined_def pending_def)
  with r show ?thesis by (auto simp: complete_def sound_def)
qed

end

section \<open>The database as a store of log lines\<close>

definition append_app :: "uuid \<Rightarrow> int \<Rightarrow> env \<Rightarrow> log_line list \<Rightarrow> db \<Rightarrow> db" where
  "append_app i a e b d = snd (AppendLogs (alone e) i a b d)"

definition append_delivers :: "uuid \<Rightarrow> int \<Rightarrow> env \<Rightarrow> log_line list \<Rightarrow> db \<Rightarrow> bool" where
  "append_delivers i a e b d = (fst (AppendLogs (alone e) i a b d) = Inr ())"

definition stored_lines :: "uuid \<Rightarrow> int \<Rightarrow> db \<Rightarrow> log_line set" where
  "stored_lines i a d = snd ` set (filter (\<lambda>x. fst x = i \<and> l_attempt (snd x) = a) (logs d))"

definition attempt_lines_of :: "uuid \<Rightarrow> int \<Rightarrow> (uuid \<times> log_line) list \<Rightarrow> log_line set" where
  "attempt_lines_of i a t = snd ` set (filter (\<lambda>x. fst x = i \<and> l_attempt (snd x) = a) t)"

lemma stored_lines_of: "stored_lines i a d = attempt_lines_of i a (logs d)"
  by (simp add: stored_lines_def attempt_lines_of_def)

lemma attempt_lines_snoc:
  "l_attempt l = a \<Longrightarrow> attempt_lines_of i a (t @ [(i, l)]) = insert l (attempt_lines_of i a t)"
  unfolding attempt_lines_of_def filter_append set_append image_Un by simp

lemma insert_log_lines:
  assumes "l_attempt l = a"
  shows "attempt_lines_of i a (insert_log i a l t) =
     (if l_seq l \<in> l_seq ` attempt_lines_of i a t then attempt_lines_of i a t else insert l (attempt_lines_of i a t))"
proof -
  have l: "l\<lparr>l_attempt := a\<rparr> = l" using assms by simp
  have "log_key (i, l) \<in> log_key ` set t \<longleftrightarrow> l_seq l \<in> l_seq ` attempt_lines_of i a t"
    using assms by (force simp: log_key_def attempt_lines_of_def)
  then show ?thesis using attempt_lines_snoc [OF assms] unfolding insert_log_def l Let_def by simp
qed

lemma insert_logs_lines:
  assumes "list_all (\<lambda>l. l_attempt l = a) b"
  shows "attempt_lines_of i a t \<subseteq> attempt_lines_of i a (fold (insert_log i a) b t)
     \<and> attempt_lines_of i a (fold (insert_log i a) b t) \<subseteq> attempt_lines_of i a t \<union> set b"
  using assms
proof (induction b arbitrary: t)
  case Nil
  then show ?case by simp
next
  case (Cons l b)
  then have "l_attempt l = a" "list_all (\<lambda>l. l_attempt l = a) b" by simp_all
  with Cons.IH [of "insert_log i a l t"] insert_log_lines [of l a i t] show ?case
    by (simp split: if_splits) blast+
qed

lemma insert_logs_all:
  assumes "list_all (\<lambda>l. l_attempt l = a) b" and "distinct (map l_seq b)"
    and "l_seq ` set b \<inter> l_seq ` attempt_lines_of i a t = {}"
  shows "set b \<subseteq> attempt_lines_of i a (fold (insert_log i a) b t)"
  using assms
proof (induction b arbitrary: t)
  case Nil
  then show ?case by simp
next
  case (Cons l b)
  let ?t = "insert_log i a l t"
  have t: "attempt_lines_of i a ?t = insert l (attempt_lines_of i a t)"
    using Cons.prems insert_log_lines [of l a i t] by auto
  have "set b \<subseteq> attempt_lines_of i a (fold (insert_log i a) b ?t)"
    using Cons.prems t by (intro Cons.IH) auto
  moreover have "l \<in> attempt_lines_of i a (fold (insert_log i a) b ?t)"
    using insert_logs_lines [of a b i ?t] Cons.prems(1) t by auto
  ultimately show ?case by simp
qed

interpretation store_logs: log_sink "append_app i a" "stored_lines i a" "append_delivers i a" a for i a
proof
  fix b :: "log_line list" and s y
  assume "list_all (\<lambda>l. l_attempt l = a) b"
  then show "stored_lines i a s \<subseteq> stored_lines i a (append_app i a y b s)
      \<and> stored_lines i a (append_app i a y b s) \<subseteq> stored_lines i a s \<union> set b"
    using AppendLogs_db_cases [of "alone y" i a b s] insert_logs_lines [of a b i "logs s"]
    by (auto simp: append_app_def stored_lines_of)
next
  fix y s and b :: "log_line list"
  assume d: "append_delivers i a y b s" and b: "list_all (\<lambda>l. l_attempt l = a) b" "distinct (map l_seq b)"
    "l_seq ` set b \<inter> l_seq ` stored_lines i a s = {}"
  show "set b \<subseteq> stored_lines i a (append_app i a y b s)"
  proof (cases "b = []")
    case False
    define Q where "Q = (\<lambda>d. if \<not> (\<forall>l \<in> set b. l_level l \<in> set log_levels) then (Inl (ErrPg pgCheckViolation), d)
        else if find_run i d = None then (Inl (ErrPg pgForeignKeyViolation), d)
        else (Inr (), d\<lparr>logs := fold (insert_log i a) b (logs d)\<rparr>))"
    have q: "AppendLogs (alone y) i a b s = pg (alone y) Q s" using False by (simp add: AppendLogs_def Q_def)
    then have "Q s = (Inr (), append_app i a y b s)"
      using pg_fst_Inr [of "alone y" Q s "()"] d by (simp add: append_delivers_def append_app_def)
    then have "append_app i a y b s = s\<lparr>logs := fold (insert_log i a) b (logs s)\<rparr>"
      unfolding Q_def by (auto split: if_splits)
    then have "logs (append_app i a y b s) = fold (insert_log i a) b (logs s)" by simp
    then show ?thesis using insert_logs_all [of a b i "logs s"] b by (simp add: stored_lines_of)
  qed simp
qed

section \<open>The log of an attempt\<close>

text \<open>
  C22: under every interleaving of the job and the flusher, and whatever happens to the inserts, the
  stored log of an attempt holds only lines the job logged, numbered 1, 2, ... in the order logged.
\<close>

theorem runlog_only_logged:
  assumes "stored_lines i a d = {}"
    and "log_run (append_app i a) evs (startRunLogger a m d) = Some k"
  shows "stored_lines i a (k_sink k) \<subseteq> set (logged a 0 evs) \<and> map l_seq (logged a 0 evs) = [1..k_seq k]"
  by (rule store_logs.stored_logged [OF assms])

text \<open>
  Once \<open>Close\<close> has returned the log is complete: if no insert failed, the stored lines of the
  attempt are exactly the lines the job logged. The worker closes the log before it records the
  outcome, so a reader that sees the outcome of such an attempt sees its whole log.
\<close>

theorem runlog_complete_after_close:
  assumes "stored_lines i a d = {}"
    and "log_run (append_app i a) evs (startRunLogger a m d) = Some k"
    and "k_job k = JClosed" and "all_delivered (append_app i a) (append_delivers i a) evs (startRunLogger a m d)"
  shows "stored_lines i a (k_sink k) = set (logged a 0 evs)"
  by (rule store_logs.closed_complete [OF assms])

section \<open>\<open>Close\<close> returns\<close>

text \<open>Some schedule of the two goroutines, without a new line, takes the logger to its end.\<close>

definition can_close :: "('o \<Rightarrow> log_line list \<Rightarrow> 's \<Rightarrow> 's) \<Rightarrow> 's run_logger \<Rightarrow> bool" where
  "can_close app k \<longleftrightarrow> (\<exists>evs k'. log_run app evs k = Some k' \<and> k_job k' = JClosed \<and> logged 0 0 evs = [])"

lemma can_close_step:
  assumes "case log_step app ev k of None \<Rightarrow> False | Some k1 \<Rightarrow> can_close app k1" and "logged 0 0 [ev] = []"
  shows "can_close app k"
proof -
  obtain k1 where k1: "log_step app ev k = Some k1" "can_close app k1"
    using assms(1) by (auto split: option.splits)
  then obtain evs k' where "log_run app evs k1 = Some k'" "k_job k' = JClosed" "logged 0 0 evs = []"
    by (auto simp: can_close_def)
  moreover have "logged 0 0 (ev # evs) = []"
    using assms(2) \<open>logged 0 0 evs = []\<close> logged_Cons [of 0 0 ev evs] by simp
  ultimately show ?thesis using k1(1) unfolding can_close_def by (intro exI [of _ "ev # evs"] exI [of _ k']) simp
qed

lemma can_close_late:
  assumes "k_flusher k = FDone" and "k_job k \<in> {JClosing, JTake, JClosed} \<or> (\<exists>b. k_job k = JLast b)"
  shows "can_close app k"
proof -
  have c: "can_close app k" if "k_job k = JClosed" for k
    using that unfolding can_close_def by (intro exI [of _ "[]"] exI [of _ k]) simp
  have l: "can_close app k" if "k_job k = JLast b" for k b
    using that by (intro can_close_step [of app "EAppendLast undefined" k]) (simp_all add: c)
  have t: "can_close app k" if "k_job k = JTake" for k
    using that by (intro can_close_step [of app ETakeLast k]) (simp_all add: take_buf_def Let_def l c)
  have "can_close app k" if "k_job k = JClosing" "k_flusher k = FDone" for k
    using that by (intro can_close_step [of app EJoin k]) (simp_all add: t)
  with c l t assms show ?thesis by blast
qed

lemma can_close_closing:
  assumes "k_job k = JClosing" and "k_stop k"
  shows "can_close app k"
proof -
  have d: "can_close app k" if "k_job k = JClosing" "k_flusher k = FDone" for k
    using that by (intro can_close_late) simp_all
  have w: "can_close app k" if "k_job k = JClosing" "k_stop k" "k_flusher k = FWait" for k
    using that by (intro can_close_step [of app EStop k]) (simp_all add: d)
  have a: "can_close app k" if "k_job k = JClosing" "k_stop k" "k_flusher k = FAppend b" for k b
    using that by (intro can_close_step [of app "EAppendTick undefined" k]) (simp_all add: w)
  have "can_close app k" if "k_job k = JClosing" "k_stop k" "k_flusher k = FTake" for k
    using that by (intro can_close_step [of app ETakeTick k]) (simp_all add: take_buf_def Let_def a w)
  with d w a assms show ?thesis by (cases "k_flusher k") auto
qed

lemma can_close_joined:
  assumes "joined k"
  shows "can_close app k"
proof -
  have r: "can_close app k" if "k_job k = JRun" for k
    using that by (intro can_close_step [of app EClose k]) (simp_all add: can_close_closing)
  have a: "can_close app k" if "k_job k = JAppend b" for k b
    using that by (intro can_close_step [of app "EAppendFull undefined" k]) (simp_all add: r)
  have f: "can_close app k" if "k_job k = JFull" for k
    using that by (intro can_close_step [of app ETakeFull k]) (simp_all add: take_buf_def Let_def a r)
  show ?thesis
  proof (cases "k_job k")
    case JClosing
    with assms show ?thesis by (intro can_close_closing) (simp_all add: joined_def)
  qed (use r a f assms can_close_late [of k app] in \<open>simp_all add: joined_def\<close>)
qed

text \<open>
  \<open>Close\<close> never deadlocks with the flusher: from every point of every interleaving the two
  goroutines can finish, with \<open>Close\<close> returned and no line added, whatever the store does.
\<close>

theorem Close_returns:
  assumes "log_run app evs (startRunLogger a m s) = Some k"
  shows "\<exists>evs' k'. log_run app evs' k = Some k' \<and> k_job k' = JClosed \<and> logged 0 0 evs' = []"
proof -
  have j: "joined k'" if "joined k0" "log_run app evs k0 = Some k'" for k0 k' evs
    using that by (induction evs arbitrary: k0) (auto split: option.splits dest: joined_step)
  have "joined k" by (rule j [OF _ assms]) (simp add: joined_def startRunLogger_def)
  then show ?thesis using can_close_joined [of k app] by (simp add: can_close_def)
qed

section \<open>Batches can arrive out of order\<close>

definition many :: "nat \<Rightarrow> 'o log_event list" where
  "many n = replicate n (ELog 0 ''info'' ''x'')"

lemma log_many:
  assumes "k_job k = JRun" and "length (k_buf k) + n \<le> k_max_batch k" and "0 < n"
  shows "log_run app (many n) k = Some (k\<lparr>k_seq := k_seq k + int n,
     k_buf := k_buf k @ map (\<lambda>j. log_line_of (k_attempt k) (k_seq k + int (Suc j)) 0 ''info'' ''x'') [0..<n],
     k_job := (if length (k_buf k) + n = k_max_batch k then JFull else JRun)\<rparr>)"
  using assms
proof (induction n arbitrary: k)
  case 0
  then show ?case by simp
next
  case (Suc n)
  let ?f = "\<lambda>b j. log_line_of (k_attempt k) (b + int (Suc j)) 0 ''info'' ''x''"
  define k1 where "k1 = Log 0 ''info'' ''x'' k"
  have k1: "log_run app (many (Suc n)) k = log_run app (many n) k1"
    using Suc.prems(1) by (simp add: many_def k1_def)
  have u: "map (?f (k_seq k)) [0..<Suc n] = ?f (k_seq k) 0 # map (?f (k_seq k + 1)) [0..<n]"
    by (simp add: upt_conv_Cons map_Suc_upt [symmetric] comp_def add_ac del: upt_Suc)
  show ?case
  proof (cases "n = 0")
    case True
    then show ?thesis unfolding k1 u using Suc.prems by (simp add: many_def k1_def Log_def Let_def)
  next
    case False
    have "k_job k1 = JRun" "length (k_buf k1) + n \<le> k_max_batch k1"
      using Suc.prems False by (simp_all add: k1_def Log_def Let_def)
    from Suc.IH [OF this] False show ?thesis unfolding k1 u
      by (simp add: k1_def Log_def Let_def add_ac)
  qed
qed

lemma log_run_append:
  "log_run app (xs @ ys) k = (case log_run app xs k of None \<Rightarrow> None | Some k' \<Rightarrow> log_run app ys k')"
  by (induction xs arbitrary: k) (auto split: option.split)

lemma all_delivered_append:
  "log_run app xs k = Some k' \<Longrightarrow> all_delivered app dl (xs @ ys) k \<longleftrightarrow> all_delivered app dl xs k \<and> all_delivered app dl ys k'"
  by (induction xs arbitrary: k) (auto split: option.splits)

lemma all_delivered_many: "log_run app (many n) k = Some k' \<Longrightarrow> all_delivered app dl (many n) k"
  by (induction n arbitrary: k) (auto simp: many_def split: if_splits)

lemma append_app_ok:
  assumes "find_run i d \<noteq> None" and "quiet e" and "list_all (\<lambda>l. l_level l = ''info'') b"
  shows "append_delivers i a e b d"
proof -
  have "\<forall>l \<in> set b. l_level l \<in> set log_levels" using assms(3) by (simp add: list_all_iff log_levels_def)
  moreover have "quiet (alone e)" using assms(2) by (simp add: quiet_def alone_def)
  ultimately show ?thesis using assms(1) by (auto simp: append_delivers_def AppendLogs_def)
qed

text \<open>
  Lines can become visible out of order although no insert fails: the flusher takes a batch and
  pauses, the job fills the buffer and inserts the next 200 lines first. A reader then sees lines 2
  to 201 without line 1, and a live stream, which goes on after the last line it read, never sends it.
\<close>

theorem batches_out_of_order:
  assumes "find_run i d \<noteq> None" and "stored_lines i a d = {}" and "quiet e"
  shows "\<exists>evs k. log_run (append_app i a) evs (newRunLogger a d) = Some k
    \<and> all_delivered (append_app i a) (append_delivers i a) evs (newRunLogger a d)
    \<and> l_seq ` stored_lines i a (k_sink k) = {2..201} \<and> (\<exists>l. k_flusher k = FAppend [l] \<and> l_seq l = 1)"
proof -
  let ?app = "append_app i a"
  let ?l = "log_line_of a 1 0 ''info'' ''first''"
  let ?b = "map (\<lambda>j. log_line_of a (1 + int (Suc j)) 0 ''info'' ''x'') [0..<200]"
  define k1 where "k1 = (newRunLogger a d)\<lparr>k_seq := 1, k_flusher := FAppend [?l]\<rparr>"
  define k2 where "k2 = k1\<lparr>k_seq := 201, k_buf := ?b, k_job := JFull\<rparr>"
  define k3 where "k3 = k2\<lparr>k_buf := [], k_sink := ?app e ?b d, k_job := JRun\<rparr>"
  let ?e1 = "[ELog 0 ''info'' ''first'', ETick, ETakeTick]"
  let ?e3 = "[ETakeFull, EAppendFull e]"
  have r1: "log_run ?app ?e1 (newRunLogger a d) = Some k1"
    by (simp add: k1_def newRunLogger_def startRunLogger_def Log_def take_buf_def Let_def logMaxBatch_def)
  have r2: "log_run ?app (many 200) k1 = Some k2"
    using log_many [of k1 200 ?app]
    by (simp add: k1_def k2_def newRunLogger_def startRunLogger_def logMaxBatch_def)
  have r3: "log_run ?app ?e3 k2 = Some k3"
    by (simp add: k3_def k2_def k1_def newRunLogger_def startRunLogger_def take_buf_def Let_def)
  have del: "append_delivers i a e ?b d"
    using assms(1,3) by (rule append_app_ok) (simp add: log_line_of_def list_all_iff)
  have run: "log_run ?app (?e1 @ many 200 @ ?e3) (newRunLogger a d) = Some k3"
    unfolding log_run_append r1 option.case r2 r3 ..
  moreover have "all_delivered ?app (append_delivers i a) (?e1 @ many 200 @ ?e3) (newRunLogger a d)"
  proof -
    have d1: "all_delivered ?app (append_delivers i a) ?e1 (newRunLogger a d)"
      by (simp add: newRunLogger_def startRunLogger_def Log_def take_buf_def Let_def logMaxBatch_def)
    have d3: "all_delivered ?app (append_delivers i a) ?e3 k2"
      using del by (simp add: k2_def k1_def newRunLogger_def startRunLogger_def take_buf_def Let_def)
    show ?thesis
      using d1 d3 all_delivered_append [OF r1, of "append_delivers i a"] all_delivered_append [OF r2, of "append_delivers i a"]
        all_delivered_many [OF r2, of "append_delivers i a"] by blast
  qed
  moreover have "l_seq ` stored_lines i a (k_sink k3) = {2..201}"
  proof -
    have at: "list_all (\<lambda>l. l_attempt l = a) ?b" by (simp add: log_line_of_def list_all_iff)
    have sq: "map l_seq ?b = map (\<lambda>j. 2 + int j) [0..<200]" by (simp add: log_line_of_def)
    then have "distinct (map l_seq ?b)" by (simp add: distinct_map inj_on_def)
    then have "set ?b \<subseteq> stored_lines i a (?app e ?b d)"
      using store_logs.app_delivers [OF del at] assms(2) by simp
    then have "stored_lines i a (?app e ?b d) = set ?b"
      using store_logs.app_adds [OF at, of i d e] assms(2) by auto
    then have "l_seq ` stored_lines i a (k_sink k3) = set (map l_seq ?b)" by (simp add: k3_def image_image)
    also have "\<dots> = (\<lambda>j. 2 + int j) ` {0..<200}" unfolding sq by simp
    also have "\<dots> = {2..201}"
    proof
      show "{2..201} \<subseteq> (\<lambda>j. 2 + int j) ` {0..<200}"
      proof
        fix x :: int assume "x \<in> {2..201}"
        then have "x = 2 + int (nat (x - 2))" "nat (x - 2) \<in> {0..<200}" by auto
        then show "x \<in> (\<lambda>j. 2 + int j) ` {0..<200}" by blast
      qed
    qed auto
    finally show ?thesis .
  qed
  moreover have "k_flusher k3 = FAppend [?l] \<and> l_seq ?l = 1" by (simp add: k3_def k2_def k1_def log_line_of_def)
  ultimately show ?thesis by blast
qed

definition log_demo_db :: db where
  "log_demo_db = empty_db\<lparr>runs := [new_run_row ''R'' ''J'' 2 TriggerManual 2]\<rparr>"

definition log_demo_env :: env where
  "log_demo_env = \<lparr>e_others = (\<lambda>d. d), e_now = 5, e_clock = 5, e_locked = [], e_uuids = (\<lambda>_. ''''), e_fault = None, e_jsonb = Inr\<rparr>"

lemma log_demo: "find_run ''R'' log_demo_db \<noteq> None" "stored_lines ''R'' 1 log_demo_db = {}" "quiet log_demo_env"
  by (simp_all add: log_demo_db_def new_run_row_def stored_lines_def log_demo_env_def quiet_def)

theorem batches_out_of_order_witness:
  "\<exists>evs k. log_run (append_app ''R'' 1) evs (newRunLogger 1 log_demo_db) = Some k
    \<and> l_seq ` stored_lines ''R'' 1 (k_sink k) = {2..201}"
  using batches_out_of_order [OF log_demo] by blast

definition log_demo_events :: "env log_event list" where
  "log_demo_events = [ELog 7 ''info'' ''a'', ETick, ELog 8 ''info'' ''b'', ETakeTick, EClose,
     EAppendTick log_demo_env, EStop, EJoin, ETakeLast]"

definition log_demo_end :: "db run_logger" where
  "log_demo_end = (startRunLogger 1 200 log_demo_db)\<lparr>k_seq := 2, k_stop := True, k_job := JClosed, k_flusher := FDone,
     k_sink := append_app ''R'' 1 log_demo_env [log_line_of 1 1 7 ''info'' ''a'', log_line_of 1 2 8 ''info'' ''b''] log_demo_db\<rparr>"

lemma log_demo_run:
  "log_run (append_app ''R'' 1) log_demo_events (startRunLogger 1 200 log_demo_db) = Some log_demo_end"
  by (simp add: log_demo_events_def log_demo_end_def startRunLogger_def Log_def take_buf_def Let_def)

lemma log_demo_delivered:
  "all_delivered (append_app ''R'' 1) (append_delivers ''R'' 1) log_demo_events (startRunLogger 1 200 log_demo_db)"
  using append_app_ok [OF log_demo(1,3), of "[log_line_of 1 1 7 ''info'' ''a'', log_line_of 1 2 8 ''info'' ''b'']" 1]
  by (simp add: log_demo_events_def startRunLogger_def Log_def take_buf_def Let_def) (simp add: log_line_of_def)

theorem runlog_only_logged_witness:
  "stored_lines ''R'' 1 (k_sink log_demo_end) \<subseteq> {log_line_of 1 1 7 ''info'' ''a'', log_line_of 1 2 8 ''info'' ''b''}"
  using runlog_only_logged [OF log_demo(2) log_demo_run] by (simp add: log_demo_events_def)

theorem runlog_complete_after_close_witness:
  "stored_lines ''R'' 1 (k_sink log_demo_end) = {log_line_of 1 1 7 ''info'' ''a'', log_line_of 1 2 8 ''info'' ''b''}"
  using runlog_complete_after_close [OF log_demo(2) log_demo_run _ log_demo_delivered]
  by (simp add: log_demo_events_def log_demo_end_def)

theorem Close_returns_witness:
  "\<exists>evs' k'. log_run (append_app ''R'' 1) evs' log_demo_end = Some k' \<and> k_job k' = JClosed"
  using Close_returns [OF log_demo_run] by blast

end
