(* ===== verification/JobProps.thy ===== *)
theory JobProps
  imports Job
begin

text \<open>
  What a \<open>generate_text\<close> job does: its output and its failures on every branch, the bound on its
  log, the payloads \<open>Validate\<close> accepts, and what \<open>NextRun\<close> returns.
\<close>

section \<open>The output\<close>

definition calm :: "ctx_view \<Rightarrow> bool" where
  "calm c \<longleftrightarrow> cx_err c = (\<lambda>_. None) \<and> cx_sleep c = (\<lambda>_. None)"

definition full_text :: "generate_text \<Rightarrow> string" where
  "full_text p = concat (map (text_line (if p_prefix p = [] then ''line'' else p_prefix p)) [1..p_lines p])"

definition progress :: "generate_text \<Rightarrow> int \<Rightarrow> int \<Rightarrow> log_entry list" where
  "progress p every i = (if i mod every = 0 \<or> i = p_lines p
     then [(''info'', ''wrote '' @ itoa i @ ''/'' @ itoa (p_lines p) @ '' lines'')] else [])"

lemma gen_loop_end: "p_lines p < i \<Longrightarrow> gen_loop c p pre every i b log = (Inr b, log)"
  by (simp add: gen_loop.simps)

lemma gen_loop_step:
  assumes "i \<le> p_lines p" and "cx_err c i = None" and "i \<noteq> p_fail_at p" and "cx_sleep c i = None"
  shows "gen_loop c p pre every i b log =
     gen_loop c p pre every (i + 1) (b @ text_line pre i) (log @ progress p every i)"
  using assms by (subst gen_loop.simps) (simp add: sleep_def Let_def progress_def)

lemma upto_step: "i \<le> n \<Longrightarrow> [i..n] = i # [i + 1..n]" for i :: int
  by (simp add: upto.simps)

lemma gen_loop_output:
  assumes "calm c" and "\<not> (i \<le> p_fail_at p \<and> p_fail_at p \<le> p_lines p)"
  shows "fst (gen_loop c p pre every i b log) = Inr (b @ concat (map (text_line pre) [i..p_lines p]))"
  using assms
proof (induction "nat (p_lines p + 1 - i)" arbitrary: i b log)
  case 0
  then show ?case by (simp add: gen_loop_end)
next
  case (Suc n)
  then have i: "i \<le> p_lines p" by simp
  with Suc.prems have f: "i \<noteq> p_fail_at p" "\<not> (i + 1 \<le> p_fail_at p \<and> p_fail_at p \<le> p_lines p)" by auto
  have n: "n = nat (p_lines p + 1 - (i + 1))" using Suc.hyps(2) by simp
  show ?case using Suc.hyps(1) [OF n Suc.prems(1) f(2)] gen_loop_step [OF i _ f(1)] Suc.prems(1) upto_step [OF i]
    by (simp add: calm_def)
qed

lemma gen_loop_stops:
  assumes "\<And>j. i \<le> j \<Longrightarrow> j < k \<Longrightarrow> cx_err c j = None \<and> cx_sleep c j = None" and "i \<le> k" and "k \<le> p_lines p"
    and "\<not> (i \<le> p_fail_at p \<and> p_fail_at p < k)"
  shows "\<exists>b' log'. gen_loop c p pre every i b log = gen_loop c p pre every k b' log'"
  using assms
proof (induction "nat (k - i)" arbitrary: i b log)
  case 0
  then have "i = k" by simp
  then show ?case by blast
next
  case (Suc n)
  then have i: "i < k" by simp
  with Suc.prems have f: "i \<noteq> p_fail_at p" "\<not> (i + 1 \<le> p_fail_at p \<and> p_fail_at p < k)" by auto
  have n: "n = nat (k - (i + 1))" using Suc.hyps(2) by simp
  have "gen_loop c p pre every i b log =
      gen_loop c p pre every (i + 1) (b @ text_line pre i) (log @ progress p every i)"
    using Suc.prems i f(1) by (intro gen_loop_step) auto
  moreover have "\<exists>b' log'. gen_loop c p pre every (i + 1) (b @ text_line pre i) (log @ progress p every i) =
      gen_loop c p pre every k b' log'"
    using i f(2) Suc.prems by (intro Suc.hyps(1) [OF n]) auto
  ultimately show ?case by metis
qed

lemma gen_loop_fail_line:
  assumes "k \<le> p_lines p" and "cx_err c k = None" and "k = p_fail_at p"
  shows "fst (gen_loop c p pre every k b log) =
     Inl (ErrText (''deliberate failure after '' @ itoa (p_fail_at p) @ '' lines (fail_at)''))"
  using assms by (simp add: gen_loop.simps)

lemma gen_loop_cancelled:
  "k \<le> p_lines p \<Longrightarrow> cx_err c k = Some e \<Longrightarrow> gen_loop c p pre every k b log = (Inl e, log)"
  by (simp add: gen_loop.simps)

section \<open>The log\<close>

definition progress_at :: "int \<Rightarrow> int \<Rightarrow> int \<Rightarrow> bool" where
  "progress_at every n i \<longleftrightarrow> i mod every = 0 \<or> i = n"

lemma gen_loop_cases:
  assumes "i \<le> p_lines p"
  shows "(\<exists>e x. gen_loop c p pre every i b log = (Inl e, log @ x) \<and> length x \<le> length (progress p every i) + 1)
    \<or> gen_loop c p pre every i b log =
        gen_loop c p pre every (i + 1) (b @ text_line pre i) (log @ progress p every i)"
  using assms by (subst gen_loop.simps, subst (3) gen_loop.simps)
    (simp add: sleep_def Let_def progress_def split: option.split)

lemma gen_loop_log:
  "length (snd (gen_loop c p pre every i b log)) \<le> length log
     + length (filter (progress_at every (p_lines p)) [i..p_lines p])
     + (case fst (gen_loop c p pre every i b log) of Inl _ \<Rightarrow> 1 | Inr _ \<Rightarrow> 0)"
proof (induction "nat (p_lines p + 1 - i)" arbitrary: i b log)
  case 0
  then show ?case by (simp add: gen_loop_end)
next
  case (Suc n)
  then have i: "i \<le> p_lines p" and n: "n = nat (p_lines p + 1 - (i + 1))" by simp_all
  have l: "length (progress p every i) = (if progress_at every (p_lines p) i then 1 else 0)"
    by (simp add: progress_def progress_at_def)
  from gen_loop_cases [OF i, of c pre every b log] show ?case
  proof
    assume "gen_loop c p pre every i b log =
        gen_loop c p pre every (i + 1) (b @ text_line pre i) (log @ progress p every i)"
    then show ?thesis using Suc.hyps(1) [OF n, of "b @ text_line pre i" "log @ progress p every i"] l upto_step [OF i]
      by (cases "progress_at every (p_lines p) i") simp_all
  qed (use l upto_step [OF i] in auto)
qed

lemma card_multiples:
  assumes "0 < (m::int)"
  shows "length (filter (\<lambda>i. i mod m = 0) [1..n]) \<le> nat (n div m)"
proof -
  let ?S = "set (filter (\<lambda>i. i mod m = 0) [1..n])"
  have "inj_on (\<lambda>i. i div m) ?S"
    by (auto simp: inj_on_def) (metis dvd_div_mult_self)
  moreover have "1 \<le> i div m \<and> i div m \<le> n div m" if "1 \<le> i" "i \<le> n" "i mod m = 0" for i
  proof -
    have "i = i div m * m" using that(3) div_mult_mod_eq [of i m] by simp
    then have "0 < i div m" using that(1) assms by (metis mult_not_zero not_one_le_zero pos_imp_zdiv_nonneg_iff order_le_less linorder_not_le zero_le_one order.trans)
    then show ?thesis using that(2) assms by (simp add: zdiv_mono1)
  qed
  then have "(\<lambda>i. i div m) ` ?S \<subseteq> {1..n div m}" by auto
  ultimately have "card ?S \<le> card {1..n div m}" by (metis card_inj_on_le finite_atLeastAtMost_int)
  moreover have "card ?S = length (filter (\<lambda>i. i mod m = 0) [1..n])" by (rule distinct_card) simp
  ultimately show ?thesis by simp
qed

lemma progress_count:
  assumes "1 \<le> n"
  shows "length (filter (progress_at (max 1 (n div 20)) n) [1..n]) \<le> 40"
proof -
  let ?m = "max 1 (n div 20)"
  have "n div ?m < 40"
  proof (cases "n < 20")
    case False
    then have m: "?m = n div 20" and p: "0 < n div 20" by simp_all
    have "n = 20 * (n div 20) + n mod 20" and "n mod 20 < 20" by simp_all
    with p have "n < 40 * (n div 20)" by linarith
    then have "n div (n div 20) * (n div 20) < 40 * (n div 20)"
      using div_mult_mod_eq [of n "n div 20"] pos_mod_sign [OF p, of n] by linarith
    then show ?thesis unfolding m using p by (simp add: mult_less_cancel_right)
  qed (use assms in simp)
  then have m: "length (filter (\<lambda>i. i mod ?m = 0) [1..n]) \<le> 39"
  proof -
    have "nat (n div ?m) \<le> 39" using \<open>n div ?m < 40\<close> by linarith
    moreover have "0 < ?m" by simp
    ultimately show ?thesis using card_multiples [of ?m n] by linarith
  qed
  have u: "[1..n] = [1..n - 1] @ [n]" using assms upto_rec2 [of 1 n] by simp
  have "filter (progress_at ?m n) [1..n - 1] = filter (\<lambda>i. i mod ?m = 0) [1..n - 1]"
    by (intro filter_cong) (auto simp: progress_at_def)
  moreover have "length (filter (\<lambda>i. i mod ?m = 0) [1..n - 1]) \<le> length (filter (\<lambda>i. i mod ?m = 0) [1..n])"
    unfolding u by simp
  ultimately show ?thesis using m unfolding u by (simp add: progress_at_def)
qed

section \<open>Payloads\<close>

lemma validate_None:
  "validate p = None \<longleftrightarrow> 1 \<le> p_lines p \<and> p_lines p \<le> 100000 \<and> 0 \<le> p_delay_ms p \<and> p_delay_ms p \<le> 10000
     \<and> 0 \<le> p_fail_at p \<and> p_fail_at p \<le> p_lines p \<and> 0 \<le> p_fail_attempts p \<and> p_fail_attempts p \<le> 10"
  by (auto simp: validate_def maxLines_def maxDelayMs_def maxFailAttempts_def)

lemma parse_valid: "parseGenerateText s = Inr p \<Longrightarrow> validate p = None"
  by (auto simp: parseGenerateText_def split: sum.splits option.splits)

text \<open>
  C31: \<open>Validate\<close> accepts exactly the jobs \<open>Run\<close> can execute: of the known type, with a payload that
  parses within its bounds. Any other job fails in \<open>Run\<close> with the same error for a known type, and
  without a line of log, so a job that was accepted never fails because of its payload.
\<close>

theorem Validate_agrees_with_Run:
  "(case Validate ty s of
      None \<Rightarrow> \<exists>p. parseGenerateText s = Inr p \<and> 1 \<le> p_lines p \<and> p_lines p \<le> 100000
         \<and> 0 \<le> p_fail_at p \<and> p_fail_at p \<le> p_lines p \<and> Job.Run c ty s a = generateText c p a
    | Some e \<Rightarrow> snd (Job.Run c ty s a) = [] \<and> (\<exists>e'. fst (Job.Run c ty s a) = Inl e' \<and> (ty \<noteq> [] \<longrightarrow> e' = e)))"
  by (auto simp: Validate_def Job.Run_def validate_None dest!: parse_valid split: sum.split)

lemma generateText_outcome:
  assumes "validate p = None" and "calm c"
  shows "fst (generateText c p a) =
     (if p_fail_at p \<noteq> 0
        then Inl (ErrText (''deliberate failure after '' @ itoa (p_fail_at p) @ '' lines (fail_at)''))
      else if a \<le> p_fail_attempts p
        then Inl (ErrText (''deliberate failure of attempt '' @ itoa a @ '' (fail_attempts='' @ itoa (p_fail_attempts p) @ '')''))
      else Inr (full_text p))"
proof (cases "p_fail_at p = 0")
  case True
  then have "fst (gen_loop c p pre every 1 [] log) = Inr (concat (map (text_line pre) [1..p_lines p]))" for pre every log
    using gen_loop_output [OF assms(2), of 1 p pre every "[]" log] by simp
  with True show ?thesis
    by (auto simp: generateText_def Let_def full_text_def split: sum.split prod.split)
       (metis fst_conv sum.distinct(1) sum.inject(2) | metis fst_conv sum.inject(2))+
next
  case False
  with assms(1) have f: "1 \<le> p_fail_at p" "p_fail_at p \<le> p_lines p" by (auto simp: validate_None)
  have "fst (gen_loop c p pre every 1 [] log) =
      Inl (ErrText (''deliberate failure after '' @ itoa (p_fail_at p) @ '' lines (fail_at)''))" for pre every log
  proof -
    obtain b' log' where g: "gen_loop c p pre every 1 [] log = gen_loop c p pre every (p_fail_at p) b' log'"
      using gen_loop_stops [of 1 "p_fail_at p" c p pre every "[]" log] f assms(2) by (auto simp: calm_def)
    show ?thesis unfolding g using f assms(2) by (intro gen_loop_fail_line) (simp_all add: calm_def)
  qed
  with False show ?thesis
    by (auto simp: generateText_def Let_def split: sum.split prod.split)
       (metis fst_conv sum.distinct(1) sum.inject(1) | metis fst_conv sum.inject(1))+
qed

text \<open>
  C30: what an attempt that is not cancelled ends with. \<open>fail_at\<close> makes it fail whatever the attempt;
  \<open>fail_attempts\<close> makes exactly the first so many attempts fail; otherwise the output is the numbered
  lines \<open>1..lines\<close>, each with the prefix, \<open>line\<close> by default.
\<close>

theorem generateText_result:
  assumes "validate p = None" and "calm c"
  shows "fst (generateText c p a) =
     (if p_fail_at p \<noteq> 0
        then Inl (ErrText (''deliberate failure after '' @ itoa (p_fail_at p) @ '' lines (fail_at)''))
      else if a \<le> p_fail_attempts p
        then Inl (ErrText (''deliberate failure of attempt '' @ itoa a @ '' (fail_attempts='' @ itoa (p_fail_attempts p) @ '')''))
      else Inr (full_text p))"
  by (rule generateText_outcome [OF assms])

definition demo_payload :: generate_text where
  "demo_payload = \<lparr>p_lines = 2, p_prefix = [], p_delay_ms = 5, p_fail_at = 0, p_fail_attempts = 1\<rparr>"

definition calm_ctx :: ctx_view where
  "calm_ctx = \<lparr>cx_err = (\<lambda>_. None), cx_sleep = (\<lambda>_. None)\<rparr>"

lemma demo_payload_ok: "validate demo_payload = None" "calm calm_ctx"
  by (simp_all add: validate_None demo_payload_def calm_def calm_ctx_def)

theorem generateText_result_witness:
  "fst (generateText calm_ctx demo_payload 2) = Inr (''line 1'' @ [newline] @ ''line 2'' @ [newline])"
proof -
  have "[1..2::int] = [1, 2]" by (simp add: upto.simps)
  moreover have "itoa 1 = ''1''" "itoa 2 = ''2''" by (simp_all add: itoa_def dec_digits.simps digit_char_def, code_simp, code_simp)
  ultimately show ?thesis
    using generateText_result [OF demo_payload_ok, of 2] by (simp add: demo_payload_def full_text_def text_line_def)
qed

text \<open>
  A cancelled attempt stops at the next line it would write: whatever line \<open>k\<close> the context is
  found done at, the attempt returns the context's error and no output.
\<close>

theorem generateText_cancelled:
  assumes "validate p = None" and "1 \<le> k" and "k \<le> p_lines p" and "p_fail_at p = 0 \<or> k \<le> p_fail_at p"
    and "cx_err c k = Some e" and "\<forall>j. j < k \<longrightarrow> cx_err c j = None \<and> cx_sleep c j = None"
  shows "fst (generateText c p a) = Inl e"
proof -
  have "fst (gen_loop c p pre every 1 [] log) = Inl e" for pre every log
    using gen_loop_stops [of 1 k c p pre every "[]" log] assms gen_loop_cancelled [of k p c e pre every] by fastforce
  then show ?thesis
    by (auto simp: generateText_def Let_def split: sum.split prod.split)
       (metis fst_conv sum.distinct(1) sum.inject(1) | metis fst_conv sum.inject(1))+
qed

definition stop_at :: "int \<Rightarrow> ctx_view" where
  "stop_at k = \<lparr>cx_err = (\<lambda>i. if k \<le> i then Some ErrCanceled else None), cx_sleep = (\<lambda>_. None)\<rparr>"

theorem generateText_cancelled_witness: "fst (generateText (stop_at 2) demo_payload 2) = Inl ErrCanceled"
  using generateText_cancelled [OF demo_payload_ok(1), of 2 "stop_at 2" ErrCanceled 2]
  by (simp add: demo_payload_def stop_at_def)

text \<open>
  The log of an attempt is short however large the job is: at most 42 lines, the start, 40 of
  progress and one failure, on every path and under every cancellation.
\<close>

theorem generateText_log_bound:
  assumes "validate p = None"
  shows "length (snd (generateText c p a)) \<le> 42"
proof -
  have n: "1 \<le> p_lines p" using assms by (simp add: validate_None)
  define r where "r = gen_loop c p (if p_prefix p = [] then ''line'' else p_prefix p) (max 1 (p_lines p div 20)) 1 []
    [(''info'', ''generating '' @ itoa (p_lines p) @ '' lines'')]"
  have "length (snd r) \<le> 1 + 40 + (case fst r of Inl _ \<Rightarrow> 1 | Inr _ \<Rightarrow> 0)"
    unfolding r_def
    by (rule order_trans [OF gen_loop_log], rule add_mono, rule add_mono)
       (use progress_count [OF n] in simp_all)
  moreover have "generateText c p a = (case r of (Inl e, log) \<Rightarrow> (Inl e, log)
      | (Inr b, log) \<Rightarrow> if a \<le> p_fail_attempts p
             then (Inl (ErrText (''deliberate failure of attempt '' @ itoa a @ '' (fail_attempts='' @ itoa (p_fail_attempts p) @ '')'')),
                   log @ [(''error'', ''failing attempt '' @ itoa a @ '' on purpose (fail_attempts='' @ itoa (p_fail_attempts p) @ '')'')])
             else (Inr b, log))"
    by (simp add: generateText_def Let_def r_def)
  ultimately show ?thesis by (cases r; cases "fst r") auto
qed

theorem generateText_log_bound_witness: "length (snd (generateText (stop_at 2) demo_payload 7)) \<le> 42"
  by (rule generateText_log_bound [OF demo_payload_ok(1)])

section \<open>Reading a payload\<close>

definition payload_json :: "generate_text \<Rightarrow> json" where
  "payload_json p = JObj [member ''lines'' (json_int (p_lines p)), member ''prefix'' (JStr (p_prefix p)),
     member ''delay_ms'' (json_int (p_delay_ms p)), member ''fail_at'' (json_int (p_fail_at p)),
     member ''fail_attempts'' (json_int (p_fail_attempts p))]"

lemmas payload_names = utf8_fix_ascii [of "''lines''"] utf8_fix_ascii [of "''prefix''"]
  utf8_fix_ascii [of "''delay_ms''"] utf8_fix_ascii [of "''fail_at''"] utf8_fix_ascii [of "''fail_attempts''"]

text \<open>
  The payload a client writes is the payload the job runs with: every valid payload, printed as
  JSON, is read back field by field, its prefix with malformed UTF-8 repaired.
\<close>

theorem payload_roundtrip:
  assumes "validate p = None"
  shows "parseGenerateText (print_json (payload_json p)) = Inr (p\<lparr>p_prefix := utf8_fix (p_prefix p)\<rparr>)"
proof -
  let ?q = "p\<lparr>p_prefix := utf8_fix (p_prefix p)\<rparr>"
  have r: "parse_next (print_json (payload_json p) @ []) = Inr (read_back (payload_json p), [])"
    by (rule parse_next_print) (simp_all add: payload_json_def member_def max_depth_def delimited_def)
  have b: "int64_min \<le> i \<and> i \<le> int64_max" if "0 \<le> i" "i \<le> 100000" for i :: int
    using that by (simp add: int64_min_def int64_max_def)
  note v = assms [unfolded validate_None]
  have "decode_struct True payload_fields (read_back (payload_json p)) zero_payload = (None, ?q)"
    using b [of "p_lines p"] b [of "p_delay_ms p"] b [of "p_fail_at p"] b [of "p_fail_attempts p"] v
    by (simp add: payload_json_def member_def decode_struct_def payload_names find_field_def payload_fields_def
        set_int_json set_string_def zero_payload_def)
  moreover have "validate ?q = None" using v by (simp add: validate_None)
  ultimately show ?thesis using r by (simp add: parseGenerateText_def decode_next_def)
qed

theorem payload_roundtrip_witness:
  "parseGenerateText (print_json (payload_json demo_payload)) = Inr (demo_payload\<lparr>p_prefix := utf8_fix []\<rparr>)"
  using payload_roundtrip [OF demo_payload_ok(1)] by (simp add: demo_payload_def)

theorem Validate_agrees_with_Run_witness:
  "\<exists>e. Validate ''mine'' ''{}'' = Some e \<and> fst (Job.Run calm_ctx ''mine'' ''{}'' 1) = Inl e"
  using Validate_agrees_with_Run [where ty = "''mine''" and s = "''{}''" and c = calm_ctx and a = 1]
  by (auto simp: Validate_def TypeGenerateText_def)

end
