(* ===== verification/Attempt.thy ===== *)
theory Attempt
  imports RunLog App JobProps
begin

text \<open>
  \<open>Worker.execute\<close> of \<open>internal/worker/worker.go\<close> from the start of the heartbeats to the end of
  \<open>rl.Close\<close>: the goroutine of the job with its run logger, the flusher and the heartbeat, as one machine
  over the database. What each goroutine does next is determined by where it stands; a list of moves
  says in which order they get to do it, and how each store call goes.
\<close>

section \<open>State and moves\<close>

record live =
  at_lines :: "log_entry list"   \<comment> \<open>the lines the job has yet to log\<close>
  at_lost :: bool                \<comment> \<open>\<open>heartbeat\<close> has returned after \<open>cancel(errLostRun)\<close>\<close>
  at_log :: "db run_logger"      \<comment> \<open>\<open>rl\<close>, over the database\<close>

datatype move =
    MBeat env                    \<comment> \<open>a tick of the heartbeat: one call of \<open>Heartbeat\<close>\<close>
  | MJob time env                \<comment> \<open>the job's goroutine goes on to its next synchronisation point\<close>
  | MTick                        \<comment> \<open>the flusher's ticker fires\<close>
  | MFlush env                   \<comment> \<open>the flusher goes on\<close>

text \<open>The job has not returned: it logs, or is in a \<open>flush\<close> called by \<open>Log\<close>.\<close>

fun in_job :: "job_pc \<Rightarrow> bool" where
  "in_job JRun = True"
| "in_job JFull = True"
| "in_job (JAppend b) = True"
| "in_job _ = False"

section \<open>Operations\<close>

text \<open>
  One round of \<open>heartbeat\<close>'s loop. It has returned once it said \<open>cancel(errLostRun)\<close>, and it is joined
  before \<open>rl.Close\<close>. An error of the store is transient.
\<close>

definition heartbeat :: "config \<Rightarrow> run \<Rightarrow> env \<Rightarrow> live \<Rightarrow> live" where
  "heartbeat cfg r e s =
     (if at_lost s \<or> \<not> in_job (k_job (at_log s)) then s
      else (let (ok, d) = Heartbeat e (r_id r) (c_id cfg) (r_attempt r) (k_sink (at_log s))
            in s\<lparr>at_lost := (ok = Inr False), at_log := (at_log s)\<lparr>k_sink := d\<rparr>\<rparr>))"

text \<open>
  What the job's goroutine does next: it logs the next line of \<open>job.Run\<close>, with the flush the line may
  set off, and when there is none left it closes the logger.
\<close>

fun job_event :: "log_entry list \<Rightarrow> time \<Rightarrow> 'o \<Rightarrow> job_pc \<Rightarrow> 'o log_event option" where
  "job_event ((level, line) # ls) t y JRun = Some (ELog t level line)"
| "job_event [] t y JRun = Some EClose"
| "job_event ls t y JFull = Some ETakeFull"
| "job_event ls t y (JAppend b) = Some (EAppendFull y)"
| "job_event ls t y JClosing = Some EJoin"
| "job_event ls t y JTake = Some ETakeLast"
| "job_event ls t y (JLast b) = Some (EAppendLast y)"
| "job_event ls t y JClosed = None"

fun flusher_event :: "'o \<Rightarrow> flusher_pc \<Rightarrow> 'o log_event option" where
  "flusher_event y FWait = Some EStop"
| "flusher_event y FTake = Some ETakeTick"
| "flusher_event y (FAppend b) = Some (EAppendTick y)"
| "flusher_event y FDone = None"

text \<open>A goroutine whose next event is not possible yet is blocked and stays where it is.\<close>

fun log_entries :: "'o log_event \<Rightarrow> log_entry list" where
  "log_entries (ELog t level line) = [(level, line)]"
| "log_entries _ = []"

definition goes_on :: "run \<Rightarrow> env log_event option \<Rightarrow> live \<Rightarrow> live" where
  "goes_on r ev s = (case ev of None \<Rightarrow> s
     | Some ev \<Rightarrow> (case log_step (append_app (r_id r) (r_attempt r)) ev (at_log s) of None \<Rightarrow> s
         | Some k \<Rightarrow> s\<lparr>at_lines := drop (length (log_entries ev)) (at_lines s), at_log := k\<rparr>))"

fun attempt_move :: "config \<Rightarrow> run \<Rightarrow> move \<Rightarrow> live \<Rightarrow> live" where
  "attempt_move cfg r (MBeat e) s = heartbeat cfg r e s"
| "attempt_move cfg r (MJob t y) s = goes_on r (job_event (at_lines s) t y (k_job (at_log s))) s"
| "attempt_move cfg r MTick s = goes_on r (Some ETick) s"
| "attempt_move cfg r (MFlush y) s = goes_on r (flusher_event y (k_flusher (at_log s))) s"

text \<open>
  A run of the machine: the given moves, and then the job and the flusher in turn until both have
  ended, for which \<open>togo\<close> rounds are enough.
\<close>

fun job_togo :: "job_pc \<Rightarrow> nat" where
  "job_togo JRun = 5"
| "job_togo JFull = 7"
| "job_togo (JAppend b) = 6"
| "job_togo JClosing = 4"
| "job_togo JTake = 3"
| "job_togo (JLast b) = 2"
| "job_togo JClosed = 0"

fun flusher_togo :: "flusher_pc \<Rightarrow> nat" where
  "flusher_togo FTake = 3"
| "flusher_togo (FAppend b) = 2"
| "flusher_togo FWait = 1"
| "flusher_togo FDone = 0"

definition togo :: "live \<Rightarrow> nat" where
  "togo s = 3 * length (at_lines s) + job_togo (k_job (at_log s)) + flusher_togo (k_flusher (at_log s))"

definition attempt_moves :: "config \<Rightarrow> run \<Rightarrow> move list \<Rightarrow> live \<Rightarrow> live" where
  "attempt_moves cfg r ms s = fold (attempt_move cfg r) ms s"

definition attempt_rest :: "time \<times> env \<Rightarrow> live \<Rightarrow> move list" where
  "attempt_rest ty s = concat (replicate (togo s) [MJob (fst ty) (snd ty), MFlush (snd ty)])"

definition run_attempt :: "config \<Rightarrow> run \<Rightarrow> move list \<Rightarrow> time \<times> env \<Rightarrow> log_entry list \<Rightarrow> db \<Rightarrow> live" where
  "run_attempt cfg r ms ty lines d =
     (let s = attempt_moves cfg r ms \<lparr>at_lines = lines, at_lost = False, at_log = newRunLogger (r_attempt r) d\<rparr>
      in attempt_moves cfg r (attempt_rest ty s) s)"

section \<open>What the machine does to the database\<close>

definition solo :: "env \<Rightarrow> bool" where
  "solo e \<longleftrightarrow> e_others e = (\<lambda>d. d)"

lemma solo_alone: "solo e \<Longrightarrow> alone e = e"
  by (simp add: solo_def alone_def)

lemma solo_others [simp]: "solo e \<Longrightarrow> e_others e d = d"
  by (simp add: solo_def)

lemma log_step_sink:
  "log_step app ev k = Some k' \<Longrightarrow> k_sink k' = k_sink k \<or> (\<exists>y b. k_sink k' = app y b (k_sink k))"
  by (cases ev) ((auto simp: take_buf_def Log_def Let_def split: if_splits job_pc.splits flusher_pc.splits)[1]; blast)+

text \<open>A move is a heartbeat or one step of the run logger, or its goroutine is blocked.\<close>

definition after :: "env log_event \<Rightarrow> db run_logger \<Rightarrow> live \<Rightarrow> live" where
  "after ev k s = s\<lparr>at_lines := drop (length (log_entries ev)) (at_lines s), at_log := k\<rparr>"

lemma after_simps [simp]:
  "at_lines (after ev k s) = drop (length (log_entries ev)) (at_lines s)" "at_lost (after ev k s) = at_lost s"
  "at_log (after ev k s) = k"
  by (simp_all add: after_def)

lemma goes_on_cases:
  obtains "goes_on r ev s = s"
  | e k where "ev = Some e" "log_step (append_app (r_id r) (r_attempt r)) e (at_log s) = Some k" "goes_on r ev s = after e k s"
proof (cases ev)
  case (Some e)
  then show thesis using that
    by (cases "log_step (append_app (r_id r) (r_attempt r)) e (at_log s)") (simp_all add: goes_on_def after_def)
qed (use that(1) in \<open>simp add: goes_on_def\<close>)

lemma attempt_move_cases:
  obtains (beat) e where "m = MBeat e"
  | (blocked) "attempt_move cfg r m s = s"
  | (event) ev k where "log_step (append_app (r_id r) (r_attempt r)) ev (at_log s) = Some k" "attempt_move cfg r m s = after ev k s"
      "ev = ETick \<or> (\<exists>t y. job_event (at_lines s) t y (k_job (at_log s)) = Some ev \<and> m = MJob t y)
       \<or> (\<exists>y. flusher_event y (k_flusher (at_log s)) = Some ev \<and> m = MFlush y)"
proof (cases m)
  case (MJob t y)
  show thesis
  proof (rule goes_on_cases [of r "job_event (at_lines s) t y (k_job (at_log s))" s])
    fix e k
    assume e: "job_event (at_lines s) t y (k_job (at_log s)) = Some e"
      and k: "log_step (append_app (r_id r) (r_attempt r)) e (at_log s) = Some k"
      and g: "goes_on r (job_event (at_lines s) t y (k_job (at_log s))) s = after e k s"
    show thesis by (rule event [OF k]) (use e g MJob in simp_all)
  qed (use blocked MJob in simp)
next
  case MTick
  show thesis by (rule goes_on_cases [of r "Some ETick" s]) (use blocked event MTick in \<open>simp_all del: log_step.simps\<close>)
next
  case (MFlush y)
  show thesis
  proof (rule goes_on_cases [of r "flusher_event y (k_flusher (at_log s))" s])
    fix e k
    assume e: "flusher_event y (k_flusher (at_log s)) = Some e"
      and k: "log_step (append_app (r_id r) (r_attempt r)) e (at_log s) = Some k"
      and g: "goes_on r (flusher_event y (k_flusher (at_log s))) s = after e k s"
    show thesis by (rule event [OF k]) (use e g MFlush in simp_all)
  qed (use blocked MFlush in simp)
qed (rule beat)

lemma attempt_keeps:
  assumes "P (at_lost s) (k_sink (at_log s))" and "\<And>l y b d. P l d \<Longrightarrow> P l (append_app (r_id r) (r_attempt r) y b d)"
    and "\<And>e d. MBeat e \<in> set ms \<Longrightarrow> P False d \<Longrightarrow>
       P (fst (Heartbeat e (r_id r) (c_id cfg) (r_attempt r) d) = Inr False) (snd (Heartbeat e (r_id r) (c_id cfg) (r_attempt r) d))"
  shows "P (at_lost (attempt_moves cfg r ms s)) (k_sink (at_log (attempt_moves cfg r ms s)))"
  using assms(1,3)
proof (induction ms arbitrary: s)
  case Nil
  then show ?case by (simp add: attempt_moves_def)
next
  case (Cons m ms)
  let ?s = "attempt_move cfg r m s"
  have step: "P (at_lost ?s) (k_sink (at_log ?s))"
  proof (cases rule: attempt_move_cases [where m = m and cfg = cfg and r = r and s = s])
    case (beat e)
    show ?thesis
    proof (cases "at_lost s \<or> \<not> in_job (k_job (at_log s))")
      case False
      then have "P False (k_sink (at_log s))" using Cons.prems(1) by simp
      with Cons.prems(2) [of e] False show ?thesis by (simp add: beat heartbeat_def Let_def split_def)
    qed (use Cons.prems(1) beat in \<open>simp add: heartbeat_def\<close>)
  next
    case (event ev k)
    from log_step_sink [OF event(1)] assms(2) Cons.prems(1) have "P (at_lost s) (k_sink k)" by metis
    then show ?thesis unfolding event(2) by simp
  qed (use Cons.prems in simp)
  have "P (at_lost (attempt_moves cfg r ms ?s)) (k_sink (at_log (attempt_moves cfg r ms ?s)))"
    by (rule Cons.IH [OF step]) (use Cons.prems(2) in simp)
  then show ?case by (simp add: attempt_moves_def)
qed

lemma rest_no_beat: "MBeat e \<notin> set (attempt_rest ty s)"
  by (auto simp: attempt_rest_def)

text \<open>What the inserts of log lines and the heartbeats keep, an attempt keeps.\<close>

lemma run_attempt_keeps:
  assumes "P False d" and "\<And>l y b d. P l d \<Longrightarrow> P l (append_app (r_id r) (r_attempt r) y b d)"
    and "\<And>e d. MBeat e \<in> set ms \<Longrightarrow> P False d \<Longrightarrow>
       P (fst (Heartbeat e (r_id r) (c_id cfg) (r_attempt r) d) = Inr False) (snd (Heartbeat e (r_id r) (c_id cfg) (r_attempt r) d))"
  shows "P (at_lost (run_attempt cfg r ms ty lines d)) (k_sink (at_log (run_attempt cfg r ms ty lines d)))"
  unfolding run_attempt_def Let_def
proof (rule attempt_keeps [where P = P, OF _ assms(2)])
  show "P (at_lost (attempt_moves cfg r ms \<lparr>at_lines = lines, at_lost = False, at_log = newRunLogger (r_attempt r) d\<rparr>))
      (k_sink (at_log (attempt_moves cfg r ms \<lparr>at_lines = lines, at_lost = False, at_log = newRunLogger (r_attempt r) d\<rparr>)))"
    by (rule attempt_keeps [where P = P, OF _ assms(2,3)]) (use assms(1) in \<open>simp_all add: newRunLogger_def startRunLogger_def\<close>)
qed (simp_all add: rest_no_beat)

section \<open>The goroutines end\<close>

definition live_ok :: "live \<Rightarrow> bool" where
  "live_ok s \<longleftrightarrow> joined (at_log s) \<and> (\<not> in_job (k_job (at_log s)) \<longrightarrow> at_lines s = [])"

lemma job_move_ok:
  assumes "job_event ls t y (k_job k) = Some ev" and "log_step app ev k = Some k'" and "\<not> in_job (k_job k) \<Longrightarrow> ls = []"
  shows "(\<not> in_job (k_job k') \<longrightarrow> drop (length (log_entries ev)) ls = []) \<and> ls = log_entries ev @ drop (length (log_entries ev)) ls
    \<and> k_flusher k' = k_flusher k
    \<and> 3 * length (drop (length (log_entries ev)) ls) + job_togo (k_job k') < 3 * length ls + job_togo (k_job k)"
proof (cases "k_job k")
  case JRun
  show ?thesis
  proof (cases ls)
    case Nil
    with JRun assms(1) have "ev = EClose" by simp
    with JRun assms(2) have "k' = k\<lparr>k_stop := True, k_job := JClosing\<rparr>" by simp
    with JRun Nil \<open>ev = EClose\<close> show ?thesis by simp
  next
    case (Cons e es)
    obtain level line where e: "e = (level, line)" by (cases e)
    with JRun Cons assms(1) have ev: "ev = ELog t level line" by simp
    with JRun assms(2) have "k' = Log t level line k" by simp
    with JRun Cons ev e show ?thesis by (simp add: Log_def Let_def)
  qed
next
  case JFull
  with assms(1) have "ev = ETakeFull" by (cases ls) simp_all
  with JFull assms(2) show ?thesis by (auto simp: take_buf_def Let_def split: if_splits)
next
  case (JAppend b)
  with assms(1) have "ev = EAppendFull y" by (cases ls) simp_all
  with JAppend assms(2) show ?thesis by auto
next
  case JClosing
  with assms(1) have "ev = EJoin" by (cases ls) simp_all
  with JClosing assms(2,3) show ?thesis by (auto split: if_splits)
next
  case JTake
  with assms(1) have "ev = ETakeLast" by (cases ls) simp_all
  with JTake assms(2,3) show ?thesis by (auto simp: take_buf_def Let_def split: if_splits)
next
  case (JLast b)
  with assms(1) have "ev = EAppendLast y" by (cases ls) simp_all
  with JLast assms(2,3) show ?thesis by auto
next
  case JClosed
  with assms(1) show ?thesis by (cases ls) simp_all
qed

lemma flusher_move_ok:
  assumes "flusher_event y (k_flusher k) = Some ev" and "log_step app ev k = Some k'"
  shows "log_entries ev = [] \<and> k_job k' = k_job k \<and> k_stop k' = k_stop k \<and> flusher_togo (k_flusher k') < flusher_togo (k_flusher k)"
  using assms by (cases "k_flusher k") (auto simp: take_buf_def Let_def split: if_splits)

lemma tick_ok: "log_step app ETick k = Some k' \<Longrightarrow> k' = k\<lparr>k_flusher := FTake\<rparr>"
  by (simp split: if_splits)

lemma joined_sink [simp]: "joined (k\<lparr>k_sink := d\<rparr>) = joined k"
  by (simp add: joined_def)

lemma live_ok_move:
  assumes "live_ok s"
  shows "live_ok (attempt_move cfg r m s)"
proof (cases rule: attempt_move_cases [where m = m and cfg = cfg and r = r and s = s])
  case (beat e)
  with assms show ?thesis by (cases "at_lost s \<or> \<not> in_job (k_job (at_log s))") (simp_all add: live_ok_def heartbeat_def Let_def split_def)
next
  case (event ev k)
  have j: "joined (at_log s)" "\<not> in_job (k_job (at_log s)) \<Longrightarrow> at_lines s = []" using assms by (simp_all add: live_ok_def)
  note k = joined_step [OF j(1) event(1)]
  from event(3) show ?thesis
  proof (elim disjE exE conjE)
    fix t y
    assume "job_event (at_lines s) t y (k_job (at_log s)) = Some ev"
    from job_move_ok [OF this event(1) j(2)] k show ?thesis unfolding event(2) by (simp add: live_ok_def)
  next
    fix y
    assume "flusher_event y (k_flusher (at_log s)) = Some ev"
    from flusher_move_ok [OF this event(1)] k j(2) show ?thesis unfolding event(2) by (simp add: live_ok_def)
  next
    assume e: "ev = ETick"
    from tick_ok [OF event(1) [unfolded e]] k j(2) show ?thesis unfolding event(2) by (simp add: live_ok_def e)
  qed
qed (use assms in simp)

lemma live_ok_moves: "live_ok s \<Longrightarrow> live_ok (attempt_moves cfg r ms s)"
  by (induction ms arbitrary: s) (simp_all add: attempt_moves_def live_ok_move)

lemma goes_on_job:
  assumes "live_ok s"
  shows "k_job (at_log s) = JClosed \<Longrightarrow> attempt_move cfg r (MJob t y) s = s"
    and "togo (attempt_move cfg r (MJob t y) s) \<le> togo s"
    and "k_job (at_log s) \<noteq> JClosed \<Longrightarrow> \<not> (k_job (at_log s) = JClosing \<and> k_flusher (at_log s) \<noteq> FDone) \<Longrightarrow>
      togo (attempt_move cfg r (MJob t y) s) < togo s"
proof -
  let ?app = "append_app (r_id r) (r_attempt r)" and ?k = "at_log s"
  let ?ev = "job_event (at_lines s) t y (k_job ?k)"
  have less: "togo (attempt_move cfg r (MJob t y) s) < togo s" if "?ev = Some ev" "log_step ?app ev ?k = Some k" for ev k
    using job_move_ok [OF that] that assms by (simp add: goes_on_def togo_def live_ok_def)
  have same: "attempt_move cfg r (MJob t y) s = s" if "\<And>ev k. ?ev = Some ev \<Longrightarrow> log_step ?app ev ?k = Some k \<Longrightarrow> False"
    using that by (auto simp: goes_on_def split: option.split)
  show "k_job ?k = JClosed \<Longrightarrow> attempt_move cfg r (MJob t y) s = s" by (rule same) simp
  show "togo (attempt_move cfg r (MJob t y) s) \<le> togo s" using less same by (metis order_refl less_imp_le)
  assume j: "k_job ?k \<noteq> JClosed" "\<not> (k_job ?k = JClosing \<and> k_flusher ?k \<noteq> FDone)"
  have "\<exists>ev k. ?ev = Some ev \<and> log_step ?app ev ?k = Some k"
    using j by (cases "(at_lines s, t, y, k_job ?k)" rule: job_event.cases) (auto simp: Let_def split_def)
  then show "togo (attempt_move cfg r (MJob t y) s) < togo s" using less by blast
qed

lemma goes_on_flush:
  shows "k_job (at_log (attempt_move cfg r (MFlush y) s)) = k_job (at_log s)"
    and "togo (attempt_move cfg r (MFlush y) s) \<le> togo s"
    and "k_stop (at_log s) \<Longrightarrow> k_flusher (at_log s) \<noteq> FDone \<Longrightarrow> togo (attempt_move cfg r (MFlush y) s) < togo s"
proof -
  let ?app = "append_app (r_id r) (r_attempt r)" and ?k = "at_log s"
  let ?ev = "flusher_event y (k_flusher ?k)"
  have less: "togo (attempt_move cfg r (MFlush y) s) < togo s \<and> k_job (at_log (attempt_move cfg r (MFlush y) s)) = k_job ?k"
    if "?ev = Some ev" "log_step ?app ev ?k = Some k" for ev k
    using flusher_move_ok [OF that] that by (simp add: goes_on_def togo_def)
  have same: "attempt_move cfg r (MFlush y) s = s" if "\<And>ev k. ?ev = Some ev \<Longrightarrow> log_step ?app ev ?k = Some k \<Longrightarrow> False"
    using that by (auto simp: goes_on_def split: option.split)
  show "k_job (at_log (attempt_move cfg r (MFlush y) s)) = k_job ?k" using less same by metis
  show "togo (attempt_move cfg r (MFlush y) s) \<le> togo s" using less same by (metis order_refl less_imp_le)
  assume "k_stop ?k" "k_flusher ?k \<noteq> FDone"
  then have "\<exists>ev k. ?ev = Some ev \<and> log_step ?app ev ?k = Some k"
    by (cases "k_flusher ?k") (auto simp: Let_def split_def)
  then show "togo (attempt_move cfg r (MFlush y) s) < togo s" using less by blast
qed

text \<open>The rounds of the rest are enough: the job has returned from \<open>Close\<close>, with every line logged.\<close>

lemma rounds_close:
  "live_ok s \<Longrightarrow> togo s \<le> n \<Longrightarrow> k_job (at_log (attempt_moves cfg r (concat (replicate n [MJob t y, MFlush y])) s)) = JClosed"
proof (induction n arbitrary: s)
  case 0
  then show ?case by (cases "k_job (at_log s)") (simp_all add: togo_def attempt_moves_def)
next
  case (Suc n)
  let ?s1 = "attempt_move cfg r (MJob t y) s"
  let ?s2 = "attempt_move cfg r (MFlush y) ?s1"
  have ok: "live_ok ?s1" "live_ok ?s2" using Suc.prems(1) live_ok_move by blast+
  show ?case
  proof (cases "k_job (at_log s) = JClosed")
    case True
    then have "k_job (at_log ?s2) = JClosed" using goes_on_job(1) [OF Suc.prems(1)] goes_on_flush(1) by simp
    moreover have "k_job (at_log (attempt_moves cfg r (concat (replicate n [MJob t y, MFlush y])) z)) = JClosed"
      if "k_job (at_log z) = JClosed" "live_ok z" for z n
      using that
      by (induction n arbitrary: z) (simp_all add: attempt_moves_def goes_on_job(1) goes_on_flush(1) live_ok_move
          del: attempt_move.simps)
    ultimately show ?thesis using ok by (simp add: attempt_moves_def del: attempt_move.simps)
  next
    case False
    have "togo ?s2 < togo s"
    proof (cases "k_job (at_log s) = JClosing \<and> k_flusher (at_log s) \<noteq> FDone")
      case True
      then have "?s1 = s" by (simp add: goes_on_def)
      moreover have "k_stop (at_log s)" using Suc.prems(1) True by (simp add: live_ok_def joined_def)
      ultimately show ?thesis using True goes_on_flush(3) by metis
    next
      case False
      with \<open>k_job (at_log s) \<noteq> JClosed\<close> show ?thesis
        using goes_on_job(3) [OF Suc.prems(1)] goes_on_flush(2) by (meson le_less_trans)
    qed
    then have "togo ?s2 \<le> n" using Suc.prems(2) by simp
    from Suc.IH [OF ok(2) this] show ?thesis by (simp add: attempt_moves_def del: attempt_move.simps)
  qed
qed

section \<open>What is in the log afterwards\<close>

definition entry_of :: "log_line \<Rightarrow> log_entry" where
  "entry_of l = (l_level l, l_line l)"

lemma logged_entries: "map entry_of (logged a n [ev]) = log_entries ev"
  by (cases ev) (simp_all add: entry_of_def log_line_of_def)

text \<open>No store call of the move fails, and its heartbeat meets no other session.\<close>

fun calm_move :: "move \<Rightarrow> bool" where
  "calm_move (MBeat e) = solo e"
| "calm_move (MJob t y) = quiet y"
| "calm_move MTick = True"
| "calm_move (MFlush y) = quiet y"

fun beats_alone :: "move \<Rightarrow> bool" where
  "beats_alone (MBeat e) = solo e"
| "beats_alone _ = True"

text \<open>The lines logged so far are \<open>hist\<close>; when nothing fails, each is stored or on its way.\<close>

definition told :: "bool \<Rightarrow> run \<Rightarrow> log_entry list \<Rightarrow> log_line list \<Rightarrow> live \<Rightarrow> bool" where
  "told ok r lines hist s \<longleftrightarrow> store_logs.sound (r_id r) (r_attempt r) hist (at_log s) \<and> live_ok s
     \<and> map entry_of hist @ at_lines s = lines
     \<and> (ok \<longrightarrow> store_logs.complete (r_id r) (r_attempt r) hist (at_log s) \<and> find_run (r_id r) (k_sink (at_log s)) \<noteq> None)"

lemma told_sink:
  assumes "told ok r lines hist s" and "logs d = logs (k_sink (at_log s))"
    and "find_run (r_id r) (k_sink (at_log s)) \<noteq> None \<Longrightarrow> find_run (r_id r) d \<noteq> None"
  shows "told ok r lines hist (s\<lparr>at_lost := b, at_log := (at_log s)\<lparr>k_sink := d\<rparr>\<rparr>)"
  using assms
  by (simp add: told_def store_logs.sound_def store_logs.complete_def live_ok_def pending_def stored_lines_of)

lemma table_step_exists: "table_step d d' \<Longrightarrow> find_run i d \<noteq> None \<Longrightarrow> find_run i d' \<noteq> None"
proof -
  assume "table_step d d'" and f: "find_run i d \<noteq> None"
  then obtain rs where rs: "d' = d\<lparr>runs := rs\<rparr>" "list_all2 row_step (runs d) rs" by (auto simp: table_step_def)
  have "lookup_row r_id i xs \<noteq> None \<Longrightarrow> lookup_row r_id i rs \<noteq> None" if "list_all2 row_step xs rs" for xs
    using that by (induction rule: list_all2_induct) (auto dest: row_step_identity split: if_splits)
  with rs f show ?thesis by simp
qed

lemma told_beat:
  assumes "told ok r lines hist s" and "solo e"
  shows "told ok r lines hist (attempt_move cfg r (MBeat e) s)"
proof (cases "at_lost s \<or> \<not> in_job (k_job (at_log s))")
  case False
  let ?d = "k_sink (at_log s)"
  have t: "table_step ?d (snd (Heartbeat e (r_id r) (c_id cfg) (r_attempt r) ?d))"
    using Heartbeat_step [of e ?d "r_id r" "c_id cfg" "r_attempt r"] assms(2) by simp
  have "told ok r lines hist (s\<lparr>at_lost := (fst (Heartbeat e (r_id r) (c_id cfg) (r_attempt r) ?d) = Inr False),
      at_log := (at_log s)\<lparr>k_sink := snd (Heartbeat e (r_id r) (c_id cfg) (r_attempt r) ?d)\<rparr>\<rparr>)"
    by (rule told_sink [OF assms(1)]) (use table_step_frame [OF t] table_step_exists [OF t] in simp_all)
  with False show ?thesis by (simp add: heartbeat_def Let_def split_def)
qed (use assms(1) in \<open>simp add: heartbeat_def\<close>)

lemma append_app_delivers:
  assumes "find_run i d \<noteq> None" and "quiet e" and "\<forall>l \<in> set b. l_level l \<in> set log_levels"
  shows "append_delivers i a e b d"
proof -
  have "quiet (alone e)" using assms(2) by (simp add: quiet_def alone_def)
  with assms(1,3) show ?thesis by (auto simp: append_delivers_def AppendLogs_def)
qed

lemma append_of_job:
  assumes "job_event ls t y (k_job k) = Some ev" and "append_of ev k = Some (z, b)"
  shows "z = y \<and> set b \<subseteq> set (pending k)"
  using assms by (cases "k_job k"; cases ls) (auto simp: pending_def)

lemma append_of_flusher:
  assumes "flusher_event y (k_flusher k) = Some ev" and "append_of ev k = Some (z, b)"
  shows "z = y \<and> set b \<subseteq> set (pending k)"
  using assms by (cases "k_flusher k") (auto simp: pending_def)

lemma told_event:
  assumes "told ok r lines hist s" and "log_step (append_app (r_id r) (r_attempt r)) ev (at_log s) = Some k"
    and "at_lines s = log_entries ev @ drop (length (log_entries ev)) (at_lines s)" and "live_ok (after ev k s)"
    and "\<And>z b. ok \<Longrightarrow> append_of ev (at_log s) = Some (z, b) \<Longrightarrow> quiet z \<and> set b \<subseteq> set (pending (at_log s))"
    and "ok \<Longrightarrow> fst ` set lines \<subseteq> set log_levels"
  shows "told ok r lines (hist @ logged (r_attempt r) (k_seq (at_log s)) [ev]) (after ev k s)"
proof -
  let ?i = "r_id r" and ?a = "r_attempt r" and ?k = "at_log s"
  let ?h = "hist @ logged ?a (k_seq ?k) [ev]"
  have so: "store_logs.sound ?i ?a hist ?k" and j: "joined ?k" and l: "map entry_of hist @ at_lines s = lines"
    using assms(1) by (simp_all add: told_def live_ok_def)
  note st = store_logs.sound_step [OF so j assms(2)]
  have lines: "map entry_of ?h @ at_lines (after ev k s) = lines"
    using l assms(3) by (simp add: logged_entries)
  have sink: "find_run ?i (k_sink k) = find_run ?i (k_sink ?k)"
    using log_step_sink [OF assms(2)] by (auto simp: append_app_def alone_def AppendLogs_runs)
  have "store_logs.complete ?i ?a ?h k" if ok: ok
  proof -
    have "case append_of ev ?k of None \<Rightarrow> True | Some (y, b) \<Rightarrow> append_delivers ?i ?a y b (k_sink ?k)"
    proof (cases "append_of ev ?k")
      case (Some yb)
      obtain y b where yb: "append_of ev ?k = Some (y, b)" using Some by (cases yb) simp
      have "set b \<subseteq> set hist" using assms(5) [OF ok yb] so by (auto simp: store_logs.sound_def)
      moreover have "entry_of x \<in> set lines" if "x \<in> set hist" for x using that l by auto
      ultimately have "\<forall>x \<in> set b. l_level x \<in> set log_levels"
        using assms(6) [OF ok] by (force simp: entry_of_def)
      moreover have "find_run ?i (k_sink ?k) \<noteq> None" using assms(1) ok by (simp add: told_def)
      ultimately show ?thesis using append_app_delivers assms(5) [OF ok yb] yb by simp
    qed simp
    with st assms(1) ok show ?thesis by (simp add: told_def)
  qed
  with st assms(1,4) lines sink show ?thesis by (simp add: told_def)
qed

lemma told_move:
  assumes "told ok r lines hist s" and "beats_alone m" and "ok \<Longrightarrow> calm_move m \<and> fst ` set lines \<subseteq> set log_levels"
  shows "\<exists>hist'. told ok r lines hist' (attempt_move cfg r m s)"
proof (cases rule: attempt_move_cases [where m = m and cfg = cfg and r = r and s = s])
  case (beat e)
  with told_beat [OF assms(1)] assms(2) show ?thesis by auto
next
  case (event ev k)
  have lv: "live_ok s" using assms(1) by (simp add: told_def)
  then have ok': "live_ok (after ev k s)" using live_ok_move [of s cfg r m] event(2) by simp
  note te = told_event [OF assms(1) event(1) _ ok']
  from event(3) have "\<exists>hist'. told ok r lines hist' (after ev k s)"
  proof (elim disjE exE conjE)
    fix t y
    assume e: "job_event (at_lines s) t y (k_job (at_log s)) = Some ev" and m: "m = MJob t y"
    have "at_lines s = log_entries ev @ drop (length (log_entries ev)) (at_lines s)"
      using job_move_ok [OF e event(1)] lv by (simp add: live_ok_def)
    then show ?thesis using te append_of_job [OF e] assms(3) m by (metis calm_move.simps(2))
  next
    fix y
    assume e: "flusher_event y (k_flusher (at_log s)) = Some ev" and m: "m = MFlush y"
    have "log_entries ev = []" using flusher_move_ok [OF e event(1)] by simp
    then show ?thesis using te append_of_flusher [OF e] assms(3) m by (metis append_Nil calm_move.simps(4) drop0 list.size(3))
  next
    assume e: "ev = ETick"
    have "told ok r lines (hist @ logged (r_attempt r) (k_seq (at_log s)) [ev]) (after ev k s)"
      by (rule te) (use e assms(3) in simp_all)
    then show ?thesis by blast
  qed
  then show ?thesis unfolding event(2) .
qed (use assms(1) in auto)

lemma told_moves:
  assumes "told ok r lines hist s" and "list_all beats_alone ms" and "ok \<Longrightarrow> list_all calm_move ms \<and> fst ` set lines \<subseteq> set log_levels"
  shows "\<exists>hist'. told ok r lines hist' (attempt_moves cfg r ms s)"
  using assms
proof (induction ms arbitrary: hist s)
  case (Cons m ms)
  then obtain hist1 where "told ok r lines hist1 (attempt_move cfg r m s)"
    using told_move [of ok r lines hist s m cfg] by auto
  from Cons.IH [OF this] Cons.prems show ?case by (simp add: attempt_moves_def)
qed (auto simp: attempt_moves_def)

lemma told_start:
  assumes "stored_lines (r_id r) (r_attempt r) d = {}" and "ok \<Longrightarrow> find_run (r_id r) d \<noteq> None"
  shows "told ok r lines [] \<lparr>at_lines = lines, at_lost = False, at_log = newRunLogger (r_attempt r) d\<rparr>"
proof -
  have "k_job (newRunLogger (r_attempt r) d) = JRun" "k_sink (newRunLogger (r_attempt r) d) = d"
    by (simp_all add: newRunLogger_def startRunLogger_def)
  with store_logs.start_sound [OF assms(1), of logMaxBatch] assms(2) show ?thesis
    by (simp add: told_def live_ok_def newRunLogger_def)
qed

lemma rest_calm: "list_all beats_alone (attempt_rest ty s)" "quiet (snd ty) \<Longrightarrow> list_all calm_move (attempt_rest ty s)"
  by (auto simp: attempt_rest_def list_all_iff)

text \<open>
  However the three goroutines interleave, the attempt ends with the logger closed, and the log of the
  attempt holds the lines of the job, numbered from 1: nothing else, and all of them when no call fails.
\<close>

lemma run_attempt_log:
  assumes "stored_lines (r_id r) (r_attempt r) d = {}" and "list_all beats_alone ms"
    and "ok \<Longrightarrow> find_run (r_id r) d \<noteq> None \<and> list_all calm_move ms \<and> quiet (snd ty) \<and> fst ` set lines \<subseteq> set log_levels"
  obtains hist where "map entry_of hist = lines" "map l_seq hist = [1..int (length lines)]" "list_all (\<lambda>l. l_attempt l = r_attempt r) hist"
    "stored_lines (r_id r) (r_attempt r) (k_sink (at_log (run_attempt cfg r ms ty lines d))) \<subseteq> set hist"
    "ok \<Longrightarrow> stored_lines (r_id r) (r_attempt r) (k_sink (at_log (run_attempt cfg r ms ty lines d))) = set hist"
    "k_job (at_log (run_attempt cfg r ms ty lines d)) = JClosed"
proof -
  let ?s0 = "\<lparr>at_lines = lines, at_lost = False, at_log = newRunLogger (r_attempt r) d\<rparr>"
  let ?s1 = "attempt_moves cfg r ms ?s0"
  let ?s2 = "run_attempt cfg r ms ty lines d"
  have s2: "?s2 = attempt_moves cfg r (attempt_rest ty ?s1) ?s1" by (simp add: run_attempt_def Let_def)
  obtain hist1 where t1: "told ok r lines hist1 ?s1"
    using told_moves [OF told_start [OF assms(1), of ok lines] assms(2), of cfg] assms(3) by blast
  obtain hist where t2: "told ok r lines hist ?s2"
    unfolding s2 using told_moves [OF t1 rest_calm(1) [of ty ?s1], of cfg] rest_calm(2) [of ty ?s1] assms(3) by blast
  have c: "k_job (at_log ?s2) = JClosed"
    unfolding s2 attempt_rest_def by (rule rounds_close) (use t1 in \<open>simp_all add: told_def\<close>)
  have j: "joined (at_log ?s2)" "at_lines ?s2 = []" using t2 c by (simp_all add: told_def live_ok_def)
  then have p: "pending (at_log ?s2) = []" using c by (simp add: joined_def pending_def)
  have h: "map entry_of hist = lines" "store_logs.sound (r_id r) (r_attempt r) hist (at_log ?s2)"
    "ok \<Longrightarrow> store_logs.complete (r_id r) (r_attempt r) hist (at_log ?s2)"
    using t2 j(2) by (simp_all add: told_def)
  have k: "map l_seq hist = [1..k_seq (at_log ?s2)]" "0 \<le> k_seq (at_log ?s2)" using h(2) by (simp_all add: store_logs.sound_def)
  have "length hist = length lines" using h(1) by (metis length_map)
  moreover have "length (map l_seq hist) = nat (k_seq (at_log ?s2))" unfolding k(1) by simp
  ultimately have n: "k_seq (at_log ?s2) = int (length lines)" using k(2) by simp
  show thesis
  proof (rule that [of hist])
    show "stored_lines (r_id r) (r_attempt r) (k_sink (at_log ?s2)) = set hist" if ok
      using h(2) h(3) [OF that] p by (auto simp: store_logs.sound_def store_logs.complete_def)
  qed (use h k n c in \<open>simp_all add: store_logs.sound_def\<close>)
qed

end
