(* ===== verification/Worker.thy ===== *)
theory Worker
  imports Attempt Queue
begin

text \<open>
  \<open>internal/worker/worker.go\<close>: claiming a dispatched run, executing one attempt and recording how it
  ended, and a maintenance pass. The world a worker acts on is the database, the broker and the
  output files; what goes on concurrently with a step is an argument of it. Messages to the
  process's own log are left out.
\<close>

section \<open>The worker's world\<close>

record 'k world =
  w_db :: db
  w_broker :: 'k
  w_files :: "((string \<times> string) \<times> string) list"   \<comment> \<open>directory, name and content, latest first\<close>

text \<open>
  The reason a job's context was cancelled for: \<open>errLostRun\<close>, by the heartbeat, or \<open>errShutdown\<close> and
  \<open>errTimeout\<close>, from outside.
\<close>

datatype stop = Shutdown | Timeout
datatype cause = LostRun | Stopped stop

definition maintenanceBatch :: nat where "maintenanceBatch = 100"

section \<open>Claiming\<close>

definition claim :: "config \<Rightarrow> env \<Rightarrow> string \<Rightarrow> db \<Rightarrow> run option \<times> db" where
  "claim cfg e msg d = (case DecodeDispatch msg of
     Inl _ \<Rightarrow> (None, d)
   | Inr q \<Rightarrow> (case ClaimRun e (q_run_id q) (c_id cfg) d of
        (Inl _, d') \<Rightarrow> (None, d')
      | (Inr None, d') \<Rightarrow> (None, d')
      | (Inr (Some r), d') \<Rightarrow> (Some r, d')))"

section \<open>Recording how an attempt ended\<close>

fun double_until :: "nat \<Rightarrow> duration \<Rightarrow> duration \<Rightarrow> duration" where
  "double_until 0 cap d = d"
| "double_until (Suc n) cap d = (if d < cap then double_until n cap (wrap64 (d * 2)) else d)"

definition retryDelay :: "config \<Rightarrow> int \<Rightarrow> duration" where
  "retryDelay cfg attempt = min (double_until (nat (attempt - 1)) (c_retry_max cfg) (c_retry_base cfg)) (c_retry_max cfg)"

definition succeed :: "config \<Rightarrow> env \<Rightarrow> run \<Rightarrow> string \<Rightarrow> 'k world \<Rightarrow> 'k world" where
  "succeed cfg e r output w =
     w\<lparr>w_db := snd (FinishRun e (r_id r) (c_id cfg) (r_attempt r) StatusSucceeded (Some output) None (w_db w))\<rparr>"

definition fail :: "config \<Rightarrow> env \<Rightarrow> run \<Rightarrow> string \<Rightarrow> 'k world \<Rightarrow> 'k world" where
  "fail cfg e r errMsg w =
     w\<lparr>w_db := snd (FailOrRetry e (r_id r) (c_id cfg) (r_attempt r) errMsg (retryDelay cfg (r_attempt r)) (w_db w))\<rparr>"

definition release_reason :: "config \<Rightarrow> string" where
  "release_reason cfg = ''released by '' @ c_id cfg @ '' shutting down''"

definition release :: "config \<Rightarrow> 'k writer \<Rightarrow> env \<Rightarrow> run \<Rightarrow> string \<Rightarrow> 'k world \<Rightarrow> 'k world" where
  "release cfg write e r jobType w =
     (case ReleaseRun e (r_id r) (c_id cfg) (r_attempt r) (release_reason cfg) (w_db w) of
        (Inr True, d) \<Rightarrow> w\<lparr>w_db := d,
           w_broker := snd (Dispatch write (r_id r) (r_job_id r) (r_attempt r + 1) jobType (w_broker w))\<rparr>
      | (_, d) \<Rightarrow> w\<lparr>w_db := d\<rparr>)"

text \<open>\<open>ok\<close>: whether the directory and the file could be written.\<close>

definition writeOutputFile :: "config \<Rightarrow> bool \<Rightarrow> run \<Rightarrow> string \<Rightarrow> 'k world \<Rightarrow> 'k world" where
  "writeOutputFile cfg ok r output w =
     (if c_output_dir cfg = [] \<or> \<not> ok then w
      else w\<lparr>w_files := ((c_output_dir cfg, r_id r @ ''.txt''), output) # w_files w\<rparr>)"

section \<open>Executing an attempt\<close>

text \<open>
  What happens while an attempt runs: the load of its job, what the job sees of its context, a shutdown
  or timeout before it has returned and whether that came after the worker had lost the run, the moves
  of the three goroutines and how the rest of them goes, the output file, the final write.
\<close>

record attempt_env =
  x_load :: env
  x_ctx :: ctx_view
  x_stop :: "stop option"
  x_lost_first :: bool
  x_moves :: "move list"
  x_rest :: "time \<times> env"
  x_file :: bool
  x_final :: env

text \<open>\<open>context.Cause\<close>: the first cancellation's.\<close>

definition cause_of :: "attempt_env \<Rightarrow> bool \<Rightarrow> cause option" where
  "cause_of x lost = (case x_stop x of
     None \<Rightarrow> if lost then Some LostRun else None
   | Some st \<Rightarrow> if lost \<and> x_lost_first x then Some LostRun else Some (Stopped st))"

definition settle :: "config \<Rightarrow> 'k writer \<Rightarrow> attempt_env \<Rightarrow> run \<Rightarrow> job \<Rightarrow> string res \<Rightarrow> cause option \<Rightarrow> 'k world \<Rightarrow> 'k world" where
  "settle cfg write x r j result cause w =
     (case result of
        Inr output \<Rightarrow> succeed cfg (x_final x) r output (writeOutputFile cfg (x_file x) r output w)
      | Inl err \<Rightarrow>
          (case cause of
             Some LostRun \<Rightarrow> w
           | Some (Stopped Shutdown) \<Rightarrow> release cfg write (x_final x) r (j_type j) w
           | Some (Stopped Timeout) \<Rightarrow> fail cfg (x_final x) r (''timed out after '' @ itoa (j_timeout_sec j) @ ''s'') w
           | None \<Rightarrow> fail cfg (x_final x) r (error_text err) w))"

definition execute :: "config \<Rightarrow> 'k writer \<Rightarrow> attempt_env \<Rightarrow> run \<Rightarrow> 'k world \<Rightarrow> 'k world" where
  "execute cfg write x r w =
     (case GetJob (x_load x) (r_job_id r) (w_db w) of
        (Inl err, d) \<Rightarrow> fail cfg (x_final x) r (''load job: '' @ error_text err) (w\<lparr>w_db := d\<rparr>)
      | (Inr j, d) \<Rightarrow>
          (let (result, lines) = Job.Run (x_ctx x) (j_type j) (j_payload j) (r_attempt r);
               s = run_attempt cfg r (x_moves x) (x_rest x) lines d
           in settle cfg write x r j result (cause_of x (at_lost s)) (w\<lparr>w_db := k_sink (at_log s)\<rparr>)))"

section \<open>Maintenance\<close>

definition redispatch_run :: "'k writer \<Rightarrow> redispatch \<Rightarrow> 'k \<Rightarrow> 'k" where
  "redispatch_run write x k = snd (Dispatch write (d_run_id x) (d_job_id x) (d_attempt x) (d_job_type x) k)"

definition rows_of :: "redispatch list res \<Rightarrow> redispatch list" where
  "rows_of x = (case x of Inl _ \<Rightarrow> [] | Inr rs \<Rightarrow> rs)"

text \<open>The body of \<open>maintain\<close>'s loop: the reaper, the retry dispatcher, the sweeper.\<close>

definition maintain_pass :: "config \<Rightarrow> 'k writer \<Rightarrow> env \<Rightarrow> env \<Rightarrow> env \<Rightarrow> 'k world \<Rightarrow> 'k world" where
  "maintain_pass cfg write e1 e2 e3 w =
     (let (reaped, d1) = ReapStale e1 (c_stale_after cfg) maintenanceBatch (w_db w);
          k1 = fold (redispatch_run write) (filter (\<lambda>x. d_status x \<noteq> StatusFailed) (rows_of reaped)) (w_broker w);
          (retries, d2) = DueRetries e2 maintenanceBatch d1;
          k2 = fold (redispatch_run write) (rows_of retries) k1;
          (swept, d3) = SweepQueued e3 (c_sweep_after cfg) maintenanceBatch d2;
          k3 = fold (redispatch_run write) (rows_of swept) k2
      in w\<lparr>w_db := d3, w_broker := k3\<rparr>)"

text \<open>The loop itself: a tick of its timer is the three calls of a pass; it ends when the context is done.\<close>

type_synonym tick = "env \<times> env \<times> env"

fun maintain :: "config \<Rightarrow> 'k writer \<Rightarrow> tick list \<Rightarrow> 'k world \<Rightarrow> 'k world" where
  "maintain cfg write [] w = w"
| "maintain cfg write ((e1, e2, e3) # ticks) w = maintain cfg write ticks (maintain_pass cfg write e1 e2 e3 w)"

end
