(* ===== verification/Consume.thy ===== *)
theory Consume
  imports Worker "HOL-Library.Multiset"
begin

text \<open>
  The concurrency of \<open>internal/worker/worker.go\<close>: \<open>Worker.Run\<close>, its \<open>consume\<close> loop, the goroutines of the
  jobs it started and the maintenance goroutine, as one machine whose events are what happens between
  two synchronisation points. An event list is one interleaving. What the store calls do is the
  business of Worker; here a claim is the \<open>claim\<close> of that theory on the database it meets.
\<close>

section \<open>State and events\<close>

text \<open>
  Where \<open>consume\<close> is: taking a slot, in \<open>FetchMessage\<close>, claiming the message's run, committing the offset
  with what the claim gave, returned. Where \<open>Run\<close> is: in \<open>consume\<close>, in its \<open>select\<close>, at \<open><-done\<close> after the
  grace period, in \<open>maint.Wait\<close>, returned.
\<close>

datatype consume_pc = CSlot | CFetch | CClaim string | CCommit "run option" | CReturned "error option"

datatype run_pc = RConsume | RSelect | RDrain | RMaintWait | RReturned

record pool =
  pl_ctx_done :: bool          \<comment> \<open>\<open>ctx\<close> is cancelled\<close>
  pl_slots :: nat              \<comment> \<open>the elements of the channel \<open>slots\<close>\<close>
  pl_consume :: consume_pc
  pl_jobs :: "run list"        \<comment> \<open>the runs in \<open>execute\<close>; \<open>jobs\<close> counts them\<close>
  pl_executed :: "run list"    \<comment> \<open>the runs whose \<open>execute\<close> has returned\<close>
  pl_stop_jobs :: bool         \<comment> \<open>\<open>jobsCtx\<close> is cancelled with \<open>errShutdown\<close>\<close>
  pl_maint :: bool             \<comment> \<open>the maintenance goroutine runs\<close>
  pl_run :: run_pc

definition start_pool :: pool where
  "start_pool = \<lparr>pl_ctx_done = False, pl_slots = 0, pl_consume = CSlot, pl_jobs = [], pl_executed = [],
     pl_stop_jobs = False, pl_maint = True, pl_run = RConsume\<rparr>"

datatype pool_event =
    ECancel                    \<comment> \<open>\<open>ctx\<close> is cancelled\<close>
  | EAcquire                   \<comment> \<open>\<open>slots <- struct{}{}\<close>\<close>
  | ESlotCancelled             \<comment> \<open>\<open><-ctx.Done()\<close>\<close>
  | EFetched string            \<comment> \<open>\<open>FetchMessage\<close> returns a message with this value\<close>
  | EFetchFailed error
  | EClaim env db              \<comment> \<open>\<open>claim\<close>, with the database it meets\<close>
  | ECommitted                 \<comment> \<open>\<open>CommitMessages\<close> returns, with an error or none\<close>
  | EExecuted nat              \<comment> \<open>a job's goroutine ends\<close>
  | EConsumed                  \<comment> \<open>\<open>Run\<close> goes on after \<open>consume\<close>\<close>
  | EJobsDone                  \<comment> \<open>\<open><-done\<close>\<close>
  | EGraceOver                 \<comment> \<open>the timer of \<open>ShutdownGrace\<close>\<close>
  | EMaintStopped              \<comment> \<open>\<open>maintain\<close> returns\<close>
  | EMaintJoined               \<comment> \<open>\<open>maint.Wait\<close> returns\<close>

section \<open>Operations\<close>

definition free_slot :: "pool \<Rightarrow> pool" where
  "free_slot p = p\<lparr>pl_slots := pl_slots p - 1\<rparr>"

fun consume_step :: "config \<Rightarrow> pool_event \<Rightarrow> pool \<Rightarrow> pool option" where
  "consume_step cfg EAcquire p =
     (if pl_consume p = CSlot \<and> pl_slots p < nat (c_concurrency cfg)
      then Some (p\<lparr>pl_slots := pl_slots p + 1, pl_consume := CFetch\<rparr>) else None)"
| "consume_step cfg ESlotCancelled p =
     (if pl_consume p = CSlot \<and> pl_ctx_done p then Some (p\<lparr>pl_consume := CReturned None\<rparr>) else None)"
| "consume_step cfg (EFetched msg) p =
     (if pl_consume p = CFetch then Some (p\<lparr>pl_consume := CClaim msg\<rparr>) else None)"
| "consume_step cfg (EFetchFailed err) p =
     (if pl_consume p = CFetch
      then Some ((free_slot p)\<lparr>pl_consume := CReturned
             (if pl_ctx_done p then None else Some (ErrWrap ''fetch dispatch message'' err))\<rparr>) else None)"
| "consume_step cfg (EClaim e d) p = (case pl_consume p of
     CClaim msg \<Rightarrow> Some (p\<lparr>pl_consume := CCommit (fst (claim cfg e msg d))\<rparr>) | _ \<Rightarrow> None)"
| "consume_step cfg ECommitted p = (case pl_consume p of
     CCommit None \<Rightarrow> Some ((free_slot p)\<lparr>pl_consume := CSlot\<rparr>)
   | CCommit (Some r) \<Rightarrow> Some (p\<lparr>pl_consume := CSlot, pl_jobs := pl_jobs p @ [r]\<rparr>)
   | _ \<Rightarrow> None)"
| "consume_step cfg _ p = None"

text \<open>The goroutine of a job ends: \<open>execute\<close> has returned, the slot is freed, \<open>jobs\<close> counts down.\<close>

definition job_ends :: "nat \<Rightarrow> pool \<Rightarrow> pool option" where
  "job_ends i p =
     (if i < length (pl_jobs p)
      then Some ((free_slot p)\<lparr>pl_jobs := take i (pl_jobs p) @ drop (Suc i) (pl_jobs p),
                     pl_executed := pl_executed p @ [pl_jobs p ! i]\<rparr>) else None)"

fun run_step :: "pool_event \<Rightarrow> pool \<Rightarrow> pool option" where
  "run_step EConsumed p =
     (if pl_run p = RConsume \<and> (\<exists>r. pl_consume p = CReturned r) then Some (p\<lparr>pl_run := RSelect\<rparr>) else None)"
| "run_step EJobsDone p =
     (if (pl_run p = RSelect \<or> pl_run p = RDrain) \<and> pl_jobs p = [] then Some (p\<lparr>pl_run := RMaintWait\<rparr>) else None)"
| "run_step EGraceOver p =
     (if pl_run p = RSelect then Some (p\<lparr>pl_stop_jobs := True, pl_run := RDrain\<rparr>) else None)"
| "run_step EMaintStopped p =
     (if pl_maint p \<and> pl_ctx_done p then Some (p\<lparr>pl_maint := False\<rparr>) else None)"
| "run_step EMaintJoined p =
     (if pl_run p = RMaintWait \<and> \<not> pl_maint p then Some (p\<lparr>pl_run := RReturned\<rparr>) else None)"
| "run_step _ p = None"

definition pool_step :: "config \<Rightarrow> pool_event \<Rightarrow> pool \<Rightarrow> pool option" where
  "pool_step cfg ev p = (case ev of
     ECancel \<Rightarrow> Some (p\<lparr>pl_ctx_done := True\<rparr>)
   | EExecuted i \<Rightarrow> job_ends i p
   | EConsumed \<Rightarrow> run_step ev p | EJobsDone \<Rightarrow> run_step ev p | EGraceOver \<Rightarrow> run_step ev p
   | EMaintStopped \<Rightarrow> run_step ev p | EMaintJoined \<Rightarrow> run_step ev p
   | _ \<Rightarrow> consume_step cfg ev p)"

text \<open>The states of a worker and the events that led there.\<close>

inductive reaches :: "config \<Rightarrow> pool_event list \<Rightarrow> pool \<Rightarrow> bool" for cfg where
  reaches_start: "reaches cfg [] start_pool"
| reaches_step: "reaches cfg evs p \<Longrightarrow> pool_step cfg ev p = Some p' \<Longrightarrow> reaches cfg (evs @ [ev]) p'"

inductive_cases reaches_snoc: "reaches cfg (evs @ [ev]) p"

text \<open>Continuing from a state.\<close>

fun pool_steps :: "config \<Rightarrow> pool_event list \<Rightarrow> pool \<Rightarrow> pool option" where
  "pool_steps cfg [] p = Some p"
| "pool_steps cfg (ev # evs) p = (case pool_step cfg ev p of None \<Rightarrow> None | Some p' \<Rightarrow> pool_steps cfg evs p')"

lemma pool_steps_append:
  "pool_steps cfg (evs @ evs') p = Option.bind (pool_steps cfg evs p) (pool_steps cfg evs')"
  by (induction evs arbitrary: p) (auto split: option.split)

lemma reaches_steps: "reaches cfg evs p \<Longrightarrow> pool_steps cfg evs' p = Some p' \<Longrightarrow> reaches cfg (evs @ evs') p'"
proof (induction evs' arbitrary: evs p)
  case (Cons ev evs')
  then obtain q where "pool_step cfg ev p = Some q" "pool_steps cfg evs' q = Some p'"
    by (auto split: option.splits)
  with Cons.IH [of "evs @ [ev]" q] Cons.prems(1) show ?case by (auto intro: reaches_step)
qed simp

section \<open>Slots and claimed runs\<close>

text \<open>Whether \<open>consume\<close> itself holds a slot, and the run it has claimed and not yet started.\<close>

fun holds_slot :: "consume_pc \<Rightarrow> bool" where
  "holds_slot CSlot = False"
| "holds_slot (CReturned r) = False"
| "holds_slot _ = True"

fun claimed_now :: "consume_pc \<Rightarrow> run list" where
  "claimed_now (CCommit (Some r)) = [r]"
| "claimed_now _ = []"

text \<open>The runs the claims of an interleaving handed to this worker.\<close>

fun claims_of :: "config \<Rightarrow> string \<Rightarrow> pool_event list \<Rightarrow> run list" where
  "claims_of cfg msg [] = []"
| "claims_of cfg msg (EFetched m # evs) = claims_of cfg m evs"
| "claims_of cfg msg (EClaim e d # evs) =
     (case fst (claim cfg e msg d) of None \<Rightarrow> [] | Some r \<Rightarrow> [r]) @ claims_of cfg msg evs"
| "claims_of cfg msg (_ # evs) = claims_of cfg msg evs"

fun last_fetched :: "string \<Rightarrow> pool_event list \<Rightarrow> string" where
  "last_fetched msg [] = msg"
| "last_fetched msg (EFetched m # evs) = last_fetched m evs"
| "last_fetched msg (_ # evs) = last_fetched msg evs"

lemma claims_of_append: "claims_of cfg msg (evs @ evs') = claims_of cfg msg evs @ claims_of cfg (last_fetched msg evs) evs'"
  by (induction cfg msg evs rule: claims_of.induct) simp_all

lemma last_fetched_append: "last_fetched msg (evs @ evs') = last_fetched (last_fetched msg evs) evs'"
  by (induction msg evs rule: last_fetched.induct) simp_all

definition pool_ok :: "config \<Rightarrow> pool_event list \<Rightarrow> pool \<Rightarrow> bool" where
  "pool_ok cfg evs p \<longleftrightarrow>
     pl_slots p = length (pl_jobs p) + (if holds_slot (pl_consume p) then 1 else 0)
   \<and> pl_slots p \<le> nat (c_concurrency cfg)
   \<and> mset (claims_of cfg [] evs) = mset (pl_jobs p) + mset (pl_executed p) + mset (claimed_now (pl_consume p))
   \<and> (\<forall>m. pl_consume p = CClaim m \<longrightarrow> last_fetched [] evs = m)"

definition run_ok :: "pool \<Rightarrow> bool" where
  "run_ok p \<longleftrightarrow> (pl_run p \<noteq> RConsume \<longrightarrow> (\<exists>r. pl_consume p = CReturned r))
   \<and> (pl_run p = RMaintWait \<or> pl_run p = RReturned \<longrightarrow> pl_jobs p = [])
   \<and> (pl_run p = RReturned \<longrightarrow> \<not> pl_maint p) \<and> (\<not> pl_maint p \<longrightarrow> pl_ctx_done p)"

lemmas pool_step_defs = pool_step_def free_slot_def claims_of_append last_fetched_append

lemma mset_remove_nth: "i < length xs \<Longrightarrow> mset (take i xs @ drop (Suc i) xs) + {#xs ! i#} = mset xs"
  by (metis add.commute id_take_nth_drop mset.simps(2) mset_append union_mset_add_mset_right add_mset_add_single)

lemma pool_step_ok:
  assumes "pool_ok cfg evs p" and "pool_step cfg ev p = Some p'"
  shows "pool_ok cfg (evs @ [ev]) p'"
proof (cases ev)
  case (EExecuted i)
  then have i: "i < length (pl_jobs p)" and p': "p' = (free_slot p)\<lparr>pl_jobs := take i (pl_jobs p) @ drop (Suc i) (pl_jobs p),
      pl_executed := pl_executed p @ [pl_jobs p ! i]\<rparr>"
    using assms(2) by (auto simp: pool_step_def job_ends_def split: if_splits)
  have "mset (pl_jobs p') + mset (pl_executed p') = mset (pl_jobs p) + mset (pl_executed p)"
    using mset_remove_nth [OF i] by (simp add: p' free_slot_def)
  then show ?thesis using assms(1) i unfolding EExecuted
    by (auto simp: pool_ok_def p' pool_step_defs)
next
  case (EClaim e d)
  then obtain m where m: "pl_consume p = CClaim m" "p' = p\<lparr>pl_consume := CCommit (fst (claim cfg e m d))\<rparr>"
    using assms(2) by (auto simp: pool_step_def split: consume_pc.splits)
  then have "last_fetched [] evs = m" using assms(1) by (simp add: pool_ok_def)
  with m assms(1) show ?thesis unfolding EClaim
    by (cases "fst (claim cfg e m d)") (simp_all add: pool_ok_def pool_step_defs)
next
  case ECommitted
  then obtain r where r: "pl_consume p = CCommit r" using assms(2) by (auto simp: pool_step_def split: consume_pc.splits)
  with assms show ?thesis unfolding ECommitted by (cases r) (auto simp: pool_ok_def pool_step_defs)
qed (use assms in \<open>auto simp: pool_ok_def pool_step_defs split: if_splits\<close>)

lemma run_step_ok:
  assumes "run_ok p" and "pool_step cfg ev p = Some p'"
  shows "run_ok p'"
  using assms
  by (cases ev) (auto simp: run_ok_def pool_step_def job_ends_def free_slot_def split: if_splits consume_pc.splits option.splits)

lemma reaches_ok: "reaches cfg evs p \<Longrightarrow> pool_ok cfg evs p \<and> run_ok p"
proof (induction rule: reaches.induct)
  case reaches_start
  show ?case by (simp add: pool_ok_def run_ok_def start_pool_def)
next
  case (reaches_step evs p ev p')
  then show ?case using pool_step_ok run_step_ok by blast
qed

text \<open>
  C18: in every interleaving the worker holds at most \<open>Concurrency\<close> runs, counting the one it is about to
  claim, each run it claimed is in execution or has been executed, exactly once, and when \<open>Run\<close> has
  returned every run it ever claimed has been executed to its end.
\<close>

theorem worker_slots_and_claims:
  assumes "reaches cfg evs p"
  shows "length (pl_jobs p) + (if holds_slot (pl_consume p) then 1 else 0) \<le> nat (c_concurrency cfg)
    \<and> mset (claims_of cfg [] evs) = mset (pl_jobs p) + mset (pl_executed p) + mset (claimed_now (pl_consume p))
    \<and> (pl_run p = RReturned \<longrightarrow> mset (claims_of cfg [] evs) = mset (pl_executed p) \<and> \<not> pl_maint p)"
proof -
  note ok = reaches_ok [OF assms]
  have "claimed_now (pl_consume p) = [] \<and> pl_jobs p = []" if "pl_run p = RReturned"
    using ok that by (auto simp: run_ok_def)
  with ok show ?thesis by (auto simp: pool_ok_def run_ok_def)
qed

theorem worker_slots_and_claims_witness:
  "\<exists>p :: pool. pl_run p = RReturned \<and> mset (claims_of default_config [] [ECancel, ESlotCancelled, EConsumed, EJobsDone, EMaintStopped, EMaintJoined])
     = mset (pl_executed p)"
proof -
  let ?evs = "[ECancel, ESlotCancelled, EConsumed, EJobsDone, EMaintStopped, EMaintJoined]"
  obtain p where p: "pool_steps default_config ?evs start_pool = Some p" "pl_run p = RReturned"
    by (simp add: pool_step_def start_pool_def)
  have "reaches default_config ?evs p" using reaches_steps [OF reaches_start p(1)] by simp
  from worker_slots_and_claims [OF this] p(2) show ?thesis by blast
qed

section \<open>Returning\<close>

lemma drain_jobs: "pool_steps cfg (replicate (length (pl_jobs p)) (EExecuted 0)) p =
   Some (p\<lparr>pl_slots := pl_slots p - length (pl_jobs p), pl_jobs := [], pl_executed := pl_executed p @ pl_jobs p\<rparr>)"
proof (induction "pl_jobs p" arbitrary: p)
  case (Cons r rs)
  have rs: "pl_jobs p = r # rs" using Cons.hyps(2) by simp
  let ?q = "(free_slot p)\<lparr>pl_jobs := rs, pl_executed := pl_executed p @ [r]\<rparr>"
  have "pool_step cfg (EExecuted 0) p = Some ?q" by (simp add: pool_step_def job_ends_def rs)
  with Cons.hyps(1) [of ?q] show ?case by (simp add: rs free_slot_def)
qed simp

text \<open>A store call of a cancelled context fails.\<close>

definition cancelled_env :: env where
  "cancelled_env = \<lparr>e_others = (\<lambda>d. d), e_now = 0, e_clock = 0, e_locked = [], e_uuids = (\<lambda>_. []),
     e_fault = Some (LostBefore ErrCanceled), e_jsonb = Inr\<rparr>"

lemma claim_cancelled: "fst (claim cfg cancelled_env m d) = None"
  by (simp add: claim_def ClaimRun_def pg_def cancelled_env_def Let_def split: sum.split)

definition no_fetch :: "pool_event list \<Rightarrow> bool" where
  "no_fetch evs \<longleftrightarrow> list_all (\<lambda>ev. case ev of EFetched m \<Rightarrow> False | _ \<Rightarrow> True) evs"

lemma consume_can_return:
  assumes "pl_ctx_done p"
  shows "\<exists>evs p'. pool_steps cfg evs p = Some p' \<and> (\<exists>r. pl_consume p' = CReturned r) \<and> no_fetch evs \<and> length evs \<le> 3
     \<and> pl_ctx_done p' \<and> pl_run p' = pl_run p \<and> pl_maint p' = pl_maint p \<and> length (pl_jobs p') \<le> length (pl_jobs p) + 1"
proof -
  let ?ok = "\<lambda>evs. \<exists>p'. pool_steps cfg evs p = Some p' \<and> (\<exists>r. pl_consume p' = CReturned r) \<and> no_fetch evs \<and> length evs \<le> 3
     \<and> pl_ctx_done p' \<and> pl_run p' = pl_run p \<and> pl_maint p' = pl_maint p \<and> length (pl_jobs p') \<le> length (pl_jobs p) + 1"
  note defs = pool_step_def free_slot_def no_fetch_def
  have "\<exists>evs. ?ok evs"
  proof (cases "pl_consume p")
    case CSlot
    with assms have "?ok [ESlotCancelled]" by (simp add: defs)
    then show ?thesis by blast
  next
    case CFetch
    with assms have "?ok [EFetchFailed ErrCanceled]" by (simp add: defs)
    then show ?thesis by blast
  next
    case (CClaim m)
    with assms have "?ok [EClaim cancelled_env empty_db, ECommitted, ESlotCancelled]" by (simp add: defs claim_cancelled)
    then show ?thesis by blast
  next
    case (CCommit r)
    with assms have "?ok [ECommitted, ESlotCancelled]" by (cases r) (simp_all add: defs)
    then show ?thesis by blast
  next
    case (CReturned r)
    with assms have "?ok []" by (simp add: defs)
    then show ?thesis by blast
  qed
  then show ?thesis by blast
qed

lemma run_can_return:
  assumes "pl_consume p = CReturned r" and "pl_ctx_done p" and "run_ok p"
  shows "\<exists>evs p'. pool_steps cfg evs p = Some p' \<and> pl_run p' = RReturned \<and> no_fetch evs \<and> length evs \<le> length (pl_jobs p) + 4"
proof -
  let ?drain = "replicate (length (pl_jobs p)) (EExecuted 0)"
  let ?maint = "if pl_maint p then [EMaintStopped] else []"
  let ?evs = "if pl_run p = RReturned then []
     else if pl_run p = RMaintWait then ?maint @ [EMaintJoined]
     else (if pl_run p = RConsume then [EConsumed] else []) @ ?drain @ [EJobsDone] @ ?maint @ [EMaintJoined]"
  have d: "no_fetch ?drain" by (simp add: no_fetch_def list_all_iff)
  have "no_fetch ?evs \<and> length ?evs \<le> length (pl_jobs p) + 4" using d by (simp add: no_fetch_def)
  moreover have "\<exists>p'. pool_steps cfg ?evs p = Some p' \<and> pl_run p' = RReturned"
  proof (cases "pl_run p")
    case RConsume
    let ?q = "p\<lparr>pl_run := RSelect\<rparr>"
    have "pool_step cfg EConsumed p = Some ?q" using RConsume assms(1) by (simp add: pool_step_def)
    with RConsume assms drain_jobs [of cfg ?q] show ?thesis by (simp add: pool_steps_append pool_step_def)
  next
    case RMaintWait
    with assms show ?thesis by (simp add: pool_steps_append pool_step_def)
  qed (use assms drain_jobs [of cfg p] in \<open>simp_all add: pool_steps_append pool_step_def\<close>)
  ultimately show ?thesis by blast
qed

lemma run_can_end:
  assumes "reaches cfg evs p" and "pl_ctx_done p"
  shows "\<exists>evs' p'. pool_steps cfg evs' p = Some p' \<and> pl_run p' = RReturned \<and> no_fetch evs'
     \<and> length evs' \<le> length (pl_jobs p) + 8"
proof -
  obtain evs1 p1 r where a: "pool_steps cfg evs1 p = Some p1" "pl_consume p1 = CReturned r" "no_fetch evs1" "length evs1 \<le> 3"
    "pl_ctx_done p1" "length (pl_jobs p1) \<le> length (pl_jobs p) + 1"
    using consume_can_return [OF assms(2)] by blast
  have "run_ok p1" using reaches_ok [OF reaches_steps [OF assms(1) a(1)]] by simp
  then obtain evs2 p2 where b: "pool_steps cfg evs2 p1 = Some p2" "pl_run p2 = RReturned" "no_fetch evs2"
    "length evs2 \<le> length (pl_jobs p1) + 4"
    using run_can_return [OF a(2,5)] by blast
  have "pool_steps cfg (evs1 @ evs2) p = Some p2" using a(1) b(1) by (simp add: pool_steps_append)
  moreover have "no_fetch (evs1 @ evs2)" using a(3) b(3) by (simp add: no_fetch_def)
  moreover have "length (evs1 @ evs2) \<le> length (pl_jobs p) + 8" using a(4,6) b(4) by simp
  ultimately show ?thesis using b(2) by blast
qed

text \<open>
  C36: once the context is cancelled \<open>Run\<close> can return, wherever its goroutines are: no state is a
  deadlock, no further message is needed, and the number of steps is bounded by the runs in execution.
\<close>

theorem Run_returns_after_cancel:
  assumes "reaches cfg evs p" and "pl_ctx_done p"
  shows "\<exists>evs' p'. pool_steps cfg evs' p = Some p' \<and> pl_run p' = RReturned \<and> no_fetch evs'
     \<and> length evs' \<le> length (pl_jobs p) + 8"
  by (rule run_can_end [OF assms])

theorem Run_returns_after_cancel_witness:
  "\<exists>evs p. pool_steps default_config evs (start_pool\<lparr>pl_ctx_done := True\<rparr>) = Some p \<and> pl_run p = RReturned"
proof -
  have "reaches default_config ([] @ [ECancel]) (start_pool\<lparr>pl_ctx_done := True\<rparr>)"
    by (rule reaches_steps [OF reaches_start]) (simp add: pool_step_def)
  from Run_returns_after_cancel [OF this] show ?thesis by auto
qed

text \<open>
  After a fatal error of \<open>FetchMessage\<close>, with the context not cancelled, \<open>consume\<close> returns the error
  and the jobs end, but \<open>Run\<close> does not return it: it waits for the maintenance goroutine, and no event
  other than a cancellation from outside can happen any more.
\<close>

theorem fetch_error_hangs_Run:
  assumes "1 \<le> c_concurrency cfg"
  shows "\<exists>p. reaches cfg [EAcquire, EFetchFailed err, EConsumed, EJobsDone] p
     \<and> pl_consume p = CReturned (Some (ErrWrap ''fetch dispatch message'' err)) \<and> pl_jobs p = [] \<and> pl_run p = RMaintWait
     \<and> (\<forall>ev p'. pool_step cfg ev p = Some p' \<longrightarrow> ev = ECancel)"
proof -
  let ?p = "start_pool\<lparr>pl_consume := CReturned (Some (ErrWrap ''fetch dispatch message'' err)), pl_run := RMaintWait\<rparr>"
  have "pool_steps cfg [EAcquire, EFetchFailed err, EConsumed, EJobsDone] start_pool = Some ?p"
    using assms by (simp add: pool_step_def start_pool_def free_slot_def)
  then have "reaches cfg ([] @ [EAcquire, EFetchFailed err, EConsumed, EJobsDone]) ?p"
    by (rule reaches_steps [OF reaches_start])
  moreover have "pool_step cfg ev ?p = Some p' \<longrightarrow> ev = ECancel" for ev p'
    by (cases ev) (simp_all add: pool_step_def start_pool_def job_ends_def)
  moreover have "pl_jobs ?p = []" by (simp add: start_pool_def)
  ultimately show ?thesis by (intro exI [of _ ?p]) simp
qed

theorem fetch_error_hangs_Run_witness:
  "\<exists>p. reaches default_config [EAcquire, EFetchFailed ErrCanceled, EConsumed, EJobsDone] p \<and> pl_run p = RMaintWait"
  using fetch_error_hangs_Run [of default_config ErrCanceled] by (auto simp: default_config_def)

end
