(* ===== verification/WorkerProcess.thy ===== *)
theory WorkerProcess
  imports Startup Consume
begin

text \<open>
  The command \<open>cmd/worker/main.go\<close> from its start to its exit code: a machine whose events are the steps of
  \<open>Worker.Run\<close> (the machine of Consume), the store and broker calls of its jobs and of its maintenance, and
  the deferred calls of \<open>run\<close>. An event list is one interleaving. Each use of the pool, the publisher or
  the reader and each \<open>Close\<close> goes into a trace, in the order they happen.
\<close>

section \<open>The worker\<close>

datatype worker_event =
    WPool pool_event              \<comment> \<open>a step of \<open>Worker.Run\<close> or one of its goroutines\<close>
  | WJob nat client               \<comment> \<open>the job in this place queries the store or publishes a message\<close>
  | WMaint client                 \<comment> \<open>so does the maintenance goroutine\<close>
  | WRunEnds                      \<comment> \<open>\<open>Worker.Run\<close> has returned to \<open>run\<close>\<close>
  | WClose                        \<comment> \<open>the next deferred call\<close>

text \<open>Where \<open>run\<close> is: in \<open>Worker.Run\<close>, in its deferred calls with those left, or back in \<open>main\<close>.\<close>

datatype worker_pc = KRun | KDefer "error option" "resource list" | KReturned "error option"

record worker_state =
  k_cfg :: config
  k_db :: resource
  k_pub :: resource
  k_reader :: resource
  k_pool :: pool                  \<comment> \<open>the machine of \<open>Worker.Run\<close>\<close>
  k_pc :: worker_pc
  k_trace :: "proc_event list"

fun client_of :: "worker_state \<Rightarrow> client \<Rightarrow> resource" where
  "client_of s ToStore = k_db s"
| "client_of s ToBroker = k_pub s"

text \<open>
  What a step of \<open>Worker.Run\<close> uses: \<open>FetchMessage\<close> from its call to its return and \<open>CommitMessages\<close> the
  reader, and \<open>claim\<close> of a message that decodes the store.
\<close>

definition step_uses :: "worker_state \<Rightarrow> pool_event \<Rightarrow> resource list" where
  "step_uses s ev = (case ev of
     EAcquire \<Rightarrow> [k_reader s] | EFetched m \<Rightarrow> [k_reader s] | EFetchFailed e \<Rightarrow> [k_reader s] | ECommitted \<Rightarrow> [k_reader s]
   | EClaim e d \<Rightarrow> (case pl_consume (k_pool s) of
       CClaim m \<Rightarrow> (case DecodeDispatch m of Inl _ \<Rightarrow> [] | Inr _ \<Rightarrow> [k_db s]) | _ \<Rightarrow> [])
   | _ \<Rightarrow> [])"

text \<open>
  The goroutines do what they do whether or not \<open>Worker.Run\<close> has returned: that none of them is left then
  is for the machine of Consume to show.
\<close>

fun worker_step :: "worker_event \<Rightarrow> worker_state \<Rightarrow> worker_state option" where
  "worker_step (WPool ev) s = (case pool_step (k_cfg s) ev (k_pool s) of
     None \<Rightarrow> None
   | Some p \<Rightarrow> Some (s\<lparr>k_pool := p, k_trace := k_trace s @ map Used (step_uses s ev)\<rparr>))"
| "worker_step (WJob i c) s =
     (if i < length (pl_jobs (k_pool s)) then Some (s\<lparr>k_trace := k_trace s @ [Used (client_of s c)]\<rparr>) else None)"
| "worker_step (WMaint c) s =
     (if pl_maint (k_pool s) then Some (s\<lparr>k_trace := k_trace s @ [Used (client_of s c)]\<rparr>) else None)"
| "worker_step WRunEnds s = (case (k_pc s, pl_run (k_pool s), pl_consume (k_pool s)) of
     (KRun, RReturned, CReturned err) \<Rightarrow> Some (s\<lparr>k_pc := KDefer err [k_reader s, k_pub s, k_db s]\<rparr>)
   | _ \<Rightarrow> None)"
| "worker_step WClose s = (case k_pc s of
     KDefer err (r # rs) \<Rightarrow> Some (s\<lparr>k_trace := k_trace s @ [Close r], k_pc := (if rs = [] then KReturned err else KDefer err rs)\<rparr>)
   | _ \<Rightarrow> None)"

fun worker_steps :: "worker_event list \<Rightarrow> worker_state \<Rightarrow> worker_state option" where
  "worker_steps [] s = Some s"
| "worker_steps (ev # evs) s = (case worker_step ev s of None \<Rightarrow> None | Some s' \<Rightarrow> worker_steps evs s')"

text \<open>\<open>run\<close> up to the call of \<open>Worker.Run\<close>: an error and what was opened and closed, or the running machine.\<close>

definition worker_start :: "outside \<Rightarrow> (error \<times> proc_event list + worker_state) option" where
  "worker_start w = (case loadConfig (y_env w) (y_host w) (y_pid w) (y_output_dir w) of
     Inl e \<Rightarrow> Some (Inl (e, []))
   | Inr cfg \<Rightarrow> (let brokers = kafka_brokers (y_env w) in case OpenDB w of
       None \<Rightarrow> None
     | Some (Inl e, t) \<Rightarrow> Some (Inl (e, t))
     | Some (Inr db, t) \<Rightarrow> (case WaitForTopic w brokers of
         None \<Rightarrow> None
       | Some (Inl e) \<Rightarrow> Some (Inl (e, t @ [Close (RPool db)]))
       | Some (Inr partitions) \<Rightarrow>
           (let pub = RWriter (NewPublisher brokers); reader = RReader (NewConsumer brokers) in
            Some (Inr \<lparr>k_cfg = cfg, k_db = RPool db, k_pub = pub, k_reader = reader, k_pool = start_pool, k_pc = KRun,
              k_trace = t @ [Acquired pub, Acquired reader]\<rparr>)))))"

text \<open>\<open>run\<close> in an interleaving in which it returns.\<close>

definition worker_run :: "outside \<Rightarrow> worker_event list \<Rightarrow> (error option \<times> proc_event list) option" where
  "worker_run w evs = (case worker_start w of
     None \<Rightarrow> None
   | Some (Inl (e, t)) \<Rightarrow> Some (Some e, t)
   | Some (Inr s) \<Rightarrow> (case worker_steps evs s of
       None \<Rightarrow> None
     | Some s' \<Rightarrow> (case k_pc s' of KReturned err \<Rightarrow> Some (err, k_trace s') | _ \<Rightarrow> None)))"

definition worker_main :: "outside \<Rightarrow> worker_event list \<Rightarrow> int option" where
  "worker_main w evs = map_option (\<lambda>(err, t). exit_code err) (worker_run w evs)"

section \<open>The worker from start to exit\<close>

lemma worker_steps_append: "worker_steps (xs @ ys) s = Option.bind (worker_steps xs s) (worker_steps ys)"
  by (induction xs arbitrary: s) (auto split: option.split)

lemma worker_steps_snoc:
  assumes "worker_steps (evs @ [ev]) s = Some s'"
  obtains q where "worker_steps evs s = Some q" "worker_step ev q = Some s'"
  using assms by (cases "worker_steps evs s") (auto simp: worker_steps_append split: option.splits)

text \<open>The events of \<open>Worker.Run\<close> in an interleaving of the process.\<close>

fun run_events :: "worker_event list \<Rightarrow> pool_event list" where
  "run_events [] = []"
| "run_events (WPool ev # evs) = ev # run_events evs"
| "run_events (_ # evs) = run_events evs"

lemma run_events_append: "run_events (xs @ ys) = run_events xs @ run_events ys"
  by (induction xs rule: run_events.induct) simp_all

text \<open>The three clients of the process, and what is still open of them.\<close>

definition clients :: "worker_state \<Rightarrow> resource list" where
  "clients s = [k_reader s, k_pub s, k_db s]"

fun open_clients :: "worker_state \<Rightarrow> worker_pc \<Rightarrow> resource list" where
  "open_clients s KRun = clients s"
| "open_clients s (KDefer err rs) = rs"
| "open_clients s (KReturned err) = []"

text \<open>\<open>run\<close> is in its deferred calls, or returned, only after \<open>Worker.Run\<close> returned the same error.\<close>

definition worker_ok :: "worker_event list \<Rightarrow> worker_state \<Rightarrow> bool" where
  "worker_ok evs s \<longleftrightarrow> reaches (k_cfg s) (run_events evs) (k_pool s) \<and> distinct (clients s)
     \<and> held (k_trace s) = Some (open_clients s (k_pc s)) \<and> {r. Used r \<in> set (k_trace s)} \<subseteq> set (clients s)
     \<and> (case k_pc s of KRun \<Rightarrow> True
        | KDefer err rs \<Rightarrow> pl_run (k_pool s) = RReturned \<and> pl_consume (k_pool s) = CReturned err
            \<and> (\<exists>us. clients s = us @ rs) \<and> rs \<noteq> []
        | KReturned err \<Rightarrow> pl_run (k_pool s) = RReturned \<and> pl_consume (k_pool s) = CReturned err)"

text \<open>Once \<open>Worker.Run\<close> has returned nothing of it is left: the one step that remains is a signal.\<close>

lemma returned_pool_quiet:
  assumes "reaches cfg evs p" and "pl_run p = RReturned"
  shows "pl_jobs p = [] \<and> \<not> pl_maint p \<and> pl_ctx_done p \<and> (\<exists>r. pl_consume p = CReturned r)
    \<and> (pool_step cfg ev p = Some p' \<longrightarrow> ev = ECancel \<and> p' = p\<lparr>pl_ctx_done := True\<rparr>)"
proof -
  have "run_ok p" using reaches_ok [OF assms(1)] by simp
  then have q: "pl_jobs p = []" "\<not> pl_maint p" "pl_ctx_done p" "\<exists>r. pl_consume p = CReturned r"
    using assms(2) by (auto simp: run_ok_def)
  moreover have "pool_step cfg ev p = Some p' \<longrightarrow> ev = ECancel \<and> p' = p\<lparr>pl_ctx_done := True\<rparr>"
    using q assms(2) by (cases ev) (auto simp: pool_step_def job_ends_def split: if_splits)
  ultimately show ?thesis by blast
qed

lemma held_uses: "held t = Some h \<Longrightarrow> set rs \<subseteq> set h \<Longrightarrow> held (t @ map Used rs) = Some h"
proof -
  have "set rs \<subseteq> set h \<Longrightarrow> held_from h (map Used rs) = Some h" by (induction rs) simp_all
  then show "held t = Some h \<Longrightarrow> set rs \<subseteq> set h \<Longrightarrow> held (t @ map Used rs) = Some h" by (simp add: held_append)
qed

lemma step_uses_clients: "set (step_uses s ev) \<subseteq> set (clients s)"
  by (auto simp: step_uses_def clients_def split: pool_event.splits consume_pc.splits sum.splits)

lemma client_of_clients: "client_of s c \<in> set (clients s)"
  by (cases c) (simp_all add: clients_def)

lemma worker_use_ok:
  assumes "worker_ok evs s" and "k_pc s = KRun" and "set rs \<subseteq> set (clients s)"
  shows "held (k_trace s @ map Used rs) = Some (clients s) \<and> {r. Used r \<in> set (k_trace s @ map Used rs)} \<subseteq> set (clients s)"
  using assms held_uses [of "k_trace s" "clients s" rs] by (auto simp: worker_ok_def)

lemma worker_step_ok:
  assumes "worker_ok evs s" and "worker_step ev s = Some s'"
  shows "worker_ok (evs @ [ev]) s'"
proof -
  have r: "reaches (k_cfg s) (run_events evs) (k_pool s)" using assms(1) by (simp add: worker_ok_def)
  have q: "pl_run (k_pool s) = RReturned" if "k_pc s \<noteq> KRun"
    using assms(1) that by (cases "k_pc s") (simp_all add: worker_ok_def)
  show ?thesis
  proof (cases ev)
    case (WPool e)
    then obtain p where p: "pool_step (k_cfg s) e (k_pool s) = Some p"
      "s' = s\<lparr>k_pool := p, k_trace := k_trace s @ map Used (step_uses s e)\<rparr>"
      using assms(2) by (auto split: option.splits)
    have r': "reaches (k_cfg s) (run_events (evs @ [ev])) p"
      using reaches_step [OF r p(1)] by (simp add: WPool run_events_append)
    show ?thesis
    proof (cases "k_pc s = KRun")
      case True
      with worker_use_ok [OF assms(1) True step_uses_clients [of s e]] r' assms(1)
      show ?thesis by (simp add: worker_ok_def p(2) clients_def)
    next
      case False
      from returned_pool_quiet [OF r q [OF False], of e p] p(1) have "e = ECancel" "p = k_pool s\<lparr>pl_ctx_done := True\<rparr>" by simp_all
      with assms(1) r' p(2) False show ?thesis
        by (cases "k_pc s") (simp_all add: worker_ok_def step_uses_def clients_def)
    qed
  next
    case (WJob i c)
    then have i: "i < length (pl_jobs (k_pool s))" "s' = s\<lparr>k_trace := k_trace s @ map Used [client_of s c]\<rparr>"
      using assms(2) by (auto split: if_splits)
    with returned_pool_quiet [OF r] q have k: "k_pc s = KRun" by fastforce
    with worker_use_ok [OF assms(1) k, of "[client_of s c]"] client_of_clients [of s c] assms(1) i(2) show ?thesis
      by (simp add: worker_ok_def clients_def run_events_append WJob)
  next
    case (WMaint c)
    then have i: "pl_maint (k_pool s)" "s' = s\<lparr>k_trace := k_trace s @ map Used [client_of s c]\<rparr>"
      using assms(2) by (auto split: if_splits)
    with returned_pool_quiet [OF r] q have k: "k_pc s = KRun" by fastforce
    with worker_use_ok [OF assms(1) k, of "[client_of s c]"] client_of_clients [of s c] assms(1) i(2) show ?thesis
      by (simp add: worker_ok_def clients_def run_events_append WMaint)
  next
    case WRunEnds
    then obtain err where "k_pc s = KRun" "pl_run (k_pool s) = RReturned" "pl_consume (k_pool s) = CReturned err"
      "s' = s\<lparr>k_pc := KDefer err [k_reader s, k_pub s, k_db s]\<rparr>"
      using assms(2) by (auto split: worker_pc.splits run_pc.splits consume_pc.splits)
    with assms(1) show ?thesis by (simp add: worker_ok_def clients_def run_events_append WRunEnds)
  next
    case WClose
    then obtain err r rs where c: "k_pc s = KDefer err (r # rs)"
      "s' = s\<lparr>k_trace := k_trace s @ [Released r], k_pc := (if rs = [] then KReturned err else KDefer err rs)\<rparr>"
      using assms(2) by (auto split: worker_pc.splits list.splits)
    then obtain us where us: "clients s = us @ r # rs" using assms(1) by (auto simp: worker_ok_def)
    have "clients s' = clients s" "clients s = (us @ [r]) @ rs" by (simp_all add: c(2) clients_def us [unfolded clients_def])
    with c assms(1) show ?thesis
      by (auto simp: worker_ok_def held_append run_events_append WClose)
  qed
qed

lemma worker_steps_ok_from:
  assumes "worker_ok xs s0"
  shows "worker_steps evs s0 = Some s \<Longrightarrow> worker_ok (xs @ evs) s"
proof (induction evs arbitrary: s rule: rev_induct)
  case (snoc ev evs)
  obtain q where "worker_steps evs s0 = Some q" "worker_step ev q = Some s" by (rule worker_steps_snoc [OF snoc.prems])
  with snoc.IH worker_step_ok [of "xs @ evs" q ev s] show ?case by simp
qed (use assms in simp)

lemma worker_step_clients: "worker_step ev s = Some s' \<Longrightarrow> clients s' = clients s"
  by (cases ev) (auto simp: clients_def split: option.splits if_splits worker_pc.splits run_pc.splits consume_pc.splits list.splits)

lemma worker_steps_clients: "worker_steps evs s = Some s' \<Longrightarrow> clients s' = clients s"
  by (induction evs arbitrary: s) (auto split: option.splits dest: worker_step_clients)

lemma OpenDB_unused:
  assumes "OpenDB w = Some (r, t)"
  shows "Used x \<notin> set t"
proof -
  have "Used x \<notin> set (snd (Open a dsn))" for a dsn
    by (cases "pg_parse a dsn"; cases "pg_new a"; cases "pg_ping a") (simp_all add: Open_def Let_def)
  then show ?thesis using assms by (auto simp: OpenDB_def Let_def split: option.splits prod.splits)
qed

text \<open>A process that came up: its clients are a pool, and a writer and a reader of one topic.\<close>

definition worker_up :: "outside \<Rightarrow> worker_state \<Rightarrow> bool" where
  "worker_up w s \<longleftrightarrow> loadConfig (y_env w) (y_host w) (y_pid w) (y_output_dir w) = Inr (k_cfg s)
     \<and> k_pool s = start_pool \<and> k_pc s = KRun \<and> worker_ok [] s
     \<and> (\<exists>db pub reader. clients s = [RReader reader, RWriter pub, RPool db] \<and> rd_topic reader = wr_topic pub
          \<and> rd_brokers reader = wr_brokers pub \<and> rd_brokers reader \<noteq> [])"

lemma worker_start_ends:
  assumes "polite w"
  obtains (fails) e t where "worker_start w = Some (Inl (e, t))" "held t = Some []" "\<And>r. Used r \<notin> set t"
    | (starts) s where "worker_start w = Some (Inr s)" "worker_up w s"
proof (cases "loadConfig (y_env w) (y_host w) (y_pid w) (y_output_dir w)")
  case (Inl e)
  with fails [of e "[]"] show thesis by (simp add: worker_start_def)
next
  case cfg: (Inr cfg)
  let ?brokers = "kafka_brokers (y_env w)"
  obtain r t where db: "OpenDB w = Some (r, t)" "held t = Some (case r of Inl e \<Rightarrow> [] | Inr pool \<Rightarrow> [RPool pool])"
    by (rule OpenDB_ends [OF assms(1)])
  note unused = OpenDB_unused [OF db(1)]
  obtain q where q: "WaitForTopic w ?brokers = Some q" "\<And>n. q = Inr n \<Longrightarrow> ?brokers \<noteq> []"
    using WaitForTopic_ends [OF assms(1), of ?brokers] by metis
  show thesis
  proof (cases r)
    case (Inl e)
    with fails [of e t] db unused cfg show thesis by (simp add: worker_start_def)
  next
    case pool: (Inr pool)
    show thesis
    proof (cases q)
      case (Inl e)
      with fails [of e "t @ [Released (RPool pool)]"] db unused cfg pool q(1) show thesis by (simp add: worker_start_def held_append)
    next
      case (Inr n)
      let ?pub = "NewPublisher ?brokers" and ?reader = "NewConsumer ?brokers"
      let ?s = "\<lparr>k_cfg = cfg, k_db = RPool pool, k_pub = RWriter ?pub, k_reader = RReader ?reader, k_pool = start_pool, k_pc = KRun,
              k_trace = t @ [Acquired (RWriter ?pub), Acquired (RReader ?reader)]\<rparr>"
      have "worker_start w = Some (Inr ?s)" using cfg db(1) pool q(1) Inr by (simp add: worker_start_def Let_def)
      moreover have "worker_ok [] ?s" using db(2) pool unused
        by (auto simp: worker_ok_def clients_def held_append reaches_start)
      then have "worker_up w ?s" unfolding worker_up_def using cfg q(2) [OF Inr]
        by (simp add: clients_def NewPublisher_def NewConsumer_def)
      ultimately show thesis by (rule starts)
    qed
  qed
qed

text \<open>The machine of \<open>Worker.Run\<close> inside the process.\<close>

lemma worker_pool_steps:
  assumes "pool_steps (k_cfg s) evs (k_pool s) = Some p"
  shows "\<exists>t. worker_steps (map WPool evs) s = Some (s\<lparr>k_pool := p, k_trace := t\<rparr>)"
  using assms
proof (induction evs arbitrary: s)
  case Nil
  then show ?case by (intro exI [of _ "k_trace s"]) simp
next
  case (Cons ev evs)
  then obtain q where q: "pool_step (k_cfg s) ev (k_pool s) = Some q" "pool_steps (k_cfg s) evs q = Some p" by (auto split: option.splits)
  let ?s = "s\<lparr>k_pool := q, k_trace := k_trace s @ map Used (step_uses s ev)\<rparr>"
  have "pool_steps (k_cfg ?s) evs (k_pool ?s) = Some p" using q(2) by simp
  from Cons.IH [OF this] obtain t where "worker_steps (map WPool evs) ?s = Some (s\<lparr>k_pool := p, k_trace := t\<rparr>)" by auto
  with q(1) show ?case by (intro exI [of _ t]) simp
qed

lemma worker_can_close:
  assumes "worker_ok evs s" and "k_pc s \<noteq> KRun"
  shows "\<exists>n s' err. n \<le> 3 \<and> worker_steps (replicate n WClose) s = Some s' \<and> k_pc s' = KReturned err"
proof (cases "k_pc s")
  case (KDefer err rs)
  then obtain us where us: "clients s = us @ rs" "rs \<noteq> []" using assms(1) by (auto simp: worker_ok_def)
  have "\<exists>s'. worker_steps (replicate (length rs) WClose) s = Some s' \<and> k_pc s' = KReturned err"
    using KDefer us(2)
  proof (induction rs arbitrary: s)
    case (Cons r rs)
    show ?case
    proof (cases "rs = []")
      case False
      from Cons.IH [OF _ False, of "s\<lparr>k_trace := k_trace s @ [Released r], k_pc := KDefer err rs\<rparr>"] Cons.prems(1) False show ?thesis by simp
    qed (use Cons.prems in simp)
  qed simp
  moreover have "length rs \<le> 3" using arg_cong [OF us(1), of length] by (simp add: clients_def)
  ultimately show ?thesis by blast
next
  case (KReturned err)
  then show ?thesis by (intro exI [of _ 0] exI [of _ s] exI [of _ err]) simp
qed (use assms(2) in simp)

lemma worker_can_end:
  assumes "worker_ok evs s" and "pl_ctx_done (k_pool s)"
  shows "\<exists>evs' s' err. worker_steps evs' s = Some s' \<and> k_pc s' = KReturned err \<and> length evs' \<le> length (pl_jobs (k_pool s)) + 12"
proof (cases "k_pc s = KRun")
  case False
  from worker_can_close [OF assms(1) False] obtain n s' err
    where "n \<le> 3" "worker_steps (replicate n WClose) s = Some s'" "k_pc s' = KReturned err" by blast
  then show ?thesis by (intro exI [of _ "replicate n WClose"] exI [of _ s'] exI [of _ err]) simp
next
  case True
  have r: "reaches (k_cfg s) (run_events evs) (k_pool s)" using assms(1) by (simp add: worker_ok_def)
  obtain evs1 p where e: "pool_steps (k_cfg s) evs1 (k_pool s) = Some p" "pl_run p = RReturned"
    "length evs1 \<le> length (pl_jobs (k_pool s)) + 8"
    using run_can_end [OF r assms(2)] by blast
  obtain err where err: "pl_consume p = CReturned err"
    using returned_pool_quiet [OF reaches_steps [OF r e(1)] e(2)] by blast
  obtain t where t: "worker_steps (map WPool evs1) s = Some (s\<lparr>k_pool := p, k_trace := t\<rparr>)" using worker_pool_steps [OF e(1)] by blast
  let ?rs = "[k_reader s, k_pub s, k_db s]"
  let ?q = "s\<lparr>k_pool := p, k_trace := t, k_pc := KDefer err ?rs\<rparr>"
  have q: "worker_steps (map WPool evs1 @ [WRunEnds]) s = Some ?q" using t True e(2) err by (simp add: worker_steps_append)
  from worker_can_close [of "evs @ map WPool evs1 @ [WRunEnds]" ?q] worker_steps_ok_from [OF assms(1) q]
  obtain n s' err' where "n \<le> 3" "worker_steps (replicate n WClose) ?q = Some s'" "k_pc s' = KReturned err'" by auto
  moreover have "worker_steps ((map WPool evs1 @ [WRunEnds]) @ replicate n WClose) s = worker_steps (replicate n WClose) ?q"
    unfolding worker_steps_append [of "map WPool evs1 @ [WRunEnds]"] q by simp
  ultimately show ?thesis using e(3)
    by (intro exI [of _ "(map WPool evs1 @ [WRunEnds]) @ replicate n WClose"] exI [of _ s'] exI [of _ err']) simp
qed

text \<open>What holds of a process in a state \<open>s\<close> it reached from its start \<open>s0\<close>.\<close>

definition worker_sound :: "outside \<Rightarrow> worker_state \<Rightarrow> worker_event list \<Rightarrow> worker_state \<Rightarrow> bool" where
  "worker_sound w s0 evs s \<longleftrightarrow>
     held (k_trace s) \<noteq> None \<and> {r. Used r \<in> set (k_trace s)} \<subseteq> set (clients s0)
   \<and> (\<forall>err. k_pc s = KReturned err \<longrightarrow> held (k_trace s) = Some []
        \<and> pl_run (k_pool s) = RReturned \<and> pl_consume (k_pool s) = CReturned err \<and> pl_ctx_done (k_pool s)
        \<and> mset (claims_of (k_cfg s) [] (run_events evs)) = mset (pl_executed (k_pool s))
        \<and> worker_run w evs = Some (err, k_trace s) \<and> worker_main w evs = Some (if err = None then 0 else 1))
   \<and> (pl_ctx_done (k_pool s) \<longrightarrow> (\<exists>evs' s' err. worker_steps evs' s = Some s' \<and> k_pc s' = KReturned err
        \<and> length evs' \<le> length (pl_jobs (k_pool s)) + 12))"

lemma worker_steps_sound:
  assumes "worker_start w = Some (Inr s0)" and "worker_up w s0" and "worker_steps evs s0 = Some s"
  shows "worker_sound w s0 evs s"
proof -
  have ok: "worker_ok evs s" using worker_steps_ok_from [OF _ assms(3), of "[]"] assms(2) by (simp add: worker_up_def)
  have c: "clients s = clients s0" by (rule worker_steps_clients [OF assms(3)])
  have r: "reaches (k_cfg s) (run_events evs) (k_pool s)" using ok by (simp add: worker_ok_def)
  have ret: "held (k_trace s) = Some [] \<and> pl_run (k_pool s) = RReturned \<and> pl_consume (k_pool s) = CReturned err \<and> pl_ctx_done (k_pool s)
        \<and> mset (claims_of (k_cfg s) [] (run_events evs)) = mset (pl_executed (k_pool s))
        \<and> worker_run w evs = Some (err, k_trace s) \<and> worker_main w evs = Some (if err = None then 0 else 1)"
    if "k_pc s = KReturned err" for err
  proof -
    have p: "held (k_trace s) = Some []" "pl_run (k_pool s) = RReturned" "pl_consume (k_pool s) = CReturned err"
      using ok that by (simp_all add: worker_ok_def)
    have m: "pl_ctx_done (k_pool s)" "pl_jobs (k_pool s) = []" using returned_pool_quiet [OF r p(2)] by blast+
    have "mset (claims_of (k_cfg s) [] (run_events evs)) = mset (pl_executed (k_pool s))"
      using reaches_ok [OF r] m(2) p(3) by (simp add: pool_ok_def)
    moreover have "worker_run w evs = Some (err, k_trace s)" using assms(1,3) that by (simp add: worker_run_def)
    ultimately show ?thesis using p m(1) by (simp add: worker_main_def exit_code_def)
  qed
  have "held (k_trace s) \<noteq> None" "{r. Used r \<in> set (k_trace s)} \<subseteq> set (clients s0)" using ok c by (simp_all add: worker_ok_def)
  moreover note worker_can_end [OF ok]
  ultimately show ?thesis unfolding worker_sound_def using ret by simp
qed


section \<open>A start at which everything is ready\<close>

lemma demo_worker_starts: "\<exists>s. worker_start demo_outside = Some (Inr s) \<and> worker_up demo_outside s"
proof -
  obtain db t where "OpenDB demo_outside = Some (Inr db, t)" using demo_opens(1) by blast
  moreover have "y_env demo_outside = (\<lambda>_. [])" "y_host demo_outside = ''host''" "y_pid demo_outside = 7"
    "y_output_dir demo_outside = ''/tmp/jobsys-output''" by (simp_all add: demo_outside_def)
  ultimately obtain s where "worker_start demo_outside = Some (Inr s)"
    using demo_opens(2) demo_brokers loadConfig_default by (simp add: worker_start_def Let_def)
  then show ?thesis using worker_start_ends [OF demo_polite] by (metis Inl_Inr_False Inr_inject option.inject)
qed


end
