(* ===== verification/ApiProcess.thy ===== *)
theory ApiProcess
  imports Startup
begin

text \<open>
  The command \<open>cmd/api/main.go\<close> from its start to its exit code: a machine whose events are those of the
  scheduler, the listener, the request handlers, the clock and \<open>serve\<close> itself. An event list is one
  interleaving. Each use of the pool or the publisher and each \<open>Close\<close> goes into a trace, in the order they
  happen.
\<close>

section \<open>The API\<close>

datatype serve_pc = VSelect | VShutdown | VJoin "error option" | VDefer "error option" "resource list" | VReturned "error option"

record serve_state =
  v_addr :: string
  v_every :: duration
  v_pool :: resource
  v_pub :: resource
  v_done :: bool                  \<comment> \<open>\<open>ctx\<close> is cancelled\<close>
  v_sched :: bool                 \<comment> \<open>the scheduler's goroutine runs; \<open>schedDone\<close> is closed when not\<close>
  v_listening :: bool             \<comment> \<open>\<open>ListenAndServe\<close> has not returned\<close>
  v_requests :: nat               \<comment> \<open>the requests whose handler has not returned\<close>
  v_errc :: "error list"
  v_clock :: duration             \<comment> \<open>since the start\<close>
  v_deadline :: duration          \<comment> \<open>of \<open>shutdownCtx\<close>\<close>
  v_pc :: serve_pc
  v_trace :: "proc_event list"

datatype serve_event =
    SvCancel                      \<comment> \<open>a signal cancels \<open>ctx\<close>\<close>
  | SvTime duration               \<comment> \<open>time passes\<close>
  | SvSched client                \<comment> \<open>the scheduler queries the store or dispatches\<close>
  | SvSchedEnds                   \<comment> \<open>\<open>Scheduler.Run\<close> sees the cancelled context\<close>
  | SvListenEnds error            \<comment> \<open>\<open>ListenAndServe\<close> returns, always with an error\<close>
  | SvAccept                      \<comment> \<open>a request comes in, and its handler starts\<close>
  | SvHandle client               \<comment> \<open>a handler queries the store or dispatches\<close>
  | SvAnswered                    \<comment> \<open>a handler returns\<close>
  | SvErr                         \<comment> \<open>\<open><-errc\<close> in the \<open>select\<close>\<close>
  | SvDone                        \<comment> \<open>\<open><-ctx.Done()\<close> in the \<open>select\<close>, and \<open>srv.Shutdown\<close> is called\<close>
  | SvIdle                        \<comment> \<open>\<open>srv.Shutdown\<close> finds no open request\<close>
  | SvDeadline                    \<comment> \<open>\<open>srv.Shutdown\<close> sees the deadline of its context\<close>
  | SvJoin                        \<comment> \<open>\<open><-schedDone\<close>\<close>
  | SvClose                       \<comment> \<open>the next deferred call of \<open>serve\<close>\<close>

definition shutdownGrace :: duration where "shutdownGrace = 10 * Second"

definition serve_client :: "serve_state \<Rightarrow> client \<Rightarrow> resource" where
  "serve_client s c = (case c of ToStore \<Rightarrow> v_pool s | ToBroker \<Rightarrow> v_pub s)"

text \<open>\<open>serve\<close> returns: its deferred calls close the publisher and the pool.\<close>

definition serve_returns :: "error option \<Rightarrow> serve_state \<Rightarrow> serve_state" where
  "serve_returns err s = s\<lparr>v_pc := VDefer err [v_pub s, v_pool s]\<rparr>"

text \<open>
  \<open>net/http\<close>: a request is served by a goroutine of its own, with the clients \<open>NewServer\<close> was given;
  \<open>Shutdown\<close> closes the listeners, so that no request comes in any more, and polls until no request is
  open or its context has ended. It neither ends nor cancels the requests that are open.
\<close>

fun serve_step :: "serve_event \<Rightarrow> serve_state \<Rightarrow> serve_state option" where
  "serve_step SvCancel s = Some (s\<lparr>v_done := True\<rparr>)"
| "serve_step (SvTime t) s = (if 0 \<le> t then Some (s\<lparr>v_clock := v_clock s + t\<rparr>) else None)"
| "serve_step (SvSched c) s =
     (if v_sched s then Some (s\<lparr>v_trace := v_trace s @ [Used (serve_client s c)]\<rparr>) else None)"
| "serve_step SvSchedEnds s = (if v_sched s \<and> v_done s then Some (s\<lparr>v_sched := False\<rparr>) else None)"
| "serve_step (SvListenEnds e) s =
     (if v_listening s then Some (s\<lparr>v_listening := False, v_errc := v_errc s @ [e]\<rparr>) else None)"
| "serve_step SvAccept s =
     (if v_listening s \<and> v_pc s = VSelect then Some (s\<lparr>v_requests := v_requests s + 1\<rparr>) else None)"
| "serve_step (SvHandle c) s =
     (if 0 < v_requests s then Some (s\<lparr>v_trace := v_trace s @ [Used (serve_client s c)]\<rparr>) else None)"
| "serve_step SvAnswered s = (if 0 < v_requests s then Some (s\<lparr>v_requests := v_requests s - 1\<rparr>) else None)"
| "serve_step SvErr s = (case v_errc s of
     e # _ \<Rightarrow> if v_pc s = VSelect then Some (serve_returns (Some e) (s\<lparr>v_errc := []\<rparr>)) else None | [] \<Rightarrow> None)"
| "serve_step SvDone s =
     (if v_pc s = VSelect \<and> v_done s then Some (s\<lparr>v_pc := VShutdown, v_deadline := v_clock s + shutdownGrace\<rparr>) else None)"
| "serve_step SvIdle s = (if v_pc s = VShutdown \<and> v_requests s = 0 then Some (s\<lparr>v_pc := VJoin None\<rparr>) else None)"
| "serve_step SvDeadline s =
     (if v_pc s = VShutdown \<and> v_deadline s \<le> v_clock s then Some (s\<lparr>v_pc := VJoin (Some ErrDeadline)\<rparr>) else None)"
| "serve_step SvJoin s = (case v_pc s of
     VJoin err \<Rightarrow> if v_sched s then None else Some (serve_returns err s) | _ \<Rightarrow> None)"
| "serve_step SvClose s = (case v_pc s of
     VDefer err (r # rs) \<Rightarrow> Some (s\<lparr>v_trace := v_trace s @ [Close r], v_pc := (if rs = [] then VReturned err else VDefer err rs)\<rparr>)
   | _ \<Rightarrow> None)"

fun serve_steps :: "serve_event list \<Rightarrow> serve_state \<Rightarrow> serve_state option" where
  "serve_steps [] s = Some s"
| "serve_steps (ev # evs) s = (case serve_step ev s of None \<Rightarrow> None | Some s' \<Rightarrow> serve_steps evs s')"

text \<open>\<open>serve\<close> up to its \<open>select\<close>: an error and what was opened and closed, or the running machine.\<close>

definition serve_start :: "outside \<Rightarrow> (error \<times> proc_event list + serve_state) option" where
  "serve_start w =
     (let brokers = kafka_brokers (y_env w); addr = '':'' @ Env (y_env w) ''PORT'' ''8080'' in
      case EnvDuration (y_env w) ''SCHEDULER_INTERVAL'' (2 * Second) of
        Inl e \<Rightarrow> Some (Inl (e, []))
      | Inr every \<Rightarrow> (case OpenDB w of
          None \<Rightarrow> None
        | Some (Inl e, t) \<Rightarrow> Some (Inl (e, t))
        | Some (Inr pool, t) \<Rightarrow> (case WaitForTopic w brokers of
            None \<Rightarrow> None
          | Some (Inl e) \<Rightarrow> Some (Inl (e, t @ [Close (RPool pool)]))
          | Some (Inr partitions) \<Rightarrow>
              (let pub = RWriter (NewPublisher brokers) in
               Some (Inr \<lparr>v_addr = addr, v_every = every, v_pool = RPool pool, v_pub = pub, v_done = False, v_sched = True,
                 v_listening = True, v_requests = 0, v_errc = [], v_clock = 0, v_deadline = 0, v_pc = VSelect,
                 v_trace = t @ [Acquired pub]\<rparr>)))))"

definition serve :: "outside \<Rightarrow> serve_event list \<Rightarrow> (error option \<times> proc_event list) option" where
  "serve w evs = (case serve_start w of
     None \<Rightarrow> None
   | Some (Inl (e, t)) \<Rightarrow> Some (Some e, t)
   | Some (Inr s) \<Rightarrow> (case serve_steps evs s of
       None \<Rightarrow> None
     | Some s' \<Rightarrow> (case v_pc s' of VReturned err \<Rightarrow> Some (err, v_trace s') | _ \<Rightarrow> None)))"

definition api_main ::
  "string list \<Rightarrow> outside \<Rightarrow> serve_event list \<Rightarrow> 's mig_env \<Rightarrow> string list \<Rightarrow> 's mig_db \<Rightarrow> (int \<times> 's mig_db) option" where
  "api_main args w evs g files d =
     (if 1 < length args \<and> args ! 1 = ''migrate''
      then map_option (\<lambda>((err, t), d'). (exit_code err, d')) (migrate w g files d)
      else map_option (\<lambda>(err, t). (exit_code err, d)) (serve w evs))"

section \<open>The API from start to exit\<close>

lemma serve_steps_append: "serve_steps (xs @ ys) s = Option.bind (serve_steps xs s) (serve_steps ys)"
  by (induction xs arbitrary: s) (auto split: option.split)

lemma serve_steps_snoc:
  assumes "serve_steps (evs @ [ev]) s = Some s'"
  obtains q where "serve_steps evs s = Some q" "serve_step ev q = Some s'"
  using assms by (cases "serve_steps evs s") (auto simp: serve_steps_append split: option.splits)

text \<open>The time that passes in an interleaving, and in what follows \<open>serve\<close>'s call of \<open>Shutdown\<close>.\<close>

fun passed :: "serve_event list \<Rightarrow> duration" where
  "passed [] = 0"
| "passed (SvTime t # evs) = t + passed evs"
| "passed (_ # evs) = passed evs"

fun waited :: "serve_event list \<Rightarrow> duration" where
  "waited [] = 0"
| "waited (SvDone # evs) = passed evs"
| "waited (_ # evs) = waited evs"

lemma passed_append: "passed (xs @ ys) = passed xs + passed ys"
  by (induction xs rule: passed.induct) simp_all

lemma waited_snoc: "waited (evs @ [ev]) = (if SvDone \<in> set evs then waited evs + passed [ev] else 0)"
  by (induction evs rule: waited.induct) (cases ev; simp add: passed_append)+

text \<open>What is still open of the two clients.\<close>

fun open_of :: "serve_state \<Rightarrow> serve_pc \<Rightarrow> resource list" where
  "open_of s (VDefer err rs) = rs"
| "open_of s (VReturned err) = []"
| "open_of s _ = [v_pub s, v_pool s]"

text \<open>The error of a \<open>Shutdown\<close> that has ended.\<close>

fun shutdown_error :: "serve_pc \<Rightarrow> error option option" where
  "shutdown_error (VJoin err) = Some err"
| "shutdown_error (VDefer err rs) = Some err"
| "shutdown_error (VReturned err) = Some err"
| "shutdown_error _ = None"

text \<open>
  What holds of \<open>serve\<close> until it takes the error of \<open>ListenAndServe\<close>, and as long as no handler used a
  client that was closed.
\<close>

definition serve_ok :: "serve_event list \<Rightarrow> serve_state \<Rightarrow> bool" where
  "serve_ok evs s \<longleftrightarrow> v_pub s \<noteq> v_pool s \<and> (v_done s \<longleftrightarrow> SvCancel \<in> set evs)
   \<and> (v_pc s = VSelect \<longleftrightarrow> SvDone \<notin> set evs) \<and> (v_pc s \<noteq> VSelect \<longrightarrow> v_done s \<and> v_clock s = v_deadline s - shutdownGrace + waited evs)
   \<and> (case v_pc s of VDefer err rs \<Rightarrow> \<not> v_sched s \<and> rs \<in> {[v_pub s, v_pool s], [v_pool s]} | VReturned err \<Rightarrow> \<not> v_sched s | _ \<Rightarrow> True)
   \<and> (case shutdown_error (v_pc s) of None \<Rightarrow> SvDeadline \<notin> set evs | Some None \<Rightarrow> v_requests s = 0 \<and> SvDeadline \<notin> set evs
      | Some (Some e) \<Rightarrow> e = ErrDeadline \<and> SvDeadline \<in> set evs \<and> shutdownGrace \<le> waited evs)"

definition serve_tidy :: "serve_state \<Rightarrow> bool" where
  "serve_tidy s \<longleftrightarrow> held (v_trace s) = Some (open_of s (v_pc s))"

text \<open>A handler at work after the deadline, once the deferred calls have begun.\<close>

definition outlived :: "serve_state \<Rightarrow> bool" where
  "outlived s \<longleftrightarrow> 0 < v_requests s \<and> shutdown_error (v_pc s) = Some (Some ErrDeadline)"

text \<open>A step that moves neither \<open>serve\<close> nor the clock.\<close>

lemma serve_ok_frame:
  assumes "serve_ok evs s" and "ev \<notin> {SvDone, SvDeadline}" and "passed [ev] = 0"
    and "v_pub s' = v_pub s" and "v_pool s' = v_pool s" and "v_pc s' = v_pc s" and "v_deadline s' = v_deadline s" and "v_clock s' = v_clock s"
    and "v_sched s' \<longrightarrow> v_sched s" and "v_done s' \<longleftrightarrow> v_done s \<or> ev = SvCancel" and "v_requests s' \<le> v_requests s \<or> v_pc s = VSelect"
  shows "serve_ok (evs @ [ev]) s'"
proof -
  have w: "SvDone \<in> set evs \<Longrightarrow> waited (evs @ [ev]) = waited evs" using assms(3) by (simp add: waited_snoc)
  have e: "SvCancel \<in> set (evs @ [ev]) \<longleftrightarrow> SvCancel \<in> set evs \<or> ev = SvCancel" "SvDone \<in> set (evs @ [ev]) \<longleftrightarrow> SvDone \<in> set evs"
    "SvDeadline \<in> set (evs @ [ev]) \<longleftrightarrow> SvDeadline \<in> set evs" using assms(2) by auto
  show ?thesis
    using assms(1,9,11) w unfolding serve_ok_def e assms(4-8,10)
    by (cases "v_pc s") (auto split: option.splits)
qed

lemma serve_step_ok:
  assumes "serve_ok evs s" and "serve_step ev s = Some s'" and "ev \<noteq> SvErr"
  shows "serve_ok (evs @ [ev]) s'"
proof -
  note d = serve_ok_def waited_snoc serve_returns_def
  note frame = serve_ok_frame [OF assms(1), of ev s']
  show ?thesis
  proof (cases ev)
    case SvDone
    then have "v_pc s = VSelect" "v_done s" "s' = s\<lparr>v_pc := VShutdown, v_deadline := v_clock s + shutdownGrace\<rparr>"
      using assms(2) by (simp_all split: if_splits)
    with assms(1) SvDone show ?thesis by (simp add: d)
  next
    case SvIdle
    then have i: "v_pc s = VShutdown" "v_requests s = 0" "s' = s\<lparr>v_pc := VJoin None\<rparr>" using assms(2) by (simp_all split: if_splits)
    then have "v_done s" "SvDone \<in> set evs" using assms(1) by (auto simp: serve_ok_def)
    then have "SvCancel \<in> set evs" "SvDone \<in> set evs" using assms(1) unfolding serve_ok_def by blast+
    with i assms(1) SvIdle show ?thesis by (simp add: d)
  next
    case SvDeadline
    then have "v_pc s = VShutdown" "v_deadline s \<le> v_clock s" "s' = s\<lparr>v_pc := VJoin (Some ErrDeadline)\<rparr>" using assms(2) by (simp_all split: if_splits)
    moreover from this have "v_done s" "SvDone \<in> set evs" using assms(1) by (auto simp: serve_ok_def)
    ultimately show ?thesis using assms(1) SvDeadline by (simp add: d)
  next
    case SvJoin
    then obtain err where "v_pc s = VJoin err" "\<not> v_sched s" "s' = serve_returns err s"
      using assms(2) by (simp split: serve_pc.splits if_splits)
    moreover from this have "v_done s" "SvDone \<in> set evs" using assms(1) by (auto simp: serve_ok_def)
    ultimately show ?thesis using assms(1) SvJoin by (simp add: d split: option.splits)
  next
    case SvClose
    then obtain err r rs where "v_pc s = VDefer err (r # rs)"
      "s' = s\<lparr>v_trace := v_trace s @ [Released r], v_pc := (if rs = [] then VReturned err else VDefer err rs)\<rparr>"
      using assms(2) by (auto split: serve_pc.splits list.splits)
    moreover from this have "v_done s" "SvDone \<in> set evs" using assms(1) by (auto simp: serve_ok_def)
    ultimately show ?thesis using assms(1) SvClose by (cases rs) (simp_all add: d split: option.splits)
  next
    case (SvTime t)
    then have "s' = s\<lparr>v_clock := v_clock s + t\<rparr>" "0 \<le> t" using assms(2) by (simp_all split: if_splits)
    with assms(1) SvTime show ?thesis by (cases "v_pc s") (auto simp: d split: option.splits)
  qed (use assms(2,3) frame in \<open>auto split: if_splits\<close>)
qed

text \<open>As long as nothing outlives the shutdown, the trace is in order.\<close>

lemma serve_step_tidy:
  assumes "serve_ok evs s" and "serve_tidy s" and "serve_step ev s = Some s'" and "ev \<noteq> SvErr"
  shows "serve_tidy s' \<or> held (v_trace s') = None \<and> (\<exists>c. ev = SvHandle c \<and> outlived s)"
proof -
  have use: "held (v_trace s @ [Used r]) = (if r \<in> set (open_of s (v_pc s)) then Some (open_of s (v_pc s)) else None)" for r
    using assms(2) by (simp add: serve_tidy_def held_append)
  have both: "serve_client s c \<in> set [v_pub s, v_pool s]" for c by (cases c) (simp_all add: serve_client_def)
  have open': "open_of s' q = open_of s q" for q
    using assms(3) by (cases q; cases ev) (auto simp: serve_returns_def split: if_splits serve_pc.splits list.splits)
  show ?thesis
  proof (cases ev)
    case (SvSched c)
    then have "v_sched s" "s' = s\<lparr>v_trace := v_trace s @ [Used (serve_client s c)]\<rparr>" using assms(3) by (simp_all split: if_splits)
    moreover from this have "open_of s (v_pc s) = [v_pub s, v_pool s]" using assms(1) by (cases "v_pc s") (simp_all add: serve_ok_def)
    ultimately show ?thesis using use both open' by (simp add: serve_tidy_def)
  next
    case (SvHandle c)
    then have h: "0 < v_requests s" "s' = s\<lparr>v_trace := v_trace s @ [Used (serve_client s c)]\<rparr>" using assms(3) by (simp_all split: if_splits)
    show ?thesis
    proof (cases "serve_client s c \<in> set (open_of s (v_pc s))")
      case True
      then show ?thesis using use open' h(2) by (simp add: serve_tidy_def)
    next
      case False
      with both [of c] have "open_of s (v_pc s) \<noteq> [v_pub s, v_pool s]" by metis
      then have "outlived s"
        using assms(1) h(1) by (cases "v_pc s") (auto simp: serve_ok_def outlived_def split: option.splits)
      then show ?thesis using use False h(2) SvHandle by simp
    qed
  next
    case SvJoin
    then obtain err where "v_pc s = VJoin err" "s' = serve_returns err s" using assms(3) by (simp split: serve_pc.splits if_splits)
    with assms(2) show ?thesis by (simp add: serve_tidy_def serve_returns_def)
  next
    case SvClose
    then obtain err r rs where "v_pc s = VDefer err (r # rs)"
      "s' = s\<lparr>v_trace := v_trace s @ [Released r], v_pc := (if rs = [] then VReturned err else VDefer err rs)\<rparr>"
      using assms(3) by (auto split: serve_pc.splits list.splits)
    with assms(2) show ?thesis by (simp add: serve_tidy_def held_append)
  qed (use assms(2-4) open' in \<open>auto simp: serve_tidy_def split: if_splits\<close>)
qed

lemma serve_start_ok:
  assumes "polite w" and "serve_start w = Some (Inr s)"
  shows "serve_ok [] s \<and> serve_tidy s \<and> v_sched s \<and> v_listening s \<and> v_pc s = VSelect \<and> v_errc s = [] \<and> v_requests s = 0"
proof -
  obtain pool t where db: "OpenDB w = Some (Inr pool, t)"
    and s: "v_pool s = RPool pool" "v_pub s = RWriter (NewPublisher (kafka_brokers (y_env w)))"
      "v_trace s = t @ [Acquired (v_pub s)]" "v_pc s = VSelect" "\<not> v_done s" "v_sched s" "v_listening s" "v_errc s = []"
      "v_requests s = 0"
    using assms(2) by (auto simp: serve_start_def Let_def split: sum.splits option.splits prod.splits)
  have "held t = Some [RPool pool]" using OpenDB_ends [OF assms(1)] db by (metis Pair_inject option.inject sum.simps(6))
  with s show ?thesis by (simp add: serve_ok_def serve_tidy_def held_append)
qed

text \<open>Every state \<open>serve\<close> gets to, and the first use of a closed client if there is one.\<close>

lemma serve_step_trace: "serve_step ev s = Some s' \<Longrightarrow> \<exists>t. v_trace s' = v_trace s @ t"
  by (cases ev) (auto simp: serve_returns_def split: if_splits serve_pc.splits list.splits)

definition first_misuse :: "serve_state \<Rightarrow> serve_event list \<Rightarrow> bool" where
  "first_misuse s0 evs \<longleftrightarrow> (\<exists>xs c ys q. evs = xs @ SvHandle c # ys \<and> serve_steps xs s0 = Some q \<and> serve_tidy q \<and> outlived q)"

lemma first_misuse_later: "first_misuse s0 evs \<Longrightarrow> first_misuse s0 (evs @ [ev])"
  unfolding first_misuse_def by (metis append_Cons append_assoc)

lemma serve_steps_ok:
  assumes "serve_ok [] s0" and "serve_tidy s0"
  shows "serve_steps evs s0 = Some s \<Longrightarrow> SvErr \<notin> set evs \<Longrightarrow> serve_ok evs s
    \<and> (serve_tidy s \<or> held (v_trace s) = None \<and> first_misuse s0 evs)"
proof (induction evs arbitrary: s rule: rev_induct)
  case (snoc ev evs)
  obtain q where q: "serve_steps evs s0 = Some q" "serve_step ev q = Some s" by (rule serve_steps_snoc [OF snoc.prems(1)])
  have n: "SvErr \<notin> set evs" "ev \<noteq> SvErr" using snoc.prems(2) by auto
  note ih = snoc.IH [OF q(1) n(1)]
  have "serve_ok (evs @ [ev]) s" using serve_step_ok [OF _ q(2) n(2)] ih by blast
  moreover have "serve_tidy s \<or> held (v_trace s) = None \<and> first_misuse s0 (evs @ [ev])"
  proof (cases "serve_tidy q")
    case True
    from serve_step_tidy [OF _ True q(2) n(2)] ih q(1) True show ?thesis unfolding first_misuse_def by blast
  next
    case False
    obtain t where "v_trace s = v_trace q @ t" using serve_step_trace [OF q(2)] by blast
    with False ih show ?thesis by (simp add: held_append first_misuse_later)
  qed
  ultimately show ?case by blast
qed (use assms in simp)

lemma serve_steps_waited: "serve_steps evs s = Some s' \<Longrightarrow> 0 \<le> waited evs"
proof -
  have p: "serve_steps xs q = Some q' \<Longrightarrow> 0 \<le> passed xs" for xs q q'
    by (induction xs arbitrary: q rule: passed.induct) (auto split: option.splits if_splits)
  show "serve_steps evs s = Some s' \<Longrightarrow> 0 \<le> waited evs"
    by (induction evs arbitrary: s rule: waited.induct) (auto dest: p split: option.splits)
qed

text \<open>The deferred calls close what they are for.\<close>

definition serve_closed :: "serve_state \<Rightarrow> bool" where
  "serve_closed s \<longleftrightarrow> (\<forall>r \<in> {v_pub s, v_pool s} - set (open_of s (v_pc s)). Released r \<in> set (v_trace s))"

lemma serve_step_closed:
  assumes "serve_closed s" and "serve_step ev s = Some s'"
  shows "serve_closed s'"
proof (cases "ev = SvClose")
  case True
  then obtain err r rs where "v_pc s = VDefer err (r # rs)"
    "s' = s\<lparr>v_trace := v_trace s @ [Released r], v_pc := (if rs = [] then VReturned err else VDefer err rs)\<rparr>"
    using assms(2) by (auto split: serve_pc.splits list.splits)
  with assms(1) show ?thesis by (auto simp: serve_closed_def)
next
  case False
  then have "set (open_of s (v_pc s)) \<subseteq> set (open_of s' (v_pc s'))" "v_pub s' = v_pub s" "v_pool s' = v_pool s"
    using assms(2) by (cases ev; auto simp: serve_returns_def split: if_splits serve_pc.splits list.splits; cases "v_pc s"; simp)+
  moreover obtain t where "v_trace s' = v_trace s @ t" using serve_step_trace [OF assms(2)] by blast
  ultimately show ?thesis using assms(1) by (auto simp: serve_closed_def)
qed

lemma serve_steps_closed: "serve_steps evs s = Some s' \<Longrightarrow> serve_closed s \<Longrightarrow> serve_closed s'"
  by (induction evs arbitrary: s) (auto split: option.splits dest: serve_step_closed)

text \<open>A request that is still open when \<open>Shutdown\<close> is called can outlive it, and go on with closed clients.\<close>

lemma request_outlives_shutdown:
  assumes "serve_tidy s" and "v_pc s = VShutdown" and "0 < v_requests s" and "v_done s" and "v_deadline s \<le> v_clock s + shutdownGrace"
    and "v_pub s \<noteq> v_pool s"
  shows "\<exists>evs s'. serve_steps evs s = Some s' \<and> v_pc s' = VReturned (Some ErrDeadline) \<and> 0 < v_requests s' \<and> held (v_trace s') = None"
proof -
  let ?sched = "if v_sched s then [SvSchedEnds] else []"
  let ?evs = "?sched @ [SvTime shutdownGrace, SvDeadline, SvJoin, SvClose, SvClose, SvHandle ToStore]"
  have t: "held (v_trace s) = Some [v_pub s, v_pool s]" using assms(1,2) by (simp add: serve_tidy_def)
  let ?p = "s\<lparr>v_sched := False\<rparr>"
  have s: "serve_steps ?sched s = Some ?p" using assms(4) by (cases s) simp
  have "serve_steps [SvTime shutdownGrace, SvDeadline, SvJoin, SvClose, SvClose, SvHandle ToStore] ?p
    = Some (?p\<lparr>v_clock := v_clock s + shutdownGrace, v_pc := VReturned (Some ErrDeadline),
        v_trace := v_trace s @ [Released (v_pub s), Released (v_pool s), Used (v_pool s)]\<rparr>)"
    using assms(2,3,5) by (simp add: shutdownGrace_def Second_def serve_returns_def serve_client_def)
  with s have "serve_steps ?evs s = Some (?p\<lparr>v_clock := v_clock s + shutdownGrace, v_pc := VReturned (Some ErrDeadline),
        v_trace := v_trace s @ [Released (v_pub s), Released (v_pool s), Used (v_pool s)]\<rparr>)"
    by (simp only: serve_steps_append Option.bind.simps)
  then show ?thesis using t assms(3,6)
    by (intro exI [of _ ?evs] exI) (auto simp: held_append)
qed


text \<open>The steps that bring \<open>serve\<close> nearer to its end.\<close>

fun towards_end :: "serve_event \<Rightarrow> bool" where
  "towards_end SvSchedEnds = True"
| "towards_end (SvListenEnds e) = True"
| "towards_end SvErr = True"
| "towards_end SvDone = True"
| "towards_end SvIdle = True"
| "towards_end SvDeadline = True"
| "towards_end SvJoin = True"
| "towards_end SvClose = True"
| "towards_end _ = False"

definition serve_left :: "serve_state \<Rightarrow> nat" where
  "serve_left s = (if v_sched s then 1 else 0) + (if v_listening s then 1 else 0)
     + (case v_pc s of VSelect \<Rightarrow> 5 | VShutdown \<Rightarrow> 4 | VJoin _ \<Rightarrow> 3 | VDefer _ rs \<Rightarrow> length rs | VReturned _ \<Rightarrow> 0)"

lemma serve_step_left:
  assumes "serve_step ev s = Some s'"
  shows "if towards_end ev then serve_left s' < serve_left s else serve_left s' = serve_left s"
proof (cases ev)
  case SvErr
  then obtain e es where "v_errc s = e # es" "v_pc s = VSelect" "s' = serve_returns (Some e) (s\<lparr>v_errc := []\<rparr>)"
    using assms by (auto split: list.splits if_splits)
  then show ?thesis using SvErr by (simp add: serve_left_def serve_returns_def)
next
  case SvJoin
  then obtain err where "v_pc s = VJoin err" "s' = serve_returns err s" using assms by (simp split: serve_pc.splits if_splits)
  then show ?thesis using SvJoin by (simp add: serve_left_def serve_returns_def)
next
  case SvClose
  then obtain err r rs where "v_pc s = VDefer err (r # rs)"
    "s' = s\<lparr>v_trace := v_trace s @ [Released r], v_pc := (if rs = [] then VReturned err else VDefer err rs)\<rparr>"
    using assms by (auto split: serve_pc.splits list.splits)
  then show ?thesis using SvClose by (cases rs) (simp_all add: serve_left_def)
qed (use assms in \<open>force simp: serve_left_def split: if_splits\<close>)+

lemma serve_steps_left:
  "serve_steps evs s = Some s' \<Longrightarrow> length (filter towards_end evs) + serve_left s' \<le> serve_left s"
proof (induction evs arbitrary: s)
  case (Cons ev evs)
  then obtain q where "serve_step ev s = Some q" "serve_steps evs q = Some s'" by (auto split: option.splits)
  with serve_step_left [of ev s q] Cons.IH [of q] show ?case by (auto split: if_splits)
qed simp

lemma serve_not_stuck:
  assumes "v_done s" and "\<And>err. v_pc s \<noteq> VReturned err" and "\<And>err. v_pc s \<noteq> VDefer err []"
    and "v_pc s = VShutdown \<longrightarrow> v_deadline s \<le> v_clock s + shutdownGrace"
  shows "\<exists>t ev. 0 \<le> t \<and> t \<le> shutdownGrace \<and> towards_end ev \<and> serve_steps [SvTime t, ev] s \<noteq> None"
proof -
  have g: "0 \<le> shutdownGrace" by (simp add: shutdownGrace_def Second_def)
  show ?thesis
  proof (cases "v_pc s")
    case VSelect
    with assms(1) g show ?thesis by (intro exI [of _ 0] exI [of _ SvDone]) simp
  next
    case VShutdown
    with assms(4) g show ?thesis by (intro exI [of _ shutdownGrace] exI [of _ SvDeadline]) simp
  next
    case (VJoin err)
    with assms(1) g show ?thesis by (intro exI [of _ 0] exI [of _ "if v_sched s then SvSchedEnds else SvJoin"]) simp
  next
    case (VDefer err rs)
    with assms(3) g show ?thesis by (intro exI [of _ 0] exI [of _ SvClose]) (simp add: neq_Nil_conv split: list.split)
  qed (use assms(2) in simp)
qed

text \<open>
  After a signal the API process ends, whatever its requests, its scheduler and its listener do: no more
  than seven of the steps that bring it nearer to its end are left in any interleaving, and as long as
  \<open>serve\<close> has not returned one of them is possible, at once or once ten seconds have passed.
\<close>

theorem serve_ends_after_signal:
  assumes "polite w" and "serve_start w = Some (Inr s0)" and "serve_steps evs s0 = Some s" and "SvErr \<notin> set evs" and "SvCancel \<in> set evs"
    and "serve_steps evs' s = Some s'" and "SvErr \<notin> set evs'"
  shows "length (filter towards_end evs') \<le> 7
    \<and> ((\<exists>err. v_pc s' = VReturned err) \<or> (\<exists>t ev. 0 \<le> t \<and> t \<le> 10 * Second \<and> towards_end ev \<and> serve_steps [SvTime t, ev] s' \<noteq> None))"
proof -
  have st: "serve_steps (evs @ evs') s0 = Some s'" using assms(3,6) by (simp add: serve_steps_append)
  have ok: "serve_ok (evs @ evs') s'"
    using serve_steps_ok [OF _ _ st] serve_start_ok [OF assms(1,2)] assms(4,7) by simp
  have "serve_left s \<le> 7"
  proof -
    have "serve_ok evs s" using serve_steps_ok [OF _ _ assms(3,4)] serve_start_ok [OF assms(1,2)] by simp
    then show ?thesis by (cases "v_pc s") (auto simp: serve_left_def serve_ok_def)
  qed
  with serve_steps_left [OF assms(6)] have "length (filter towards_end evs') \<le> 7" by simp
  moreover have "\<exists>t ev. 0 \<le> t \<and> t \<le> 10 * Second \<and> towards_end ev \<and> serve_steps [SvTime t, ev] s' \<noteq> None"
    if "\<And>err. v_pc s' \<noteq> VReturned err"
  proof -
    have "v_done s'" using ok assms(5) by (simp add: serve_ok_def)
    moreover have "v_pc s' \<noteq> VDefer err []" for err using ok by (auto simp: serve_ok_def)
    moreover have "v_pc s' = VShutdown \<longrightarrow> v_deadline s' \<le> v_clock s' + shutdownGrace"
      using ok serve_steps_waited [OF st] by (auto simp: serve_ok_def)
    ultimately show ?thesis using serve_not_stuck [of s'] that by (simp add: shutdownGrace_def)
  qed
  ultimately show ?thesis by blast
qed

text \<open>
  When the listener fails, \<open>serve\<close> returns without waiting for the scheduler: the deferred calls close the
  publisher and the pool under a scheduler that still uses them.
\<close>

theorem listen_failure_closes_under_scheduler:
  assumes "polite w" and "serve_start w = Some (Inr s0)"
  shows "\<exists>s. serve_steps [SvListenEnds e, SvErr, SvClose, SvClose, SvSched c] s0 = Some s \<and> v_pc s = VReturned (Some e) \<and> held (v_trace s) = None"
proof -
  have s0: "held (v_trace s0) = Some [v_pub s0, v_pool s0]" "v_sched s0" "v_listening s0" "v_pc s0 = VSelect" "v_errc s0 = []"
    using serve_start_ok [OF assms] by (auto simp: serve_tidy_def)
  then show ?thesis by (cases c) (simp_all add: serve_returns_def held_append serve_client_def)
qed

section \<open>A start at which everything is ready\<close>

lemma demo_starts: "\<exists>s. serve_start demo_outside = Some (Inr s)"
proof -
  obtain pool t where "OpenDB demo_outside = Some (Inr pool, t)" using demo_opens(1) by blast
  moreover have "y_env demo_outside = (\<lambda>_. [])" by (simp add: demo_outside_def)
  ultimately show ?thesis using demo_opens(2) demo_brokers by (simp add: serve_start_def EnvDuration_def Let_def)
qed


theorem serve_ends_after_signal_witness:
  "\<exists>s s' t ev. serve_start demo_outside = Some (Inr s) \<and> serve_step SvCancel s = Some s' \<and> towards_end ev \<and> serve_steps [SvTime t, ev] s' \<noteq> None"
proof -
  obtain s where s: "serve_start demo_outside = Some (Inr s)" using demo_starts by blast
  have "v_pc s = VSelect" using serve_start_ok [OF demo_polite s] by simp
  moreover have "serve_steps [SvCancel] s = Some (s\<lparr>v_done := True\<rparr>)" by simp
  moreover from calculation serve_ends_after_signal [OF demo_polite s, of "[SvCancel]" "s\<lparr>v_done := True\<rparr>" "[]" "s\<lparr>v_done := True\<rparr>"]
  obtain t ev where "towards_end ev" "serve_steps [SvTime t, ev] (s\<lparr>v_done := True\<rparr>) \<noteq> None" by auto
  ultimately show ?thesis using s serve_step.simps(1) by blast
qed

theorem listen_failure_closes_under_scheduler_witness:
  "\<exists>s0 s. serve_start demo_outside = Some (Inr s0) \<and> serve_steps [SvListenEnds ErrDeadline, SvErr, SvClose, SvClose, SvSched ToStore] s0 = Some s
     \<and> held (v_trace s) = None"
proof -
  obtain s0 where s: "serve_start demo_outside = Some (Inr s0)" using demo_starts by blast
  with listen_failure_closes_under_scheduler [OF demo_polite s] show ?thesis by blast
qed

end
