(* ===== verification/Wire.thy ===== *)
theory Wire
  imports Stream App
begin

text \<open>
  The bytes of a log stream: what \<open>send\<close> of \<open>internal/api/stream.go\<close> writes for an event, and
  \<open>readEvents\<close> of \<open>cmd/jobctl/main.go\<close>, which reads it back with \<open>bufio.Scanner\<close>. The text
  \<open>time.Time\<close> marshals to is the parameter \<open>show\<close>, what it unmarshals from the parameter \<open>read\<close>.
\<close>

section \<open>Writing\<close>

definition log_line_json :: "(time \<Rightarrow> string) \<Rightarrow> log_line \<Rightarrow> json" where
  "log_line_json show l = JObj [member ''attempt'' (json_int (l_attempt l)), member ''seq'' (json_int (l_seq l)),
     member ''ts'' (JStr (show (l_ts l))), member ''level'' (JStr (l_level l)), member ''line'' (JStr (l_line l))]"

text \<open>\<open>json.Marshal\<close> of a map sorts the keys; \<open>run.Error\<close> is a pointer.\<close>

fun sse_data :: "(time \<Rightarrow> string) \<Rightarrow> sse \<Rightarrow> (string \<times> json) option" where
  "sse_data show (SAttempt a) = Some (''attempt'', JObj [member ''attempt'' (json_int a)])"
| "sse_data show (SLine l) = Some (''line'', log_line_json show l)"
| "sse_data show (SEnd s a err) = Some (''end'', JObj [member ''attempt'' (json_int a),
     member ''error'' (case err of None \<Rightarrow> JNull | Some t \<Rightarrow> JStr t), member ''status'' (JStr (status_text s))])"
| "sse_data show SPing = None"

definition sse_text :: "(time \<Rightarrow> string) \<Rightarrow> sse \<Rightarrow> string" where
  "sse_text show ev = (case sse_data show ev of
     None \<Rightarrow> '': ping'' @ [newline, newline]
   | Some (name, v) \<Rightarrow> ''event: '' @ name @ [newline] @ ''data: '' @ print_json v @ [newline, newline])"

text \<open>The body of a page of a log.\<close>

definition logs_json :: "(time \<Rightarrow> string) \<Rightarrow> logs_response \<Rightarrow> json" where
  "logs_json show x = JObj [member ''run_id'' (JStr (lr_run_id x)), member ''attempt'' (json_int (lr_attempt x)),
     member ''status'' (JStr (status_text (lr_status x))), member ''lines'' (JArr (map (log_line_json show) (lr_lines x))),
     member ''next_seq'' (json_int (lr_next_seq x))]"

section \<open>\<open>bufio.Scanner\<close>\<close>

text \<open>
  \<open>sc.Buffer(..., 1024*1024)\<close> with \<open>ScanLines\<close>: a line is read up to its newline, a carriage return at
  its end is dropped, the last line may have no newline, and a line that does not fit the buffer
  ends the scan with an error.
\<close>

definition maxScan :: nat where "maxScan = 1048576"

definition dropCR :: "string \<Rightarrow> string" where
  "dropCR s = (if s \<noteq> [] \<and> last s = CHR 0x0D then butlast s else s)"

definition ErrTooLong :: error where "ErrTooLong = ErrText ''bufio.Scanner: token too long''"

text \<open>One token: the end, too long a line, or a line and the rest.\<close>

definition next_line :: "string \<Rightarrow> error option + string \<times> string" where
  "next_line s = (if s = [] then Inl None
     else (let (l, r) = span (\<lambda>c. c \<noteq> newline) s in
       if length l \<ge> maxScan then Inl (Some ErrTooLong)
       else Inr (dropCR l, (case r of [] \<Rightarrow> [] | _ # r' \<Rightarrow> r'))))"

lemma next_line_shorter: "next_line s = Inr (l, r) \<Longrightarrow> length r < length s"
proof -
  assume a: "next_line s = Inr (l, r)"
  obtain p q where s: "span (\<lambda>c. c \<noteq> newline) s = (p, q)" by fastforce
  then have "s = p @ q" by (rule span_append)
  with a s show ?thesis by (cases q) (auto simp: next_line_def split: if_splits)
qed

section \<open>\<open>readEvents\<close>\<close>

definition has_prefix :: "string \<Rightarrow> string \<Rightarrow> bool" where
  "has_prefix p s \<longleftrightarrow> strip_prefix p s \<noteq> None"

definition trim_prefix :: "string \<Rightarrow> string \<Rightarrow> string" where
  "trim_prefix p s = (case strip_prefix p s of None \<Rightarrow> s | Some r \<Rightarrow> r)"

text \<open>
  \<open>fn\<close> acts on a state (what the caller has printed) and returns an error or none; \<open>rerr\<close> is the reader's
  error after the bytes, none at the end of the body. The result is the error \<open>readEvents\<close> returns
  and the state.
\<close>

function read_loop ::
  "error option \<Rightarrow> (string \<Rightarrow> string \<Rightarrow> 's \<Rightarrow> error option \<times> 's) \<Rightarrow> string \<Rightarrow> string list \<Rightarrow> string \<Rightarrow> 's \<Rightarrow> error option \<times> 's" where
  "read_loop rerr fn event data s st = (case next_line s of
     Inl e \<Rightarrow> (if e = None then rerr else e, st)
   | Inr (line, r) \<Rightarrow>
       if line = [] then
         (if event \<noteq> [] \<or> data \<noteq> [] then
            (case fn event (join_with [newline] data) st of
               (Some e, st') \<Rightarrow> (Some e, st')
             | (None, st') \<Rightarrow> read_loop rerr fn [] [] r st')
          else read_loop rerr fn [] [] r st)
       else if has_prefix '':'' line then read_loop rerr fn event data r st
       else if has_prefix ''event:'' line then read_loop rerr fn (TrimSpace (trim_prefix ''event:'' line)) data r st
       else if has_prefix ''data:'' line then read_loop rerr fn event (data @ [trim_prefix '' '' (trim_prefix ''data:'' line)]) r st
       else read_loop rerr fn event data r st)"
  by pat_completeness auto
termination
  by (relation "measure (\<lambda>(rerr, fn, event, data, s, st). length s)") (auto dest: next_line_shorter)

declare read_loop.simps [simp del]

definition readEvents :: "string \<times> error option \<Rightarrow> (string \<Rightarrow> string \<Rightarrow> 's \<Rightarrow> error option \<times> 's) \<Rightarrow> 's \<Rightarrow> error option \<times> 's" where
  "readEvents body fn = read_loop (snd body) fn [] [] (fst body)"

section \<open>An event written is the event read\<close>

text \<open>Printed JSON has no control characters.\<close>

definition printable :: "char \<Rightarrow> bool" where "printable c \<longleftrightarrow> 32 \<le> ord c"

lemma hex_digit_printable: "n < 16 \<Longrightarrow> printable (hex_digit n)"
  by (simp add: printable_def hex_digit_def)

lemma u_escape_printable: "list_all printable (u_escape n)"
  by (simp add: u_escape_def hex_digit_printable) (simp add: printable_def)

lemma printable_literals:
  "printable CHR 0x5C" "printable CHR 0x22" "printable CHR ''b''" "printable CHR ''f''" "printable CHR ''n''"
  "printable CHR ''r''" "printable CHR ''t''" "printable CHR '':''" "printable CHR '',''" "printable CHR ''{''"
  "printable CHR ''}''" "printable CHR ''[''" "printable CHR '']''" "printable CHR ''-''"
  by (simp_all add: printable_def)

lemma esc_ascii_printable: "list_all printable (esc_ascii c)"
proof (cases "c = CHR 0x22 \<or> c = CHR 0x5C")
  case True
  then show ?thesis using printable_literals(1,2) by (simp only: esc_ascii_def if_True) auto
next
  case False
  have "printable c" if "\<not> ord c < 0x20" using that by (simp add: printable_def)
  then show ?thesis unfolding esc_ascii_def if_not_P [OF False]
    using printable_literals u_escape_printable [of "ord c"] by (simp only: list.pred_inject split: if_split) blast
qed

lemma between_printable: "32 \<le> lo \<Longrightarrow> between lo hi c \<Longrightarrow> printable c"
  by (simp add: between_def printable_def)

lemma rune_printable:
  assumes "rune_len s \<noteq> 0" and "\<not> ord (hd s) < 0x80"
  shows "list_all printable (take (rune_len s) s)"
proof -
  have c: "list_all printable (take n r)" if "conts n r" for n r
    using that between_printable [of 128 191] by (auto simp: conts_def list_all_iff)
  have hd: "printable (hd s)" using assms(2) by (simp add: printable_def)
  show ?thesis using assms(1)
  proof (cases rule: rune_len_cases)
    case (1 x r)
    then show ?thesis using assms(2) by simp
  next
    case (2 x r)
    then show ?thesis using c [of 1 r] hd assms(1) by (simp add: rune_len_2 split: if_splits)
  next
    case (3 x r)
    then have "rune_len s = 3 \<and> conts 2 r" using assms(1) by (simp add: rune_len_3 split: if_splits)
    with 3 c [of 2 r] hd show ?thesis by (simp add: numeral_3_eq_3 numeral_2_eq_2)
  next
    case (4 x r)
    then have "rune_len s = 4 \<and> conts 3 r" using assms(1) by (simp add: rune_len_4 split: if_splits)
    with 4 c [of 3 r] hd show ?thesis by (simp add: eval_nat_numeral)
  qed
qed

lemma escape_printable: "list_all printable (escape s)"
proof (induction s rule: escape.induct)
  case (1 s)
  show ?case
  proof (cases s)
    case Nil
    then show ?thesis by (subst escape.simps) simp
  next
    case (Cons c r)
    have u: "list_all printable (esc_rune (take (rune_len s) s))" if "rune_len s \<noteq> 0" "\<not> ord c < 0x80"
      using rune_printable [OF that(1)] that(2) Cons by (simp add: esc_rune_def u_escape_printable)
    show ?thesis using "1.IH" [OF Cons] Cons u esc_ascii_printable [of c] u_escape_printable [of "0xFFFD"]
      by (subst escape.simps) simp
  qed
qed

lemma quote_printable: "list_all printable (quote s)"
  by (simp add: quote_def escape_printable printable_literals)

lemma itoa_printable: "list_all printable (itoa i)"
proof -
  have "printable c" if "is_digit c" for c using that by (simp add: is_digit_def printable_def)
  then have "list_all printable (dec_digits n)" for n using dec_digits_all [of _ n] by (auto simp: list_all_iff)
  then show ?thesis by (simp add: itoa_def printable_literals)
qed

lemma join_printable: "list_all printable sep \<Longrightarrow> list_all (list_all printable) ss \<Longrightarrow> list_all printable (join_with sep ss)"
  by (induction sep ss rule: join_with.induct) simp_all

lemma print_json_printable: "json_ok v \<Longrightarrow> list_all printable (print_json v)"
proof (induction v)
  case (JArr vs)
  then have "list_all (list_all printable) (map print_json vs)" by (simp add: list_all_iff)
  then show ?case using join_printable [of "'',''"] by (simp add: printable_literals)
next
  case (JObj ms)
  have "list_all (list_all printable) (map (\<lambda>(k, raw, v). quote k @ '':'' @ print_json v) ms)"
    using JObj quote_printable by (fastforce simp: list_all_iff printable_literals)
  then show ?case using join_printable [of "'',''"] by (simp add: printable_literals)
next
  case (JNum t)
  then show ?case using itoa_printable by auto
qed (simp_all add: quote_printable, simp_all add: printable_def)

text \<open>One line of the stream.\<close>

lemma next_line_text:
  assumes "list_all printable l" and "length l < maxScan"
  shows "next_line (l @ newline # r) = Inr (l, r)"
proof -
  have n: "list_all (\<lambda>c. c \<noteq> newline) l"
    using assms(1) by (auto simp: list_all_iff printable_def newline_def)
  have "last l \<noteq> CHR 0x0D" if "l \<noteq> []"
    using assms(1) last_in_set [OF that] by (force simp: list_all_iff printable_def)
  then have "dropCR l = l" by (auto simp: dropCR_def)
  moreover have "span (\<lambda>c. c \<noteq> newline) (l @ newline # r) = (l, newline # r)"
    using span_all [OF n, of "newline # r"] by simp
  ultimately show ?thesis using assms(2) by (simp add: next_line_def)
qed

lemma read_line:
  assumes "list_all printable l" and "length l < maxScan"
  shows "read_loop rerr fn event data (l @ newline # r) st =
       (if l = [] then
         (if event \<noteq> [] \<or> data \<noteq> [] then
            (case fn event (join_with [newline] data) st of
               (Some e, st') \<Rightarrow> (Some e, st')
             | (None, st') \<Rightarrow> read_loop rerr fn [] [] r st')
          else read_loop rerr fn [] [] r st)
       else if has_prefix '':'' l then read_loop rerr fn event data r st
       else if has_prefix ''event:'' l then read_loop rerr fn (TrimSpace (trim_prefix ''event:'' l)) data r st
       else if has_prefix ''data:'' l then read_loop rerr fn event (data @ [trim_prefix '' '' (trim_prefix ''data:'' l)]) r st
       else read_loop rerr fn event data r st)"
  by (subst read_loop.simps) (simp add: next_line_text [OF assms])

lemma TrimSpace_space: "TrimSpace (CHR '' '' # s) = TrimSpace s"
proof -
  have "first_strip space_seqs (CHR '' '' # s) = Some s" by (simp add: space_seqs_def bytes_def char_of_eq_iff)
  then have "trim_left_seqs space_seqs (CHR '' '' # s) = trim_left_seqs space_seqs s" by (subst trim_left_seqs.simps) simp
  then show ?thesis by (simp add: TrimSpace_def)
qed

lemma TrimSpace_names:
  "TrimSpace ''attempt'' = ''attempt''" "TrimSpace ''line'' = ''line''" "TrimSpace ''end'' = ''end''"
  by (rule TrimSpace_id; simp add: space_seqs_def bytes_def char_of_eq_iff)+

text \<open>The events a caller of \<open>readEvents\<close> gets, one at a time.\<close>

fun deliver :: "error option \<Rightarrow> (time \<Rightarrow> string) \<Rightarrow> (string \<Rightarrow> string \<Rightarrow> 's \<Rightarrow> error option \<times> 's) \<Rightarrow> sse list \<Rightarrow> 's \<Rightarrow> error option \<times> 's" where
  "deliver rerr show fn [] st = (rerr, st)"
| "deliver rerr show fn (ev # evs) st = (case sse_data show ev of
     None \<Rightarrow> deliver rerr show fn evs st
   | Some (name, v) \<Rightarrow> (case fn name (print_json v) st of
       (Some e, st') \<Rightarrow> (Some e, st') | (None, st') \<Rightarrow> deliver rerr show fn evs st'))"

definition fits_line :: "(time \<Rightarrow> string) \<Rightarrow> sse \<Rightarrow> bool" where
  "fits_line show ev \<longleftrightarrow> (case sse_data show ev of None \<Rightarrow> True | Some (n, v) \<Rightarrow> length (print_json v) + 6 < maxScan)"

lemma sse_data_facts:
  assumes "sse_data show ev = Some (name, v)"
  shows "name \<in> {''attempt'', ''line'', ''end''}" "json_ok v" "json_depth v \<le> max_depth"
  using assms by (cases ev; auto simp: log_line_json_def member_def max_depth_def split: option.splits)+

lemma printable_names:
  "list_all printable ''event: ''" "list_all printable ''data: ''" "list_all printable '': ping''"
  "name \<in> {''attempt'', ''line'', ''end''} \<Longrightarrow> list_all printable name"
  by (auto simp: printable_def)

lemma prefixes:
  "\<not> has_prefix '':'' (''event: '' @ s)" "has_prefix ''event:'' (''event: '' @ s)" "trim_prefix ''event:'' (''event: '' @ s) = '' '' @ s"
  "\<not> has_prefix '':'' (''data: '' @ s)" "\<not> has_prefix ''event:'' (''data: '' @ s)" "has_prefix ''data:'' (''data: '' @ s)"
  "trim_prefix '' '' (trim_prefix ''data:'' (''data: '' @ s)) = s" "has_prefix '':'' ('': ping'')"
  by (simp_all add: has_prefix_def trim_prefix_def)

lemma read_event:
  assumes "sse_data show ev = Some (name, v)" and "fits_line show ev"
  shows "read_loop rerr fn [] [] (sse_text show ev @ r) st = (case fn name (print_json v) st of
     (Some e, st') \<Rightarrow> (Some e, st') | (None, st') \<Rightarrow> read_loop rerr fn [] [] r st')"
proof -
  note f = sse_data_facts [OF assms(1)]
  let ?e = "''event: '' @ name" and ?d = "''data: '' @ print_json v"
  have n: "TrimSpace ('' '' @ name) = name" "name \<noteq> []" using f(1) TrimSpace_names by (auto simp: TrimSpace_space)
  have p: "list_all printable ?e" "list_all printable ?d" "list_all printable []"
    using printable_names f(1) print_json_printable [OF f(2)] by (simp_all del: append_Cons append_Nil)
  have l: "length ?e < maxScan" "length ?d < maxScan" "length ([] :: string) < maxScan"
    using assms f(1) by (auto simp: fits_line_def maxScan_def)
  have t: "sse_text show ev @ r = ?e @ newline # ?d @ newline # [] @ newline # r"
    by (simp add: sse_text_def assms(1))
  show ?thesis
    unfolding t read_line [OF p(1) l(1)] read_line [OF p(2) l(2)] read_line [OF p(3) l(3)]
    using n by (simp add: prefixes del: append_Cons)
qed

lemma read_ping: "read_loop rerr fn [] [] (sse_text show SPing @ r) st = read_loop rerr fn [] [] r st"
proof -
  have t: "sse_text show SPing @ r = '': ping'' @ newline # [] @ newline # r" by (simp add: sse_text_def)
  have l: "length '': ping'' < maxScan" "length ([] :: string) < maxScan" by (simp_all add: maxScan_def)
  have p: "list_all printable ([] :: string)" by simp
  show ?thesis unfolding t read_line [OF printable_names(3) l(1)] read_line [OF p l(2)] by (simp add: prefixes)
qed

lemma readEvents_deliver:
  assumes "list_all (fits_line show) evs"
  shows "readEvents (concat (map (sse_text show) evs), rerr) fn st = deliver rerr show fn evs st"
  using assms unfolding readEvents_def
proof (induction evs arbitrary: st)
  case Nil
  then show ?case by (simp add: read_loop.simps next_line_def)
next
  case (Cons ev evs)
  show ?case
  proof (cases "sse_data show ev")
    case None
    then have "ev = SPing" by (cases ev) simp_all
    with Cons show ?thesis by (simp add: read_ping)
  next
    case (Some x)
    then obtain name v where x: "sse_data show ev = Some (name, v)" by (cases x) simp
    show ?thesis using Cons read_event [OF x, of rerr fn "concat (map (sse_text show) evs)" st]
      by (cases "fn name (print_json v) st") (simp add: x split: option.split)
  qed
qed

text \<open>
  Reading the bytes of a log stream gives the caller exactly the events the server wrote, by name
  and data and in order, pings left out, until the caller stops it; a broken connection is reported
  after them.
\<close>

theorem readEvents_stream:
  assumes "list_all (fits_line show) evs"
  shows "readEvents (concat (map (sse_text show) evs), rerr) fn st = deliver rerr show fn evs st"
  by (rule readEvents_deliver [OF assms])

theorem readEvents_stream_witness:
  "readEvents (concat (map (sse_text (\<lambda>_. [])) [SAttempt 1, SPing, SEnd StatusSucceeded 1 None]), None)
     (\<lambda>name data st. (None, st @ [name])) [] = (None, [''attempt'', ''end''])"
proof -
  have e: "escape s = s" if "list_all (\<lambda>c. ord c < 0x80 \<and> esc_ascii c = [c]) s" for s
    using that by (induction s) (simp_all add: escape.simps)
  have "list_all (fits_line (\<lambda>_. [])) [SAttempt 1, SPing, SEnd StatusSucceeded 1 None]"
    by (simp add: fits_line_def maxScan_def member_def quote_def json_int_def itoa_def dec_digits.simps e esc_ascii_def)
  from readEvents_stream [OF this, of None "\<lambda>name data st. (None, st @ [name])" "[]"] show ?thesis by simp
qed

end
