(* ===== verification/Jobctl.thy ===== *)
theory Jobctl
  imports Wire
begin

text \<open>
  \<open>cmd/jobctl/main.go\<close>: the commands of the command-line client. The HTTP exchange is a parameter, the
  transport; command-line flags are already parsed (JobctlMain parses them); a table is its rows before \<open>text/tabwriter\<close> aligns
  them. Reading and showing times (package \<open>time\<close>, the local zone) are parameters.
\<close>

section \<open>Requests\<close>

record http_response =
  hr_code :: int
  hr_status :: string            \<comment> \<open>\<open>resp.Status\<close>\<close>
  hr_method :: string
  hr_path :: string              \<comment> \<open>\<open>resp.Request.URL.Path\<close>\<close>
  hr_body :: string
  hr_err :: "error option"       \<comment> \<open>the error after the body's bytes, of a stream that breaks off\<close>

text \<open>Method, path and query, JSON body, and the world the server lives in.\<close>

type_synonym 'w transport = "string \<Rightarrow> string \<Rightarrow> string option \<Rightarrow> 'w \<Rightarrow> http_response res \<times> 'w"

text \<open>\<open>apiError\<close> reads what it can of the body and ignores the errors of reading it.\<close>

definition error_field :: "(string \<times> string setter) list" where
  "error_field = [(''error'', set_string ''error'' (\<lambda>t _. t))]"

definition apiError :: "http_response \<Rightarrow> error" where
  "apiError r =
     (let e = (case parse_next (hr_body r) of Inl _ \<Rightarrow> [] | Inr (v, _) \<Rightarrow> snd (decode_struct False error_field v []));
          msg = (if e = [] then hr_status r else e)
      in ErrText (hr_method r @ '' '' @ hr_path r @ '': '' @ msg))"

definition check_status :: "http_response res \<Rightarrow> http_response res" where
  "check_status x = (case x of Inl e \<Rightarrow> Inl e | Inr r \<Rightarrow> if hr_code r \<ge> 400 then Inl (apiError r) else Inr r)"

text \<open>
  \<open>do\<close> with a struct to decode the response into, given by its fields and its zero value. A body that
  breaks off is decoded from what arrived: the reader's error is then the decoder's.
\<close>

definition do_request ::
  "'w transport \<Rightarrow> string \<Rightarrow> string \<Rightarrow> json option \<Rightarrow> (string \<times> 's setter) list \<Rightarrow> 's \<Rightarrow> 'w \<Rightarrow> 's res \<times> 'w" where
  "do_request http method path body fds zero w =
     (case http method path (map_option print_json body) w of (x, w') \<Rightarrow>
        (case check_status x of
           Inl e \<Rightarrow> Inl e
         | Inr r \<Rightarrow> (case decode_next False fds (hr_body r) zero of Inl e \<Rightarrow> Inl (ErrJson e) | Inr (v, _) \<Rightarrow> Inr v), w'))"

text \<open>\<open>url.PathEscape\<close>.\<close>

definition path_safe :: "char \<Rightarrow> bool" where
  "path_safe c \<longleftrightarrow> is_digit c \<or> between 65 90 c \<or> between 97 122 c \<or> c \<in> set ''-_.~$&+:=@''"

definition hex_upper :: "nat \<Rightarrow> char" where
  "hex_upper n = (if n < 10 then char_of (48 + n) else char_of (55 + n))"

definition PathEscape :: "string \<Rightarrow> string" where
  "PathEscape s = concat (map (\<lambda>c. if path_safe c then [c] else [CHR ''%'', hex_upper (ord c div 16), hex_upper (ord c mod 16)]) s)"

section \<open>Responses\<close>

text \<open>A time: \<open>null\<close> leaves the field, a string is read between its quotes as it stands.\<close>

definition set_time :: "(string \<Rightarrow> time option) \<Rightarrow> string \<Rightarrow> (time \<Rightarrow> 's \<Rightarrow> 's) \<Rightarrow> 's setter" where
  "set_time rd name upd raw v s = (case v of
     JNull \<Rightarrow> (None, s)
   | JStr _ \<Rightarrow> (case rd (butlast (tl raw)) of None \<Rightarrow> (Some (JsonType name), s) | Some t \<Rightarrow> (None, upd t s))
   | _ \<Rightarrow> (Some (JsonType name), s))"

text \<open>A slice of structs.\<close>

definition set_list :: "string \<Rightarrow> (string \<times> 'e setter) list \<Rightarrow> 'e \<Rightarrow> ('e list \<Rightarrow> 's \<Rightarrow> 's) \<Rightarrow> 's setter" where
  "set_list name fds zero upd raw v s = (case v of
     JNull \<Rightarrow> (None, upd [] s)
   | JArr vs \<Rightarrow>
       (let rs = map (\<lambda>v. decode_struct False fds v zero) vs; errs = filter (\<lambda>e. e \<noteq> None) (map fst rs)
        in (case errs of [] \<Rightarrow> None | e # _ \<Rightarrow> e, upd (map snd rs) s))
   | _ \<Rightarrow> (Some (JsonType name), s))"

record times =
  tm_read :: "string \<Rightarrow> time option"     \<comment> \<open>\<open>UnmarshalJSON\<close>\<close>
  tm_clock :: "time \<Rightarrow> string"           \<comment> \<open>\<open>Local().Format("15:04:05")\<close>\<close>
  tm_date :: "time \<Rightarrow> string"            \<comment> \<open>\<open>Local().Format(time.DateTime)\<close>\<close>

record job_info =
  ji_id :: string
  ji_name :: string
  ji_type :: string
  ji_cron_expr :: "string option"
  ji_timezone :: string
  ji_next_run_at :: "time option"

record run_info =
  ri_id :: string
  ri_job_id :: string
  ri_trigger :: string
  ri_status :: string
  ri_attempt :: int
  ri_worker_id :: "string option"
  ri_scheduled_time :: time
  ri_started_at :: "time option"
  ri_finished_at :: "time option"
  ri_next_attempt_at :: "time option"
  ri_error :: "string option"
  ri_output :: "string option"

definition job_info_fields :: "times \<Rightarrow> (string \<times> job_info setter) list" where
  "job_info_fields tm =
     [(''id'', set_string ''id'' (\<lambda>t j. j\<lparr>ji_id := t\<rparr>)),
      (''name'', set_string ''name'' (\<lambda>t j. j\<lparr>ji_name := t\<rparr>)),
      (''type'', set_string ''type'' (\<lambda>t j. j\<lparr>ji_type := t\<rparr>)),
      (''cron_expr'', set_ptr (\<lambda>x j. j\<lparr>ji_cron_expr := x\<rparr>) (set_string ''cron_expr'')),
      (''timezone'', set_string ''timezone'' (\<lambda>t j. j\<lparr>ji_timezone := t\<rparr>)),
      (''next_run_at'', set_ptr (\<lambda>x j. j\<lparr>ji_next_run_at := x\<rparr>) (set_time (tm_read tm) ''next_run_at''))]"

definition zero_job_info :: job_info where
  "zero_job_info = \<lparr>ji_id = [], ji_name = [], ji_type = [], ji_cron_expr = None, ji_timezone = [], ji_next_run_at = None\<rparr>"

definition run_info_fields :: "times \<Rightarrow> (string \<times> run_info setter) list" where
  "run_info_fields tm =
     [(''id'', set_string ''id'' (\<lambda>t r. r\<lparr>ri_id := t\<rparr>)),
      (''job_id'', set_string ''job_id'' (\<lambda>t r. r\<lparr>ri_job_id := t\<rparr>)),
      (''trigger'', set_string ''trigger'' (\<lambda>t r. r\<lparr>ri_trigger := t\<rparr>)),
      (''status'', set_string ''status'' (\<lambda>t r. r\<lparr>ri_status := t\<rparr>)),
      (''attempt'', set_int ''attempt'' (\<lambda>i r. r\<lparr>ri_attempt := i\<rparr>)),
      (''worker_id'', set_ptr (\<lambda>x r. r\<lparr>ri_worker_id := x\<rparr>) (set_string ''worker_id'')),
      (''scheduled_time'', set_time (tm_read tm) ''scheduled_time'' (\<lambda>t r. r\<lparr>ri_scheduled_time := t\<rparr>)),
      (''started_at'', set_ptr (\<lambda>x r. r\<lparr>ri_started_at := x\<rparr>) (set_time (tm_read tm) ''started_at'')),
      (''finished_at'', set_ptr (\<lambda>x r. r\<lparr>ri_finished_at := x\<rparr>) (set_time (tm_read tm) ''finished_at'')),
      (''next_attempt_at'', set_ptr (\<lambda>x r. r\<lparr>ri_next_attempt_at := x\<rparr>) (set_time (tm_read tm) ''next_attempt_at'')),
      (''error'', set_ptr (\<lambda>x r. r\<lparr>ri_error := x\<rparr>) (set_string ''error'')),
      (''output'', set_ptr (\<lambda>x r. r\<lparr>ri_output := x\<rparr>) (set_string ''output''))]"

definition zero_run_info :: run_info where
  "zero_run_info = \<lparr>ri_id = [], ri_job_id = [], ri_trigger = [], ri_status = [], ri_attempt = 0, ri_worker_id = None,
     ri_scheduled_time = 0, ri_started_at = None, ri_finished_at = None, ri_next_attempt_at = None, ri_error = None,
     ri_output = None\<rparr>"

definition log_line_fields :: "times \<Rightarrow> (string \<times> log_line setter) list" where
  "log_line_fields tm =
     [(''attempt'', set_int ''attempt'' (\<lambda>i l. l\<lparr>l_attempt := i\<rparr>)),
      (''seq'', set_int ''seq'' (\<lambda>i l. l\<lparr>l_seq := i\<rparr>)),
      (''ts'', set_time (tm_read tm) ''ts'' (\<lambda>t l. l\<lparr>l_ts := t\<rparr>)),
      (''level'', set_string ''level'' (\<lambda>t l. l\<lparr>l_level := t\<rparr>)),
      (''line'', set_string ''line'' (\<lambda>t l. l\<lparr>l_line := t\<rparr>))]"

definition zero_log_line :: log_line where
  "zero_log_line = \<lparr>l_attempt = 0, l_seq = 0, l_ts = 0, l_level = [], l_line = []\<rparr>"

section \<open>Commands\<close>

text \<open>What a command prints on standard output and standard error, and the error it returns.\<close>

record result =
  o_out :: "string list"
  o_err :: "string list"
  o_error :: "error option"

definition failed :: "error \<Rightarrow> result" where
  "failed e = \<lparr>o_out = [], o_err = [], o_error = Some e\<rparr>"

text \<open>\<open>%-5s\<close> counts characters; \<open>printLine\<close>.\<close>

function rune_count :: "string \<Rightarrow> nat" where
  "rune_count s = (if s = [] then 0 else Suc (rune_count (drop (max 1 (rune_len s)) s)))"
  by pat_completeness auto
termination
  by (relation "measure length") auto

declare rune_count.simps [simp del]

definition pad_to :: "nat \<Rightarrow> string \<Rightarrow> string" where
  "pad_to n s = s @ replicate (n - rune_count s) CHR '' ''"

definition printLine :: "times \<Rightarrow> log_line \<Rightarrow> string" where
  "printLine tm l = tm_clock tm (l_ts l) @ ''  '' @ pad_to 5 (l_level l) @ ''  '' @ l_line l @ [newline]"

definition jobs_fields :: "times \<Rightarrow> (string \<times> job_info list setter) list" where
  "jobs_fields tm = [(''jobs'', set_list ''jobs'' (job_info_fields tm) zero_job_info (\<lambda>js _. js))]"

definition job_row :: "times \<Rightarrow> job_info \<Rightarrow> string list" where
  "job_row tm j = [ji_id j, ji_name j,
     (case ji_cron_expr j of None \<Rightarrow> ''manual'' | Some c \<Rightarrow> c @ '' ('' @ ji_timezone j @ '')''),
     (case ji_next_run_at j of None \<Rightarrow> ''-'' | Some t \<Rightarrow> tm_date tm t)]"

definition jobs_cmd :: "'w transport \<Rightarrow> times \<Rightarrow> 'w \<Rightarrow> string list list res \<times> 'w" where
  "jobs_cmd http tm w = (case do_request http ''GET'' ''/jobs?limit=200'' None (jobs_fields tm) [] w of
     (Inl e, w') \<Rightarrow> (Inl e, w')
   | (Inr js, w') \<Rightarrow> (Inr ([''ID'', ''NAME'', ''SCHEDULE'', ''NEXT RUN''] # map (job_row tm) js), w'))"

record create_args =
  ca_name :: string
  ca_lines :: int
  ca_prefix :: string
  ca_delay :: int
  ca_fail_at :: int
  ca_fail_attempts :: int
  ca_cron :: string
  ca_tz :: string
  ca_max_retries :: int
  ca_timeout :: int

text \<open>The maps \<open>create\<close> builds, with the keys in the order \<open>json.Marshal\<close> writes them.\<close>

definition nonzero :: "string \<Rightarrow> int \<Rightarrow> (string \<times> string \<times> json) list" where
  "nonzero key v = (if v \<noteq> 0 then [member key (json_int v)] else [])"

definition given :: "string \<Rightarrow> string \<Rightarrow> (string \<times> string \<times> json) list" where
  "given key v = (if v \<noteq> [] then [member key (JStr v)] else [])"

definition create_payload :: "create_args \<Rightarrow> json" where
  "create_payload a = JObj (nonzero ''delay_ms'' (ca_delay a) @ nonzero ''fail_at'' (ca_fail_at a)
     @ nonzero ''fail_attempts'' (ca_fail_attempts a) @ [member ''lines'' (json_int (ca_lines a))] @ given ''prefix'' (ca_prefix a))"

definition create_body :: "create_args \<Rightarrow> json" where
  "create_body a = JObj (given ''cron_expr'' (ca_cron a)
     @ (if ca_max_retries a \<ge> 0 then [member ''max_retries'' (json_int (ca_max_retries a))] else [])
     @ [member ''name'' (JStr (ca_name a)), member ''payload'' (create_payload a)]
     @ (if ca_timeout a > 0 then [member ''timeout_sec'' (json_int (ca_timeout a))] else [])
     @ given ''timezone'' (ca_tz a) @ [member ''type'' (JStr ''generate_text'')])"

text \<open>A next run time without a schedule makes \<open>create\<close> dereference a nil pointer.\<close>

definition create :: "'w transport \<Rightarrow> times \<Rightarrow> create_args \<Rightarrow> 'w \<Rightarrow> result \<times> 'w" where
  "create http tm a w =
     (if ca_name a = [] then (failed (ErrText ''create: -name is required''), w)
      else (case do_request http ''POST'' ''/jobs'' (Some (create_body a)) (job_info_fields tm) zero_job_info w of
        (Inl e, w') \<Rightarrow> (failed e, w')
      | (Inr j, w') \<Rightarrow>
          (\<lparr>o_out = [ji_id j @ [newline]],
            o_err = (case (ji_next_run_at j, ji_cron_expr j) of
               (Some t, Some c) \<Rightarrow> [''scheduled '' @ go_quote c @ ''; first run at '' @ tm_date tm t @ [newline]] | _ \<Rightarrow> []),
            o_error = (if ji_next_run_at j \<noteq> None \<and> ji_cron_expr j = None
               then Some (ErrText ''panic: invalid memory address or nil pointer dereference'') else None)\<rparr>, w')))"

section \<open>Following a run\<close>

record end_info =
  ei_status :: string
  ei_attempt :: int
  ei_error :: "string option"

definition zero_end :: end_info where "zero_end = \<lparr>ei_status = [], ei_attempt = 0, ei_error = None\<rparr>"

definition end_fields :: "(string \<times> end_info setter) list" where
  "end_fields =
     [(''status'', set_string ''status'' (\<lambda>t x. x\<lparr>ei_status := t\<rparr>)),
      (''attempt'', set_int ''attempt'' (\<lambda>i x. x\<lparr>ei_attempt := i\<rparr>)),
      (''error'', set_ptr (\<lambda>y x. x\<lparr>ei_error := y\<rparr>) (set_string ''error''))]"

definition errStreamEnd :: error where "errStreamEnd = ErrText ''end of stream''"

text \<open>\<open>json.Unmarshal\<close> whose error is ignored: what was decoded stays.\<close>

definition unmarshal_some :: "(string \<times> 's setter) list \<Rightarrow> string \<Rightarrow> 's \<Rightarrow> 's" where
  "unmarshal_some fds b s = (case parse_all b of Inl _ \<Rightarrow> s | Inr v \<Rightarrow> snd (decode_struct False fds v s))"

definition follow_event :: "times \<Rightarrow> string \<Rightarrow> string \<Rightarrow> end_info \<times> string list \<Rightarrow> error option \<times> end_info \<times> string list" where
  "follow_event tm event data st =
     (if event = ''attempt'' then
        (let a = unmarshal_some [(''Attempt'', set_int ''Attempt'' (\<lambda>i _. i))] data 0
         in (None, fst st, snd st @ [''--- attempt '' @ itoa a @ '' ---'' @ [newline]]))
      else if event = ''line'' then
        (case unmarshal (log_line_fields tm) data zero_log_line of
           Inl e \<Rightarrow> (Some (ErrJson e), st)
         | Inr l \<Rightarrow> (None, fst st, snd st @ [printLine tm l]))
      else if event = ''end'' then
        (case unmarshal end_fields data (fst st) of
           Inl e \<Rightarrow> (Some (ErrJson e), unmarshal_some end_fields data (fst st), snd st)
         | Inr x \<Rightarrow> (Some errStreamEnd, x, snd st))
      else (None, st))"

definition run_outcome :: "end_info \<Rightarrow> error option" where
  "run_outcome x = (if ei_status x \<noteq> ''SUCCEEDED''
     then Some (ErrText (''run '' @ ei_status x @ (case ei_error x of None \<Rightarrow> [] | Some t \<Rightarrow> '': '' @ t))) else None)"

definition follow :: "'w transport \<Rightarrow> times \<Rightarrow> string \<Rightarrow> 'w \<Rightarrow> result \<times> 'w" where
  "follow http tm runID w =
     (case http ''GET'' (''/runs/'' @ PathEscape runID @ ''/logs/stream'') None w of (x, w') \<Rightarrow>
        (case check_status x of
           Inl e \<Rightarrow> failed e
         | Inr r \<Rightarrow>
             (case readEvents (hr_body r, hr_err r) (follow_event tm) (zero_end, []) of (err, fin, out) \<Rightarrow>
                if err = Some errStreamEnd
                then \<lparr>o_out = out @ [''--- run '' @ ei_status fin @ '' after '' @ itoa (ei_attempt fin) @ '' attempt(s) ---'' @ [newline]],
                      o_err = [], o_error = run_outcome fin\<rparr>
                else \<lparr>o_out = out, o_err = [],
                      o_error = Some (case err of None \<Rightarrow> ErrText ''stream closed before the run finished'' | Some e \<Rightarrow> e)\<rparr>), w'))"

definition run_cmd :: "'w transport \<Rightarrow> times \<Rightarrow> bool \<Rightarrow> string list \<Rightarrow> 'w \<Rightarrow> result \<times> 'w" where
  "run_cmd http tm flw args w = (case args of
     [jobID] \<Rightarrow>
       (case do_request http ''POST'' (''/jobs/'' @ PathEscape jobID @ ''/run'') None (run_info_fields tm) zero_run_info w of
          (Inl e, w') \<Rightarrow> (failed e, w')
        | (Inr r, w') \<Rightarrow>
            (if flw then apfst (\<lambda>x. x\<lparr>o_out := (ri_id r @ [newline]) # o_out x\<rparr>) (follow http tm (ri_id r) w')
             else (\<lparr>o_out = [ri_id r @ [newline]], o_err = [], o_error = None\<rparr>, w')))
   | _ \<Rightarrow> (failed (ErrText ''usage: jobctl run [-f] <job-id>''), w))"

section \<open>Status and logs\<close>

definition opt_row :: "string \<Rightarrow> ('a \<Rightarrow> string) \<Rightarrow> 'a option \<Rightarrow> string list list" where
  "opt_row k f x = (case x of None \<Rightarrow> [] | Some v \<Rightarrow> [[k, f v]])"

definition status_rows :: "times \<Rightarrow> run_info \<Rightarrow> string list list" where
  "status_rows tm r =
     [[''run'', ri_id r], [''job'', ri_job_id r], [''status'', ri_status r], [''attempt'', itoa (ri_attempt r)],
      [''trigger'', ri_trigger r], [''scheduled'', tm_date tm (ri_scheduled_time r)]]
     @ opt_row ''worker'' id (ri_worker_id r) @ opt_row ''started'' (tm_date tm) (ri_started_at r)
     @ opt_row ''finished'' (tm_date tm) (ri_finished_at r) @ opt_row ''retry at'' (tm_date tm) (ri_next_attempt_at r)
     @ opt_row ''error'' id (ri_error r)
     @ opt_row ''output'' (\<lambda>t. itoa (int (length (filter (\<lambda>c. c = newline) t))) @ '' lines'') (ri_output r)"

definition status_cmd :: "'w transport \<Rightarrow> times \<Rightarrow> string list \<Rightarrow> 'w \<Rightarrow> string list list res \<times> 'w" where
  "status_cmd http tm args w = (case args of
     [runID] \<Rightarrow>
       (case do_request http ''GET'' (''/runs/'' @ PathEscape runID) None (run_info_fields tm) zero_run_info w of
          (Inl e, w') \<Rightarrow> (Inl e, w') | (Inr r, w') \<Rightarrow> (Inr (status_rows tm r), w'))
   | _ \<Rightarrow> (Inl (ErrText ''usage: jobctl status <run-id>''), w))"

record log_page =
  pg_attempt :: int
  pg_lines :: "log_line list"
  pg_next_seq :: int

definition page_fields :: "times \<Rightarrow> (string \<times> log_page setter) list" where
  "page_fields tm =
     [(''attempt'', set_int ''attempt'' (\<lambda>i p. p\<lparr>pg_attempt := i\<rparr>)),
      (''lines'', set_list ''lines'' (log_line_fields tm) zero_log_line (\<lambda>ls p. p\<lparr>pg_lines := ls\<rparr>)),
      (''next_seq'', set_int ''next_seq'' (\<lambda>i p. p\<lparr>pg_next_seq := i\<rparr>))]"

definition zero_page :: log_page where "zero_page = \<lparr>pg_attempt = 0, pg_lines = [], pg_next_seq = 0\<rparr>"

definition logs_path :: "string \<Rightarrow> int \<Rightarrow> string" where
  "logs_path runID fromSeq = ''/runs/'' @ PathEscape runID @ ''/logs?from_seq='' @ itoa fromSeq @ ''&limit=1000''"

text \<open>The loop over the pages asks until a page is not full.\<close>

partial_function (option) logs_loop ::
  "'w transport \<Rightarrow> times \<Rightarrow> string \<Rightarrow> int \<Rightarrow> string list \<Rightarrow> 'w \<Rightarrow> (result \<times> 'w) option" where
  "logs_loop http tm runID fromSeq out w =
     (case do_request http ''GET'' (logs_path runID fromSeq) None (page_fields tm) zero_page w of
        (Inl e, w') \<Rightarrow> Some (\<lparr>o_out = out, o_err = [], o_error = Some e\<rparr>, w')
      | (Inr p, w') \<Rightarrow>
          (let out' = out @ map (printLine tm) (pg_lines p) in
           if length (pg_lines p) < 1000 then Some (\<lparr>o_out = out', o_err = [], o_error = None\<rparr>, w')
           else logs_loop http tm runID (pg_next_seq p) out' w'))"

definition logs_cmd :: "'w transport \<Rightarrow> times \<Rightarrow> bool \<Rightarrow> string list \<Rightarrow> 'w \<Rightarrow> (result \<times> 'w) option" where
  "logs_cmd http tm flw args w = (case args of
     [runID] \<Rightarrow> (if flw then Some (follow http tm runID w) else logs_loop http tm runID 1 [] w)
   | _ \<Rightarrow> Some (failed (ErrText ''usage: jobctl logs [-f] <run-id>''), w))"

end
