(* ===== verification/ApiHttp.thy ===== *)
theory ApiHttp
  imports Jobctl
begin

text \<open>
  The API at the other end of the client's connection: \<open>Routes\<close> of \<open>internal/api/api.go\<close> with what
  \<open>http.ServeMux\<close> and \<open>net/url\<close> make of a request's target, the handlers, and the JSON \<open>writeJSON\<close> encodes
  (the tags of \<open>internal/store/models.go\<close>). The whole is a transport for the client of Jobctl.
\<close>

section \<open>\<open>net/url\<close>\<close>

text \<open>\<open>PathUnescape\<close>, and \<open>QueryUnescape\<close>, where a plus sign is a space.\<close>

fun unescape_url :: "bool \<Rightarrow> string \<Rightarrow> string option" where
  "unescape_url query [] = Some []"
| "unescape_url query (c # s) =
     (if c = CHR ''%'' then
        (case s of a # b # r \<Rightarrow>
           (case (hex_val a, hex_val b) of
              (Some x, Some y) \<Rightarrow> map_option ((#) (char_of (16 * x + y))) (unescape_url query r)
            | _ \<Rightarrow> None)
         | _ \<Rightarrow> None)
      else map_option ((#) (if query \<and> c = CHR ''+'' then CHR '' '' else c)) (unescape_url query s))"

text \<open>\<open>strings.Cut\<close> at a byte.\<close>

definition cut :: "char \<Rightarrow> string \<Rightarrow> string \<times> string" where
  "cut c s = (case span (\<lambda>x. x \<noteq> c) s of (a, []) \<Rightarrow> (a, []) | (a, _ # b) \<Rightarrow> (a, b))"

text \<open>\<open>URL.Query().Get\<close>: pairs that are malformed are left out, the first value of a key counts.\<close>

definition query_pair :: "string \<Rightarrow> (string \<times> string) list" where
  "query_pair p = (if p = [] \<or> CHR '';'' \<in> set p then []
     else (case cut CHR ''='' p of (k, v) \<Rightarrow>
       (case (unescape_url True k, unescape_url True v) of (Some k', Some v') \<Rightarrow> [(k', v')] | _ \<Rightarrow> [])))"

definition query_get :: "string \<Rightarrow> string \<Rightarrow> string" where
  "query_get q name = (case map_of (concat (map query_pair (split_on CHR ''&'' q))) name of None \<Rightarrow> [] | Some v \<Rightarrow> v)"

section \<open>\<open>Routes\<close>\<close>

datatype endpoint = EHealthz | EReadyz | ECreateJob | EListJobs | EGetJob | ERunJob | EPause | EResume
  | EListRuns | EGetRun | EListLogs | EStreamLogs

definition Routes :: "(string \<times> string \<times> endpoint) list" where
  "Routes =
     [(''GET'', ''/healthz'', EHealthz),
      (''GET'', ''/readyz'', EReadyz),
      (''POST'', ''/jobs'', ECreateJob),
      (''GET'', ''/jobs'', EListJobs),
      (''GET'', ''/jobs/{id}'', EGetJob),
      (''POST'', ''/jobs/{id}/run'', ERunJob),
      (''POST'', ''/jobs/{id}/pause'', EPause),
      (''POST'', ''/jobs/{id}/resume'', EResume),
      (''GET'', ''/runs'', EListRuns),
      (''GET'', ''/runs/{id}'', EGetRun),
      (''GET'', ''/runs/{id}/logs'', EListLogs),
      (''GET'', ''/runs/{id}/logs/stream'', EStreamLogs)]"

text \<open>
  \<open>ServeMux\<close> on the segments of the path as sent: a literal segment or \<open>{id}\<close>, which takes one that is
  not empty and whose value is the segment unescaped. The patterns of a method do not overlap, so
  their order does not matter. \<open>GET /\<close>, the files of the web page, takes what no pattern takes; a path
  with empty or dot segments is redirected; a method no pattern has is refused. These are left to the
  parameter of \<open>api_transport\<close>, as is the stream of events.
\<close>

definition segment :: "string \<Rightarrow> string" where
  "segment s = (case unescape_url False s of None \<Rightarrow> s | Some t \<Rightarrow> t)"

fun match_segments :: "string list \<Rightarrow> string list \<Rightarrow> string list option" where
  "match_segments [] [] = Some []"
| "match_segments (p # ps) (s # ss) =
     (if p = ''{id}'' then (if s = [] then None else map_option ((#) (segment s)) (match_segments ps ss))
      else if p = segment s then match_segments ps ss else None)"
| "match_segments _ _ = None"

definition clean_path :: "string \<Rightarrow> bool" where
  "clean_path path \<longleftrightarrow> unescape_url False path \<noteq> None \<and>
     (case split_on CHR ''/'' path of [] # ss \<Rightarrow> list_all (\<lambda>s. s \<noteq> ''.'' \<and> s \<noteq> ''..'') ss \<and> [] \<notin> set (butlast ss) | _ \<Rightarrow> False)"

fun match_route :: "(string \<times> string \<times> endpoint) list \<Rightarrow> string \<Rightarrow> string list \<Rightarrow> (endpoint \<times> string) option" where
  "match_route [] m ss = None"
| "match_route ((pm, pat, ep) # rs) m ss =
     (if pm = m \<or> (pm = ''GET'' \<and> m = ''HEAD'') then
        (case match_segments (split_on CHR ''/'' pat) ss of
           None \<Rightarrow> match_route rs m ss | Some vs \<Rightarrow> Some (ep, concat vs))
      else match_route rs m ss)"

definition route :: "string \<Rightarrow> string \<Rightarrow> (endpoint \<times> string) option" where
  "route m path = (if clean_path path then match_route Routes m (split_on CHR ''/'' path) else None)"

section \<open>JSON\<close>

definition time_json :: "(time \<Rightarrow> string) \<Rightarrow> time \<Rightarrow> json" where
  "time_json show t = JStr (show t)"

text \<open>\<open>omitempty\<close> on a pointer.\<close>

definition omit :: "string \<Rightarrow> ('a \<Rightarrow> json) \<Rightarrow> 'a option \<Rightarrow> (string \<times> string \<times> json) list" where
  "omit k f x = (case x of None \<Rightarrow> [] | Some v \<Rightarrow> [member k (f v)])"

text \<open>
  The payload is a \<open>json.RawMessage\<close>, written without its white space; \<open>jsonb\<close> text has the escapes
  \<open>Marshal\<close> itself writes. Text that is not JSON makes \<open>Encode\<close> write nothing.
\<close>

definition job_json :: "(time \<Rightarrow> string) \<Rightarrow> job \<Rightarrow> json option" where
  "job_json show j = (case parse_all (j_payload j) of Inl _ \<Rightarrow> None | Inr p \<Rightarrow> Some (JObj (
     [member ''id'' (JStr (j_id j)), member ''name'' (JStr (j_name j)), member ''type'' (JStr (j_type j)), member ''payload'' p]
     @ omit ''cron_expr'' JStr (j_cron_expr j) @ [member ''timezone'' (JStr (j_timezone j))]
     @ omit ''next_run_at'' (time_json show) (j_next_run_at j)
     @ [member ''enabled'' (JBool (j_enabled j)), member ''max_retries'' (json_int (j_max_retries j)),
        member ''timeout_sec'' (json_int (j_timeout_sec j)), member ''created_at'' (time_json show (j_created_at j)),
        member ''updated_at'' (time_json show (j_updated_at j))])))"

fun trigger_text :: "trigger \<Rightarrow> string" where
  "trigger_text TriggerSchedule = ''schedule''"
| "trigger_text TriggerManual = ''manual''"

definition run_json :: "(time \<Rightarrow> string) \<Rightarrow> run \<Rightarrow> json" where
  "run_json show r = JObj (
     [member ''id'' (JStr (r_id r)), member ''job_id'' (JStr (r_job_id r)),
      member ''scheduled_time'' (time_json show (r_scheduled_time r)), member ''trigger'' (JStr (trigger_text (r_trigger r))),
      member ''status'' (JStr (status_text (r_status r))), member ''attempt'' (json_int (r_attempt r))]
     @ omit ''worker_id'' JStr (r_worker_id r) @ [member ''queued_at'' (time_json show (r_queued_at r))]
     @ omit ''started_at'' (time_json show) (r_started_at r) @ omit ''finished_at'' (time_json show) (r_finished_at r)
     @ omit ''last_heartbeat_at'' (time_json show) (r_last_heartbeat_at r)
     @ omit ''next_attempt_at'' (time_json show) (r_next_attempt_at r)
     @ omit ''error'' JStr (r_error r) @ omit ''output'' JStr (r_output r))"

fun all_some :: "'a option list \<Rightarrow> 'a list option" where
  "all_some [] = Some []"
| "all_some (None # xs) = None"
| "all_some (Some x # xs) = map_option ((#) x) (all_some xs)"

fun content_json :: "(time \<Rightarrow> string) \<Rightarrow> content \<Rightarrow> json option" where
  "content_json show (BError msg) = Some (JObj [member ''error'' (JStr msg)])"
| "content_json show (BStatus s) = Some (JObj [member ''status'' (JStr s)])"
| "content_json show (BJob j) = job_json show j"
| "content_json show (BJobs js) = map_option (\<lambda>vs. JObj [member ''jobs'' (JArr vs)]) (all_some (map (job_json show) js))"
| "content_json show (BRun r) = Some (run_json show r)"
| "content_json show (BRuns rs) = Some (JObj [member ''runs'' (JArr (map (run_json show) rs))])"
| "content_json show (BLogs x) = Some (logs_json show x)"

text \<open>\<open>Encoder.Encode\<close> ends with a newline.\<close>

definition content_text :: "(time \<Rightarrow> string) \<Rightarrow> content \<Rightarrow> string" where
  "content_text show c = (case content_json show c of None \<Rightarrow> [] | Some v \<Rightarrow> print_json v @ [newline])"

section \<open>The server\<close>

text \<open>What a request meets: the environments of its store calls, in order, the clock and the broker.\<close>

record ('loc, 'sched, 'k) api_server =
  sv_uuid :: "string \<Rightarrow> uuid option"
  sv_zones :: "('loc, 'sched) zones"
  sv_write :: "'k writer"
  sv_now :: time
  sv_ping :: "error option"
  sv_env :: "nat \<Rightarrow> env"
  sv_show :: "time \<Rightarrow> string"
  sv_other :: "string \<Rightarrow> string \<Rightarrow> http_response res"

definition on_db :: "(db \<Rightarrow> response \<times> db) \<Rightarrow> db \<times> 'k \<Rightarrow> response \<times> db \<times> 'k" where
  "on_db f st = (case f (fst st) of (resp, d) \<Rightarrow> (resp, d, snd st))"

fun handle :: "('loc, 'sched, 'k) api_server \<Rightarrow> endpoint \<Rightarrow> request \<Rightarrow> db \<times> 'k \<Rightarrow> (response \<times> db \<times> 'k) option" where
  "handle sv EHealthz r st = Some (handleHealthz, st)"
| "handle sv EReadyz r st = Some (handleReadyz (sv_ping sv), st)"
| "handle sv ECreateJob r st = Some (on_db (handleCreateJob (sv_zones sv) (sv_now sv) (sv_env sv 0) r) st)"
| "handle sv EListJobs r st = Some (on_db (handleListJobs (sv_env sv 0) r) st)"
| "handle sv EGetJob r st = Some (on_db (handleGetJob (sv_uuid sv) (sv_env sv 0) r) st)"
| "handle sv ERunJob r st = Some (handleRunJob (sv_uuid sv) (sv_write sv) (sv_env sv 0) (sv_env sv 1) (sv_env sv 2) r st)"
| "handle sv EPause r st =
     Some (on_db (handleSetEnabled (sv_uuid sv) (sv_zones sv) (sv_now sv) False (sv_env sv 0) (sv_env sv 1) r) st)"
| "handle sv EResume r st =
     Some (on_db (handleSetEnabled (sv_uuid sv) (sv_zones sv) (sv_now sv) True (sv_env sv 0) (sv_env sv 1) r) st)"
| "handle sv EListRuns r st = Some (on_db (handleListRuns (sv_uuid sv) (sv_env sv 0) r) st)"
| "handle sv EGetRun r st = Some (on_db (handleGetRun (sv_uuid sv) (sv_env sv 0) r) st)"
| "handle sv EListLogs r st = Some (on_db (handleListLogs (sv_uuid sv) (sv_env sv 0) (sv_env sv 1) r) st)"
| "handle sv EStreamLogs r st = None"

text \<open>\<open>http.StatusText\<close> of the codes the handlers use.\<close>

definition status_line :: "int \<Rightarrow> string" where
  "status_line c = itoa c @ '' '' @
     (if c = 200 then ''OK'' else if c = 201 then ''Created'' else if c = 202 then ''Accepted''
      else if c = 400 then ''Bad Request'' else if c = 404 then ''Not Found''
      else if c = 502 then ''Bad Gateway'' else if c = 503 then ''Service Unavailable'' else ''Internal Server Error'')"

definition api_transport :: "('loc, 'sched, 'k) api_server \<Rightarrow> (db \<times> 'k) transport" where
  "api_transport sv m target body st =
     (case cut CHR ''?'' target of (path, q) \<Rightarrow>
        (case route m path of None \<Rightarrow> (sv_other sv m target, st)
         | Some (ep, i) \<Rightarrow>
             (case handle sv ep \<lparr>h_id = i, h_query = query_get q, h_body = (case body of None \<Rightarrow> [] | Some b \<Rightarrow> b)\<rparr> st of
                None \<Rightarrow> (sv_other sv m target, st)
              | Some (resp, st') \<Rightarrow>
                  (Inr \<lparr>hr_code = re_status resp, hr_status = status_line (re_status resp), hr_method = m,
                        hr_path = segment path,
                        hr_body = (if m = ''HEAD'' then [] else content_text (sv_show sv) (re_body resp)), hr_err = None\<rparr>, st'))))"

section \<open>The client's targets\<close>

lemma hex_val_upper: "n < 16 \<Longrightarrow> hex_val (hex_upper n) = Some n"
  by (auto simp: hex_val_def hex_upper_def is_digit_def between_def)

lemma ord_less: "ord c < 256"
  by (metis of_char_mod_256 mod_less_divisor zero_less_numeral)

lemma ord_digits: "ord c div 16 < 16" "ord c mod 16 < 16"
  using ord_less [of c] by (auto simp: less_mult_imp_div_less)

lemma unescape_append_escape: "unescape_url False (PathEscape s @ t) = map_option ((@) s) (unescape_url False t)"
proof (induction s)
  case Nil
  then show ?case by (simp add: PathEscape_def option.map_ident)
next
  case (Cons c s)
  have e: "PathEscape (c # s) = (if path_safe c then [c] else [CHR ''%'', hex_upper (ord c div 16), hex_upper (ord c mod 16)]) @ PathEscape s"
    by (simp add: PathEscape_def)
  show ?case
  proof (cases "path_safe c")
    case True
    then have "c \<noteq> CHR ''%''" by (auto simp: path_safe_def is_digit_def between_def)
    with True Cons show ?thesis by (simp add: e option.map_comp comp_def)
  next
    case False
    have "char_of (16 * (ord c div 16) + ord c mod 16) = c" by simp
    then show ?thesis using False Cons by (simp add: e hex_val_upper ord_digits option.map_comp comp_def)
  qed
qed

lemma unescape_escape: "unescape_url False (PathEscape s) = Some s"
  using unescape_append_escape [of s "[]"] by simp

lemma segment_escape [simp]: "segment (PathEscape s) = s"
  by (simp add: segment_def unescape_escape)

lemma PathEscape_chars: "c \<in> set (PathEscape s) \<Longrightarrow> path_safe c \<or> c = CHR ''%''"
proof -
  have "path_safe (hex_upper n)" if "n < 16" for n
    using that by (auto simp: path_safe_def hex_upper_def is_digit_def between_def)
  then show "c \<in> set (PathEscape s) \<Longrightarrow> path_safe c \<or> c = CHR ''%''"
    by (auto simp: PathEscape_def ord_digits split: if_splits)
qed

lemma PathEscape_no: "c \<in> {CHR ''/'', CHR ''?'', CHR ''{''} \<Longrightarrow> c \<notin> set (PathEscape s)"
  using PathEscape_chars [of c s] by (auto simp: path_safe_def is_digit_def between_def)

lemma PathEscape_eq: "unescape_url False t = Some t \<Longrightarrow> PathEscape s = t \<longleftrightarrow> PathEscape s = t \<and> s = t"
  using unescape_escape [of s] by auto

text \<open>An id that is a path segment of its own: the dots would be cleaned away, the empty one is no segment.\<close>

definition plain_id :: "string \<Rightarrow> bool" where
  "plain_id i \<longleftrightarrow> i \<noteq> [] \<and> i \<noteq> ''.'' \<and> i \<noteq> ''..''"

lemma plain_segment:
  assumes "plain_id i"
  shows "PathEscape i \<noteq> []" and "PathEscape i \<noteq> ''.''" and "PathEscape i \<noteq> ''..''"
  using assms PathEscape_eq [of "[]" i] PathEscape_eq [of "''.''" i] PathEscape_eq [of "''..''" i] by (auto simp: plain_id_def)

lemma split_escaped:
  "split_on CHR ''/'' (PathEscape i) = [PathEscape i]"
  "split_on CHR ''/'' (PathEscape i @ CHR ''/'' # t) = PathEscape i # split_on CHR ''/'' t"
  using PathEscape_no [of "CHR ''/''" i] by (simp_all add: split_on_id split_on_append)

lemma route_with_id:
  assumes "plain_id i"
  shows "route ''GET'' (''/runs/'' @ PathEscape i) = Some (EGetRun, i)"
    and "route ''GET'' (''/runs/'' @ PathEscape i @ ''/logs'') = Some (EListLogs, i)"
    and "route ''GET'' (''/runs/'' @ PathEscape i @ ''/logs/stream'') = Some (EStreamLogs, i)"
    and "route ''POST'' (''/jobs/'' @ PathEscape i @ ''/run'') = Some (ERunJob, i)"
  using plain_segment [OF assms]
  by (simp_all add: route_def clean_path_def Routes_def split_escaped unescape_append_escape unescape_escape)
    (simp_all add: segment_def unescape_escape)

lemma route_fixed: "route ''POST'' ''/jobs'' = Some (ECreateJob, [])" "route ''GET'' ''/jobs'' = Some (EListJobs, [])"
  by (simp_all add: route_def clean_path_def Routes_def segment_def)

lemma cut_at: "c \<notin> set a \<Longrightarrow> cut c (a @ c # b) = (a, b)"
  by (induction a) (auto simp: cut_def split: prod.splits list.splits)

lemma cut_none: "c \<notin> set a \<Longrightarrow> cut c a = (a, [])"
  by (induction a) (auto simp: cut_def split: prod.splits list.splits)

lemma unescape_plain: "CHR ''%'' \<notin> set s \<Longrightarrow> CHR ''+'' \<notin> set s \<Longrightarrow> unescape_url q s = Some s"
  by (induction s) auto

lemma itoa_chars: "c \<in> set (itoa s) \<Longrightarrow> is_digit c \<or> c = CHR ''-''"
  by (auto simp: itoa_def dest: dec_digits_all split: if_splits)

lemma itoa_no: "\<not> is_digit c \<Longrightarrow> c \<noteq> CHR ''-'' \<Longrightarrow> c \<notin> set (itoa s)"
  using itoa_chars by blast

lemma query_page:
  "query_get (''from_seq='' @ itoa s @ ''&limit=1000'') =
     (\<lambda>k. if k = ''from_seq'' then itoa s else if k = ''limit'' then ''1000'' else [])"
proof -
  have no: "c \<notin> set (itoa s)" if "c \<in> {CHR ''&'', CHR ''='', CHR ''%'', CHR ''+'', CHR '';''}" for c
    using that by (intro itoa_no) (auto simp: is_digit_def)
  have p: "split_on CHR ''&'' (''from_seq='' @ itoa s @ ''&limit=1000'') = [''from_seq='' @ itoa s, ''limit=1000'']"
    using split_on_append [of "CHR ''&''" "''from_seq='' @ itoa s" "''limit=1000''"] no by simp
  have "query_pair (''from_seq='' @ itoa s) = [(''from_seq'', itoa s)]"
    using cut_at [of "CHR ''=''" "''from_seq''" "itoa s"] no by (simp add: query_pair_def unescape_plain)
  moreover have "query_pair ''limit=1000'' = [(''limit'', ''1000'')]"
    using cut_at [of "CHR ''=''" "''limit''" "''1000''"] by (simp add: query_pair_def)
  ultimately have "concat (map query_pair (split_on CHR ''&'' (''from_seq='' @ itoa s @ ''&limit=1000''))) =
      [(''from_seq'', itoa s), (''limit'', ''1000'')]"
    unfolding p by simp
  then show ?thesis unfolding query_get_def by (intro ext) (simp only:, simp)
qed

text \<open>What the handler gets of the client's requests.\<close>

text \<open>The answer to a request, as the client gets it.\<close>

definition answer :: "('loc, 'sched, 'k) api_server \<Rightarrow> string \<Rightarrow> string \<Rightarrow> response \<Rightarrow> http_response" where
  "answer sv m path resp = \<lparr>hr_code = re_status resp, hr_status = status_line (re_status resp), hr_method = m,
     hr_path = segment path, hr_body = content_text (sv_show sv) (re_body resp), hr_err = None\<rparr>"

lemma api_answer:
  assumes "cut CHR ''?'' target = (path, q)" and "route m path = Some (ep, i)" and "m \<noteq> ''HEAD''"
    and "handle sv ep \<lparr>h_id = i, h_query = query_get q, h_body = (case body of None \<Rightarrow> [] | Some b \<Rightarrow> b)\<rparr> st = Some (resp, st')"
  shows "api_transport sv m target body st = (Inr (answer sv m path resp), st')"
  using assms by (simp add: api_transport_def answer_def)

lemma cut_escaped:
  assumes "CHR ''?'' \<notin> set p" and "CHR ''?'' \<notin> set t"
  shows "cut CHR ''?'' (p @ PathEscape i @ t) = (p @ PathEscape i @ t, [])"
    and "cut CHR ''?'' (p @ PathEscape i @ t @ CHR ''?'' # q) = (p @ PathEscape i @ t, q)"
  using assms PathEscape_no [of "CHR ''?''" i] cut_none [of "CHR ''?''" "p @ PathEscape i @ t"]
    cut_at [of "CHR ''?''" "p @ PathEscape i @ t" q] by simp_all

lemma api_get_run:
  assumes "plain_id i" and "handleGetRun (sv_uuid sv) (sv_env sv 0) \<lparr>h_id = i, h_query = query_get [], h_body = []\<rparr> (fst st) = (resp, d)"
  shows "api_transport sv ''GET'' (''/runs/'' @ PathEscape i) None st = (Inr (answer sv ''GET'' (''/runs/'' @ PathEscape i) resp), d, snd st)"
  using cut_escaped(1) [of "''/runs/''" "[]" i] route_with_id(1) [OF assms(1)] assms(2)
  by (intro api_answer [where ep = EGetRun and i = i and q = "[]"]) (simp_all add: on_db_def del: append.simps)

lemma api_run_job:
  assumes "plain_id i"
    and "handleRunJob (sv_uuid sv) (sv_write sv) (sv_env sv 0) (sv_env sv 1) (sv_env sv 2) \<lparr>h_id = i, h_query = query_get [], h_body = []\<rparr> st
      = (resp, st')"
  shows "api_transport sv ''POST'' (''/jobs/'' @ PathEscape i @ ''/run'') None st =
    (Inr (answer sv ''POST'' (''/jobs/'' @ PathEscape i @ ''/run'') resp), st')"
  using cut_escaped(1) [of "''/jobs/''" "''/run''" i] route_with_id(4) [OF assms(1)] assms(2)
  by (intro api_answer [where ep = ERunJob and i = i and q = "[]"]) (simp_all del: append.simps)

lemma api_list_jobs:
  assumes "handleListJobs (sv_env sv 0) \<lparr>h_id = [], h_query = query_get ''limit=200'', h_body = []\<rparr> (fst st) = (resp, d)"
  shows "api_transport sv ''GET'' ''/jobs?limit=200'' None st = (Inr (answer sv ''GET'' ''/jobs'' resp), d, snd st)"
  using cut_at [of "CHR ''?''" "''/jobs''" "''limit=200''"] route_fixed(2) assms
  by (intro api_answer [where ep = EListJobs and i = "[]" and q = "''limit=200''"]) (simp_all add: on_db_def)

lemma api_create_job:
  assumes "handleCreateJob (sv_zones sv) (sv_now sv) (sv_env sv 0) \<lparr>h_id = [], h_query = query_get [], h_body = b\<rparr> (fst st) = (resp, d)"
  shows "api_transport sv ''POST'' ''/jobs'' (Some b) st = (Inr (answer sv ''POST'' ''/jobs'' resp), d, snd st)"
  using cut_none [of "CHR ''?''" "''/jobs''"] route_fixed(1) assms
  by (intro api_answer [where ep = ECreateJob and i = "[]" and q = "[]"]) (simp_all add: on_db_def)

lemma api_list_logs:
  assumes "plain_id i"
    and "handleListLogs (sv_uuid sv) (sv_env sv 0) (sv_env sv 1)
      \<lparr>h_id = i, h_query = (\<lambda>k. if k = ''from_seq'' then itoa s else if k = ''limit'' then ''1000'' else []), h_body = []\<rparr> (fst st) = (resp, d)"
  shows "api_transport sv ''GET'' (logs_path i s) None st =
    (Inr (answer sv ''GET'' (''/runs/'' @ PathEscape i @ ''/logs'') resp), d, snd st)"
proof -
  let ?q = "''from_seq='' @ itoa s @ ''&limit=1000''"
  have c: "cut CHR ''?'' (logs_path i s) = (''/runs/'' @ PathEscape i @ ''/logs'', ?q)"
    using cut_escaped(2) [of "''/runs/''" "''/logs''" i ?q] by (simp add: logs_path_def)
  have h: "handle sv EListLogs \<lparr>h_id = i, h_query = query_get ?q, h_body = (case None of None \<Rightarrow> [] | Some b \<Rightarrow> b)\<rparr> st = Some (resp, d, snd st)"
    using assms(2) by (simp only: query_page handle.simps on_db_def option.case prod.case)
  show ?thesis by (rule api_answer [OF c route_with_id(2) [OF assms(1)] _ h]) simp
qed

end
