(* ===== verification/ApiLog.thy ===== *)
theory ApiLog
  imports ApiHttp
begin

text \<open>
  The middleware of \<open>internal/api/api.go\<close>: \<open>statusRecorder\<close> around \<open>net/http\<close>'s response writer and
  \<open>logRequests\<close>. A handler is the calls it makes on its writer.
\<close>

section \<open>Response writers\<close>

datatype write_call = WHeader int | WBytes string | WFlush

text \<open>
  \<open>net/http\<close>'s writer: the first final status is sent, later ones are dropped, the first byte or flush
  sends 200 when no status was set, informational ones go out without deciding anything.
\<close>

record http_writer =
  hw_sent :: "int option"
  hw_body :: string

definition new_writer :: http_writer where
  "new_writer = \<lparr>hw_sent = None, hw_body = []\<rparr>"

definition final_code :: "int \<Rightarrow> bool" where
  "final_code c \<longleftrightarrow> \<not> (100 \<le> c \<and> c \<le> 199) \<or> c = 101"

definition implicit_ok :: "http_writer \<Rightarrow> http_writer" where
  "implicit_ok w = (if hw_sent w = None then w\<lparr>hw_sent := Some 200\<rparr> else w)"

fun net_call :: "write_call \<Rightarrow> http_writer \<Rightarrow> http_writer" where
  "net_call (WHeader c) w = (if hw_sent w = None \<and> final_code c then w\<lparr>hw_sent := Some c\<rparr> else w)"
| "net_call (WBytes t) w = (implicit_ok w)\<lparr>hw_body := hw_body w @ t\<rparr>"
| "net_call WFlush w = implicit_ok w"

text \<open>What is on the wire when the handler has returned.\<close>

definition served :: "http_writer \<Rightarrow> int \<times> string" where
  "served w = (the (hw_sent (implicit_ok w)), hw_body w)"

section \<open>The middleware\<close>

record recorder =
  rc_writer :: http_writer
  rc_status :: int

text \<open>\<open>WriteHeader\<close> is overridden, \<open>Write\<close> is the embedded writer's, \<open>Unwrap\<close> passes flushes through.\<close>

fun recorder_call :: "write_call \<Rightarrow> recorder \<Rightarrow> recorder" where
  "recorder_call (WHeader c) r = \<lparr>rc_writer = net_call (WHeader c) (rc_writer r), rc_status = c\<rparr>"
| "recorder_call call r = r\<lparr>rc_writer := net_call call (rc_writer r)\<rparr>"

record log_entry =
  le_method :: string
  le_path :: string
  le_status :: int

definition logRequests :: "string \<Rightarrow> string \<Rightarrow> write_call list \<Rightarrow> (int \<times> string) \<times> log_entry list" where
  "logRequests method path calls =
     (let r = fold recorder_call calls \<lparr>rc_writer = new_writer, rc_status = 200\<rparr> in
      (served (rc_writer r),
       if path = ''/healthz'' \<or> path = ''/readyz'' then []
       else [\<lparr>le_method = method, le_path = path, le_status = rc_status r\<rparr>]))"

text \<open>
  The calls of \<open>writeJSON\<close>, and of a log stream that was opened: its events in the rounds of the poll
  loop, with one flush at the end of each round.
\<close>

definition response_calls :: "(time \<Rightarrow> string) \<Rightarrow> response \<Rightarrow> write_call list" where
  "response_calls show r = [WHeader (re_status r), WBytes (content_text show (re_body r))]"

definition stream_calls :: "(time \<Rightarrow> string) \<Rightarrow> sse list list \<Rightarrow> write_call list" where
  "stream_calls show rounds =
     WHeader 200 # concat (map (\<lambda>evs. map (\<lambda>ev. WBytes (sse_text show ev)) evs @ [WFlush]) rounds)"

section \<open>The log tells what was served\<close>

definition is_header :: "write_call \<Rightarrow> bool" where
  "is_header call \<longleftrightarrow> (\<exists>c. call = WHeader c)"

lemma recorder_is_transparent:
  "rc_writer (fold recorder_call calls r) = fold net_call calls (rc_writer r)"
proof (induction calls arbitrary: r)
  case (Cons call calls)
  then show ?case by (cases call) simp_all
qed simp

lemma recorder_keeps_status:
  "list_all (\<lambda>call. \<not> is_header call) calls \<Longrightarrow> rc_status (fold recorder_call calls r) = rc_status r"
proof (induction calls arbitrary: r)
  case (Cons call calls)
  then show ?case by (cases call) (simp_all add: is_header_def)
qed simp

lemma net_keeps_status:
  "hw_sent w = Some c \<Longrightarrow> hw_sent (fold net_call calls w) = Some c"
proof (induction calls arbitrary: w)
  case (Cons call calls)
  then show ?case by (cases call) (simp_all add: implicit_ok_def)
qed simp

text \<open>
  The request log is a true record: the middleware does not change what a handler serves, every
  request but a health probe has exactly one entry, and for a handler that sets its status first and
  once, as \<open>writeJSON\<close> and the log stream do, the entry has the status the client got.
\<close>

theorem logRequests_records_served:
  "fst (logRequests method path calls) = served (fold net_call calls new_writer)
   \<and> length (snd (logRequests method path calls)) = (if path \<in> {''/healthz'', ''/readyz''} then 0 else 1)
   \<and> (\<forall>c rest. calls = WHeader c # rest \<and> final_code c \<and> list_all (\<lambda>call. \<not> is_header call) rest \<longrightarrow>
        fst (fst (logRequests method path calls)) = c
        \<and> list_all (\<lambda>le. le = \<lparr>le_method = method, le_path = path, le_status = c\<rparr>) (snd (logRequests method path calls)))"
proof -
  let ?r = "fold recorder_call calls \<lparr>rc_writer = new_writer, rc_status = 200\<rparr>"
  have t: "rc_writer ?r = fold net_call calls new_writer" by (simp add: recorder_is_transparent)
  have "fst (served (rc_writer ?r)) = c \<and> rc_status ?r = c"
    if "calls = WHeader c # rest" "final_code c" "list_all (\<lambda>call. \<not> is_header call) rest" for c rest
  proof -
    have "hw_sent (fold net_call rest (new_writer\<lparr>hw_sent := Some c\<rparr>)) = Some c" by (rule net_keeps_status) simp
    then show ?thesis using that t recorder_keeps_status [OF that(3)] by (simp add: served_def implicit_ok_def new_writer_def)
  qed
  then show ?thesis using t by (auto simp: logRequests_def Let_def)
qed

theorem logRequests_records_served_witness:
  "snd (logRequests ''GET'' ''/runs'' (response_calls itoa (writeError 400 ''invalid id''))) =
     [\<lparr>le_method = ''GET'', le_path = ''/runs'', le_status = 400\<rparr>]"
proof -
  let ?calls = "response_calls itoa (writeError 400 ''invalid id'')"
  have "?calls = WHeader 400 # [WBytes (content_text itoa (BError ''invalid id''))]"
    by (simp add: response_calls_def writeError_def writeJSON_def)
  with logRequests_records_served [of "''GET''" "''/runs''" ?calls]
  have "length (snd (logRequests ''GET'' ''/runs'' ?calls)) = 1"
    "list_all (\<lambda>le. le = \<lparr>le_method = ''GET'', le_path = ''/runs'', le_status = 400\<rparr>) (snd (logRequests ''GET'' ''/runs'' ?calls))"
    by (simp_all add: final_code_def is_header_def)
  then show ?thesis by (auto simp: length_Suc_conv)
qed

text \<open>The calls of the API's handlers are of that form.\<close>

lemma response_calls_served:
  "final_code (re_status resp) \<Longrightarrow> fst (logRequests m path (response_calls (sv_show sv) resp)) =
     (hr_code (answer sv m path resp), hr_body (answer sv m path resp))"
  by (simp add: logRequests_def response_calls_def answer_def served_def implicit_ok_def new_writer_def Let_def)

lemma stream_calls_shape:
  "\<exists>rest. stream_calls show rounds = WHeader 200 # rest \<and> list_all (\<lambda>call. \<not> is_header call) rest"
  by (auto simp: stream_calls_def list_all_iff is_header_def)

end
