(* ===== verification/WorkerProps.thy ===== *)
theory WorkerProps
  imports Worker StoreProps
begin

text \<open>
  What the worker does: its backoff, the outcome it records for an attempt on every branch, what it
  does not write once it has lost a run, and what a maintenance pass publishes.
\<close>

section \<open>Backoff\<close>

lemma double_until_eq:
  assumes "0 < d" and "d \<le> cap" and "cap \<le> 2 ^ 62"
  shows "min (double_until n cap d) cap = min (d * 2 ^ n) cap \<and> 0 < double_until n cap d"
  using assms(1,2)
proof (induction n arbitrary: d)
  case 0
  then show ?case by simp
next
  case (Suc n)
  show ?case
  proof (cases "d < cap")
    case False
    with Suc.prems have "d = cap" by simp
    moreover have "cap * 1 \<le> cap * 2 ^ Suc n" using Suc.prems \<open>d = cap\<close> one_le_power [of "2::int" "Suc n"] by (intro mult_left_mono) simp_all
    ultimately show ?thesis using Suc.prems by (simp add: min_def)
  next
    case True
    have w: "wrap64 (d * 2) = d * 2"
      using Suc.prems True assms(3) by (intro wrap64_id) (simp_all add: int64_min_def int64_max_def)
    show ?thesis
    proof (cases "d * 2 \<le> cap")
      case True
      have "0 < d * 2" using Suc.prems(1) by simp
      from Suc.IH [OF this True] \<open>d < cap\<close> w show ?thesis by (simp add: mult.assoc mult.commute mult.left_commute)
    next
      case False
      have a: "double_until m cap (d * 2) = d * 2" for m using False by (cases m) simp_all
      have "d * 2 * 1 \<le> d * 2 * 2 ^ n" using Suc.prems(1) by (intro mult_left_mono) simp_all
      then have "cap \<le> d * 2 ^ Suc n" using False by (simp add: mult.assoc)
      moreover have "double_until (Suc n) cap d = d * 2" using \<open>d < cap\<close> w a by simp
      ultimately show ?thesis using False Suc.prems(1) by (simp add: min_def)
    qed
  qed
qed

text \<open>The loop at the point where it doubles a delay of at least \<open>2 ^ 62\<close> that is still below the maximum.\<close>

lemma double_until_exact:
  assumes "0 < d" and "d * 2 ^ n < cap" and "d * 2 ^ n \<le> 2 ^ 62"
  shows "double_until (n + m) cap d = double_until m cap (d * 2 ^ n)"
  using assms
proof (induction n arbitrary: d)
  case 0
  then show ?case by simp
next
  case (Suc n)
  have "d * 1 \<le> d * 2 ^ n" using Suc.prems(1) by (intro mult_left_mono) simp_all
  moreover have "d * 2 * 2 ^ n = d * 2 ^ Suc n" by simp
  ultimately have "d < cap" "d * 2 \<le> 2 ^ 62" using Suc.prems by linarith+
  moreover have "wrap64 (d * 2) = d * 2" using calculation Suc.prems(1) by (intro wrap64_id) (simp_all add: int64_min_def int64_max_def)
  ultimately show ?case using Suc.IH [of "d * 2"] Suc.prems by (simp add: mult.assoc)
qed

lemma wrap64_above: "2 ^ 63 \<le> i \<Longrightarrow> i < 2 ^ 64 \<Longrightarrow> wrap64 i = i - 2 ^ 64"
proof -
  assume i: "2 ^ 63 \<le> i" "i < 2 ^ 64"
  have "(i + 2 ^ 63) mod 2 ^ 64 = (i - 2 ^ 63 + 2 ^ 64) mod 2 ^ 64" by (simp add: add.commute)
  also have "\<dots> = (i - 2 ^ 63) mod 2 ^ 64" by (rule mod_add_self2)
  also have "\<dots> = i - 2 ^ 63" using i by (intro mod_pos_pos_trivial) simp_all
  finally show ?thesis by (simp add: wrap64_def)
qed

lemma retryDelay_overflows:
  assumes "0 < c_retry_base cfg" and "2 ^ 62 \<le> c_retry_base cfg * 2 ^ k" and "c_retry_base cfg * 2 ^ k < c_retry_max cfg"
    and "c_retry_max cfg < 2 ^ 63"
  shows "retryDelay cfg (int k + 2) = c_retry_base cfg * 2 ^ (k + 1) - 2 ^ 64 \<and> retryDelay cfg (int k + 2) < 0"
proof -
  let ?d = "c_retry_base cfg" and ?cap = "c_retry_max cfg"
  have w: "wrap64 (?d * 2 ^ k * 2) = ?d * 2 ^ k * 2 - 2 ^ 64"
    using assms(2-4) by (intro wrap64_above) simp_all
  have "double_until (k + 1) ?cap ?d = ?d * 2 ^ k * 2 - 2 ^ 64"
  proof (cases k)
    case 0
    with assms(3) w show ?thesis by simp
  next
    case (Suc m)
    have "?d * 2 ^ m * 2 = ?d * 2 ^ k" by (simp add: Suc)
    then have le: "?d * 2 ^ m < 2 ^ 62" "?d * 2 ^ m < ?cap" and pos: "0 < ?d * 2 ^ m" using assms by (simp_all, linarith+)
    have "wrap64 (?d * 2 ^ m * 2) = ?d * 2 ^ k"
      using le pos by (subst wrap64_id) (simp_all add: int64_min_def int64_max_def Suc)
    with double_until_exact [of ?d m ?cap 2] le assms(1,3) w show ?thesis by (simp add: Suc numeral_2_eq_2)
  qed
  moreover have "nat (int k + 2 - 1) = k + 1" by simp
  ultimately show ?thesis using assms(3,4) by (simp add: retryDelay_def min_def)
qed

text \<open>Two delays \<open>loadConfig\<close> accepts, with the maximum above \<open>2 ^ 62\<close> nanoseconds (about 146 years).\<close>

definition century_delays :: environ where
  "century_delays k = (if k = ''RETRY_BASE_DELAY'' then ''1300000h'' else if k = ''RETRY_MAX_DELAY'' then ''2500000h'' else [])"

lemma parse_centuries:
  "parse_unsigned False ''1300000h'' = Some (1300000 * Hour)" "parse_unsigned False ''2500000h'' = Some (2500000 * Hour)"
  by (simp_all add: parse_unsigned_def duration_parts.simps duration_part_def leading_int_def Let_def units_def is_digit_def
      digit_val_def time_units int64_max_def of_char_eq_iff)

definition century_config :: config where
  "century_config = default_config\<lparr>c_retry_base := 1300000 * Hour, c_retry_max := 2500000 * Hour\<rparr>"

lemma century_durations:
  "EnvDuration century_delays ''RETRY_BASE_DELAY'' n = Inr (1300000 * Hour)"
  "EnvDuration century_delays ''RETRY_MAX_DELAY'' n = Inr (2500000 * Hour)"
  by (simp_all add: century_delays_def EnvDuration_def Env_def ParseDuration_def parse_centuries)

lemma century_loaded: "loadConfig century_delays ''host'' 7 ''/tmp/jobsys-output'' = Inr century_config"
proof -
  have o: "century_delays k = []" if "k \<notin> {''RETRY_BASE_DELAY'', ''RETRY_MAX_DELAY''}" for k
    using that by (simp add: century_delays_def)
  have "EnvDuration century_delays k n = Inr n" if "k \<notin> {''RETRY_BASE_DELAY'', ''RETRY_MAX_DELAY''}" for k n
    using o [OF that] by (simp add: EnvDuration_def Env_def)
  then show ?thesis
    by (simp add: loadConfig_def Let_def EnvInt_def config_durations_def century_durations Env_def o)
       (simp add: check_config_def century_config_def
        default_config_def time_units wrap64_def itoa_def dec_digits.simps digit_char_def char_of_eq_iff)
qed

lemma century_overflows:
  "\<exists>c. loadConfig century_delays ''host'' 7 ''/tmp/jobsys-output'' = Inr c
    \<and> retryDelay c 1 = 1300000 * Hour \<and> retryDelay c 2 = 2600000 * Hour - 2 ^ 64 \<and> retryDelay c 2 < 0"
proof (intro exI conjI)
  show "loadConfig century_delays ''host'' 7 ''/tmp/jobsys-output'' = Inr century_config" by (rule century_loaded)
  show "retryDelay century_config 1 = 1300000 * Hour" by (simp add: century_config_def retryDelay_def time_units)
  show "retryDelay century_config 2 = 2600000 * Hour - 2 ^ 64" "retryDelay century_config 2 < 0"
    by (simp_all add: century_config_def retryDelay_def time_units wrap64_def)
qed



section \<open>While an attempt runs\<close>

text \<open>The attempt is this worker's, in a database that satisfies its schema.\<close>

definition running_for :: "config \<Rightarrow> run \<Rightarrow> db \<Rightarrow> bool" where
  "running_for cfg r d \<longleftrightarrow> schema_ok d \<and> owned_by d (r_id r) (c_id cfg) (r_attempt r)"

lemma owned_find:
  "owned_by d i w a \<longleftrightarrow> (\<exists>r. find_run i d = Some r \<and> owns w a r)"
  by (auto simp: owned_by_def split: option.split)

lemma Heartbeat_running:
  assumes "solo e" and "running_for cfg r d"
  shows "running_for cfg r (snd (Heartbeat e (r_id r) (c_id cfg) (r_attempt r) d))
     \<and> jobs (snd (Heartbeat e (r_id r) (c_id cfg) (r_attempt r) d)) = jobs d
     \<and> map_option r_job_id (find_run (r_id r) (snd (Heartbeat e (r_id r) (c_id cfg) (r_attempt r) d)))
         = map_option r_job_id (find_run (r_id r) d)
     \<and> fst (Heartbeat e (r_id r) (c_id cfg) (r_attempt r) d) \<noteq> Inr False"
proof -
  let ?w = "c_id cfg" and ?a = "r_attempt r" and ?i = "r_id r"
  let ?f = "heartbeat_row (e_now e)"
  let ?d = "d\<lparr>runs := map (\<lambda>q. if r_id q = ?i \<and> owns ?w ?a q then ?f q else q) (runs d)\<rparr>"
  obtain q where q: "find_run ?i d = Some q" "owns ?w ?a q"
    using assms(2) by (auto simp: running_for_def owned_find)
  have s: "schema_ok d" using assms(2) by (simp add: running_for_def)
  have qi: "r_id q = ?i" using lookup_row_Some [OF q(1)] by simp
  have f: "find_run ?i ?d = Some (?f q)"
    using find_after_update [OF q(1), of ?f "\<lambda>q. r_id q = ?i \<and> owns ?w ?a q"] q(2) qi by simp
  have step: "snd (Heartbeat e ?i ?w ?a d) = d \<or> snd (Heartbeat e ?i ?w ?a d) = ?d"
    using assms(1) by (auto simp: Heartbeat_def pg_def Let_def sql_update_def split: option.split fault.split)
  have sc: "schema_ok (snd (Heartbeat e ?i ?w ?a d))"
    using table_step_schema [OF Heartbeat_step, of e d] s assms(1) by simp
  have res: "fst (Heartbeat e ?i ?w ?a d) \<noteq> Inr False"
    using Heartbeat_true [of e d ?i ?w ?a False] s assms by (auto simp: running_for_def prod_eq_iff)
  have "owns ?w ?a (?f q)" "r_job_id (?f q) = r_job_id q" using q(2) by (simp_all add: owns_def heartbeat_row_def)
  with step f q sc res show ?thesis by (auto simp: running_for_def owned_find)
qed

lemma append_app_keeps:
  "runs (append_app i a y b d) = runs d \<and> jobs (append_app i a y b d) = jobs d
   \<and> (schema_ok d \<longrightarrow> schema_ok (append_app i a y b d))"
  using AppendLogs_db_cases [of "alone y" i a b d] AppendLogs_schema [of d "alone y" i a b]
  by (auto simp: append_app_def)

text \<open>While the worker owns the attempt, heartbeats and log lines leave it so, and the run is never lost.\<close>

lemma attempt_running:
  assumes "list_all beats_alone ms" and "running_for cfg r d"
  shows "\<not> at_lost (run_attempt cfg r ms ty lines d) \<and> running_for cfg r (k_sink (at_log (run_attempt cfg r ms ty lines d)))
    \<and> jobs (k_sink (at_log (run_attempt cfg r ms ty lines d))) = jobs d
    \<and> map_option r_job_id (find_run (r_id r) (k_sink (at_log (run_attempt cfg r ms ty lines d)))) = map_option r_job_id (find_run (r_id r) d)"
proof (rule run_attempt_keeps [where P = "\<lambda>l d'. \<not> l \<and> running_for cfg r d' \<and> jobs d' = jobs d
     \<and> map_option r_job_id (find_run (r_id r) d') = map_option r_job_id (find_run (r_id r) d)"])
  fix l y b d'
  assume "\<not> l \<and> running_for cfg r d' \<and> jobs d' = jobs d \<and> map_option r_job_id (find_run (r_id r) d') = map_option r_job_id (find_run (r_id r) d)"
  then show "\<not> l \<and> running_for cfg r (append_app (r_id r) (r_attempt r) y b d') \<and> jobs (append_app (r_id r) (r_attempt r) y b d') = jobs d
      \<and> map_option r_job_id (find_run (r_id r) (append_app (r_id r) (r_attempt r) y b d')) = map_option r_job_id (find_run (r_id r) d)"
    using append_app_keeps [of "r_id r" "r_attempt r" y b d'] by (simp add: running_for_def owned_by_def)
next
  fix e d'
  assume m: "MBeat e \<in> set ms" and p: "\<not> False \<and> running_for cfg r d' \<and> jobs d' = jobs d
     \<and> map_option r_job_id (find_run (r_id r) d') = map_option r_job_id (find_run (r_id r) d)"
  have "solo e" using assms(1) m by (auto simp: list_all_iff)
  from Heartbeat_running [OF this, of cfg r d'] p
  show "\<not> fst (Heartbeat e (r_id r) (c_id cfg) (r_attempt r) d') = Inr False
      \<and> running_for cfg r (snd (Heartbeat e (r_id r) (c_id cfg) (r_attempt r) d'))
      \<and> jobs (snd (Heartbeat e (r_id r) (c_id cfg) (r_attempt r) d')) = jobs d
      \<and> map_option r_job_id (find_run (r_id r) (snd (Heartbeat e (r_id r) (c_id cfg) (r_attempt r) d'))) = map_option r_job_id (find_run (r_id r) d)"
    by simp
qed (use assms(2) in simp)

section \<open>The outcome of an attempt\<close>

lemma FinishRun_running:
  assumes "solo e" and "quiet e" and "running_for cfg r d"
  shows "\<exists>q. find_run (r_id r) d = Some q \<and> r_attempt q = r_attempt r \<and>
     find_run (r_id r) (snd (FinishRun e (r_id r) (c_id cfg) (r_attempt r) st out er d)) = Some (finish_row (e_now e) st out er q)"
proof -
  obtain b d' where f: "FinishRun e (r_id r) (c_id cfg) (r_attempt r) st out er d = (Inr b, d')"
    using assms(2) by (simp add: FinishRun_def Let_def split_def)
  with FinishRun_true [OF _ f] assms(1,3) show ?thesis by (auto simp: running_for_def owns_def)
qed

lemma ReleaseRun_running:
  assumes "solo e" and "quiet e" and "running_for cfg r d" and "r_attempt r < int4_max"
  shows "\<exists>q d'. ReleaseRun e (r_id r) (c_id cfg) (r_attempt r) reason d = (Inr True, d')
     \<and> find_run (r_id r) d = Some q \<and> find_run (r_id r) d' = Some (release_row (e_now e) reason q) \<and> owns (c_id cfg) (r_attempt r) q"
proof -
  have no: "\<not> attempt_overflows (\<lambda>q. r_id q = r_id r \<and> owns (c_id cfg) (r_attempt r) q) (runs d)"
    using assms(4) unfolding attempt_overflows_def owns_def by fastforce
  obtain b d' where f: "ReleaseRun e (r_id r) (c_id cfg) (r_attempt r) reason d = (Inr b, d')"
    using assms(1,2) no by (simp add: ReleaseRun_def Let_def split_def)
  with ReleaseRun_true [OF _ f] assms(1,3) show ?thesis by (auto simp: running_for_def)
qed

lemma FailOrRetry_running:
  assumes "solo e" and "quiet e" and "running_for cfg r d" and "r_attempt r < int4_max"
    and "map_option r_job_id (find_run (r_id r) d) = Some ji" and "find_job ji d = Some j"
  shows "\<exists>q. find_run (r_id r) (snd (FailOrRetry e (r_id r) (c_id cfg) (r_attempt r) msg b d)) =
      Some (fail_or_retry_row (e_now e) msg b (j_max_retries j < r_attempt r) q) \<and> r_attempt q = r_attempt r"
proof -
  have no: "\<not> attempt_overflows (\<lambda>q. (r_id q = r_id r \<and> owns (c_id cfg) (r_attempt r) q \<and> find_job (r_job_id q) d \<noteq> None) \<and> \<not> exhausted d q) (runs d)"
    using assms(4) unfolding attempt_overflows_def owns_def by fastforce
  obtain st where st: "fst (FailOrRetry e (r_id r) (c_id cfg) (r_attempt r) msg b d) = Inr st"
    using no assms(1,2) unfolding FailOrRetry_def by (simp add: Let_def split_def)
  then have "FailOrRetry e (r_id r) (c_id cfg) (r_attempt r) msg b d =
      (Inr st, snd (FailOrRetry e (r_id r) (c_id cfg) (r_attempt r) msg b d))"
    by (simp add: prod_eq_iff)
  from FailOrRetry_result [OF _ this] assms(1,3) obtain q where
    q: "find_run (r_id r) d = Some q" "owns (c_id cfg) (r_attempt r) q"
      "find_run (r_id r) (snd (FailOrRetry e (r_id r) (c_id cfg) (r_attempt r) msg b d)) =
        Some (fail_or_retry_row (e_now e) msg b (exhausted d q) q)"
    by (auto simp: running_for_def)
  moreover have "exhausted d q = (j_max_retries j < r_attempt r)"
    using q(1,2) assms(5,6) by (simp add: exhausted_def owns_def)
  ultimately show ?thesis by (auto simp: owns_def)
qed

definition settled :: "config \<Rightarrow> attempt_env \<Rightarrow> job \<Rightarrow> int \<Rightarrow> string res \<Rightarrow> run \<Rightarrow> bool" where
  "settled cfg x j a result r' \<longleftrightarrow>
     (case result of
        Inr out \<Rightarrow> r_status r' = StatusSucceeded \<and> r_attempt r' = a \<and> r_output r' = Some out \<and> r_error r' = None
      | Inl err \<Rightarrow>
          if x_stop x = Some Shutdown
          then r_status r' = StatusQueued \<and> r_attempt r' = a + 1 \<and> r_worker_id r' = None
          else r_error r' = Some (if x_stop x = Some Timeout then ''timed out after '' @ itoa (j_timeout_sec j) @ ''s'' else error_text err)
            \<and> (if a \<le> j_max_retries j
               then r_status r' = StatusQueued \<and> r_attempt r' = a + 1
                  \<and> r_next_attempt_at r' = Some (e_now (x_final x) + interval_us (retryDelay cfg a))
               else r_status r' = StatusFailed \<and> r_attempt r' = a))"

lemma settle_settled:
  assumes "solo (x_final x)" and "quiet (x_final x)" and "running_for cfg r (w_db w)" and "r_attempt r < int4_max"
    and "map_option r_job_id (find_run (r_id r) (w_db w)) = Some ji" and "find_job ji (w_db w) = Some j"
  shows "\<exists>r'. find_run (r_id r) (w_db (settle cfg write x r j result (cause_of x False) w)) = Some r'
    \<and> settled cfg x j (r_attempt r) result r'"
proof (cases result)
  case (Inr out)
  have "w_db (writeOutputFile cfg (x_file x) r out w) = w_db w" by (simp add: writeOutputFile_def)
  with FinishRun_running [OF assms(1-3), of StatusSucceeded "Some out" None] Inr show ?thesis
    by (auto simp: settle_def succeed_def settled_def finish_row_def)
next
  case (Inl err)
  note fr = FailOrRetry_running [OF assms]
  show ?thesis
  proof (cases "x_stop x")
    case None
    with Inl fr [of "error_text err" "retryDelay cfg (r_attempt r)"] show ?thesis
      by (auto simp: settle_def cause_of_def fail_def settled_def fail_or_retry_row_def not_less)
  next
    case (Some st)
    show ?thesis
    proof (cases st)
      case Timeout
      with Inl Some fr [of "''timed out after '' @ itoa (j_timeout_sec j) @ ''s''" "retryDelay cfg (r_attempt r)"] show ?thesis
        by (auto simp: settle_def cause_of_def fail_def settled_def fail_or_retry_row_def not_less)
    next
      case Shutdown
      obtain q d' where "ReleaseRun (x_final x) (r_id r) (c_id cfg) (r_attempt r) (release_reason cfg) (w_db w) = (Inr True, d')"
        "find_run (r_id r) d' = Some (release_row (e_now (x_final x)) (release_reason cfg) q)" "owns (c_id cfg) (r_attempt r) q"
        using ReleaseRun_running [OF assms(1-4)] by blast
      with Inl Some Shutdown show ?thesis
        by (simp add: settle_def cause_of_def release_def settled_def release_row_def owns_def)
    qed
  qed
qed

lemma settle_step:
  assumes "solo (x_final x)"
  shows "table_step (w_db w) (w_db (settle cfg write x r j result c w))"
proof -
  let ?e = "x_final x"
  have "w_db (writeOutputFile cfg (x_file x) r out w) = w_db w" for out by (simp add: writeOutputFile_def)
  then have s: "table_step (w_db w) (w_db (succeed cfg ?e r out (writeOutputFile cfg (x_file x) r out w)))" for out
    using FinishRun_step [of ?e "w_db w"] assms by (simp add: succeed_def)
  have f: "table_step (w_db w) (w_db (fail cfg ?e r m w))" for m
    using FailOrRetry_step [of ?e "w_db w"] assms by (simp add: fail_def)
  have l: "table_step (w_db w) (w_db (release cfg write ?e r t w))" for t
    using ReleaseRun_step [of ?e "w_db w" "r_id r" "c_id cfg" "r_attempt r" "release_reason cfg"] assms
    by (cases "ReleaseRun ?e (r_id r) (c_id cfg) (r_attempt r) (release_reason cfg) (w_db w)")
       (simp add: release_def split: sum.split bool.split)
  show ?thesis using s f l by (simp add: settle_def split: sum.split option.split cause.split stop.split)
qed

lemma table_step_job: "table_step d d' \<Longrightarrow> map_option r_job_id (find_run i d') = map_option r_job_id (find_run i d)"
proof -
  assume "table_step d d'"
  then obtain rs where rs: "d' = d\<lparr>runs := rs\<rparr>" "list_all2 row_step (runs d) rs" by (auto simp: table_step_def)
  have "map_option r_job_id (lookup_row r_id i rs) = map_option r_job_id (lookup_row r_id i xs)" if "list_all2 row_step xs rs" for xs
    using that by (induction rule: list_all2_induct) (auto dest: row_step_identity)
  with rs show ?thesis by simp
qed

lemma execute_outcome:
  assumes "schema_ok (w_db w)" and "find_run (r_id r) (w_db w) = Some r" and "owns (c_id cfg) (r_attempt r) r"
    and "find_job (r_job_id r) (w_db w) = Some j" and "r_attempt r < int4_max"
    and "solo (x_load x)" and "quiet (x_load x)" and "list_all beats_alone (x_moves x)"
    and "solo (x_final x)" and "quiet (x_final x)"
  shows "\<exists>r'. find_run (r_id r) (w_db (execute cfg write x r w)) = Some r'
    \<and> settled cfg x j (r_attempt r) (fst (Job.Run (x_ctx x) (j_type j) (j_payload j) (r_attempt r))) r'
    \<and> r_job_id r' = r_job_id r \<and> schema_ok (w_db (execute cfg write x r w)) \<and> jobs (w_db (execute cfg write x r w)) = jobs (w_db w)"
proof -
  let ?d = "w_db w"
  let ?res = "Job.Run (x_ctx x) (j_type j) (j_payload j) (r_attempt r)"
  let ?s = "run_attempt cfg r (x_moves x) (x_rest x) (snd ?res) ?d"
  let ?d3 = "k_sink (at_log ?s)"
  have run: "running_for cfg r ?d" using assms(1,2,3) by (auto simp: running_for_def owned_find)
  note at = attempt_running [OF assms(8) run, of "x_rest x" "snd ?res"]
  have g: "GetJob (x_load x) (r_job_id r) ?d = (Inr j, ?d)"
    using GetJob_quiet [of "x_load x" ?d "r_job_id r"] GetJob_db [of "x_load x" "r_job_id r" ?d] assms(1,4,6,7)
    by (simp add: prod_eq_iff schema_defs)
  have e: "execute cfg write x r w = settle cfg write x r j (fst ?res) (cause_of x False) (w\<lparr>w_db := ?d3\<rparr>)"
    using at by (simp add: execute_def g Let_def split_def)
  have r3: "running_for cfg r ?d3" using at by simp
  have j3: "map_option r_job_id (find_run (r_id r) ?d3) = Some (r_job_id r)" using at assms(2) by simp
  have "find_job (r_job_id r) ?d3 = Some j" using at assms(4) by simp
  with r3 j3 obtain r' where r': "find_run (r_id r) (w_db (execute cfg write x r w)) = Some r'"
    "settled cfg x j (r_attempt r) (fst ?res) r'"
    unfolding e using settle_settled [of x cfg r "w\<lparr>w_db := ?d3\<rparr>" "r_job_id r" j "write"] assms(5,9,10) by auto
  have st: "table_step ?d3 (w_db (execute cfg write x r w))"
    unfolding e using settle_step [OF assms(9), of "w\<lparr>w_db := ?d3\<rparr>" cfg "write" r j] by simp
  have "schema_ok (w_db (execute cfg write x r w))" using table_step_schema [OF st] r3 by (simp add: running_for_def)
  moreover have "jobs (w_db (execute cfg write x r w)) = jobs (w_db w)" using table_step_frame [OF st] at by simp
  moreover have "r_job_id r' = r_job_id r" using table_step_job [OF st] j3 r'(1) by (metis option.map(2) option.inject)
  ultimately show ?thesis using r' by blast
qed

text \<open>
  C16: an attempt the worker has claimed is settled the way its job ended. A finished job makes the run
  SUCCEEDED with its output, even when a shutdown or the timeout came too late to stop it. A job
  stopped by a shutdown is queued for its next attempt with no owner. Any other failure, the timeout
  among them, is retried after the attempt's backoff while the job has retries left, and is final
  with its error otherwise. Failed heartbeats and failed log inserts make no difference.
\<close>

theorem execute_settles:
  assumes "schema_ok (w_db w)" and "find_run (r_id r) (w_db w) = Some r" and "owns (c_id cfg) (r_attempt r) r"
    and "find_job (r_job_id r) (w_db w) = Some j" and "r_attempt r < int4_max"
    and "solo (x_load x)" and "quiet (x_load x)" and "list_all beats_alone (x_moves x)"
    and "solo (x_final x)" and "quiet (x_final x)"
  shows "\<exists>r'. find_run (r_id r) (w_db (execute cfg write x r w)) = Some r'
    \<and> settled cfg x j (r_attempt r) (fst (Job.Run (x_ctx x) (j_type j) (j_payload j) (r_attempt r))) r'"
  using execute_outcome [OF assms] by blast

text \<open>A concrete attempt: the demo run, claimed by worker \<open>w\<close>, whose job writes two lines.\<close>

definition demo_cfg :: config where
  "demo_cfg = default_config\<lparr>c_id := ''w''\<rparr>"

definition demo_attempt :: "stop option \<Rightarrow> attempt_env" where
  "demo_attempt st = \<lparr>x_load = demo_env 4 '''', x_ctx = calm_ctx, x_stop = st, x_lost_first = False,
     x_moves = [MBeat (demo_env 5 ''''), MJob 5 (demo_env 5 ''''), MTick, MBeat (demo_env 6 ''''), MFlush (demo_env 6 '''')],
     x_rest = (7, demo_env 7 ''''), x_file = True, x_final = demo_env 9 ''''\<rparr>"

definition demo_claimed_run :: run where
  "demo_claimed_run = claim_row 3 ''w'' (new_run_row ''R'' ''J'' 2 TriggerManual 2)"

definition demo_world :: "message list world" where
  "demo_world = \<lparr>w_db = demo_claimed 1, w_broker = [], w_files = []\<rparr>"

text \<open>A broker that takes every message.\<close>

definition send :: "message list writer" where
  "send m k = (None, k @ [m])"

lemma demo_claimed_find:
  "find_run ''R'' (demo_claimed 1) = Some demo_claimed_run" "find_job ''J'' (demo_claimed 1) = Some (new_job_row ''J'' 1 (demo_new_job 1))"
  "r_id demo_claimed_run = ''R''" "r_job_id demo_claimed_run = ''J''" "r_attempt demo_claimed_run = 1"
  "owns ''w'' 1 demo_claimed_run"
  by (simp_all add: demo_claimed_eq demo_claimed_run_def claim_row_def new_run_row_def new_job_row_def owns_def)

lemma empty_payload:
  "Job.Run c ''generate_text'' ''{}'' a = (Inl (ErrText ''payload.lines must be between 1 and 100000''), [])"
proof -
  have "parse_next (print_json (JObj []) @ []) = Inr (read_back (JObj []), [])"
    by (rule parse_next_print) (simp_all add: max_depth_def delimited_def)
  moreover have "itoa 100000 = ''100000''"
    by (simp add: itoa_def dec_digits.simps digit_char_def char_of_eq_iff)
  ultimately show ?thesis
    by (simp add: Job.Run_def TypeGenerateText_def parseGenerateText_def decode_next_def decode_struct_def
        zero_payload_def validate_def maxLines_def)
qed

theorem execute_settles_witness:
  "\<exists>r'. find_run ''R'' (w_db (execute demo_cfg send (demo_attempt None) demo_claimed_run demo_world)) = Some r'
     \<and> r_status r' = StatusQueued \<and> r_attempt r' = 2
     \<and> r_error r' = Some ''payload.lines must be between 1 and 100000''"
  using execute_settles [of demo_world demo_claimed_run demo_cfg "new_job_row ''J'' 1 (demo_new_job 1)" "demo_attempt None" send]
      demo_claimed_ok [of 1] empty_payload
  by (simp add: demo_world_def demo_claimed_find demo_cfg_def demo_attempt_def solo_def quiet_def demo_env_def
        int4_max_def new_job_row_def demo_new_job_def settled_def) blast

section \<open>An attempt the worker no longer owns\<close>

lemma fenced_direct:
  assumes "schema_ok d" and "\<not> owned_by d i w a" and "solo e"
  shows "snd (Heartbeat e i w a d) = d" and "snd (FinishRun e i w a StatusSucceeded (Some out) None d) = d"
    and "snd (ReleaseRun e i w a reason d) = d" and "fst (ReleaseRun e i w a reason d) \<noteq> Inr True"
    and "snd (FailOrRetry e i w a msg b d) = d"
  using fenced_noop [OF assms(1,2), of e] assms(3) by (simp_all add: solo_alone)

text \<open>Without ownership the heartbeats change nothing, and the log lines no job and no run.\<close>

lemma attempt_stale:
  assumes "schema_ok d" and "\<not> owned_by d (r_id r) (c_id cfg) (r_attempt r)" and "list_all beats_alone ms"
  shows "schema_ok (k_sink (at_log (run_attempt cfg r ms ty lines d)))
    \<and> runs (k_sink (at_log (run_attempt cfg r ms ty lines d))) = runs d \<and> jobs (k_sink (at_log (run_attempt cfg r ms ty lines d))) = jobs d"
proof (rule run_attempt_keeps [where P = "\<lambda>l d'. schema_ok d' \<and> runs d' = runs d \<and> jobs d' = jobs d"])
  fix l y b d'
  assume "schema_ok d' \<and> runs d' = runs d \<and> jobs d' = jobs d"
  then show "schema_ok (append_app (r_id r) (r_attempt r) y b d') \<and> runs (append_app (r_id r) (r_attempt r) y b d') = runs d
      \<and> jobs (append_app (r_id r) (r_attempt r) y b d') = jobs d"
    using append_app_keeps [of "r_id r" "r_attempt r" y b d'] by simp
next
  fix e d'
  assume m: "MBeat e \<in> set ms" and p: "schema_ok d' \<and> runs d' = runs d \<and> jobs d' = jobs d"
  have "solo e" using assms(3) m by (auto simp: list_all_iff)
  moreover have "\<not> owned_by d' (r_id r) (c_id cfg) (r_attempt r)" using assms(2) p by (simp add: owned_by_def)
  ultimately show "schema_ok (snd (Heartbeat e (r_id r) (c_id cfg) (r_attempt r) d'))
      \<and> runs (snd (Heartbeat e (r_id r) (c_id cfg) (r_attempt r) d')) = runs d
      \<and> jobs (snd (Heartbeat e (r_id r) (c_id cfg) (r_attempt r) d')) = jobs d"
    using fenced_direct(1) [of d' "r_id r" "c_id cfg" "r_attempt r" e] p by simp
qed (use assms(1) in simp)

lemma settle_stale:
  assumes "schema_ok (w_db w)" and "\<not> owned_by (w_db w) (r_id r) (c_id cfg) (r_attempt r)" and "solo (x_final x)"
  shows "w_db (settle cfg wr x r j result c w) = w_db w \<and> w_broker (settle cfg wr x r j result c w) = w_broker w"
proof -
  note f = fenced_direct [OF assms]
  have rel: "w_db (release cfg wr (x_final x) r t w) = w_db w \<and> w_broker (release cfg wr (x_final x) r t w) = w_broker w" for t
    using f(3,4) [of "release_reason cfg"]
    by (cases "ReleaseRun (x_final x) (r_id r) (c_id cfg) (r_attempt r) (release_reason cfg) (w_db w)")
       (auto simp: release_def split: sum.split bool.split)
  show ?thesis
    using f rel by (auto simp: settle_def succeed_def fail_def writeOutputFile_def split: sum.split option.split cause.split stop.split)
qed

text \<open>
  C17: a worker that no longer owns the attempt it is executing, because the reaper gave the run away,
  changes no job and no run and publishes nothing, whatever its job returns: at most the attempt's
  own log lines are added.
\<close>

theorem execute_stale_changes_nothing:
  assumes "schema_ok (w_db w)" and "\<not> owned_by (w_db w) (r_id r) (c_id cfg) (r_attempt r)"
    and "solo (x_load x)" and "list_all beats_alone (x_moves x)" and "solo (x_final x)"
  shows "runs (w_db (execute cfg wr x r w)) = runs (w_db w) \<and> jobs (w_db (execute cfg wr x r w)) = jobs (w_db w)
    \<and> w_broker (execute cfg wr x r w) = w_broker w"
proof -
  have g: "snd (GetJob (x_load x) (r_job_id r) (w_db w)) = w_db w" using GetJob_db assms(3) by simp
  show ?thesis
  proof (cases "fst (GetJob (x_load x) (r_job_id r) (w_db w))")
    case (Inl err)
    with g have "GetJob (x_load x) (r_job_id r) (w_db w) = (Inl err, w_db w)" by (simp add: prod_eq_iff)
    with fenced_direct(5) [OF assms(1,2,5)] show ?thesis by (simp add: execute_def fail_def)
  next
    case (Inr j)
    let ?res = "Job.Run (x_ctx x) (j_type j) (j_payload j) (r_attempt r)"
    let ?s = "run_attempt cfg r (x_moves x) (x_rest x) (snd ?res) (w_db w)"
    let ?d3 = "k_sink (at_log ?s)"
    have "GetJob (x_load x) (r_job_id r) (w_db w) = (Inr j, w_db w)" using Inr g by (simp add: prod_eq_iff)
    then have e: "execute cfg wr x r w = settle cfg wr x r j (fst ?res) (cause_of x (at_lost ?s)) (w\<lparr>w_db := ?d3\<rparr>)"
      by (simp add: execute_def Let_def split_def)
    note wl = attempt_stale [OF assms(1,2,4), of "x_rest x" "snd ?res"]
    have "schema_ok ?d3" "\<not> owned_by ?d3 (r_id r) (c_id cfg) (r_attempt r)"
      using wl assms(1,2) by (simp_all add: owned_by_def)
    then show ?thesis unfolding e
      using settle_stale [of "w\<lparr>w_db := ?d3\<rparr>" r cfg x wr j] assms(5) wl by simp
  qed
qed

theorem execute_stale_changes_nothing_witness:
  "runs (w_db (execute (demo_cfg\<lparr>c_id := ''v''\<rparr>) send (demo_attempt None) demo_claimed_run demo_world)) = runs (demo_claimed 1)"
  using execute_stale_changes_nothing [of demo_world demo_claimed_run "demo_cfg\<lparr>c_id := ''v''\<rparr>" "demo_attempt None" send]
    demo_claimed_ok [of 1] demo_claimed_find
  by (simp add: demo_world_def demo_attempt_def solo_def demo_env_def owned_by_def owns_def)

section \<open>Maintenance\<close>

text \<open>A row an update returns is the row the table holds afterwards.\<close>

lemma update_hit_find:
  assumes "distinct (map r_id rs)" and "\<And>r. r_id (f r) = r_id r" and "h \<in> set (fst (sql_update P f rs))"
  shows "lookup_row r_id (r_id h) (snd (sql_update P f rs)) = Some h"
proof -
  obtain r where r: "r \<in> set rs" "P r" "h = f r" using assms(3) by (auto simp: sql_update_def)
  have "lookup_row r_id (r_id r) rs = Some r" using assms(1) r(1) by (rule lookup_row_unique)
  with find_after_update [OF this assms(2), of P] r assms(2) show ?thesis by simp
qed

definition in_db :: "db \<Rightarrow> redispatch \<Rightarrow> bool" where
  "in_db d x \<longleftrightarrow> (case find_run (d_run_id x) d of None \<Rightarrow> False
     | Some r \<Rightarrow> r_status r = d_status x \<and> r_attempt r = d_attempt x \<and> r_job_id r = d_job_id x)"

lemma collected_in_db:
  assumes "schema_ok d" and "\<And>r. r_id (f r) = r_id r"
    and "x \<in> set (collectRedispatches d (fst (sql_update P f (runs d))))"
  shows "in_db (d\<lparr>runs := snd (sql_update P f (runs d))\<rparr>) x"
proof -
  obtain h where h: "h \<in> set (fst (sql_update P f (runs d)))" "d_run_id x = r_id h" "d_status x = r_status h"
    "d_attempt x = r_attempt h" "d_job_id x = r_job_id h"
    using assms(3) unfolding collectRedispatches_def by auto
  have "lookup_row r_id (r_id h) (snd (sql_update P f (runs d))) = Some h"
    using assms(1,2) h(1) by (intro update_hit_find) (simp_all add: schema_defs)
  with h show ?thesis by (simp add: in_db_def)
qed

lemma reaped_in_db:
  assumes "solo e" and "schema_ok d" and "ReapStale e s n d = (Inr xs, d')"
  shows "list_all (in_db d') xs \<and> list_all (\<lambda>x. d_status x = StatusFailed \<or> d_status x = StatusQueued) xs"
proof -
  let ?P = "\<lambda>r. r_id r \<in> set (map r_id (stale_runs e s n d))"
  let ?u = "sql_update ?P (\<lambda>r. reap_row (e_now e) (exhausted d r) r) (runs d)"
  have q: "xs = collectRedispatches d (fst ?u)" "d' = d\<lparr>runs := snd ?u\<rparr>"
    using pg_Inr [OF assms(3) [unfolded ReapStale_def]] assms(1) by (auto simp: Let_def split_def split: if_splits)
  have "list_all (\<lambda>x. d_status x = StatusFailed \<or> d_status x = StatusQueued) xs"
    unfolding q(1) by (simp add: collectRedispatches_def sql_update_def list_all_iff reap_row_def)
  moreover have "list_all (in_db d') xs" unfolding list_all_iff q
    using collected_in_db [OF assms(2), of "\<lambda>r. reap_row (e_now e) (exhausted d r) r" _ ?P]
    by (simp add: reap_row_def)
  ultimately show ?thesis by simp
qed

lemma retries_in_db:
  assumes "solo e" and "schema_ok d" and "DueRetries e n d = (Inr xs, d')"
  shows "list_all (in_db d') xs \<and> list_all (\<lambda>x. d_status x = StatusQueued) xs"
proof -
  let ?P = "\<lambda>r. r_id r \<in> set (map r_id (due_retries e n d))"
  let ?u = "sql_update ?P (retry_row (e_now e)) (runs d)"
  have q: "xs = collectRedispatches d (fst ?u)" "d' = d\<lparr>runs := snd ?u\<rparr>"
    using pg_Inr [OF assms(3) [unfolded DueRetries_def]] assms(1) by (auto simp: Let_def split_def)
  have "r_status r = StatusQueued" if "r \<in> set (runs d)" "r_id r \<in> r_id ` set (due_retries e n d)" for r
    using picked_row [OF assms(2) due_retries_in that] by (simp add: is_due_retry_def)
  then have "list_all (\<lambda>x. d_status x = StatusQueued) xs"
    unfolding q(1) by (auto simp: collectRedispatches_def sql_update_def list_all_iff retry_row_def)
  moreover have "list_all (in_db d') xs" unfolding list_all_iff q
    using collected_in_db [OF assms(2), of "retry_row (e_now e)" _ ?P] by (simp add: retry_row_def)
  ultimately show ?thesis by simp
qed

lemma swept_in_db:
  assumes "solo e" and "schema_ok d" and "SweepQueued e s n d = (Inr xs, d')"
  shows "list_all (in_db d') xs \<and> list_all (\<lambda>x. d_status x = StatusQueued) xs"
proof -
  let ?P = "\<lambda>r. r_id r \<in> set (map r_id (stuck_runs e s n d))"
  let ?u = "sql_update ?P (sweep_row (e_now e)) (runs d)"
  have q: "xs = collectRedispatches d (fst ?u)" "d' = d\<lparr>runs := snd ?u\<rparr>"
    using pg_Inr [OF assms(3) [unfolded SweepQueued_def]] assms(1) by (auto simp: Let_def split_def)
  have "r_status r = StatusQueued" if "r \<in> set (runs d)" "r_id r \<in> r_id ` set (stuck_runs e s n d)" for r
    using picked_row [OF assms(2) stuck_runs_in that] by (simp add: is_stuck_def)
  then have "list_all (\<lambda>x. d_status x = StatusQueued) xs"
    unfolding q(1) by (auto simp: collectRedispatches_def sql_update_def list_all_iff sweep_row_def)
  moreover have "list_all (in_db d') xs" unfolding list_all_iff q
    using collected_in_db [OF assms(2), of "sweep_row (e_now e)" _ ?P] by (simp add: sweep_row_def)
  ultimately show ?thesis by simp
qed

lemma in_db_update:
  assumes "in_db d x"
    and "\<And>r. r_id (f r) = r_id r \<and> r_status (f r) = r_status r \<and> r_attempt (f r) = r_attempt r \<and> r_job_id (f r) = r_job_id r"
  shows "in_db (d\<lparr>runs := snd (sql_update P f (runs d))\<rparr>) x"
proof -
  obtain r where r: "find_run (d_run_id x) d = Some r"
    using assms(1) by (auto simp: in_db_def split: option.splits)
  have "lookup_row r_id (d_run_id x) (map (\<lambda>r. if P r then f r else r) (runs d)) = Some (if P r then f r else r)"
    using r assms(2) by (intro find_after_update) simp_all
  with assms r show ?thesis by (simp add: in_db_def)
qed


lemma DueRetries_keeps:
  assumes "solo e" and "in_db d x"
  shows "in_db (snd (DueRetries e n d)) x"
  unfolding DueRetries_def
  by (rule pg_post [where R = "\<lambda>d'. in_db d' x"])
     (use assms in_db_update [OF assms(2), of "retry_row (e_now e)"] in \<open>simp_all add: Let_def split_def retry_row_def\<close>)

lemma SweepQueued_keeps:
  assumes "solo e" and "in_db d x"
  shows "in_db (snd (SweepQueued e s n d)) x"
  unfolding SweepQueued_def
  by (rule pg_post [where R = "\<lambda>d'. in_db d' x"])
     (use assms in_db_update [OF assms(2), of "sweep_row (e_now e)"] in \<open>simp_all add: Let_def split_def sweep_row_def\<close>)

definition message_of :: "redispatch \<Rightarrow> message" where
  "message_of x = dispatchMessage (d_run_id x) (d_job_id x) (d_attempt x) (d_job_type x)"

lemma fold_send: "fold (redispatch_run send) xs k = k @ map message_of xs"
  by (induction xs arbitrary: k) (simp_all add: redispatch_run_def Dispatch_def send_def message_of_def)

text \<open>
  A maintenance pass publishes one message for every run it requeued, every retry that fell due and
  every run it found stuck, and nothing for a run it failed for good; and each message names a run
  that, after the pass, is QUEUED at exactly the attempt the message carries.
\<close>

theorem maintain_publishes_queued_runs:
  assumes "schema_ok (w_db w)" and "solo e1" and "solo e2" and "solo e3"
    and "ReapStale e1 (c_stale_after cfg) maintenanceBatch (w_db w) = (a, d1)"
    and "DueRetries e2 maintenanceBatch d1 = (b, d2)"
    and "SweepQueued e3 (c_sweep_after cfg) maintenanceBatch d2 = (c, d3)"
  shows "w_db (maintain_pass cfg send e1 e2 e3 w) = d3
    \<and> w_broker (maintain_pass cfg send e1 e2 e3 w) = w_broker w @ map message_of
         (filter (\<lambda>x. d_status x \<noteq> StatusFailed) (rows_of a) @ rows_of b @ rows_of c)
    \<and> list_all (\<lambda>x. in_db d3 x \<and> d_status x = StatusQueued)
         (filter (\<lambda>x. d_status x \<noteq> StatusFailed) (rows_of a) @ rows_of b @ rows_of c)"
proof -
  let ?as = "filter (\<lambda>x. d_status x \<noteq> StatusFailed) (rows_of a)"
  note calls = assms(5-7)
  have s1: "schema_ok d1"
    using table_step_schema [OF ReapStale_step, of e1 "w_db w"] assms(1,2) calls(1) by (metis snd_conv solo_others)
  have s2: "schema_ok d2"
    using table_step_schema [OF DueRetries_step, of e2 d1] s1 assms(3) calls(2) by (metis snd_conv solo_others)
  have k2: "in_db d2 x \<Longrightarrow> in_db d3 x" for x
    using SweepQueued_keeps [OF assms(4), of d2 x "c_sweep_after cfg" maintenanceBatch] calls(3) by simp
  have k1: "in_db d1 x \<Longrightarrow> in_db d2 x" for x
    using DueRetries_keeps [OF assms(3), of d1 x maintenanceBatch] calls(2) by simp
  have "list_all (\<lambda>x. in_db d3 x \<and> d_status x = StatusQueued) (rows_of c)"
    using swept_in_db [OF assms(4) s2] calls(3) by (cases c) (auto simp: rows_of_def list_all_iff)
  moreover have "list_all (\<lambda>x. in_db d3 x \<and> d_status x = StatusQueued) (rows_of b)"
    using retries_in_db [OF assms(3) s1] calls(2) k2 by (cases b) (auto simp: rows_of_def list_all_iff)
  moreover have "list_all (\<lambda>x. in_db d3 x \<and> d_status x = StatusQueued) ?as"
  proof (cases a)
    case (Inr xs)
    have "list_all (in_db d1) xs \<and> list_all (\<lambda>x. d_status x = StatusFailed \<or> d_status x = StatusQueued) xs"
      by (rule reaped_in_db [OF assms(2,1)]) (use calls(1) Inr in simp)
    with k1 k2 show ?thesis by (simp add: Inr rows_of_def list_all_iff) blast
  qed (simp add: rows_of_def)
  ultimately show ?thesis by (simp add: maintain_pass_def calls fold_send)
qed

lemma demo_reap_pass:
  "ReapStale (demo_env 20000000 '''') (c_stale_after demo_cfg) maintenanceBatch (demo_claimed 1) =
     (Inr [\<lparr>d_run_id = ''R'', d_job_id = ''J'', d_job_type = ''generate_text'', d_status = StatusQueued, d_attempt = 2\<rparr>],
      (demo_claimed 1)\<lparr>runs := [reap_row 20000000 False demo_claimed_run]\<rparr>)"
  using demo_reap by (simp add: demo_cfg_def default_config_def time_units maintenanceBatch_def demo_claimed_run_def)

theorem maintain_publishes_queued_runs_witness:
  "\<exists>more. w_broker (maintain_pass demo_cfg send (demo_env 20000000 '''') (demo_env 20000000 '''') (demo_env 20000000 '''') demo_world) =
     dispatchMessage ''R'' ''J'' 2 ''generate_text'' # more"
proof -
  obtain b d2 where b: "DueRetries (demo_env 20000000 '''') maintenanceBatch
      ((demo_claimed 1)\<lparr>runs := [reap_row 20000000 False demo_claimed_run]\<rparr>) = (b, d2)" by fastforce
  obtain c d3 where c: "SweepQueued (demo_env 20000000 '''') (c_sweep_after demo_cfg) maintenanceBatch d2 = (c, d3)" by fastforce
  have e: "solo (demo_env 20000000 '''')" by (simp add: solo_def demo_env_def)
  have w: "w_db demo_world = demo_claimed 1" "w_broker demo_world = []" by (simp_all add: demo_world_def)
  show ?thesis
    using maintain_publishes_queued_runs [OF _ e e e _ b c, of demo_world] demo_reap_pass demo_claimed_ok [of 1]
    by (simp add: w rows_of_def message_of_def)
qed

end
