(* ===== verification/Scheduler.thy ===== *)
theory Scheduler
  imports StoreSchedule Lifecycle Queue Job
begin

text \<open>
  \<open>internal/scheduler/scheduler.go\<close>: firing due cron jobs in batches until a batch is not full, and what
  one batch, the transaction of StoreSchedule, does to the jobs and the runs. The loop has no bound
  of its own, so \<open>Tick\<close> is a partial function, and that it returns is proved.
\<close>

section \<open>Operations\<close>

definition batch :: nat where "batch = 100"

definition sched_next :: "('loc, 'sched) zones \<Rightarrow> (due_job \<Rightarrow> time) \<Rightarrow> due_job \<Rightarrow> time res" where
  "sched_next z now j = NextRun z (u_cron_expr j) (u_timezone j) (now j)"

definition dispatch_fired :: "'k writer \<Rightarrow> redispatch \<Rightarrow> 'k \<Rightarrow> 'k" where
  "dispatch_fired write r k = snd (Dispatch write (d_run_id r) (d_job_id r) (d_attempt r) (d_job_type r) k)"

text \<open>
  One batch of a tick meets an environment and the clock \<open>s.now\<close>, read once per job. \<open>n\<close> counts the
  batches of the tick.
\<close>

type_synonym pass = "env \<times> (due_job \<Rightarrow> time)"

definition tick_pass :: "('loc, 'sched) zones \<Rightarrow> 'k writer \<Rightarrow> pass \<Rightarrow> db \<times> 'k \<Rightarrow> redispatch list \<times> db \<times> 'k" where
  "tick_pass z write p st =
     (let ((fired, err), d) = FireDueJobs (fst p) batch (sched_next z (snd p)) (fst st)
      in (fired, d, fold (dispatch_fired write) fired (snd st)))"

partial_function (option) Tick ::
  "('loc, 'sched) zones \<Rightarrow> 'k writer \<Rightarrow> (nat \<Rightarrow> pass) \<Rightarrow> nat \<Rightarrow> db \<times> 'k \<Rightarrow> (db \<times> 'k) option" where
  "Tick z write ps n st =
     (let (fired, st') = tick_pass z write (ps n) st
      in if length fired < batch then Some st' else Tick z write ps (Suc n) st')"

text \<open>
  \<open>Run\<close>: a tick at the start and one per tick of the clock; the list holds the ticks it makes before
  it sees the cancelled context.
\<close>

fun sched_run ::
  "('loc, 'sched) zones \<Rightarrow> 'k writer \<Rightarrow> (nat \<Rightarrow> pass) list \<Rightarrow> db \<times> 'k \<Rightarrow> (db \<times> 'k) option" where
  "sched_run z write [] st = Some st"
| "sched_run z write (ps # ticks) st =
     (case Tick z write ps 0 st of None \<Rightarrow> None | Some st' \<Rightarrow> sched_run z write ticks st')"

section \<open>What a batch does to the jobs\<close>

definition advance_all :: "time \<Rightarrow> (due_job \<Rightarrow> time res) \<Rightarrow> due_job list \<Rightarrow> job list \<Rightarrow> job list" where
  "advance_all now next us js =
     fold (\<lambda>u. map (\<lambda>j. if j_id j = u_id u then advance_row now (next_at next u) j else j)) us js"

lemma advance_row_simps [simp]:
  "j_id (advance_row t x j) = j_id j" "j_next_run_at (advance_row t x j) = x"
  "j_enabled (advance_row t x j) = j_enabled j" "j_cron_expr (advance_row t x j) = j_cron_expr j"
  by (simp_all add: advance_row_def)

lemma advance_all_pointwise:
  "advance_all now next us js = map (\<lambda>j. fold (\<lambda>u j. if j_id j = u_id u then advance_row now (next_at next u) j else j) us j) js"
  unfolding advance_all_def
  by (induction us arbitrary: js) (simp_all add: comp_def)

lemma advance_fold_id [simp]:
  "j_id (fold (\<lambda>u j. if j_id j = u_id u then advance_row now (next_at next u) j else j) us j) = j_id j"
  by (induction us arbitrary: j) simp_all

lemma advance_fold_other:
  "j_id j \<notin> u_id ` set us \<Longrightarrow>
     fold (\<lambda>u j. if j_id j = u_id u then advance_row now (next_at next u) j else j) us j = j"
  by (induction us) auto

lemma advance_fold_one:
  assumes "distinct (map u_id us)" and "u \<in> set us" and "j_id j = u_id u"
  shows "fold (\<lambda>u j. if j_id j = u_id u then advance_row now (next_at next u) j else j) us j
     = advance_row now (next_at next u) j"
  using assms
proof (induction us)
  case (Cons v us)
  show ?case
  proof (cases "u = v")
    case True
    with Cons.prems show ?thesis by (simp add: advance_fold_other)
  next
    case False
    with Cons.prems have "u \<in> set us" by simp
    with Cons.prems have "j_id j \<noteq> u_id v" by (auto simp: rev_image_eqI)
    with Cons \<open>u \<in> set us\<close> show ?thesis by simp
  qed
qed simp

lemma fire_jobs_jobs:
  "fire_jobs e next k us fired errs d = (Inr y, d') \<Longrightarrow>
     jobs d' = advance_all (e_now e) next us (jobs d) \<and> length (fst y) \<le> length fired + length us"
proof (induction us arbitrary: k fired errs d)
  case Nil
  then show ?case by (auto simp: advance_all_def)
next
  case (Cons u us)
  let ?r = "new_run_row (e_uuids e k) (u_id u) (u_next_run_at u) TriggerSchedule (e_now e)"
  obtain x d1 where i: "insert_occurrence ?r d = (x, d1)" by (cases "insert_occurrence ?r d")
  then obtain rs where x: "x = Inr rs" using Cons.prems by (cases x) auto
  have j: "jobs d1 = jobs d" "length rs \<le> 1"
    using i x by (auto simp: insert_occurrence_def insert_run_def split: if_splits)
  have "jobs d' = advance_all (e_now e) next us (jobs (set_next_run_at (e_now e) (u_id u) (next_at next u) d1))
     \<and> length (fst y) \<le> length (fired @ fired_of u rs) + length us"
    by (rule Cons.IH) (use Cons.prems i x in simp)
  with j show ?case by (simp add: set_next_run_at_def advance_all_def fired_of_def)
qed

section \<open>What a batch does to the runs\<close>

definition occurrence_of :: "due_job \<Rightarrow> uuid \<times> time" where
  "occurrence_of u = (u_id u, u_next_run_at u)"

fun new_fired :: "env \<Rightarrow> nat \<Rightarrow> due_job list \<Rightarrow> run list \<Rightarrow> (due_job \<times> run) list" where
  "new_fired e k [] rs = []"
| "new_fired e k (u # us) rs =
     (if occurrence_of u \<in> occurrence ` set rs then new_fired e (Suc k) us rs
      else (let r = new_run_row (e_uuids e k) (u_id u) (u_next_run_at u) TriggerSchedule (e_now e)
            in (u, r) # new_fired e (Suc k) us (rs @ [r])))"

definition redispatch_of :: "due_job \<times> run \<Rightarrow> redispatch" where
  "redispatch_of x = \<lparr>d_run_id = r_id (snd x), d_job_id = u_id (fst x), d_job_type = u_type (fst x),
     d_status = r_status (snd x), d_attempt = r_attempt (snd x)\<rparr>"

lemma new_row_occurrence [simp]:
  "occurrence (new_run_row i (u_id u) (u_next_run_at u) t n) = occurrence_of u"
  by (simp add: occurrence_def occurrence_of_def)

text \<open>The identifiers a batch makes are new, as \<open>uuid.NewString\<close> promises.\<close>

definition fresh_ids :: "env \<Rightarrow> run list \<Rightarrow> bool" where
  "fresh_ids e rs \<longleftrightarrow> inj (e_uuids e) \<and> range (e_uuids e) \<inter> r_id ` set rs = {}"

lemma db_update_swap: "d\<lparr>runs := rs, jobs := js\<rparr> = d\<lparr>jobs := js, runs := rs\<rparr>"
  by simp

lemma fire_jobs_eq:
  assumes "inj (e_uuids e)" and "\<forall>i \<ge> k. e_uuids e i \<notin> r_id ` set (runs d)"
    and "\<forall>u \<in> set us. u_id u \<in> j_id ` set (jobs d)"
  shows "fire_jobs e next k us fired errs d =
    (Inr (fired @ map redispatch_of (new_fired e k us (runs d)), errs @ concat (map (next_err next) us)),
     d\<lparr>jobs := advance_all (e_now e) next us (jobs d), runs := runs d @ map snd (new_fired e k us (runs d))\<rparr>)"
  using assms(2,3)
proof (induction us arbitrary: k fired errs d)
  case Nil
  then show ?case by (simp add: advance_all_def)
next
  case (Cons u us)
  let ?r = "new_run_row (e_uuids e k) (u_id u) (u_next_run_at u) TriggerSchedule (e_now e)"
  let ?adv = "map (\<lambda>j. if j_id j = u_id u then advance_row (e_now e) (next_at next u) j else j) (jobs d)"
  have "map j_id ?adv = map j_id (jobs d)" by (rule map_key_update) simp
  then have ids: "j_id ` set ?adv = j_id ` set (jobs d)" by (metis set_map)
  show ?case
  proof (cases "occurrence_of u \<in> occurrence ` set (runs d)")
    case True
    then have i: "insert_occurrence ?r d = (Inr [], d)" by (simp add: insert_occurrence_def)
    have "fire_jobs e next (Suc k) us fired (errs @ next_err next u) (d\<lparr>jobs := ?adv\<rparr>) =
      (Inr (fired @ map redispatch_of (new_fired e (Suc k) us (runs d)), (errs @ next_err next u) @ concat (map (next_err next) us)),
       d\<lparr>jobs := advance_all (e_now e) next us ?adv, runs := runs d @ map snd (new_fired e (Suc k) us (runs d))\<rparr>)"
      using Cons.IH [of "Suc k" "d\<lparr>jobs := ?adv\<rparr>" fired] Cons.prems ids by simp
    with i True show ?thesis by (simp add: set_next_run_at_def fired_of_def advance_all_def)
  next
    case False
    have "e_uuids e k \<notin> r_id ` set (runs d)" using Cons.prems(1) by blast
    moreover have "u_id u \<in> j_id ` set (jobs d)" using Cons.prems(2) by simp
    ultimately have i: "insert_occurrence ?r d = (Inr [?r], d\<lparr>runs := runs d @ [?r]\<rparr>)"
      using False by (simp add: insert_occurrence_def insert_run_def lookup_row_None)
    let ?d = "d\<lparr>jobs := ?adv, runs := runs d @ [?r]\<rparr>"
    have "\<forall>i \<ge> Suc k. e_uuids e i \<notin> r_id ` set (runs ?d)"
      using Cons.prems(1) assms(1) by (auto dest: injD)
    then have "fire_jobs e next (Suc k) us (fired @ [redispatch_of (u, ?r)]) (errs @ next_err next u) ?d =
      (Inr ((fired @ [redispatch_of (u, ?r)]) @ map redispatch_of (new_fired e (Suc k) us (runs d @ [?r])),
            (errs @ next_err next u) @ concat (map (next_err next) us)),
       ?d\<lparr>jobs := advance_all (e_now e) next us ?adv,
          runs := (runs d @ [?r]) @ map snd (new_fired e (Suc k) us (runs d @ [?r]))\<rparr>)"
      using Cons.IH [of "Suc k" ?d "fired @ [redispatch_of (u, ?r)]"] Cons.prems(2) ids by simp
    with i False show ?thesis
      by (simp add: set_next_run_at_def fired_of_def advance_all_def Let_def redispatch_of_def db_update_swap)
  qed
qed

text \<open>Every due job has its occurrence queued exactly once, before or by the batch.\<close>

lemma new_fired_occurrences:
  assumes "distinct (map occurrence_of us)"
  shows "map (\<lambda>x. occurrence (snd x)) (new_fired e k us rs) = filter (\<lambda>c. c \<notin> occurrence ` set rs) (map occurrence_of us)"
  using assms
proof (induction us arbitrary: k rs)
  case (Cons u us)
  have "filter (\<lambda>c. c \<notin> insert (occurrence_of u) (occurrence ` set rs)) (map occurrence_of us) =
      filter (\<lambda>c. c \<notin> occurrence ` set rs) (map occurrence_of us)"
    using Cons.prems by (intro filter_cong) auto
  with Cons show ?case by (simp add: Let_def)
qed simp

lemma new_fired_rows:
  "x \<in> set (new_fired e k us rs) \<Longrightarrow> fst x \<in> set us \<and>
     (\<exists>i. snd x = new_run_row (e_uuids e i) (u_id (fst x)) (u_next_run_at (fst x)) TriggerSchedule (e_now e))"
proof (induction us arbitrary: k rs)
  case (Cons u us)
  then show ?case by (auto simp: Let_def split: if_splits)
qed simp

lemma due_jobs_ids: "distinct (map j_id (jobs d)) \<Longrightarrow> distinct (map u_id (due_jobs e n d))"
proof -
  assume "distinct (map j_id (jobs d))"
  then have "distinct (map j_id (filter (is_due e) (jobs d)))" by (rule distinct_map_filter)
  then have "distinct (map j_id (order_limit (\<lambda>j. time_or_0 (j_next_run_at j)) n (filter (is_due e) (jobs d))))"
    by (rule distinct_order_limit)
  moreover have "u_id \<circ> due_job_of = j_id" by (auto simp: due_job_of_def)
  ultimately show ?thesis by (simp add: due_jobs_def)
qed

lemma due_jobs_in:
  "u \<in> set (due_jobs e n d) \<Longrightarrow> \<exists>j \<in> set (jobs d). is_due e j \<and> u = due_job_of j"
  by (auto simp: due_jobs_def dest!: order_limit_in)

lemma due_jobs_length: "length (due_jobs e n d) = min n (length (filter (is_due e) (jobs d)))"
  by (simp add: due_jobs_def length_order_limit)

lemma due_job_of_simps [simp]:
  "u_id (due_job_of j) = j_id j" "u_type (due_job_of j) = j_type j" "u_timezone (due_job_of j) = j_timezone j"
  by (simp_all add: due_job_of_def)

lemma FireDueJobs_eq:
  assumes "schema_ok d" and "quiet e" and "e_others e d = d" and "fresh_ids e (runs d)"
  shows "FireDueJobs e n next d =
    (let us = due_jobs e n d; new = new_fired e 0 us (runs d)
     in ((map redispatch_of new, errors_Join (concat (map (next_err next) us))),
         d\<lparr>jobs := advance_all (e_now e) next us (jobs d), runs := runs d @ map snd new\<rparr>))"
proof -
  have u: "\<forall>u \<in> set (due_jobs e n d). u_id u \<in> j_id ` set (jobs d)" using due_jobs_in by fastforce
  have i: "inj (e_uuids e)" "\<forall>i \<ge> 0. e_uuids e i \<notin> r_id ` set (runs d)"
    using assms(4) unfolding fresh_ids_def by blast+
  show ?thesis
    using fire_jobs_eq [OF i u, of "next" "[]" "[]"] assms(2,3) by (simp add: FireDueJobs_def Let_def)
qed

lemma advance_all_picked:
  assumes "distinct (map j_id (jobs d))"
  shows "advance_all now next (due_jobs e n d) (jobs d) = map (\<lambda>j. if j_id j \<in> u_id ` set (due_jobs e n d)
           then advance_row now (next_at next (due_job_of j)) j else j) (jobs d)"
  unfolding advance_all_pointwise
proof (rule map_cong [OF refl])
  fix j assume j: "j \<in> set (jobs d)"
  let ?us = "due_jobs e n d"
  show "fold (\<lambda>u j. if j_id j = u_id u then advance_row now (next_at next u) j else j) ?us j =
    (if j_id j \<in> u_id ` set ?us then advance_row now (next_at next (due_job_of j)) j else j)"
  proof (cases "j_id j \<in> u_id ` set ?us")
    case True
    then obtain u where u: "u \<in> set ?us" "u_id u = j_id j" by auto
    then obtain i where "i \<in> set (jobs d)" "u = due_job_of i" using due_jobs_in by blast
    with u j assms have "u = due_job_of j" by (auto simp: distinct_map inj_on_def)
    with advance_fold_one [OF due_jobs_ids [OF assms] u(1)] u True show ?thesis by simp
  qed (simp add: advance_fold_other)
qed

lemma next_err_Nil: "next_err next u = [] \<longleftrightarrow> (\<exists>t. next u = Inr t)"
  by (simp add: next_err_def split: sum.split)

lemma ex1_key: "distinct (map key xs) \<Longrightarrow> c \<in> key ` set xs \<Longrightarrow> \<exists>!x. x \<in> set xs \<and> key x = c"
  by (auto simp: distinct_map dest: inj_onD)

text \<open>
  C20: a batch queues, for each due job it picks, exactly one run of the occurrence that was due (or
  finds the one already there), returns exactly the runs it made, moves each picked job to the time
  \<open>next\<close> gave or clears it when \<open>next\<close> failed, and changes no other job and no existing run.
\<close>

theorem FireDueJobs_spec:
  assumes "schema_ok d" and "quiet e" and "e_others e d = d" and "fresh_ids e (runs d)"
    and "FireDueJobs e n next d = ((fired, err), d')"
  shows "(\<exists>new. runs d' = runs d @ new \<and> map d_run_id fired = map r_id new
       \<and> map occurrence new = filter (\<lambda>c. c \<notin> occurrence ` set (runs d)) (map occurrence_of (due_jobs e n d))
       \<and> list_all (\<lambda>r. r_status r = StatusQueued \<and> r_attempt r = 1) new)
    \<and> list_all (\<lambda>u. \<exists>!r. r \<in> set (runs d') \<and> occurrence r = occurrence_of u) (due_jobs e n d)
    \<and> jobs d' = map (\<lambda>j. if j_id j \<in> u_id ` set (due_jobs e n d)
           then advance_row (e_now e) (next_at next (due_job_of j)) j else j) (jobs d)
    \<and> (err = None \<longleftrightarrow> list_all (\<lambda>u. \<exists>t. next u = Inr t) (due_jobs e n d))"
proof -
  let ?us = "due_jobs e n d"
  let ?new = "new_fired e 0 ?us (runs d)"
  have r: "fired = map redispatch_of ?new" "err = errors_Join (concat (map (next_err next) ?us))"
    "runs d' = runs d @ map snd ?new" "jobs d' = advance_all (e_now e) next ?us (jobs d)"
    using FireDueJobs_eq [OF assms(1-4), of n "next"] assms(5) by (auto simp: Let_def)
  have ids: "distinct (map j_id (jobs d))" using assms(1) by (simp add: schema_defs)
  have us: "distinct (map u_id ?us)" using ids by (rule due_jobs_ids)
  then have "distinct (map occurrence_of ?us)"
    by (auto simp: distinct_map inj_on_def occurrence_of_def)
  note occ = new_fired_occurrences [OF this, of e 0 "runs d"]
  have new: "list_all (\<lambda>r. r_status r = StatusQueued \<and> r_attempt r = 1) (map snd ?new)"
    unfolding list_all_iff using new_fired_rows [of _ e 0 ?us "runs d"] by fastforce
  have one: "\<exists>!r. r \<in> set (runs d') \<and> occurrence r = occurrence_of u" if "u \<in> set ?us" for u
  proof -
    have "set (map (\<lambda>x. occurrence (snd x)) ?new) = set (filter (\<lambda>c. c \<notin> occurrence ` set (runs d)) (map occurrence_of ?us))"
      by (simp only: occ)
    moreover have "occurrence_of u \<in> set (map occurrence_of ?us)" using that by simp
    ultimately have "occurrence_of u \<in> set (map (\<lambda>x. occurrence (snd x)) ?new) \<or> occurrence_of u \<in> occurrence ` set (runs d)"
      by (cases "occurrence_of u \<in> occurrence ` set (runs d)") simp_all
    then have "occurrence_of u \<in> occurrence ` set (runs d')"
      unfolding r(3) set_append set_map image_Un image_image by blast
    moreover have "schema_ok d'"
      using FireDueJobs_schema [of e d n "next"] assms(1,3) by (simp only: assms(5) snd_conv)
    then have "distinct (map occurrence (runs d'))" by (simp only: schema_ok_def runs_ok_def)
    ultimately show ?thesis by (intro ex1_key)
  qed
  have "jobs d' = map (\<lambda>j. if j_id j \<in> u_id ` set ?us
           then advance_row (e_now e) (next_at next (due_job_of j)) j else j) (jobs d)"
    unfolding r(4) by (rule advance_all_picked [OF ids])
  moreover have "err = None \<longleftrightarrow> list_all (\<lambda>u. \<exists>t. next u = Inr t) ?us"
    unfolding r(2) errors_Join_def by (simp add: list_all_iff next_err_Nil)
  moreover have "map d_run_id fired = map r_id (map snd ?new)" unfolding r(1) by (simp add: redispatch_of_def)
  moreover have "map occurrence (map snd ?new) = filter (\<lambda>c. c \<notin> occurrence ` set (runs d)) (map occurrence_of ?us)"
    using occ by (simp add: comp_def)
  ultimately show ?thesis
    using new one r(3) unfolding list_all_iff by blast
qed

section \<open>A tick\<close>

text \<open>The jobs that are due at a time.\<close>

definition due_at :: "time \<Rightarrow> job \<Rightarrow> bool" where
  "due_at t j \<longleftrightarrow> j_enabled j \<and> j_cron_expr j \<noteq> None \<and> (case j_next_run_at j of None \<Rightarrow> False | Some x \<Rightarrow> x \<le> t)"

definition due_count :: "time \<Rightarrow> db \<Rightarrow> nat" where
  "due_count t d = length (filter (due_at t) (jobs d))"

lemma advance_all_due:
  assumes "\<And>u x. u \<in> set us \<Longrightarrow> next u = Inr x \<Longrightarrow> t < x"
  shows "filter (due_at t) (advance_all now next us js) = filter (\<lambda>j. due_at t j \<and> j_id j \<notin> u_id ` set us) js"
  using assms
proof (induction us arbitrary: js)
  case Nil
  then show ?case by (simp add: advance_all_def)
next
  case (Cons u us)
  let ?f = "\<lambda>j. if j_id j = u_id u then advance_row now (next_at next u) j else j"
  have "\<not> due_at t (?f j)" if "j_id j = u_id u" for j
    using that Cons.prems [of u] by (auto simp: due_at_def next_at_def not_le split: sum.splits option.splits)
  then have "filter (\<lambda>j. due_at t j \<and> j_id j \<notin> u_id ` set us) (map ?f js) =
      filter (\<lambda>j. due_at t j \<and> j_id j \<notin> u_id ` set (u # us)) js"
    by (induction js) simp_all
  moreover have "filter (due_at t) (advance_all now next us (map ?f js)) =
      filter (\<lambda>j. due_at t j \<and> j_id j \<notin> u_id ` set us) (map ?f js)"
    by (rule Cons.IH) (use Cons.prems in auto)
  ultimately show ?case by (simp add: advance_all_def)
qed

text \<open>
  During a tick: no other session's changes are seen, no database clock is past \<open>t\<close>, and the time
  \<open>next\<close> finds for a job is after \<open>t\<close>.
\<close>

definition calm_pass :: "('loc, 'sched) zones \<Rightarrow> time \<Rightarrow> pass \<Rightarrow> bool" where
  "calm_pass z t p \<longleftrightarrow> e_others (fst p) = (\<lambda>d. d) \<and> e_now (fst p) \<le> t
     \<and> (\<forall>j x. sched_next z (snd p) j = Inr x \<longrightarrow> t < x)"

lemma is_due_at: "is_due e j \<Longrightarrow> e_now e \<le> t \<Longrightarrow> due_at t j"
  by (auto simp: is_due_def due_at_def split: option.splits)

lemma due_pass_fewer:
  assumes "calm_pass z t p" and "tick_pass z wr p st = (fired, st')" and "batch \<le> length fired"
  shows "due_count t (fst st') < due_count t (fst st)"
proof -
  let ?e = "fst p" and ?n = "sched_next z (snd p)" and ?d = "fst st"
  let ?us = "due_jobs ?e batch ?d"
  obtain err d' where f: "FireDueJobs ?e batch ?n ?d = ((fired, err), d')" and d': "fst st' = d'"
    using assms(2) by (auto simp: tick_pass_def split: prod.splits)
  have o: "e_others ?e ?d = ?d" using assms(1) by (simp add: calm_pass_def)
  have ne: "fired \<noteq> []" using assms(3) by (auto simp: batch_def)
  obtain errs where "pg ?e (\<lambda>d. case fire_jobs ?e ?n 0 (due_jobs ?e batch d) [] [] d of
       (Inl x, _) \<Rightarrow> (Inl x, d) | (Inr y, d') \<Rightarrow> (Inr y, d')) ?d = (Inr (fired, errs), d')"
    using f ne by (auto simp: FireDueJobs_def split: prod.splits sum.splits)
  from pg_Inr [OF this] o have fj: "fire_jobs ?e ?n 0 ?us [] [] ?d = (Inr (fired, errs), d')"
    by (auto split: prod.splits sum.splits)
  note j = fire_jobs_jobs [OF fj]
  have "?us \<noteq> []" using j ne by auto
  then obtain u where u: "u \<in> set ?us" by (cases ?us) auto
  then obtain i where i: "i \<in> set (jobs ?d)" "is_due ?e i" "u = due_job_of i" using due_jobs_in by blast
  have di: "due_at t i" using is_due_at [OF i(2)] assms(1) by (simp add: calm_pass_def)
  have "filter (due_at t) (jobs d') = filter (\<lambda>j. due_at t j \<and> j_id j \<notin> u_id ` set ?us) (jobs ?d)"
    using j assms(1) advance_all_due [of ?us ?n t] by (simp add: calm_pass_def)
  then have "due_count t d' = length (filter (\<lambda>j. due_at t j \<and> j_id j \<notin> u_id ` set ?us) (jobs ?d))"
    by (simp add: due_count_def)
  also have "\<dots> = length (filter (\<lambda>j. j_id j \<notin> u_id ` set ?us) (filter (due_at t) (jobs ?d)))" by (simp add: conj_commute)
  also have "\<dots> < length (filter (due_at t) (jobs ?d))"
  proof (rule length_filter_less)
    show "i \<in> set (filter (due_at t) (jobs ?d))" using i di by simp
    show "\<not> j_id i \<notin> u_id ` set ?us" using u i by force
  qed
  finally show ?thesis by (simp add: due_count_def d')
qed

lemma Tick_total:
  assumes "\<And>m. calm_pass z t (ps m)"
  shows "\<exists>st'. Tick z wr ps n st = Some st'"
proof (induction "due_count t (fst st)" arbitrary: n st rule: less_induct)
  case less
  obtain fired st1 where p: "tick_pass z wr (ps n) st = (fired, st1)" by (cases "tick_pass z wr (ps n) st")
  show ?case
  proof (cases "length fired < batch")
    case True
    then show ?thesis by (subst Tick.simps) (simp add: p)
  next
    case False
    then have "due_count t (fst st1) < due_count t (fst st)" by (intro due_pass_fewer [OF assms p]) simp
    from less [OF this, of "Suc n"] False show ?thesis by (subst Tick.simps) (simp add: p)
  qed
qed

section \<open>Every due job fires\<close>

definition pending :: "time \<Rightarrow> db \<Rightarrow> (uuid \<times> time) list" where
  "pending t d = map (\<lambda>j. occurrence_of (due_job_of j)) (filter (due_at t) (jobs d))"

text \<open>A pass with no failure, no row held by another session, and the database's clock at \<open>t\<close>.\<close>

definition clean_pass :: "('loc, 'sched) zones \<Rightarrow> time \<Rightarrow> pass \<Rightarrow> bool" where
  "clean_pass z t p \<longleftrightarrow> calm_pass z t p \<and> quiet (fst p) \<and> e_now (fst p) = t \<and> e_locked (fst p) = []"

text \<open>The identifiers the passes from \<open>n\<close> on make are new and differ between passes.\<close>

definition fresh_passes :: "(nat \<Rightarrow> pass) \<Rightarrow> nat \<Rightarrow> run list \<Rightarrow> bool" where
  "fresh_passes ps n rs \<longleftrightarrow> inj (\<lambda>(m, i). e_uuids (fst (ps m)) i)
     \<and> (\<forall>m \<ge> n. \<forall>i. e_uuids (fst (ps m)) i \<notin> r_id ` set rs)"

lemma fresh_passes_now:
  assumes "fresh_passes ps n rs"
  shows "fresh_ids (fst (ps n)) rs"
proof -
  have "inj (e_uuids (fst (ps n)))"
    using assms unfolding fresh_passes_def inj_def by (metis case_prod_conv prod.inject)
  with assms show ?thesis unfolding fresh_ids_def fresh_passes_def by blast
qed

lemma due_at_is_due: "e_now e = t \<Longrightarrow> e_locked e = [] \<Longrightarrow> is_due e j = due_at t j"
  by (auto simp: is_due_def due_at_def)

lemma clean_tick_pass:
  assumes "schema_ok d" and "clean_pass z t (ps n)" and "fresh_passes ps n (runs d)"
    and "set (pending t d) \<inter> occurrence ` set (runs d) = {}"
  shows "\<exists>fired d1 new. tick_pass z wr (ps n) (d, k) = (fired, d1, fold (dispatch_fired wr) fired k)
     \<and> runs d1 = runs d @ new \<and> map d_run_id fired = map r_id new \<and> schema_ok d1
     \<and> set (pending t d) = occurrence ` set new \<union> set (pending t d1)
     \<and> occurrence ` set new \<inter> set (pending t d1) = {}
     \<and> fresh_passes ps (Suc n) (runs d1)
     \<and> (length fired < batch \<longrightarrow> pending t d1 = [])"
proof -
  let ?e = "fst (ps n)" and ?nx = "sched_next z (snd (ps n))"
  let ?us = "due_jobs ?e batch d"
  let ?new = "new_fired ?e 0 ?us (runs d)"
  let ?d1 = "d\<lparr>jobs := advance_all (e_now ?e) ?nx ?us (jobs d), runs := runs d @ map snd ?new\<rparr>"
  have e: "e_others ?e = (\<lambda>d. d)" "quiet ?e" "e_now ?e = t" "e_locked ?e = []"
    "\<And>u x. ?nx u = Inr x \<Longrightarrow> t < x"
    using assms(2) by (auto simp: clean_pass_def calm_pass_def)
  have fr: "fresh_ids ?e (runs d)" using assms(3) by (rule fresh_passes_now)
  have eq: "FireDueJobs ?e batch ?nx d = ((map redispatch_of ?new, errors_Join (concat (map (next_err ?nx) ?us))), ?d1)"
    using FireDueJobs_eq [OF assms(1) e(2) _ fr, of batch ?nx] e(1) by (simp add: Let_def)
  have ids: "distinct (map j_id (jobs d))" using assms(1) by (simp add: schema_ok_def jobs_ok_def)
  have usin: "\<exists>j \<in> set (jobs d). due_at t j \<and> u = due_job_of j" if "u \<in> set ?us" for u
    using due_jobs_in [OF that] due_at_is_due [OF e(3,4)] by auto
  have us: "distinct (map u_id ?us)" using ids by (rule due_jobs_ids)
  then have dus: "distinct (map occurrence_of ?us)" by (auto simp: distinct_map inj_on_def occurrence_of_def)
  have "occurrence_of u \<notin> occurrence ` set (runs d)" if "u \<in> set ?us" for u
    using usin [OF that] assms(4) unfolding pending_def by auto
  then have "filter (\<lambda>c. c \<notin> occurrence ` set (runs d)) (map occurrence_of ?us) = map occurrence_of ?us"
    by (auto simp: filter_id_conv)
  then have occ: "map (\<lambda>x. occurrence (snd x)) ?new = map occurrence_of ?us"
    using new_fired_occurrences [OF dus, of ?e 0 "runs d"] by simp
  then have occs: "occurrence ` set (map snd ?new) = occurrence_of ` set ?us"
    by (metis image_image image_set)
  have len: "length ?new = length ?us" using occ by (metis length_map)
  have jobs1: "filter (due_at t) (jobs ?d1) = filter (\<lambda>j. due_at t j \<and> j_id j \<notin> u_id ` set ?us) (jobs d)"
    using advance_all_due [of ?us ?nx t] e(5) by simp
  have split: "set (pending t d) = occurrence_of ` set ?us \<union> set (pending t ?d1)
     \<and> occurrence_of ` set ?us \<inter> set (pending t ?d1) = {}"
  proof -
    have "occurrence_of (due_job_of j) \<in> occurrence_of ` set ?us" if j: "j \<in> set (jobs d)" "j_id j \<in> u_id ` set ?us" for j
    proof -
      obtain u where u: "u \<in> set ?us" "u_id u = j_id j" using j(2) by auto
      with usin obtain i where "i \<in> set (jobs d)" "u = due_job_of i" by blast
      with u(2) j(1) ids have "u = due_job_of j" by (auto simp: distinct_map dest: inj_onD)
      with u(1) show ?thesis by blast
    qed
    moreover have "occurrence_of u \<in> set (pending t d)" if "u \<in> set ?us" for u
      using usin [OF that] by (auto simp: pending_def)
    moreover have "j_id j \<in> u_id ` set ?us" if "u \<in> set ?us" "occurrence_of (due_job_of j) = occurrence_of u" for j u
      using that by (auto simp: occurrence_of_def)
    ultimately show ?thesis unfolding pending_def [of t ?d1] jobs1 unfolding pending_def by fastforce
  qed
  have sc: "schema_ok ?d1" using FireDueJobs_schema [of ?e d batch ?nx] assms(1) e(1) eq by simp
  have "r_id r \<in> range (e_uuids ?e)" if "r \<in> set (map snd ?new)" for r
    using that new_fired_rows [of _ ?e 0 ?us "runs d"] by fastforce
  then have fr1: "fresh_passes ps (Suc n) (runs ?d1)"
  proof -
    assume a: "\<And>r. r \<in> set (map snd ?new) \<Longrightarrow> r_id r \<in> range (e_uuids ?e)"
    have "e_uuids (fst (ps m)) i \<noteq> e_uuids ?e i'" if "Suc n \<le> m" for m i i'
      using assms(3) that unfolding fresh_passes_def inj_def by fastforce
    then have "e_uuids (fst (ps m)) i \<notin> r_id ` set (map snd ?new)" if "Suc n \<le> m" for m i
      using a that by fastforce
    moreover have "e_uuids (fst (ps m)) i \<notin> r_id ` set (runs d)" if "Suc n \<le> m" for m i
      using assms(3) Suc_leD [OF that] unfolding fresh_passes_def by blast
    moreover have "inj (\<lambda>(m, i). e_uuids (fst (ps m)) i)" using assms(3) unfolding fresh_passes_def by blast
    ultimately show ?thesis unfolding fresh_passes_def by (simp add: image_Un)
  qed
  have "pending t ?d1 = []" if "length ?new < batch"
  proof -
    have "length ?us < batch" using that len by simp
    then have "length (filter (is_due ?e) (jobs d)) \<le> batch" by (simp add: due_jobs_length)
    then have "set ?us = due_job_of ` set (filter (is_due ?e) (jobs d))"
      by (simp add: due_jobs_def order_limit_all)
    then show ?thesis unfolding pending_def jobs1 using due_at_is_due [OF e(3,4)]
      by (auto simp: filter_empty_conv image_iff)
  qed
  then have "tick_pass z wr (ps n) (d, k) = (map redispatch_of ?new, ?d1, fold (dispatch_fired wr) (map redispatch_of ?new) k)
     \<and> runs ?d1 = runs d @ map snd ?new \<and> map d_run_id (map redispatch_of ?new) = map r_id (map snd ?new) \<and> schema_ok ?d1
     \<and> set (pending t d) = occurrence ` set (map snd ?new) \<union> set (pending t ?d1)
     \<and> occurrence ` set (map snd ?new) \<inter> set (pending t ?d1) = {}
     \<and> fresh_passes ps (Suc n) (runs ?d1)
     \<and> (length (map redispatch_of ?new) < batch \<longrightarrow> pending t ?d1 = [])"
    using eq sc fr1 split unfolding occs by (simp add: tick_pass_def redispatch_of_def)
  then show ?thesis by blast
qed

lemma clean_tick:
  assumes "schema_ok d" and "\<And>m. clean_pass z t (ps m)" and "fresh_passes ps n (runs d)"
    and "set (pending t d) \<inter> occurrence ` set (runs d) = {}"
  shows "\<exists>fired d' new. Tick z wr ps n (d, k) = Some (d', fold (dispatch_fired wr) fired k)
     \<and> runs d' = runs d @ new \<and> map d_run_id fired = map r_id new \<and> schema_ok d'
     \<and> occurrence ` set new = set (pending t d) \<and> pending t d' = []"
  using assms(1,3,4)
proof (induction "due_count t d" arbitrary: n d k rule: less_induct)
  case less
  obtain fired d1 new where p: "tick_pass z wr (ps n) (d, k) = (fired, d1, fold (dispatch_fired wr) fired k)"
    "runs d1 = runs d @ new" "map d_run_id fired = map r_id new" "schema_ok d1"
    "set (pending t d) = occurrence ` set new \<union> set (pending t d1)" "occurrence ` set new \<inter> set (pending t d1) = {}"
    "fresh_passes ps (Suc n) (runs d1)" "length fired < batch \<longrightarrow> pending t d1 = []"
    using clean_tick_pass [OF less.prems(1) assms(2) less.prems(2,3), of wr k]
    by (elim exE conjE) (rule that; assumption)
  show ?case
  proof (cases "length fired < batch")
    case True
    then have "Tick z wr ps n (d, k) = Some (d1, fold (dispatch_fired wr) fired k)"
      by (subst Tick.simps) (simp add: p(1))
    moreover have "pending t d1 = []" using p(8) True by blast
    moreover have "occurrence ` set new = set (pending t d)" unfolding p(5) \<open>pending t d1 = []\<close> by simp
    ultimately show ?thesis using p(2,3,4) by blast
  next
    case False
    have c: "calm_pass z t (ps n)" using assms(2) by (simp add: clean_pass_def)
    have "due_count t d1 < due_count t d"
      using due_pass_fewer [OF c p(1)] False by simp
    moreover have "set (pending t d1) \<inter> occurrence ` set (runs d1) = {}"
      using less.prems(3) p(2,5,6) by auto
    ultimately obtain fired2 d' new2 where q:
      "Tick z wr ps (Suc n) (d1, fold (dispatch_fired wr) fired k) =
         Some (d', fold (dispatch_fired wr) fired2 (fold (dispatch_fired wr) fired k))"
      "runs d' = runs d1 @ new2" "map d_run_id fired2 = map r_id new2" "schema_ok d'"
      "occurrence ` set new2 = set (pending t d1)" "pending t d' = []"
      using less.hyps [of d1 "Suc n"] p(4,7) by blast
    have "Tick z wr ps n (d, k) = Some (d', fold (dispatch_fired wr) (fired @ fired2) k)"
      using False q(1) by (subst Tick.simps) (simp add: p(1))
    moreover have "runs d' = runs d @ (new @ new2)" "map d_run_id (fired @ fired2) = map r_id (new @ new2)"
      "occurrence ` set (new @ new2) = set (pending t d)"
      using p(2,3,5) q(2,3,5) by (simp_all add: image_Un)
    ultimately show ?thesis using q(4,6) by blast
  qed
qed

text \<open>
  C19: a tick that meets no failure returns, however many batches it takes, and when it does every job
  that was due has its occurrence queued as a new run, each of those runs has been published, and no
  job is due any more.
\<close>

theorem Tick_fires_every_due_job:
  assumes "schema_ok d" and "\<And>m. clean_pass z t (ps m)" and "fresh_passes ps 0 (runs d)"
    and "set (pending t d) \<inter> occurrence ` set (runs d) = {}"
  shows "\<exists>fired d' new. Tick z wr ps 0 (d, k) = Some (d', fold (dispatch_fired wr) fired k)
     \<and> runs d' = runs d @ new \<and> map d_run_id fired = map r_id new
     \<and> occurrence ` set new = set (pending t d) \<and> distinct (map occurrence new) \<and> pending t d' = []"
proof -
  obtain fired d' new where q: "Tick z wr ps 0 (d, k) = Some (d', fold (dispatch_fired wr) fired k)"
    "runs d' = runs d @ new" "map d_run_id fired = map r_id new" "schema_ok d'"
    "occurrence ` set new = set (pending t d)" "pending t d' = []"
    using clean_tick [OF assms(1,2,3,4), of wr k] by (elim exE conjE) (rule that; assumption)
  have "distinct (map occurrence (runs d'))" using q(4) by (simp only: schema_ok_def runs_ok_def)
  then have "distinct (map occurrence new)" unfolding q(2) by simp
  with q show ?thesis by blast
qed

text \<open>A job due at time 5, ticks at 5, a schedule that fires one microsecond later.\<close>

definition cron_ids :: "nat \<Rightarrow> nat \<Rightarrow> uuid" where
  "cron_ids m i = replicate m CHR ''a'' @ CHR ''b'' # replicate i CHR ''a''"

definition cron_env :: "nat \<Rightarrow> env" where
  "cron_env m = \<lparr>e_others = (\<lambda>d. d), e_now = 5, e_clock = 5, e_locked = [], e_uuids = cron_ids m, e_fault = None,
     e_jsonb = Inr\<rparr>"

definition cron_zones :: "(unit, unit) zones" where
  "cron_zones = \<lparr>z_load = (\<lambda>_. Inr ()), z_parse = (\<lambda>_. Inr ()), z_next = (\<lambda>_ _ t. Some (t + 1))\<rparr>"

definition cron_job :: job where
  "cron_job = \<lparr>j_id = ''J'', j_name = ''n'', j_type = ''generate_text'', j_payload = ''{}'', j_cron_expr = Some ''@x'',
     j_timezone = ''UTC'', j_next_run_at = Some 5, j_enabled = True, j_max_retries = 1, j_timeout_sec = 1,
     j_created_at = 1, j_updated_at = 1\<rparr>"

definition cron_db :: db where "cron_db = \<lparr>jobs = [cron_job], runs = [], logs = []\<rparr>"

lemma cron_ids_inj: "cron_ids m i = cron_ids n j \<longleftrightarrow> m = n \<and> i = j"
proof -
  have a: "takeWhile (\<lambda>c. c = CHR ''a'') (cron_ids m i) = replicate m CHR ''a''" for m i
    by (induction m) (simp_all add: cron_ids_def)
  have "m = n" if "cron_ids m i = cron_ids n j" using a [of m i] a [of n j] that by (metis length_replicate)
  moreover have "i = j" if "cron_ids m i = cron_ids n j" "m = n"
    using arg_cong [OF that(1), of length] that(2) by (simp add: cron_ids_def)
  ultimately show ?thesis by blast
qed

lemma cron_facts:
  "schema_ok cron_db" "runs cron_db = []" "pending 5 cron_db = [(''J'', 5)]"
  "quiet (cron_env m)" "e_others (cron_env m) d = d" "fresh_ids (cron_env m) []"
  "clean_pass cron_zones 5 (cron_env m, \<lambda>_. 5)" "fresh_passes (\<lambda>m. (cron_env m, \<lambda>_. 5)) 0 []"
proof -
  show "schema_ok cron_db"
    by (simp add: schema_defs cron_db_def cron_job_def job_checks_def int4_max_def)
  show "runs cron_db = []" by (simp add: cron_db_def)
  show "pending 5 cron_db = [(''J'', 5)]"
    by (simp add: pending_def due_at_def cron_db_def cron_job_def occurrence_of_def due_job_of_def time_or_0_def)
  show "quiet (cron_env m)" "e_others (cron_env m) d = d" by (simp_all add: quiet_def cron_env_def)
  show "fresh_ids (cron_env m) []" by (simp add: fresh_ids_def inj_def cron_env_def cron_ids_inj)
  show "clean_pass cron_zones 5 (cron_env m, \<lambda>_. 5)"
    by (simp add: clean_pass_def calm_pass_def sched_next_def NextRun_def cron_zones_def quiet_def cron_env_def fun_eq_iff
        split: if_splits)
  show "fresh_passes (\<lambda>m. (cron_env m, \<lambda>_. 5)) 0 []"
    by (simp add: fresh_passes_def inj_def cron_env_def cron_ids_inj)
qed

theorem FireDueJobs_spec_witness:
  "\<exists>x err d'. FireDueJobs (cron_env 0) 1 (\<lambda>_. Inr 6) cron_db = ((x, err), d') \<and> err = None
     \<and> jobs d' = map (\<lambda>j. if j_id j \<in> u_id ` set (due_jobs (cron_env 0) 1 cron_db)
           then advance_row 5 (Some 6) j else j) (jobs cron_db)"
proof -
  obtain x err d' where f: "FireDueJobs (cron_env 0) 1 (\<lambda>_. Inr 6) cron_db = ((x, err), d')" by (metis prod.exhaust)
  have fr: "fresh_ids (cron_env 0) (runs cron_db)" using cron_facts(2,6) by simp
  from FireDueJobs_spec [OF cron_facts(1,4,5) fr f]
  have "err = None" "jobs d' = map (\<lambda>j. if j_id j \<in> u_id ` set (due_jobs (cron_env 0) 1 cron_db)
           then advance_row 5 (Some 6) j else j) (jobs cron_db)"
    by (simp_all add: list_all_iff next_at_def cron_env_def)
  with f show ?thesis by blast
qed

theorem Tick_fires_every_due_job_witness:
  "\<exists>d' k r. Tick cron_zones (\<lambda>m k. (None, m # k)) (\<lambda>m. (cron_env m, \<lambda>_. 5)) 0 (cron_db, []) = Some (d', k)
     \<and> runs d' = [r] \<and> occurrence r = (''J'', 5) \<and> pending 5 d' = []"
proof -
  have fr: "fresh_passes (\<lambda>m. (cron_env m, \<lambda>_. 5)) 0 (runs cron_db)" using cron_facts(2,8) by simp
  have nq: "set (pending 5 cron_db) \<inter> occurrence ` set (runs cron_db) = {}" by (simp add: cron_facts(2))
  obtain fired d' new where t: "Tick cron_zones (\<lambda>m k. (None, m # k)) (\<lambda>m. (cron_env m, \<lambda>_. 5)) 0 (cron_db, []) =
      Some (d', fold (dispatch_fired (\<lambda>m k. (None, m # k))) fired [])"
    "runs d' = new" "occurrence ` set new = {(''J'', 5)}" "distinct (map occurrence new)" "pending 5 d' = []"
    using Tick_fires_every_due_job [of cron_db cron_zones 5 "\<lambda>m. (cron_env m, \<lambda>_. 5)" "\<lambda>m k. (None, m # k)" "[]", OF cron_facts(1,7) fr nq]
      cron_facts(2,3) by auto
  have "length new = 1" using t(3) distinct_card [OF t(4)] by (simp add: list.set_map)
  then obtain r where "new = [r]" by (cases new) auto
  with t show ?thesis by auto
qed

end
