(* ===== verification/ApiProps.thy ===== *)
theory ApiProps
  imports Api StoreProps Scheduler App
begin

text \<open>
  What the handlers of the API guarantee: which jobs a create request can make, what running, pausing
  and resuming a job do, on every branch, and which malformed bodies are let through.
\<close>

section \<open>Creating jobs\<close>

definition acceptable :: "('loc, 'sched) zones \<Rightarrow> time \<Rightarrow> new_job \<Rightarrow> bool" where
  "acceptable z now n \<longleftrightarrow>
     n_name n \<noteq> [] \<and> TrimSpace (n_name n) = n_name n
   \<and> Validate (n_type n) (n_payload n) = None
   \<and> n_timezone n \<noteq> ''Local'' \<and> (\<exists>loc. z_load z (n_timezone n) = Inr loc)
   \<and> 0 \<le> n_max_retries n \<and> n_max_retries n \<le> 10 \<and> 1 \<le> n_timeout_sec n \<and> n_timeout_sec n \<le> 86400
   \<and> (case n_cron_expr n of None \<Rightarrow> n_next_run_at n = None
      | Some c \<Rightarrow> c \<noteq> [] \<and> map_sum id Some (NextRun z c (n_timezone n) now) = Inr (n_next_run_at n))"

lemma ranged_Inr: "ranged name lo hi dflt x = Inr n \<Longrightarrow> lo \<le> dflt \<Longrightarrow> dflt \<le> hi \<Longrightarrow> lo \<le> n \<and> n \<le> hi"
  by (auto simp: ranged_def split: option.splits if_splits)

lemma newJob_acceptable:
  assumes "newJob z now req = Inr n"
  shows "acceptable z now n"
proof -
  define name payload tz expr where d: "name = TrimSpace (cr_name req)"
    "payload = (if cr_payload req = [] then ''{}'' else cr_payload req)"
    "tz = (if cr_timezone req = [] then ''UTC'' else cr_timezone req)" "expr = TrimSpace (cr_cron_expr req)"
  note n = assms [unfolded newJob_def Let_def, folded d]
  have nm: "name \<noteq> []" using n by (simp split: if_splits)
  have v: "Validate (cr_type req) payload = None" using n nm by (cases "Validate (cr_type req) payload") simp_all
  obtain loc where loc: "z_load z tz = Inr loc" using n nm v by (cases "z_load z tz") simp_all
  have tz: "tz \<noteq> ''Local''" using n nm v by (simp split: if_splits)
  let ?c = "if expr = [] then Inr (None, None) else case NextRun z expr tz now of Inl e \<Rightarrow> Inl e | Inr t \<Rightarrow> Inr (Some expr, Some t)"
  obtain cron nxt where c: "?c = Inr (cron, nxt)" using n nm v loc tz by (cases ?c) auto
  obtain r where r: "ranged ''max_retries'' 0 maxMaxRetries defaultMaxRetries (cr_max_retries req) = Inr r"
    using n nm v loc tz c by (cases "ranged ''max_retries'' 0 maxMaxRetries defaultMaxRetries (cr_max_retries req)") auto
  obtain t where t: "ranged ''timeout_sec'' 1 maxTimeoutSec defaultTimeoutSec (cr_timeout_sec req) = Inr t"
    using n nm v loc tz c r by (cases "ranged ''timeout_sec'' 1 maxTimeoutSec defaultTimeoutSec (cr_timeout_sec req)") auto
  have eq: "n = \<lparr>n_name = name, n_type = cr_type req, n_payload = payload, n_cron_expr = cron,
      n_timezone = tz, n_next_run_at = nxt, n_max_retries = r, n_timeout_sec = t\<rparr>"
    using n nm v loc tz c r t by simp
  have b: "0 \<le> r \<and> r \<le> 10" "1 \<le> t \<and> t \<le> 86400"
    using ranged_Inr [OF r] ranged_Inr [OF t] by (simp_all add: maxMaxRetries_def defaultMaxRetries_def maxTimeoutSec_def defaultTimeoutSec_def)
  have cr: "case cron of None \<Rightarrow> nxt = None | Some c \<Rightarrow> c \<noteq> [] \<and> map_sum id Some (NextRun z c tz now) = Inr nxt"
    using c by (auto split: if_splits sum.splits)
  have idem: "TrimSpace name = name" by (simp add: d(1) TrimSpace_idem)
  show ?thesis unfolding acceptable_def eq using nm v loc tz b cr idem by (cases cron) simp_all
qed

text \<open>The job row a request that was accepted makes.\<close>

definition created :: "env \<Rightarrow> new_job \<Rightarrow> string \<Rightarrow> job" where
  "created e n p = new_job_row (e_uuids e 0) (e_now e) (n\<lparr>n_payload := p\<rparr>)"

lemma CreateJob_acceptable:
  assumes "acceptable z now n" and "quiet e" and "e_others e d = d" and "find_job (e_uuids e 0) d = None"
  shows "CreateJob e n d = (if CHR 0x00 \<in> set (n_name n) then (Inl (ErrPg pgNotInRepertoire), d) else case e_jsonb e (n_payload n) of Inl x \<Rightarrow> (Inl x, d)
     | Inr p \<Rightarrow> (Inr (created e n p), d\<lparr>jobs := jobs d @ [created e n p]\<rparr>))"
  using assms
  by (simp add: CreateJob_def acceptable_def created_def fits_int4_def int4_max_def scanJob_def new_job_row_def Let_def
      split: sum.split)

text \<open>
  C29: a create request is refused with 400 and changes nothing, or its job passes every check of the
  API (a trimmed name, a payload the job type runs, a known time zone, a first run time exactly when
  it has a schedule, retries and timeout in their ranges) and is stored as given, enabled: no request
  the API accepts is refused by the constraints of the table. The exception is a name with a zero byte,
  which the checks let through and Postgres cannot store: it is answered with 500.
\<close>

theorem handleCreateJob_spec:
  assumes "quiet e" and "e_others e d = d" and "find_job (e_uuids e 0) d = None"
  shows "(\<exists>msg. handleCreateJob z now e r d = (writeError 400 msg, d))
    \<or> (\<exists>req n. decodeJSON create_fields (h_body r) zero_request = Inr req \<and> newJob z now req = Inr n \<and> acceptable z now n \<and>
         (if CHR 0x00 \<in> set (n_name n) then handleCreateJob z now e r d = (writeError 500 ''internal error'', d)
          else case e_jsonb e (n_payload n) of
            Inl x \<Rightarrow> handleCreateJob z now e r d = (storeError ''job'' x, d)
          | Inr p \<Rightarrow> handleCreateJob z now e r d = (writeJSON 201 (BJob (created e n p)), d\<lparr>jobs := jobs d @ [created e n p]\<rparr>)))"
proof (cases "decodeJSON create_fields (h_body r) zero_request")
  case (Inl err)
  then have "handleCreateJob z now e r d = (writeError 400 (error_text err), d)" by (simp add: handleCreateJob_def)
  then show ?thesis by blast
next
  case (Inr req)
  show ?thesis
  proof (cases "newJob z now req")
    case (Inl err)
    with Inr have "handleCreateJob z now e r d = (writeError 400 (error_text err), d)" by (simp add: handleCreateJob_def)
    then show ?thesis by blast
  next
    case n: (Inr n)
    have a: "acceptable z now n" using n by (rule newJob_acceptable)
    show ?thesis using Inr n a CreateJob_acceptable [OF a assms]
      by (cases "e_jsonb e (n_payload n)") (simp_all add: handleCreateJob_def storeError_def)
  qed
qed

section \<open>Running a job by hand\<close>

lemma CreateManualRun_ok:
  assumes "schema_ok d" and "quiet e" and "e_others e d = d" and "find_job i d \<noteq> None"
    and "find_run (e_uuids e 0) d = None" and "(i, e_clock e) \<notin> occurrence ` set (runs d)"
  shows "CreateManualRun e i d = (let r = new_run_row (e_uuids e 0) i (e_clock e) TriggerManual (e_now e)
     in (Inr r, d\<lparr>runs := runs d @ [r]\<rparr>))"
  using assms by (simp add: CreateManualRun_def insert_run_def scanRun_def occurrence_def Let_def)

definition manual_run :: "env \<Rightarrow> uuid \<Rightarrow> run" where
  "manual_run e i = new_run_row (e_uuids e 0) i (e_clock e) TriggerManual (e_now e)"

lemma handleRunJob_cases:
  assumes "schema_ok (fst st)" and "quiet e1" and "quiet e2" and "quiet e3"
    and "\<And>d. e_others e1 d = d" and "\<And>d. e_others e2 d = d" and "\<And>d. e_others e3 d = d"
    and "uuid_of (h_id r) = Some i" and "find_job i (fst st) = Some j"
    and "find_run (e_uuids e2 0) (fst st) = None" and "(i, e_clock e2) \<notin> occurrence ` set (runs (fst st))"
    and "wr (dispatchMessage (e_uuids e2 0) i 1 (j_type j)) (snd st) = (res, k)"
  shows "handleRunJob uuid_of wr e1 e2 e3 r st =
    (case res of
       None \<Rightarrow> (writeJSON 202 (BRun (manual_run e2 i)), (fst st)\<lparr>runs := runs (fst st) @ [manual_run e2 i]\<rparr>, k)
     | Some err \<Rightarrow> (writeError 502 ''could not dispatch run'',
         (fst st)\<lparr>runs := runs (fst st) @
            [fail_queued_row (e_now e3) (''dispatch failed: '' @ error_text err) (manual_run e2 i)]\<rparr>, k))"
proof -
  let ?d = "fst st" and ?r = "manual_run e2 i"
  have ji: "j_id j = i" using lookup_row_Some [OF assms(9)] by simp
  have "distinct (map j_id (jobs ?d))" using assms(1) by (simp only: schema_ok_def jobs_ok_def)
  then have g: "GetJob e1 i ?d = (Inr j, ?d)"
    using GetJob_quiet [of e1 ?d i] GetJob_db [of e1 i ?d] assms(2,5,9) by (simp add: prod_eq_iff)
  have c: "CreateManualRun e2 i ?d = (Inr ?r, ?d\<lparr>runs := runs ?d @ [?r]\<rparr>)"
    using CreateManualRun_ok [OF assms(1,3,6) _ assms(10,11)] assms(9) by (simp add: manual_run_def Let_def)
  have others: "r_id q \<noteq> e_uuids e2 0" if "q \<in> set (runs ?d)" for q
    using that assms(10) unfolding lookup_row_None by (metis imageI)
  then have "map (\<lambda>q. if r_id q = e_uuids e2 0 \<and> r_status q = StatusQueued then f q else q) (runs ?d) = runs ?d" for f
    by (intro map_update_noop) blast
  then have f: "snd (FailQueuedRun e3 (r_id ?r) reason (?d\<lparr>runs := runs ?d @ [?r]\<rparr>)) =
      ?d\<lparr>runs := runs ?d @ [fail_queued_row (e_now e3) reason ?r]\<rparr>" for reason
    using assms(4,7) by (simp add: FailQueuedRun_def sql_update_def manual_run_def)
  have ids: "r_id ?r = e_uuids e2 0" "r_job_id ?r = i" "r_attempt ?r = 1" by (simp_all add: manual_run_def)
  have dp: "Dispatch wr (r_id ?r) (r_job_id ?r) (r_attempt ?r) (j_type j) (snd st) = (res, k)"
    using assms(12) by (simp add: Dispatch_def ids)
  show ?thesis using assms(8) g c dp f
    by (cases res) (simp_all add: handleRunJob_def pathID_def ji)
qed

text \<open>
  A manual run of a job that exists is queued for its first attempt and published to the workers,
  and the caller gets it with 202; when the broker does not take the message the run is failed with
  the reason, so that it does not stay queued, and the caller gets 502.
\<close>

theorem handleRunJob_spec:
  assumes "schema_ok (fst st)" and "quiet e1" and "quiet e2" and "quiet e3"
    and "\<And>d. e_others e1 d = d" and "\<And>d. e_others e2 d = d" and "\<And>d. e_others e3 d = d"
    and "uuid_of (h_id r) = Some i" and "find_job i (fst st) = Some j"
    and "find_run (e_uuids e2 0) (fst st) = None" and "(i, e_clock e2) \<notin> occurrence ` set (runs (fst st))"
    and "wr (dispatchMessage (e_uuids e2 0) i 1 (j_type j)) (snd st) = (res, k)"
  shows "handleRunJob uuid_of wr e1 e2 e3 r st =
    (case res of
       None \<Rightarrow> (writeJSON 202 (BRun (manual_run e2 i)), (fst st)\<lparr>runs := runs (fst st) @ [manual_run e2 i]\<rparr>, k)
     | Some err \<Rightarrow> (writeError 502 ''could not dispatch run'',
         (fst st)\<lparr>runs := runs (fst st) @
            [fail_queued_row (e_now e3) (''dispatch failed: '' @ error_text err) (manual_run e2 i)]\<rparr>, k))"
  using assms by (rule handleRunJob_cases)

section \<open>Pausing and resuming\<close>

lemma set_enabled_find:
  assumes "find_job i d = Some j"
  shows "find_job i (d\<lparr>jobs := map (\<lambda>j. if j_id j = i then set_enabled_row t en x j else j) (jobs d)\<rparr>) = Some (set_enabled_row t en x j)"
proof -
  have "j_id j = i" using lookup_row_Some [OF assms] by simp
  with assms show ?thesis by (simp add: lookup_row_update set_enabled_row_def)
qed

lemma scan_updated:
  assumes "distinct (map j_id js)" and "lookup_row j_id i js = Some j"
  shows "scanJob (fst (sql_update (\<lambda>j. j_id j = i) f js)) = Inr (f j)"
  using filter_key_unique [OF assms(1), of i "\<lambda>_. True"] assms(2) by (simp add: sql_update_def scanJob_def)

text \<open>
  Pausing a job always succeeds for a job that exists and leaves it with no next run time, so no
  scheduler fires it; resuming a scheduled job sets its next run time to the first occurrence its
  schedule has from now, and one without a schedule stays without.
\<close>

theorem handleSetEnabled_spec:
  assumes "schema_ok d" and "quiet e1" and "quiet e2" and "\<And>d. e_others e1 d = d" and "\<And>d. e_others e2 d = d"
    and "uuid_of (h_id r) = Some i" and "find_job i d = Some j"
    and "en \<longrightarrow> (case j_cron_expr j of None \<Rightarrow> x = None | Some c \<Rightarrow> map_sum id Some (NextRun z c (j_timezone j) now) = Inr x)"
    and "\<not> en \<longrightarrow> x = None"
  shows "\<exists>j' d'. handleSetEnabled uuid_of z now en e1 e2 r d = (writeJSON 200 (BJob j'), d')
    \<and> find_job i d' = Some j' \<and> j' = set_enabled_row (e_now e2) en x j \<and> runs d' = runs d
    \<and> (\<not> en \<longrightarrow> (\<forall>t. \<not> due_at t j'))"
proof -
  have dj: "distinct (map j_id (jobs d))" using assms(1) by (simp only: schema_ok_def jobs_ok_def)
  then have g: "GetJob e1 i d = (Inr j, d)"
    using GetJob_quiet [of e1 d i] GetJob_db [of e1 i d] assms(2,4,7) by (simp add: prod_eq_iff)
  let ?j = "set_enabled_row (e_now e2) en x j"
  let ?d = "d\<lparr>jobs := map (\<lambda>j. if j_id j = i then set_enabled_row (e_now e2) en x j else j) (jobs d)\<rparr>"
  have s: "SetJobEnabled e2 i en x d = (Inr ?j, ?d)"
    using scan_updated [OF dj assms(7)] assms(3,5) by (simp add: SetJobEnabled_def split_def)
  have nx: "(case j_cron_expr j of
       Some c \<Rightarrow> if en then map_sum (ErrWrap ''compute next run'') Some (NextRun z c (j_timezone j) now) else Inr None
     | None \<Rightarrow> Inr None) = Inr x"
    using assms(8,9) by (cases "j_cron_expr j"; cases en) (auto simp: map_sum_def split: sum.splits)
  have "handleSetEnabled uuid_of z now en e1 e2 r d = (writeJSON 200 (BJob ?j), ?d)"
    unfolding handleSetEnabled_def pathID_def assms(6) using g s nx by simp
  moreover have "\<not> en \<longrightarrow> (\<forall>t. \<not> due_at t ?j)" using assms(9) by (simp add: due_at_def set_enabled_row_def)
  ultimately show ?thesis using set_enabled_find [OF assms(7)] by simp
qed

section \<open>Bodies with something after the object\<close>

lemma decodeJSON_printed:
  assumes "json_ok v" and "json_depth v \<le> max_depth" and "delimited rest" and "length (print_json v @ rest) \<le> maxBodyBytes"
  shows "decodeJSON fds (print_json v @ rest) s =
    (case decode_struct True fds (read_back v) s of
       (Some e, _) \<Rightarrow> Inl (ErrWrap ''invalid JSON body'' (ErrJson e))
     | (None, s') \<Rightarrow> if More rest then Inl (ErrText ''invalid JSON body: unexpected data after object'') else Inr s')"
  using parse_next_print [OF assms(1-3)] assms(4)
  by (simp add: decodeJSON_def decode_next_def split: option.split prod.split)

text \<open>
  \<open>decodeJSON\<close> does not reject everything that follows the object: after a stray closing bracket or
  brace any text goes unread, and the request counts as the object alone.
\<close>

theorem decodeJSON_ignores_after_bracket:
  assumes "json_ok v" and "json_depth v \<le> max_depth" and "c \<in> {CHR '']'', CHR ''}''}"
    and "length (print_json v @ c # junk) \<le> maxBodyBytes"
  shows "decodeJSON fds (print_json v @ c # junk) s = decodeJSON fds (print_json v) s"
proof -
  have d: "delimited (c # junk)" "delimited []" using assms(3) by (auto simp: delimited_def)
  have "skip_ws (c # junk) = c # junk" by (rule skip_ws_id) (use assms(3) in \<open>auto simp: is_space_def\<close>)
  then have "\<not> More (c # junk)" using assms(3) by (auto simp: More_def)
  moreover have "\<not> More []" by (simp add: More_def skip_ws_def)
  ultimately show ?thesis
    using decodeJSON_printed [OF assms(1,2) d(1) assms(4), of fds s] decodeJSON_printed [OF assms(1,2) d(2), of fds s] assms(4)
    by (simp split: option.split prod.split)
qed

text \<open>A request for a job of three lines, and a manual job to run.\<close>

definition demo_request :: json where
  "demo_request = JObj [member ''name'' (JStr ''report''), member ''type'' (JStr ''generate_text''),
     member ''payload'' (JObj [member ''lines'' (json_int 3)])]"

lemma escape_plain: "list_all (\<lambda>c. ord c < 0x80 \<and> esc_ascii c = [c]) s \<Longrightarrow> escape s = s"
  by (induction s) (simp_all add: escape.simps)

lemma demo_escapes:
  "escape ''name'' = ''name''" "escape ''report'' = ''report''" "escape ''type'' = ''type''" "escape ''payload'' = ''payload''"
  "escape ''generate_text'' = ''generate_text''" "escape ''lines'' = ''lines''"
  by (simp_all add: escape_plain esc_ascii_def)

lemma demo_request_ok: "json_ok demo_request" "json_depth demo_request \<le> max_depth"
  by (simp_all add: demo_request_def member_def max_depth_def)

theorem decodeJSON_ignores_after_bracket_witness:
  "length (print_json demo_request @ ''} trailing'') \<le> maxBodyBytes \<and>
   decodeJSON create_fields (print_json demo_request @ ''} trailing'') zero_request =
     decodeJSON create_fields (print_json demo_request) zero_request"
proof -
  have l: "length (print_json demo_request @ CHR ''}'' # '' trailing'') \<le> maxBodyBytes"
    by (simp add: demo_request_def member_def maxBodyBytes_def quote_def json_int_def itoa_def demo_escapes dec_digits.simps)
  show ?thesis using l decodeJSON_ignores_after_bracket [OF demo_request_ok _ l, of create_fields zero_request] by simp
qed

definition demo_http :: "string \<Rightarrow> request" where
  "demo_http body = \<lparr>h_id = ''J'', h_query = (\<lambda>_. []), h_body = body\<rparr>"

theorem handleCreateJob_spec_witness:
  "snd (handleCreateJob cron_zones 5 (demo_env 1 ''K'') (demo_http []) (demo_db 1)) = demo_db 1"
proof -
  have f: "quiet (demo_env 1 ''K'')" "e_others (demo_env 1 ''K'') (demo_db 1) = demo_db 1"
    "find_job (e_uuids (demo_env 1 ''K'') 0) (demo_db 1) = None"
    by (simp_all add: quiet_def demo_env_def demo_db_eq new_job_row_def)
  have "decodeJSON create_fields [] zero_request = Inl (ErrWrap ''invalid JSON body'' (ErrJson JsonEOF))"
    by (simp add: decodeJSON_def decode_next_def parse_next_def skip_ws_def)
  then have "fst (handleCreateJob cron_zones 5 (demo_env 1 ''K'') (demo_http []) (demo_db 1)) \<noteq> writeJSON 201 x" for x
    by (simp add: handleCreateJob_def demo_http_def writeError_def writeJSON_def)
  with handleCreateJob_spec [OF f, of cron_zones 5 "demo_http []"] show ?thesis
    by (auto split: sum.splits) (metis fst_conv snd_conv sum.exhaust)
qed

theorem handleRunJob_spec_witness:
  "fst (handleRunJob Some (\<lambda>m k. (None, m # k)) (demo_env 5 []) (demo_env 6 ''S'') (demo_env 7 []) (demo_http []) (demo_db 1, [])) =
     writeJSON 202 (BRun (manual_run (demo_env 6 ''S'') ''J''))"
  using handleRunJob_spec [of "(demo_db 1, [])" "demo_env 5 []" "demo_env 6 ''S''" "demo_env 7 []" Some "demo_http []" "''J''"
      "new_job_row ''J'' 1 (demo_new_job 1)" "\<lambda>m k. (None, m # k)"] demo_schema_ok [of 1]
  by (simp add: quiet_def demo_env_def demo_db_eq demo_http_def occurrence_def new_run_row_def new_job_row_def)

theorem handleSetEnabled_spec_witness:
  "\<exists>j'. find_job ''J'' (snd (handleSetEnabled Some cron_zones 5 False (demo_env 5 []) (demo_env 6 []) (demo_http []) cron_db)) = Some j'
     \<and> \<not> due_at 100 j'"
  using handleSetEnabled_spec [of cron_db "demo_env 5 []" "demo_env 6 []" Some "demo_http []" "''J''" cron_job False None cron_zones 5]
    cron_facts(1)
  by (force simp: quiet_def demo_env_def demo_http_def cron_db_def cron_job_def)

end
