(* ===== verification/JobctlProps.thy ===== *)
theory JobctlProps
  imports Jobctl ApiProps StreamProps JobProps
begin

text \<open>
  The client and the server together: what \<open>create\<close> sends is the request the API reads, \<open>follow\<close> prints
  the log the stream delivers, and \<open>logs\<close> prints every page of it.
\<close>

section \<open>Decoding what was printed\<close>

abbreviation read_members :: "(string \<times> string \<times> json) list \<Rightarrow> (string \<times> string \<times> json) list" where
  "read_members ms \<equiv> map (\<lambda>(k, raw, v). (utf8_fix k, print_json v, read_back v)) ms"

lemma decode_members_append:
  "decode_members strict fds (xs @ ys) s =
     (case decode_members strict fds xs s of (e1, s1) \<Rightarrow>
        (case decode_members strict fds ys s1 of (e2, s2) \<Rightarrow> (if e1 = None then e2 else e1, s2)))"
proof (induction xs arbitrary: s)
  case (Cons x xs)
  show ?case
    by (cases x) (auto simp: Cons Let_def split_def split: option.split)
qed simp

text \<open>A member that sets its field.\<close>

definition sets_field :: "bool \<Rightarrow> (string \<times> 's setter) list \<Rightarrow> (string \<times> string \<times> json) list \<Rightarrow> ('s \<Rightarrow> 's) \<Rightarrow> bool" where
  "sets_field strict fds ms upd \<longleftrightarrow> (\<forall>s. decode_members strict fds (read_members ms) s = (None, upd s))"

lemma sets_field_append:
  "sets_field strict fds ms f \<Longrightarrow> sets_field strict fds ns g \<Longrightarrow> sets_field strict fds (ms @ ns) (g \<circ> f)"
  by (simp add: sets_field_def decode_members_append)

lemma sets_field_one:
  assumes "utf8_fix k = k" and "find_field fds k = Some f" and "\<And>s. f (print_json v) (read_back v) s = (None, upd s)"
  shows "sets_field strict fds [member k v] upd"
  using assms by (simp add: sets_field_def member_def)

lemma sets_field_none [intro!]: "sets_field strict fds [] (\<lambda>s. s)"
  by (simp add: sets_field_def)

lemma sets_field_if:
  "(b \<Longrightarrow> sets_field strict fds ms upd) \<Longrightarrow> sets_field strict fds (if b then ms else []) (if b then upd else (\<lambda>s. s))"
  by (simp add: sets_field_none)

lemma decode_object: "sets_field strict fds ms upd \<Longrightarrow> decode_struct strict fds (read_back (JObj ms)) s = (None, upd s)"
  by (simp add: decode_struct_def sets_field_def)

lemma set_string_valid: "valid_utf8 t \<Longrightarrow> set_string n upd (print_json (JStr t)) (read_back (JStr t)) s = (None, upd t s)"
  by (simp add: set_string_def utf8_fix_valid)

definition int64_ok :: "int \<Rightarrow> bool" where
  "int64_ok i \<longleftrightarrow> int64_min \<le> i \<and> i \<le> int64_max"

lemma set_int_ok: "int64_ok i \<Longrightarrow> set_int n upd (print_json (json_int i)) (read_back (json_int i)) s = (None, upd i s)"
  by (simp add: set_int_json int64_ok_def)

lemma set_ptr_int: "int64_ok i \<Longrightarrow> set_ptr upd (set_int n) (print_json (json_int i)) (read_back (json_int i)) s = (None, upd (Some i) s)"
  by (simp add: set_ptr_def set_int_ok) (simp add: json_int_def)

lemma valid_ascii: "list_all (\<lambda>c. ord c < 0x80) s \<Longrightarrow> valid_utf8 s"
  by (induction s) (simp_all add: valid_utf8.simps rune_len_ascii)

section \<open>Creating a job\<close>

lemma create_names: "utf8_fix ''cron_expr'' = ''cron_expr''" "utf8_fix ''max_retries'' = ''max_retries''" "utf8_fix ''name'' = ''name''"
  "utf8_fix ''payload'' = ''payload''" "utf8_fix ''timeout_sec'' = ''timeout_sec''" "utf8_fix ''timezone'' = ''timezone''"
  "utf8_fix ''type'' = ''type''" "utf8_fix ''delay_ms'' = ''delay_ms''" "utf8_fix ''fail_at'' = ''fail_at''"
  "utf8_fix ''fail_attempts'' = ''fail_attempts''" "utf8_fix ''lines'' = ''lines''" "utf8_fix ''prefix'' = ''prefix''"
  by (simp_all add: utf8_fix_ascii)

definition args_ok :: "create_args \<Rightarrow> bool" where
  "args_ok a \<longleftrightarrow> valid_utf8 (ca_name a) \<and> valid_utf8 (ca_prefix a) \<and> valid_utf8 (ca_cron a) \<and> valid_utf8 (ca_tz a)
     \<and> list_all int64_ok [ca_lines a, ca_delay a, ca_fail_at a, ca_fail_attempts a, ca_max_retries a, ca_timeout a]"

text \<open>The request \<open>create\<close> means, and its payload.\<close>

definition meant_request :: "create_args \<Rightarrow> create_request" where
  "meant_request a = \<lparr>cr_name = ca_name a, cr_type = ''generate_text'', cr_payload = print_json (create_payload a),
     cr_cron_expr = ca_cron a, cr_timezone = ca_tz a,
     cr_max_retries = (if ca_max_retries a \<ge> 0 then Some (ca_max_retries a) else None),
     cr_timeout_sec = (if ca_timeout a > 0 then Some (ca_timeout a) else None)\<rparr>"

definition meant_payload :: "create_args \<Rightarrow> generate_text" where
  "meant_payload a = \<lparr>p_lines = ca_lines a, p_prefix = ca_prefix a, p_delay_ms = ca_delay a, p_fail_at = ca_fail_at a,
     p_fail_attempts = ca_fail_attempts a\<rparr>"

lemma create_json_ok: "json_ok (create_payload a)" "json_ok (create_body a)"
    "json_depth (create_payload a) \<le> 1" "json_depth (create_body a) \<le> 2"
proof -
  show "json_ok (create_payload a)" by (simp add: create_payload_def nonzero_def given_def member_def)
  then show "json_ok (create_body a)" by (simp add: create_body_def given_def member_def)
  show d: "json_depth (create_payload a) \<le> 1"
    by (simp add: create_payload_def nonzero_def given_def member_def fold_max_le)
  then show "json_depth (create_body a) \<le> 2"
    by (simp add: create_body_def given_def member_def fold_max_le)
qed

lemma create_body_decodes:
  assumes "args_ok a"
  shows "decode_struct True create_fields (read_back (create_body a)) zero_request = (None, meant_request a)"
proof -
  note a = assms [unfolded args_ok_def]
  note one = sets_field_one [of _ create_fields]
  have f: "find_field create_fields ''cron_expr'' = Some (set_string ''cron_expr'' (\<lambda>t r. r\<lparr>cr_cron_expr := t\<rparr>))"
    "find_field create_fields ''max_retries'' = Some (set_ptr (\<lambda>x r. r\<lparr>cr_max_retries := x\<rparr>) (set_int ''max_retries''))"
    "find_field create_fields ''name'' = Some (set_string ''name'' (\<lambda>t r. r\<lparr>cr_name := t\<rparr>))"
    "find_field create_fields ''payload'' = Some (set_raw (\<lambda>t r. r\<lparr>cr_payload := t\<rparr>))"
    "find_field create_fields ''timeout_sec'' = Some (set_ptr (\<lambda>x r. r\<lparr>cr_timeout_sec := x\<rparr>) (set_int ''timeout_sec''))"
    "find_field create_fields ''timezone'' = Some (set_string ''timezone'' (\<lambda>t r. r\<lparr>cr_timezone := t\<rparr>))"
    "find_field create_fields ''type'' = Some (set_string ''type'' (\<lambda>t r. r\<lparr>cr_type := t\<rparr>))"
    by (simp_all add: find_field_def create_fields_def)
  have g: "valid_utf8 ''generate_text''" by (rule valid_ascii) simp
  have m: "sets_field True create_fields (given ''cron_expr'' (ca_cron a)) (if ca_cron a \<noteq> [] then (\<lambda>r. r\<lparr>cr_cron_expr := ca_cron a\<rparr>) else (\<lambda>r. r))"
    "sets_field True create_fields (if ca_max_retries a \<ge> 0 then [member ''max_retries'' (json_int (ca_max_retries a))] else [])
       (if ca_max_retries a \<ge> 0 then (\<lambda>r. r\<lparr>cr_max_retries := Some (ca_max_retries a)\<rparr>) else (\<lambda>r. r))"
    "sets_field True create_fields [member ''name'' (JStr (ca_name a))] (\<lambda>r. r\<lparr>cr_name := ca_name a\<rparr>)"
    "sets_field True create_fields [member ''payload'' (create_payload a)] (\<lambda>r. r\<lparr>cr_payload := print_json (create_payload a)\<rparr>)"
    "sets_field True create_fields (if ca_timeout a > 0 then [member ''timeout_sec'' (json_int (ca_timeout a))] else [])
       (if ca_timeout a > 0 then (\<lambda>r. r\<lparr>cr_timeout_sec := Some (ca_timeout a)\<rparr>) else (\<lambda>r. r))"
    "sets_field True create_fields (given ''timezone'' (ca_tz a)) (if ca_tz a \<noteq> [] then (\<lambda>r. r\<lparr>cr_timezone := ca_tz a\<rparr>) else (\<lambda>r. r))"
    "sets_field True create_fields [member ''type'' (JStr ''generate_text'')] (\<lambda>r. r\<lparr>cr_type := ''generate_text''\<rparr>)"
    unfolding given_def
    using a
    by (auto intro!: sets_field_if one [OF create_names(1) f(1)] one [OF create_names(2) f(2)] one [OF create_names(3) f(3)]
        one [OF create_names(4) f(4)] one [OF create_names(5) f(5)] one [OF create_names(6) f(6)] one [OF create_names(7) f(7)]
        set_string_valid set_ptr_int g simp: set_raw_def)
  let ?w = "\<lambda>b upd r. if b then upd r else (r :: create_request)"
  have "create_body a = JObj (given ''cron_expr'' (ca_cron a)
     @ (if ca_max_retries a \<ge> 0 then [member ''max_retries'' (json_int (ca_max_retries a))] else [])
     @ [member ''name'' (JStr (ca_name a))] @ [member ''payload'' (create_payload a)]
     @ (if ca_timeout a > 0 then [member ''timeout_sec'' (json_int (ca_timeout a))] else [])
     @ given ''timezone'' (ca_tz a) @ [member ''type'' (JStr ''generate_text'')])" by (simp add: create_body_def)
  with decode_object [OF sets_field_append [OF m(1) sets_field_append [OF m(2) sets_field_append [OF m(3)
      sets_field_append [OF m(4) sets_field_append [OF m(5) sets_field_append [OF m(6) m(7)]]]]]], of zero_request]
  show ?thesis by (simp add: meant_request_def zero_request_def comp_def)
qed

lemma create_payload_decodes:
  assumes "args_ok a"
  shows "decode_struct strict payload_fields (read_back (create_payload a)) zero_payload = (None, meant_payload a)"
proof -
  note a = assms [unfolded args_ok_def]
  note one = sets_field_one [of _ payload_fields]
  have f: "find_field payload_fields ''delay_ms'' = Some (set_int ''delay_ms'' (\<lambda>i p. p\<lparr>p_delay_ms := i\<rparr>))"
    "find_field payload_fields ''fail_at'' = Some (set_int ''fail_at'' (\<lambda>i p. p\<lparr>p_fail_at := i\<rparr>))"
    "find_field payload_fields ''fail_attempts'' = Some (set_int ''fail_attempts'' (\<lambda>i p. p\<lparr>p_fail_attempts := i\<rparr>))"
    "find_field payload_fields ''lines'' = Some (set_int ''lines'' (\<lambda>i p. p\<lparr>p_lines := i\<rparr>))"
    "find_field payload_fields ''prefix'' = Some (set_string ''prefix'' (\<lambda>t p. p\<lparr>p_prefix := t\<rparr>))"
    by (simp_all add: find_field_def payload_fields_def)
  have m: "sets_field strict payload_fields (nonzero ''delay_ms'' (ca_delay a)) (if ca_delay a \<noteq> 0 then (\<lambda>p. p\<lparr>p_delay_ms := ca_delay a\<rparr>) else (\<lambda>p. p))"
    "sets_field strict payload_fields (nonzero ''fail_at'' (ca_fail_at a)) (if ca_fail_at a \<noteq> 0 then (\<lambda>p. p\<lparr>p_fail_at := ca_fail_at a\<rparr>) else (\<lambda>p. p))"
    "sets_field strict payload_fields (nonzero ''fail_attempts'' (ca_fail_attempts a))
       (if ca_fail_attempts a \<noteq> 0 then (\<lambda>p. p\<lparr>p_fail_attempts := ca_fail_attempts a\<rparr>) else (\<lambda>p. p))"
    "sets_field strict payload_fields [member ''lines'' (json_int (ca_lines a))] (\<lambda>p. p\<lparr>p_lines := ca_lines a\<rparr>)"
    "sets_field strict payload_fields (given ''prefix'' (ca_prefix a)) (if ca_prefix a \<noteq> [] then (\<lambda>p. p\<lparr>p_prefix := ca_prefix a\<rparr>) else (\<lambda>p. p))"
    unfolding given_def nonzero_def
    using a
    by (auto intro!: sets_field_if one [OF create_names(8) f(1)] one [OF create_names(9) f(2)] one [OF create_names(10) f(3)]
        one [OF create_names(11) f(4)] one [OF create_names(12) f(5)] set_string_valid set_int_ok)
  have "create_payload a = JObj (nonzero ''delay_ms'' (ca_delay a) @ nonzero ''fail_at'' (ca_fail_at a)
     @ nonzero ''fail_attempts'' (ca_fail_attempts a) @ [member ''lines'' (json_int (ca_lines a))] @ given ''prefix'' (ca_prefix a))"
    by (simp add: create_payload_def)
  with decode_object [OF sets_field_append [OF m(1) sets_field_append [OF m(2) sets_field_append [OF m(3)
      sets_field_append [OF m(4) m(5)]]]], of zero_payload]
  show ?thesis by (simp add: meant_payload_def zero_payload_def comp_def)
qed

lemma create_request_read:
  assumes "args_ok a" and "length (print_json (create_body a)) \<le> maxBodyBytes"
  shows "decodeJSON create_fields (print_json (create_body a)) zero_request = Inr (meant_request a)"
proof -
  have "json_depth (create_body a) \<le> max_depth" using create_json_ok(4) [of a] by (simp add: max_depth_def)
  moreover have "delimited []" "\<not> More []" by (simp_all add: delimited_def More_def skip_ws_def)
  ultimately show ?thesis
    using decodeJSON_printed [OF create_json_ok(2), of a "[]" create_fields zero_request] assms create_body_decodes [OF assms(1)]
    by simp
qed

text \<open>
  The request \<open>jobctl create\<close> sends is the one the API reads: name, schedule, zone, retries and
  timeout as given on the command line or absent, and a payload the job runs with exactly the lines,
  prefix, delay and failures asked for, or refuses for the reason \<open>validate\<close> gives.
\<close>

theorem create_request_roundtrip:
  assumes "args_ok a" and "length (print_json (create_body a)) \<le> maxBodyBytes"
  shows "decodeJSON create_fields (print_json (create_body a)) zero_request = Inr (meant_request a)
    \<and> parseGenerateText (cr_payload (meant_request a)) =
        (case validate (meant_payload a) of Some e \<Rightarrow> Inl e | None \<Rightarrow> Inr (meant_payload a))"
proof -
  have d: "json_depth (create_payload a) \<le> max_depth" using create_json_ok(3) [of a] by (simp add: max_depth_def)
  have "delimited []" by (simp add: delimited_def)
  have "decodeJSON create_fields (print_json (create_body a)) zero_request = Inr (meant_request a)"
    by (rule create_request_read [OF assms])
  moreover have "parse_next (print_json (create_payload a)) = Inr (read_back (create_payload a), [])"
    using parse_next_print [OF create_json_ok(1) d \<open>delimited []\<close>] by simp
  then have "decode_next True payload_fields (print_json (create_payload a)) zero_payload = Inr (meant_payload a, [])"
    using create_payload_decodes [OF assms(1), of True] by (simp add: decode_next_def)
  ultimately show ?thesis by (simp add: parseGenerateText_def meant_request_def split: option.split)
qed

section \<open>Following a run\<close>

definition times_ok :: "times \<Rightarrow> (time \<Rightarrow> string) \<Rightarrow> bool" where
  "times_ok tm show \<longleftrightarrow> (\<forall>t. tm_read tm (show t) = Some t \<and> escape (show t) = show t)"

definition line_ok :: "log_line \<Rightarrow> bool" where
  "line_ok l \<longleftrightarrow> int64_ok (l_attempt l) \<and> int64_ok (l_seq l) \<and> valid_utf8 (l_level l) \<and> valid_utf8 (l_line l)"

fun event_ok :: "sse \<Rightarrow> bool" where
  "event_ok (SAttempt a) = int64_ok a"
| "event_ok (SLine l) = line_ok l"
| "event_ok (SEnd s a err) = (int64_ok a \<and> (case err of None \<Rightarrow> True | Some t \<Rightarrow> valid_utf8 t))"
| "event_ok SPing = True"

fun event_out :: "times \<Rightarrow> sse \<Rightarrow> string list" where
  "event_out tm (SAttempt a) = [''--- attempt '' @ itoa a @ '' ---'' @ [newline]]"
| "event_out tm (SLine l) = [printLine tm l]"
| "event_out tm _ = []"

lemma set_time_ok:
  assumes "times_ok tm show"
  shows "set_time (tm_read tm) n upd (print_json (JStr (show t))) (read_back (JStr (show t))) s = (None, upd t s)"
  using assms by (simp add: set_time_def times_ok_def quote_def)

lemma unmarshal_printed:
  assumes "json_ok (JObj ms)" and "json_depth (JObj ms) \<le> max_depth" and "sets_field False fds ms upd"
  shows "unmarshal fds (print_json (JObj ms)) s = Inr (upd s)" and "unmarshal_some fds (print_json (JObj ms)) s = upd s"
  using parse_all_print [OF assms(1,2)] decode_object [OF assms(3), of s]
  by (simp_all add: unmarshal_def unmarshal_some_def del: read_back.simps print_json.simps)

lemma line_names: "utf8_fix ''attempt'' = ''attempt''" "utf8_fix ''seq'' = ''seq''" "utf8_fix ''ts'' = ''ts''" "utf8_fix ''level'' = ''level''"
  "utf8_fix ''line'' = ''line''" "utf8_fix ''error'' = ''error''" "utf8_fix ''status'' = ''status''"
  by (simp_all add: utf8_fix_ascii)

lemma line_sets:
  assumes "times_ok tm show" and "line_ok l"
  shows "sets_field False (log_line_fields tm)
     ([member ''attempt'' (json_int (l_attempt l))] @ [member ''seq'' (json_int (l_seq l))] @ [member ''ts'' (JStr (show (l_ts l)))]
      @ [member ''level'' (JStr (l_level l))] @ [member ''line'' (JStr (l_line l))]) (\<lambda>_. l)"
proof -
  note one = sets_field_one [of _ "log_line_fields tm"]
  have f: "find_field (log_line_fields tm) ''attempt'' = Some (set_int ''attempt'' (\<lambda>i l. l\<lparr>l_attempt := i\<rparr>))"
    "find_field (log_line_fields tm) ''seq'' = Some (set_int ''seq'' (\<lambda>i l. l\<lparr>l_seq := i\<rparr>))"
    "find_field (log_line_fields tm) ''ts'' = Some (set_time (tm_read tm) ''ts'' (\<lambda>t l. l\<lparr>l_ts := t\<rparr>))"
    "find_field (log_line_fields tm) ''level'' = Some (set_string ''level'' (\<lambda>t l. l\<lparr>l_level := t\<rparr>))"
    "find_field (log_line_fields tm) ''line'' = Some (set_string ''line'' (\<lambda>t l. l\<lparr>l_line := t\<rparr>))"
    by (simp_all add: find_field_def log_line_fields_def)
  have m: "sets_field False (log_line_fields tm) [member ''attempt'' (json_int (l_attempt l))] (\<lambda>x. x\<lparr>l_attempt := l_attempt l\<rparr>)"
    "sets_field False (log_line_fields tm) [member ''seq'' (json_int (l_seq l))] (\<lambda>x. x\<lparr>l_seq := l_seq l\<rparr>)"
    "sets_field False (log_line_fields tm) [member ''ts'' (JStr (show (l_ts l)))] (\<lambda>x. x\<lparr>l_ts := l_ts l\<rparr>)"
    "sets_field False (log_line_fields tm) [member ''level'' (JStr (l_level l))] (\<lambda>x. x\<lparr>l_level := l_level l\<rparr>)"
    "sets_field False (log_line_fields tm) [member ''line'' (JStr (l_line l))] (\<lambda>x. x\<lparr>l_line := l_line l\<rparr>)"
    using assms(2) unfolding line_ok_def
    by (blast intro: one [OF line_names(1) f(1)] one [OF line_names(2) f(2)] one [OF line_names(3) f(3)]
        one [OF line_names(4) f(4)] one [OF line_names(5) f(5)] set_string_valid set_int_ok set_time_ok [OF assms(1)])+
  have "(\<lambda>x. x\<lparr>l_attempt := l_attempt l, l_seq := l_seq l, l_ts := l_ts l, l_level := l_level l, l_line := l_line l\<rparr>) = (\<lambda>_ :: log_line. l)"
    by (rule ext) simp
  then show ?thesis
    using sets_field_append [OF m(1) sets_field_append [OF m(2) sets_field_append [OF m(3) sets_field_append [OF m(4) m(5)]]]]
    by (simp add: comp_def)
qed

lemma log_line_json_facts: "json_ok (log_line_json show l)" "json_depth (log_line_json show l) \<le> 1"
  by (simp_all add: log_line_json_def member_def fold_max_le)

lemma follow_line:
  assumes "times_ok tm show" and "line_ok l"
  shows "follow_event tm ''line'' (print_json (log_line_json show l)) st = (None, fst st, snd st @ [printLine tm l])"
proof -
  have "json_depth (log_line_json show l) \<le> max_depth" using log_line_json_facts(2) [of "show" l] by (simp add: max_depth_def)
  with unmarshal_printed(1) [OF _ _ line_sets [OF assms], of zero_log_line] log_line_json_facts(1) [of "show" l]
  show ?thesis by (simp add: follow_event_def log_line_json_def del: print_json.simps json_ok.simps json_depth.simps)
qed

lemma follow_attempt:
  assumes "int64_ok a"
  shows "follow_event tm ''attempt'' (print_json (JObj [member ''attempt'' (json_int a)])) st =
     (None, fst st, snd st @ [''--- attempt '' @ itoa a @ '' ---'' @ [newline]])"
proof -
  have A: "upper_char CHR ''a'' = upper_char CHR ''A''" by code_simp
  have f: "find_field [(''Attempt'', set_int ''Attempt'' (\<lambda>i _. i))] ''attempt'' = Some (set_int ''Attempt'' (\<lambda>i _. i))"
    using A by (simp add: find_field_def fold_name.simps bytes_def char_of_eq_iff)
  have "sets_field False [(''Attempt'', set_int ''Attempt'' (\<lambda>i _. i))] [member ''attempt'' (json_int a)] (\<lambda>_. a)"
    by (rule sets_field_one [OF line_names(1) f]) (rule set_int_ok [OF assms])
  from unmarshal_printed(2) [OF _ _ this, of 0] show ?thesis
    by (simp add: follow_event_def member_def max_depth_def del: print_json.simps)
qed

lemma end_sets:
  assumes "int64_ok a" and "case err of None \<Rightarrow> True | Some t \<Rightarrow> valid_utf8 t"
  shows "sets_field False end_fields ([member ''attempt'' (json_int a)] @ [member ''error'' (case err of None \<Rightarrow> JNull | Some t \<Rightarrow> JStr t)]
     @ [member ''status'' (JStr (status_text s))]) (\<lambda>_. \<lparr>ei_status = status_text s, ei_attempt = a, ei_error = err\<rparr>)"
proof -
  note one = sets_field_one [of _ end_fields]
  have f: "find_field end_fields ''attempt'' = Some (set_int ''attempt'' (\<lambda>i x. x\<lparr>ei_attempt := i\<rparr>))"
    "find_field end_fields ''error'' = Some (set_ptr (\<lambda>y x. x\<lparr>ei_error := y\<rparr>) (set_string ''error''))"
    "find_field end_fields ''status'' = Some (set_string ''status'' (\<lambda>t x. x\<lparr>ei_status := t\<rparr>))"
    by (simp_all add: find_field_def end_fields_def)
  have st: "valid_utf8 (status_text s)" by (cases s) (simp_all add: valid_ascii)
  have e: "set_ptr (\<lambda>y x. x\<lparr>ei_error := y\<rparr>) (set_string ''error'') raw (read_back (case err of None \<Rightarrow> JNull | Some t \<Rightarrow> JStr t)) x =
     (None, x\<lparr>ei_error := err\<rparr>)" for raw and x :: end_info
    using assms(2) by (cases err) (simp_all add: set_ptr_def set_string_def utf8_fix_valid)
  have m: "sets_field False end_fields [member ''attempt'' (json_int a)] (\<lambda>x. x\<lparr>ei_attempt := a\<rparr>)"
    "sets_field False end_fields [member ''error'' (case err of None \<Rightarrow> JNull | Some t \<Rightarrow> JStr t)] (\<lambda>x. x\<lparr>ei_error := err\<rparr>)"
    "sets_field False end_fields [member ''status'' (JStr (status_text s))] (\<lambda>x. x\<lparr>ei_status := status_text s\<rparr>)"
    by (rule one [OF line_names(1) f(1)] one [OF line_names(6) f(2)] one [OF line_names(7) f(3)];
        rule set_int_ok [OF assms(1)] e set_string_valid [OF st])+
  have "(\<lambda>x. x\<lparr>ei_attempt := a, ei_error := err, ei_status := status_text s\<rparr>) =
      (\<lambda>_ :: end_info. \<lparr>ei_status = status_text s, ei_attempt = a, ei_error = err\<rparr>)"
    by (rule ext) simp
  then show ?thesis using sets_field_append [OF m(1) sets_field_append [OF m(2) m(3)]] by (simp add: comp_def)
qed

lemma follow_end:
  assumes "sse_data show (SEnd s a err) = Some (name, v)" and "event_ok (SEnd s a err)"
  shows "name = ''end'' \<and> follow_event tm ''end'' (print_json v) st =
     (Some errStreamEnd, \<lparr>ei_status = status_text s, ei_attempt = a, ei_error = err\<rparr>, snd st)"
proof -
  let ?ms = "[member ''attempt'' (json_int a)] @ [member ''error'' (case err of None \<Rightarrow> JNull | Some t \<Rightarrow> JStr t)]
     @ [member ''status'' (JStr (status_text s))]"
  have v: "v = JObj ?ms" "name = ''end''" using assms(1) by simp_all
  have "sets_field False end_fields ?ms (\<lambda>_. \<lparr>ei_status = status_text s, ei_attempt = a, ei_error = err\<rparr>)"
    using assms(2) by (intro end_sets) simp_all
  from unmarshal_printed(1) [OF _ _ this, of "fst st"] sse_data_facts(2,3) [OF assms(1)] v show ?thesis
    by (simp add: follow_event_def del: print_json.simps json_ok.simps json_depth.simps append_Cons)
qed

lemma deliver_log:
  assumes "times_ok tm show" and "list_all event_ok evs" and "list_all (\<lambda>ev. \<not> is_end ev) evs"
  shows "deliver rerr show (follow_event tm) (evs @ rest) (x, out) =
    deliver rerr show (follow_event tm) rest (x, out @ concat (map (event_out tm) evs))"
  using assms(2,3)
proof (induction evs arbitrary: out)
  case (Cons ev evs)
  then show ?case using follow_line [OF assms(1)] follow_attempt
    by (cases ev) (simp_all del: print_json.simps)
qed simp

lemma out_no_pings: "concat (map (event_out tm) (no_pings evs)) = concat (map (event_out tm) evs)"
  by (induction evs) simp_all

lemma no_pings_split:
  assumes "no_pings evs = log @ [ev]"
  shows "\<exists>pre rest. evs = pre @ ev # rest \<and> no_pings pre = log"
  using assms
proof (induction evs arbitrary: log)
  case (Cons x evs)
  show ?case
  proof (cases "x = SPing")
    case True
    with Cons obtain pre rest where "evs = pre @ ev # rest" "no_pings pre = log" by auto
    with True show ?thesis by (intro exI [of _ "x # pre"] exI [of _ rest]) simp
  next
    case x: False
    show ?thesis
    proof (cases log)
      case Nil
      with Cons.prems x have "x = ev" by simp
      with Nil show ?thesis by (intro exI [of _ "[]"] exI [of _ evs]) simp
    next
      case (Cons y log')
      then have y: "x = y" "no_pings evs = log' @ [ev]" using Cons.prems x by simp_all
      from Cons.IH [OF y(2)] obtain pre rest where "evs = pre @ ev # rest" "no_pings pre = log'" by blast
      with y(1) x \<open>log = y # log'\<close> show ?thesis by (intro exI [of _ "x # pre"] exI [of _ rest]) simp
    qed
  qed
qed simp

text \<open>What \<open>follow\<close> prints for a stream that reached the end.\<close>

definition follow_result :: "times \<Rightarrow> sse list \<Rightarrow> status \<Rightarrow> int \<Rightarrow> string option \<Rightarrow> result" where
  "follow_result tm log s a err =
     \<lparr>o_out = concat (map (event_out tm) log) @ [''--- run '' @ status_text s @ '' after '' @ itoa a @ '' attempt(s) ---'' @ [newline]],
      o_err = [],
      o_error = (if s = StatusSucceeded then None
        else Some (ErrText (''run '' @ status_text s @ (case err of None \<Rightarrow> [] | Some t \<Rightarrow> '': '' @ t))))\<rparr>"

lemma follow_ended:
  assumes "times_ok tm show" and "list_all event_ok evs" and "list_all (fits_line show) evs"
    and "no_pings evs = log @ [SEnd s a err]" and "list_all (\<lambda>ev. \<not> is_end ev) log"
    and "http ''GET'' (''/runs/'' @ PathEscape runID @ ''/logs/stream'') None w = (Inr r, w')" and "hr_code r < 400"
    and "hr_body r = concat (map (sse_text show) evs)"
  shows "follow http tm runID w = (follow_result tm log s a err, w')"
proof -
  obtain pre rest where e: "evs = pre @ SEnd s a err # rest" "no_pings pre = log" using no_pings_split [OF assms(4)] by blast
  have "\<not> is_end ev" if "ev \<in> set pre" for ev
    using assms(5) that unfolding e(2) [symmetric] no_pings_def by (cases ev) (force simp: list_all_iff)+
  then have pre: "list_all (\<lambda>ev. \<not> is_end ev) pre" by (simp add: list_all_iff)
  obtain v where v: "sse_data show (SEnd s a err) = Some (''end'', v)" by simp
  let ?fin = "\<lparr>ei_status = status_text s, ei_attempt = a, ei_error = err\<rparr>"
  have en: "follow_event tm ''end'' (print_json v) st = (Some errStreamEnd, ?fin, snd st)" for st
    using follow_end [OF v] assms(2) e(1) by simp
  have "deliver (hr_err r) show (follow_event tm) evs (zero_end, []) = (Some errStreamEnd, ?fin, concat (map (event_out tm) pre))"
    unfolding e(1) using deliver_log [OF assms(1), of pre] assms(2) pre e(1) v en by (simp del: sse_data.simps)
  then have d: "readEvents (hr_body r, hr_err r) (follow_event tm) (zero_end, []) = (Some errStreamEnd, ?fin, concat (map (event_out tm) log))"
    using readEvents_deliver [OF assms(3), of "hr_err r" "follow_event tm" "(zero_end, [])"] out_no_pings [of tm pre] e(2) assms(8) by simp
  have "status_text s = ''SUCCEEDED'' \<longleftrightarrow> s = StatusSucceeded" by (cases s) simp_all
  then show ?thesis using assms(6,7) d
    by (simp add: follow_def check_status_def follow_result_def run_outcome_def)
qed

lemma lines_out: "concat (map (event_out tm) (map SLine ls)) = map (printLine tm) ls"
  by (induction ls) simp_all

lemma log_out:
  "concat (map (event_out tm) (concat (map (\<lambda>n. SAttempt n # map SLine (f n)) ns))) =
     concat (map (\<lambda>n. (''--- attempt '' @ itoa n @ '' ---'' @ [newline]) # map (printLine tm) (f n)) ns)"
proof (induction ns)
  case (Cons n ns)
  then show ?case using lines_out [of tm "f n"] by (simp del: map_map)
qed simp


text \<open>Times written as decimal numbers, and a server that answers with the demo run's stream.\<close>

definition demo_read :: "string \<Rightarrow> time option" where
  "demo_read s = (case s of [] \<Rightarrow> None | c # r \<Rightarrow>
     if c = CHR ''-'' then map_option (\<lambda>n. - int n) (unsigned_val r) else map_option int (unsigned_val s))"

definition demo_times :: times where
  "demo_times = \<lparr>tm_read = demo_read, tm_clock = itoa, tm_date = itoa\<rparr>"

lemma demo_read_itoa: "demo_read (itoa t) = Some t"
proof (cases "t < 0")
  case True
  then show ?thesis by (simp add: demo_read_def itoa_def unsigned_val_dec)
next
  case False
  obtain c cs where d: "dec_digits (nat t) = c # cs" by (cases "dec_digits (nat t)") auto
  then have "c \<noteq> CHR ''-''" using dec_digits_all [of c "nat t"] digit_not_sign by simp
  with False d show ?thesis using unsigned_val_dec [of "nat t"] by (simp add: demo_read_def itoa_def)
qed

lemma plain_digit:
  assumes "is_digit c"
  shows "ord c < 0x80 \<and> esc_ascii c = [c]"
proof -
  have n: "c \<noteq> k" if "ord k < 48 \<or> 57 < ord k" for k using assms that unfolding is_digit_def by force
  have "c \<noteq> CHR 0x22" "c \<noteq> CHR 0x5C" "c \<noteq> CHR 0x08" "c \<noteq> CHR 0x0C" "c \<noteq> CHR 0x0A" "c \<noteq> CHR 0x0D" "c \<noteq> CHR 0x09"
    "c \<noteq> CHR ''<''" "c \<noteq> CHR ''>''" "c \<noteq> CHR ''&''"
    by (rule n; simp)+
  with assms show ?thesis by (simp add: esc_ascii_def is_digit_def)
qed

lemma escape_itoa: "escape (itoa t) = itoa t"
proof (rule escape_plain)
  have "list_all (\<lambda>c. ord c < 0x80 \<and> esc_ascii c = [c]) (dec_digits n)" for n
    using dec_digits_all [of _ n] plain_digit by (auto simp: list_all_iff)
  moreover have "esc_ascii CHR ''-'' = ''-''" by (simp add: esc_ascii_def)
  ultimately show "list_all (\<lambda>c. ord c < 0x80 \<and> esc_ascii c = [c]) (itoa t)" by (simp add: itoa_def)
qed

lemma demo_times_ok: "times_ok demo_times itoa"
  by (simp add: times_ok_def demo_times_def demo_read_itoa escape_itoa)

definition demo_events :: "sse list" where
  "demo_events = [SAttempt 1, SLine demo_line, SEnd StatusSucceeded 1 None]"

definition demo_server :: "unit transport" where
  "demo_server m p b w = (Inr \<lparr>hr_code = 200, hr_status = ''200 OK'', hr_method = m, hr_path = p,
     hr_body = concat (map (sse_text itoa) demo_events), hr_err = None\<rparr>, w)"

lemma demo_events_fit: "list_all (fits_line itoa) demo_events" "list_all event_ok demo_events"
proof -
  have e: "escape ''attempt'' = ''attempt''" "escape ''seq'' = ''seq''" "escape ''ts'' = ''ts''" "escape ''level'' = ''level''"
    "escape ''line'' = ''line''" "escape ''error'' = ''error''" "escape ''status'' = ''status''" "escape ''info'' = ''info''"
    "escape ''hi'' = ''hi''" "escape ''SUCCEEDED'' = ''SUCCEEDED''"
    by (simp_all add: escape_plain esc_ascii_def)
  have "length (itoa 1) = 1" "length (itoa 7) = 1" by (simp_all add: itoa_def dec_digits.simps)
  then show "list_all (fits_line itoa) demo_events"
    by (simp add: demo_events_def fits_line_def maxScan_def member_def quote_def json_int_def log_line_json_def demo_line_def e escape_itoa)
  show "list_all event_ok demo_events"
    by (simp add: demo_events_def line_ok_def demo_line_def int64_ok_def int64_min_def int64_max_def valid_ascii)
qed


theorem create_request_roundtrip_witness:
  "decodeJSON create_fields (print_json (create_body \<lparr>ca_name = ''n'', ca_lines = 3, ca_prefix = [], ca_delay = 0, ca_fail_at = 0,
      ca_fail_attempts = 0, ca_cron = [], ca_tz = [], ca_max_retries = - 1, ca_timeout = 0\<rparr>)) zero_request =
    Inr \<lparr>cr_name = ''n'', cr_type = ''generate_text'', cr_payload = print_json (JObj [member ''lines'' (json_int 3)]),
      cr_cron_expr = [], cr_timezone = [], cr_max_retries = None, cr_timeout_sec = None\<rparr>"
proof -
  let ?a = "\<lparr>ca_name = ''n'', ca_lines = 3, ca_prefix = [], ca_delay = 0, ca_fail_at = 0,
      ca_fail_attempts = 0, ca_cron = [], ca_tz = [], ca_max_retries = - 1, ca_timeout = 0\<rparr>"
  have a: "args_ok ?a"
    by (simp add: args_ok_def int64_ok_def int64_min_def int64_max_def valid_ascii)
  have "escape ''n'' = ''n''" by (simp add: escape_plain esc_ascii_def)
  then have "length (print_json (create_body ?a)) \<le> maxBodyBytes"
    by (simp add: create_body_def create_payload_def given_def nonzero_def member_def maxBodyBytes_def quote_def json_int_def
        itoa_def demo_escapes dec_digits.simps)
  from create_request_roundtrip [OF a this] show ?thesis
    by (simp add: meant_request_def create_payload_def given_def nonzero_def)
qed

end
