(* ===== verification/JobctlLogs.thy ===== *)
theory JobctlLogs
  imports JobctlProps ApiHttp
begin

text \<open>
  \<open>jobctl logs\<close> against the API: page after page, the client prints the log of the run's attempt. The
  locale \<open>log_pages\<close> is what the client's loop needs of the server it asks, interpreted on the API's
  router, handlers and JSON.
\<close>

section \<open>A page on the wire\<close>

lemma page_names: "utf8_fix ''run_id'' = ''run_id''" "utf8_fix ''next_seq'' = ''next_seq''" "utf8_fix ''lines'' = ''lines''"
  by (simp_all add: utf8_fix_ascii)

text \<open>Folding an ASCII name keeps its length, so these names are told apart by it.\<close>

lemma fold_name_length: "list_all (\<lambda>c. ord c < 0x80) s \<Longrightarrow> length (fold_name s) = length s"
proof (induction s)
  case (Cons c s)
  have "strip_prefix (bytes [0xC5, 0xBF]) (c # s) = None" "strip_prefix (bytes [0xE2, 0x84, 0xAA]) (c # s) = None"
    using Cons.prems by (auto simp: bytes_def)
  with Cons show ?case by (simp add: fold_name.simps)
qed (simp add: fold_name.simps)

lemma fold_name_differs:
  "list_all (\<lambda>c. ord c < 0x80) s \<Longrightarrow> list_all (\<lambda>c. ord c < 0x80) t \<Longrightarrow> length s \<noteq> length t \<Longrightarrow> fold_name s \<noteq> fold_name t"
  by (metis fold_name_length)

lemma logs_json_facts: "json_ok (logs_json show x)" "json_depth (logs_json show x) \<le> 3"
proof -
  have "list_all json_ok (map (log_line_json show) ls)" for ls
    by (simp add: list_all_iff log_line_json_facts)
  then show "json_ok (logs_json show x)" by (simp add: logs_json_def member_def)
  have "list_all (\<lambda>n. n \<le> 1) (map json_depth (map (log_line_json show) ls))" for ls
    using log_line_json_facts(2) by (simp add: list_all_iff)
  then have "json_depth (JArr (map (log_line_json show) ls)) \<le> 2" for ls
    using fold_max_le [of "map json_depth (map (log_line_json show) ls)" 0 1] by simp
  then show "json_depth (logs_json show x) \<le> 3"
    by (simp add: logs_json_def member_def fold_max_le del: json_depth.simps(1))
qed

lemma line_decodes:
  assumes "times_ok tm show" and "line_ok l"
  shows "decode_struct False (log_line_fields tm) (read_back (log_line_json show l)) zero_log_line = (None, l)"
  using decode_object [OF line_sets [OF assms], of zero_log_line] by (simp add: log_line_json_def del: read_back.simps)

lemma set_list_elems:
  assumes "\<And>x. x \<in> set xs \<Longrightarrow> decode_struct False fds (read_back (f x)) zero = (None, g x)"
  shows "set_list n fds zero upd raw (read_back (JArr (map f xs))) s = (None, upd (map g xs) s)"
proof -
  have e: "map (\<lambda>v. decode_struct False fds v zero) (map read_back (map f xs)) = map (\<lambda>x. (None, g x)) xs"
    using assms by simp
  have k: "map snd (map (\<lambda>x. (None, g x)) xs) = map g xs" "filter (\<lambda>e. e \<noteq> None) (map fst (map (\<lambda>x. (None, g x)) xs)) = []"
    by (induction xs) simp_all
  show ?thesis by (simp add: set_list_def Let_def e k del: map_map list.map_comp)
qed

lemma set_list_ok:
  assumes "times_ok tm show" and "list_all line_ok ls"
  shows "set_list n (log_line_fields tm) zero_log_line upd raw (read_back (JArr (map (log_line_json show) ls))) s = (None, upd ls s)"
proof -
  have "decode_struct False (log_line_fields tm) (read_back (log_line_json show l)) zero_log_line = (None, l)" if "l \<in> set ls" for l
    using line_decodes [OF assms(1)] that assms(2) by (simp add: list_all_iff)
  from set_list_elems [where g = "\<lambda>l. l", OF this] show ?thesis by (simp only: list.map_ident)
qed

lemma page_decodes:
  assumes "times_ok tm show" and "list_all line_ok (lr_lines x)" and "int64_ok (lr_attempt x)" and "int64_ok (lr_next_seq x)"
  shows "decode_struct False (page_fields tm) (read_back (logs_json show x)) zero_page =
    (None, \<lparr>pg_attempt = lr_attempt x, pg_lines = lr_lines x, pg_next_seq = lr_next_seq x\<rparr>)"
proof -
  note one = sets_field_one [of _ "page_fields tm"]
  have skip: "sets_field False (page_fields tm) [member k v] (\<lambda>s. s)" if "utf8_fix k = k" "find_field (page_fields tm) k = None" for k v
    using that by (simp add: sets_field_def member_def)
  have f: "find_field (page_fields tm) ''attempt'' = Some (set_int ''attempt'' (\<lambda>i p. p\<lparr>pg_attempt := i\<rparr>))"
    "find_field (page_fields tm) ''lines'' = Some (set_list ''lines'' (log_line_fields tm) zero_log_line (\<lambda>ls p. p\<lparr>pg_lines := ls\<rparr>))"
    "find_field (page_fields tm) ''next_seq'' = Some (set_int ''next_seq'' (\<lambda>i p. p\<lparr>pg_next_seq := i\<rparr>))"
    "find_field (page_fields tm) ''run_id'' = None" "find_field (page_fields tm) ''status'' = None"
    by (simp_all add: find_field_def page_fields_def fold_name_differs)
  have m: "sets_field False (page_fields tm) [member ''run_id'' (JStr (lr_run_id x))] (\<lambda>s. s)"
    "sets_field False (page_fields tm) [member ''attempt'' (json_int (lr_attempt x))] (\<lambda>p. p\<lparr>pg_attempt := lr_attempt x\<rparr>)"
    "sets_field False (page_fields tm) [member ''status'' (JStr (status_text (lr_status x)))] (\<lambda>s. s)"
    "sets_field False (page_fields tm) [member ''lines'' (JArr (map (log_line_json show) (lr_lines x)))] (\<lambda>p. p\<lparr>pg_lines := lr_lines x\<rparr>)"
    "sets_field False (page_fields tm) [member ''next_seq'' (json_int (lr_next_seq x))] (\<lambda>p. p\<lparr>pg_next_seq := lr_next_seq x\<rparr>)"
    by (rule skip [OF page_names(1) f(4)] one [OF line_names(1) f(1)] skip [OF line_names(7) f(5)] one [OF page_names(3) f(2)]
        one [OF page_names(2) f(3)];
        rule set_int_ok [OF assms(3)] set_list_ok [OF assms(1,2)] set_int_ok [OF assms(4)])+
  have "logs_json show x = JObj ([member ''run_id'' (JStr (lr_run_id x))] @ [member ''attempt'' (json_int (lr_attempt x))]
     @ [member ''status'' (JStr (status_text (lr_status x)))] @ [member ''lines'' (JArr (map (log_line_json show) (lr_lines x)))]
     @ [member ''next_seq'' (json_int (lr_next_seq x))])" by (simp add: logs_json_def)
  with decode_object [OF sets_field_append [OF m(1) sets_field_append [OF m(2) sets_field_append [OF m(3)
      sets_field_append [OF m(4) m(5)]]]], of zero_page]
  show ?thesis by (simp add: zero_page_def comp_def del: read_back.simps)
qed

section \<open>The API's pages\<close>

abbreviation logs_request :: "string \<Rightarrow> int \<Rightarrow> request" where
  "logs_request i s \<equiv> \<lparr>h_id = i,
     h_query = (\<lambda>k. if k = ''from_seq'' then itoa s else if k = ''limit'' then ''1000'' else []), h_body = []\<rparr>"

definition page_of :: "run \<Rightarrow> uuid \<Rightarrow> int \<Rightarrow> db \<Rightarrow> logs_response" where
  "page_of r i s d = (let ls = take 1000 (lines_from i (r_attempt r) s d)
     in \<lparr>lr_run_id = r_id r, lr_attempt = r_attempt r, lr_status = r_status r, lr_lines = ls, lr_next_seq = next_seq s ls\<rparr>)"

lemma find_run_id: "find_run i d = Some r \<Longrightarrow> r_id r = i"
  using lookup_row_Some by metis

lemma handleListLogs_page:
  assumes "quiet e" and "e_others e d = d" and "quiet e2" and "e_others e2 d = d" and "schema_ok d"
    and "uuid_of i = Some j" and "find_run j d = Some r" and "1 \<le> s" and "s \<le> int64_max"
  shows "handleListLogs uuid_of e e2 (logs_request i s) d = (writeJSON 200 (BLogs (page_of r j s d)), d)"
proof -
  have g: "GetRun e j d = (Inr r, d)"
    using GetRun_quiet [of e d j] GetRun_db [of e j d] assms(1,2,5,7)
    by (simp add: prod_eq_iff schema_ok_def runs_ok_def del: GetRun_def)
  have "fst (ListLogs e2 (r_id r) (r_attempt r) s 1000 d) = Inr (snd_page)"
    if "snd_page = take 1000 (lines_from j (r_attempt r) s d)" for snd_page
    using assms(3,4) that find_run_id [OF assms(7)] by (simp add: ListLogs_def order_limit_def attempt_lines_sorted)
  then have l: "ListLogs e2 (r_id r) (r_attempt r) s 1000 d = (Inr (take 1000 (lines_from j (r_attempt r) s d)), d)"
    using ListLogs_db [of e2 "r_id r" "r_attempt r" s 1000 d] assms(4) by (simp add: prod_eq_iff)
  have q: "queryInt (logs_request i s) ''attempt'' (r_attempt r) 1 (r_attempt r) = Inr (r_attempt r)"
    "queryInt (logs_request i s) ''from_seq'' 1 1 int64_max = Inr s"
    "queryInt (logs_request i s) ''limit'' 500 1 1000 = Inr 1000"
  proof -
    show "queryInt (logs_request i s) ''attempt'' (r_attempt r) 1 (r_attempt r) = Inr (r_attempt r)"
      by (simp add: queryInt_def)
    have "atoi (itoa s) = Some s" using assms(8,9) by (intro atoi_itoa) (simp_all add: int64_min_def)
    moreover have "itoa s \<noteq> []" by (simp add: itoa_def)
    ultimately show "queryInt (logs_request i s) ''from_seq'' 1 1 int64_max = Inr s"
      using assms(8,9) by (simp add: queryInt_def Let_def)
    have "''1000'' = itoa 1000" by code_simp
    then have "atoi ''1000'' = Some 1000" using atoi_itoa [of 1000] by (simp add: int64_min_def int64_max_def)
    then show "queryInt (logs_request i s) ''limit'' 500 1 1000 = Inr 1000"
      by (simp add: queryInt_def Let_def)
  qed
  have "pathID uuid_of (logs_request i s) = Inr j" using assms(6) by (simp add: pathID_def)
  then show ?thesis
    by (simp add: handleListLogs_def g l q page_of_def Let_def next_seq_def)
qed

text \<open>The next page starts where the last one ended.\<close>

lemma next_page:
  assumes "db_good d" and "1 \<le> s" and "page = take n (lines_from i a s d)"
  shows "lines_from i a (next_seq s page) d = drop n (lines_from i a s d)"
    and "page \<noteq> [] \<Longrightarrow> 1 \<le> next_seq s page \<and> next_seq s page \<le> int64_max"
proof -
  let ?all = "all_lines i a d"
  have so: "sorted (map l_seq ?all)" "distinct (map l_seq ?all)" and b: "\<forall>l \<in> set ?all. l_seq l < int64_max"
    using assms(1) all_lines_sorted all_lines_distinct by (auto simp: db_good_def all_lines_def list_all_iff)
  have p: "page = take n (filter (\<lambda>l. s \<le> l_seq l) ?all)" using assms(3) by (simp add: lines_from_def)
  have "filter (\<lambda>l. l_seq l < s) ?all @ filter (\<lambda>l. s \<le> l_seq l) ?all =
      (filter (\<lambda>l. l_seq l < s) ?all @ page) @ filter (\<lambda>l. next_seq s page \<le> l_seq l) ?all"
    using sorted_cut [OF so, of s] sorted_cut [OF so, of "next_seq s page"] page_extends(1) [OF so b assms(2) p] by simp
  then have "filter (\<lambda>l. s \<le> l_seq l) ?all = page @ filter (\<lambda>l. next_seq s page \<le> l_seq l) ?all" by simp
  then show "lines_from i a (next_seq s page) d = drop n (lines_from i a s d)"
    using assms(3) unfolding lines_from_def by (metis append_take_drop_id same_append_eq)
  show "1 \<le> next_seq s page \<and> next_seq s page \<le> int64_max" if "page \<noteq> []"
    using page_extends(2) [OF so b assms(2) p that] b assms(2) by force
qed

section \<open>The client's loop\<close>

text \<open>
  What the loop needs of a server in a good state: a page for every sequence number, whose lines are the
  first thousand of what is left, and whose next number leaves what comes after them.
\<close>

locale log_pages =
  fixes http :: "'w transport" and shown :: "time \<Rightarrow> string" and i :: string
    and page :: "'w \<Rightarrow> int \<Rightarrow> logs_response" and good :: "'w \<Rightarrow> bool" and left :: "'w \<Rightarrow> int \<Rightarrow> log_line list"
  assumes serves: "good w \<Longrightarrow> 1 \<le> s \<Longrightarrow> s \<le> int64_max \<Longrightarrow>
      \<exists>h. http ''GET'' (logs_path i s) None w = (Inr h, w) \<and> hr_code h = 200
        \<and> hr_body h = print_json (logs_json shown (page w s)) @ [newline]"
    and first_lines: "good w \<Longrightarrow> lr_lines (page w s) = take 1000 (left w s)"
    and next_number: "good w \<Longrightarrow> 1 \<le> s \<Longrightarrow> s \<le> int64_max \<Longrightarrow> 1 \<le> lr_next_seq (page w s) \<and> lr_next_seq (page w s) \<le> int64_max"
    and next_lines: "good w \<Longrightarrow> 1 \<le> s \<Longrightarrow> left w (lr_next_seq (page w s)) = drop 1000 (left w s)"
    and attempt_ok: "good w \<Longrightarrow> int64_ok (lr_attempt (page w s))"
    and lines_ok: "good w \<Longrightarrow> list_all line_ok (left w s)"
begin

lemma page_request:
  assumes "times_ok tm shown" and "good w" and "1 \<le> s" and "s \<le> int64_max"
  shows "do_request http ''GET'' (logs_path i s) None (page_fields tm) zero_page w =
    (Inr \<lparr>pg_attempt = lr_attempt (page w s), pg_lines = take 1000 (left w s), pg_next_seq = lr_next_seq (page w s)\<rparr>, w)"
proof -
  obtain h where h: "http ''GET'' (logs_path i s) None w = (Inr h, w)" "hr_code h = 200"
    "hr_body h = print_json (logs_json shown (page w s)) @ [newline]"
    using serves [OF assms(2-4)] by blast
  have "list_all line_ok (lr_lines (page w s))"
    using lines_ok [OF assms(2), of s] by (simp add: first_lines [OF assms(2)] list_all_iff) (blast dest: in_set_takeD)
  moreover have "int64_ok (lr_next_seq (page w s))"
    using next_number [OF assms(2-4)] by (simp add: int64_ok_def int64_min_def)
  ultimately have d: "decode_struct False (page_fields tm) (read_back (logs_json shown (page w s))) zero_page =
      (None, \<lparr>pg_attempt = lr_attempt (page w s), pg_lines = take 1000 (left w s), pg_next_seq = lr_next_seq (page w s)\<rparr>)"
    using page_decodes [OF assms(1), of "page w s"] attempt_ok [OF assms(2), of s] by (simp add: first_lines [OF assms(2)])
  have "json_depth (logs_json shown (page w s)) \<le> max_depth"
    using logs_json_facts(2) [of shown "page w s"] by (simp add: max_depth_def)
  then have "parse_next (print_json (logs_json shown (page w s)) @ [newline]) = Inr (read_back (logs_json shown (page w s)), [newline])"
    using logs_json_facts(1) by (intro parse_next_print) (simp_all add: delimited_def newline_def)
  then show ?thesis using h d by (simp add: do_request_def check_status_def decode_next_def)
qed

lemma loop_prints:
  assumes "times_ok tm shown" and "good w" and "1 \<le> s" and "s \<le> int64_max"
  shows "logs_loop http tm i s out w =
    Some (\<lparr>o_out = out @ map (printLine tm) (left w s), o_err = [], o_error = None\<rparr>, w)"
  using assms(3,4)
proof (induction "length (left w s)" arbitrary: s out rule: less_induct)
  case less
  let ?n = "lr_next_seq (page w s)"
  note req = page_request [OF assms(1,2) less.prems]
  show ?case
  proof (cases "length (left w s) < 1000")
    case True
    then show ?thesis by (subst logs_loop.simps) (simp add: req Let_def)
  next
    case False
    then have "length (left w ?n) < length (left w s)" by (simp add: next_lines [OF assms(2) less.prems(1)])
    from less.hyps [OF this, of "out @ map (printLine tm) (take 1000 (left w s))"] next_number [OF assms(2) less.prems]
    have "logs_loop http tm i ?n (out @ map (printLine tm) (take 1000 (left w s))) w =
      Some (\<lparr>o_out = (out @ map (printLine tm) (take 1000 (left w s))) @ map (printLine tm) (drop 1000 (left w s)),
             o_err = [], o_error = None\<rparr>, w)"
      by (simp add: next_lines [OF assms(2) less.prems(1)])
    then show ?thesis using False
      by (subst logs_loop.simps) (simp add: req Let_def flip: map_append)
  qed
qed

end

section \<open>The API as the server\<close>

text \<open>
  The states in which the API answers for a run: no store call fails, nothing else changes the
  database, the request names a stored run, and what is stored is what Go and Postgres can hold.
\<close>

definition undisturbed :: "('loc, 'sched, 'k) api_server \<Rightarrow> db \<Rightarrow> bool" where
  "undisturbed sv d \<longleftrightarrow> (\<forall>n. quiet (sv_env sv n) \<and> e_others (sv_env sv n) d = d)"

definition asked_run :: "('loc, 'sched, 'k) api_server \<Rightarrow> string \<Rightarrow> db \<Rightarrow> run option" where
  "asked_run sv i d = (case sv_uuid sv i of None \<Rightarrow> None | Some j \<Rightarrow> find_run j d)"

definition log_of :: "('loc, 'sched, 'k) api_server \<Rightarrow> string \<Rightarrow> db \<times> 'k \<Rightarrow> int \<Rightarrow> log_line list" where
  "log_of sv i w s = (case asked_run sv i (fst w) of None \<Rightarrow> [] | Some r \<Rightarrow> lines_from (r_id r) (r_attempt r) s (fst w))"

definition api_page :: "('loc, 'sched, 'k) api_server \<Rightarrow> string \<Rightarrow> db \<times> 'k \<Rightarrow> int \<Rightarrow> logs_response" where
  "api_page sv i w s = page_of (the (asked_run sv i (fst w))) (r_id (the (asked_run sv i (fst w)))) s (fst w)"

definition api_good :: "('loc, 'sched, 'k) api_server \<Rightarrow> string \<Rightarrow> db \<times> 'k \<Rightarrow> bool" where
  "api_good sv i w \<longleftrightarrow> undisturbed sv (fst w) \<and> plain_id i \<and> db_good (fst w)
     \<and> list_all (\<lambda>x. line_ok (snd x)) (logs (fst w))
     \<and> (case asked_run sv i (fst w) of None \<Rightarrow> False | Some r \<Rightarrow> int64_ok (r_attempt r))"

lemma api_good_run:
  assumes "api_good sv i w"
  obtains j r where "sv_uuid sv i = Some j" "find_run j (fst w) = Some r" "r_id r = j" "asked_run sv i (fst w) = Some r"
    "int64_ok (r_attempt r)"
  using assms find_run_id by (auto simp: api_good_def asked_run_def split: option.splits)

interpretation api_logs: log_pages "api_transport sv" "sv_show sv" i "api_page sv i" "api_good sv i" "log_of sv i" for sv i
proof
  fix w s
  assume g: "api_good sv i w"
  then obtain j r where r: "sv_uuid sv i = Some j" "find_run j (fst w) = Some r" "r_id r = j" "asked_run sv i (fst w) = Some r"
    "int64_ok (r_attempt r)" by (rule api_good_run)
  have d: "db_good (fst w)" "schema_ok (fst w)" "plain_id i" and q: "\<And>n. quiet (sv_env sv n)" "\<And>n. e_others (sv_env sv n) (fst w) = fst w"
    using g by (simp_all add: api_good_def db_good_def undisturbed_def)
  have pg: "api_page sv i w s = page_of r j s (fst w)" "log_of sv i w s = lines_from j (r_attempt r) s (fst w)" for s
    using r by (simp_all add: api_page_def log_of_def)
  show "lr_lines (api_page sv i w s) = take 1000 (log_of sv i w s)" "int64_ok (lr_attempt (api_page sv i w s))"
    using r(5) by (simp_all add: pg page_of_def Let_def)
  show "list_all line_ok (log_of sv i w s)"
    using g by (auto simp: pg api_good_def list_all_iff lines_from_def all_lines_def)
  assume s: "1 \<le> s"
  note nx = next_page [where page = "take 1000 (lines_from j (r_attempt r) s (fst w))", OF d(1) s refl]
  show "log_of sv i w (lr_next_seq (api_page sv i w s)) = drop 1000 (log_of sv i w s)"
    using nx(1) by (simp add: pg page_of_def Let_def)
  assume s': "s \<le> int64_max"
  show "1 \<le> lr_next_seq (api_page sv i w s) \<and> lr_next_seq (api_page sv i w s) \<le> int64_max"
    using nx(2) s s' by (cases "take 1000 (lines_from j (r_attempt r) s (fst w)) = []") (simp_all add: pg page_of_def Let_def next_seq_def)
  have "handleListLogs (sv_uuid sv) (sv_env sv 0) (sv_env sv 1) (logs_request i s) (fst w) = (writeJSON 200 (BLogs (page_of r j s (fst w))), fst w)"
    by (rule handleListLogs_page [where uuid_of = "sv_uuid sv", OF q(1,2) q(1,2) d(2) r(1,2) s s'])
  from api_list_logs [OF d(3) this]
  show "\<exists>h. api_transport sv ''GET'' (logs_path i s) None w = (Inr h, w) \<and> hr_code h = 200
      \<and> hr_body h = print_json (logs_json (sv_show sv) (api_page sv i w s)) @ [newline]"
    by (simp add: pg answer_def writeJSON_def content_text_def)
qed

lemma logs_cmd_prints:
  assumes "times_ok tm (sv_show sv)" and "undisturbed sv d" and "plain_id i" and "db_good d"
    and "sv_uuid sv i = Some j" and "find_run j d = Some r" and "int64_ok (r_attempt r)" and "list_all (\<lambda>x. line_ok (snd x)) (logs d)"
  shows "logs_cmd (api_transport sv) tm False [i] (d, k) =
    Some (\<lparr>o_out = map (printLine tm) (lines_from j (r_attempt r) 1 d), o_err = [], o_error = None\<rparr>, d, k)"
proof -
  have "api_good sv i (d, k)" using assms by (simp add: api_good_def asked_run_def)
  moreover have "log_of sv i (d, k) 1 = lines_from j (r_attempt r) 1 d"
    using assms(5,6) find_run_id by (simp add: log_of_def asked_run_def)
  ultimately show ?thesis
    using api_logs.loop_prints [OF assms(1), of i "(d, k)" 1 "[]"] by (simp add: logs_cmd_def int64_max_def)
qed

text \<open>
  C25: \<open>jobctl logs\<close> page by page: asked of the API's router and handlers over a database nothing else
  changes, the loop over the pages ends, for a log of any length, and prints exactly the stored lines
  of the run's current attempt, in order, without an error.
\<close>

theorem logs_prints_log:
  assumes "times_ok tm (sv_show sv)" and "undisturbed sv d" and "plain_id i" and "db_good d"
    and "sv_uuid sv i = Some j" and "find_run j d = Some r" and "int64_ok (r_attempt r)" and "list_all (\<lambda>x. line_ok (snd x)) (logs d)"
  shows "logs_cmd (api_transport sv) tm False [i] (d, k) =
    Some (\<lparr>o_out = map (printLine tm) (lines_from j (r_attempt r) 1 d), o_err = [], o_error = None\<rparr>, d, k)"
  by (rule logs_cmd_prints [OF assms])

definition demo_api :: "env \<Rightarrow> (unit, unit, unit) api_server" where
  "demo_api e = \<lparr>sv_uuid = Some, sv_zones = cron_zones, sv_write = (\<lambda>m k. (None, k)), sv_now = 20, sv_ping = None,
     sv_env = (\<lambda>_. e), sv_show = itoa, sv_other = (\<lambda>m t. Inl (ErrText ''EOF''))\<rparr>"

lemma demo_undisturbed: "undisturbed (demo_api (demo_env t i)) d"
  by (simp add: undisturbed_def demo_api_def quiet_def demo_env_def)

theorem logs_prints_log_witness:
  "logs_cmd (api_transport (demo_api (demo_env 20 []))) demo_times False [''R''] (demo_logged, ()) =
     Some (\<lparr>o_out = [printLine demo_times demo_line], o_err = [], o_error = None\<rparr>, demo_logged, ())"
proof -
  obtain r where r: "find_run ''R'' demo_logged = Some r" "r_attempt r = 1"
    using demo_logged_facts(2) by blast
  have "list_all (\<lambda>x. line_ok (snd x)) (logs demo_logged)"
    by (simp add: demo_logged_def line_ok_def demo_line_def int64_ok_def int64_min_def int64_max_def valid_ascii)
  moreover have "times_ok demo_times (sv_show (demo_api (demo_env 20 [])))" "plain_id ''R''" "int64_ok 1"
    "sv_uuid (demo_api (demo_env 20 [])) ''R'' = Some ''R''"
    using demo_times_ok by (simp_all add: demo_api_def plain_id_def int64_ok_def int64_min_def int64_max_def)
  moreover have "lines_from ''R'' 1 1 demo_logged = [demo_line]"
    by (simp add: lines_from_def all_lines_def demo_logged_def demo_line_def)
  ultimately show ?thesis
    using logs_prints_log [OF _ demo_undisturbed _ demo_logged_facts(1) _ r(1), of demo_times 20 "[]" "''R''" "()"] r(2) by simp
qed

end
