(* ===== verification/JobctlApi.thy ===== *)
theory JobctlApi
  imports JobctlLogs
begin

text \<open>
  The other commands of \<open>jobctl\<close> against the API's router, handlers and JSON: what \<open>status\<close> and \<open>jobs\<close>
  print is what is stored, and \<open>create\<close> and \<open>run\<close> print the id of the row they made.
\<close>

section \<open>Decoding the rows\<close>

lemma sets_field_concat:
  "list_all (\<lambda>(ms, f). sets_field strict fds ms f) ps \<Longrightarrow> sets_field strict fds (concat (map fst ps)) (fold snd ps)"
proof (induction ps)
  case (Cons p ps)
  then have "sets_field strict fds (fst p @ concat (map fst ps)) (fold snd ps \<circ> snd p)"
    by (intro sets_field_append) (auto simp: split_def)
  then show ?case by (simp add: comp_def)
qed (simp add: sets_field_none id_def)

lemma sets_field_skip:
  "utf8_fix k = k \<Longrightarrow> find_field fds k = None \<Longrightarrow> sets_field False fds [member k v] (\<lambda>s. s)"
  by (simp add: sets_field_def member_def)

lemma sets_field_omit:
  assumes "utf8_fix k = k" and "find_field fds k = Some (set_ptr upd f)"
    and "\<And>v s. x = Some v \<Longrightarrow> g v \<noteq> JNull \<and> f (\<lambda>y. upd (Some y)) (print_json (g v)) (read_back (g v)) s = (None, upd (Some v) s)"
  shows "sets_field strict fds (omit k g x) (case x of None \<Rightarrow> (\<lambda>s. s) | Some v \<Rightarrow> upd x)"
proof (cases x)
  case (Some v)
  then have "read_back (g v) \<noteq> JNull" using assms(3) [OF Some] by (cases "g v") simp_all
  then show ?thesis using assms Some by (simp add: omit_def sets_field_def member_def set_ptr_def)
qed (simp add: omit_def sets_field_none)

lemma fold_name_Cons:
  assumes "list_all (\<lambda>c. ord c < 0x80) (c # s)"
  shows "fold_name (c # s) = upper_char c # fold_name s"
proof -
  have "strip_prefix (bytes [0xC5, 0xBF]) (c # s) = None" "strip_prefix (bytes [0xE2, 0x84, 0xAA]) (c # s) = None"
    using assms by (auto simp: bytes_def)
  then show ?thesis by (subst fold_name.simps) simp
qed

lemma fold_first_differs:
  "list_all (\<lambda>c. ord c < 0x80) (c # s) \<Longrightarrow> list_all (\<lambda>c. ord c < 0x80) (d # t) \<Longrightarrow> upper_char c \<noteq> upper_char d \<Longrightarrow>
     fold_name (c # s) \<noteq> fold_name (d # t)"
  by (simp only: fold_name_Cons list.inject) simp

text \<open>What the client keeps of a run.\<close>

definition run_info_of :: "run \<Rightarrow> run_info" where
  "run_info_of r = \<lparr>ri_id = r_id r, ri_job_id = r_job_id r, ri_trigger = trigger_text (r_trigger r),
     ri_status = status_text (r_status r), ri_attempt = r_attempt r, ri_worker_id = r_worker_id r,
     ri_scheduled_time = r_scheduled_time r, ri_started_at = r_started_at r, ri_finished_at = r_finished_at r,
     ri_next_attempt_at = r_next_attempt_at r, ri_error = r_error r, ri_output = r_output r\<rparr>"

definition opt_utf8 :: "string option \<Rightarrow> bool" where
  "opt_utf8 x \<longleftrightarrow> (case x of None \<Rightarrow> True | Some t \<Rightarrow> valid_utf8 t)"

definition run_text_ok :: "run \<Rightarrow> bool" where
  "run_text_ok r \<longleftrightarrow> valid_utf8 (r_id r) \<and> valid_utf8 (r_job_id r) \<and> int64_ok (r_attempt r)
     \<and> opt_utf8 (r_worker_id r) \<and> opt_utf8 (r_error r) \<and> opt_utf8 (r_output r)"

lemma run_names: "utf8_fix ''id'' = ''id''" "utf8_fix ''job_id'' = ''job_id''" "utf8_fix ''scheduled_time'' = ''scheduled_time''"
  "utf8_fix ''trigger'' = ''trigger''" "utf8_fix ''worker_id'' = ''worker_id''" "utf8_fix ''queued_at'' = ''queued_at''"
  "utf8_fix ''started_at'' = ''started_at''" "utf8_fix ''finished_at'' = ''finished_at''"
  "utf8_fix ''last_heartbeat_at'' = ''last_heartbeat_at''" "utf8_fix ''next_attempt_at'' = ''next_attempt_at''"
  "utf8_fix ''output'' = ''output''"
  by (simp_all add: utf8_fix_ascii)

lemma run_field:
  "find_field (run_info_fields tm) ''id'' = Some (set_string ''id'' (\<lambda>t r. r\<lparr>ri_id := t\<rparr>))"
  "find_field (run_info_fields tm) ''job_id'' = Some (set_string ''job_id'' (\<lambda>t r. r\<lparr>ri_job_id := t\<rparr>))"
  "find_field (run_info_fields tm) ''trigger'' = Some (set_string ''trigger'' (\<lambda>t r. r\<lparr>ri_trigger := t\<rparr>))"
  "find_field (run_info_fields tm) ''status'' = Some (set_string ''status'' (\<lambda>t r. r\<lparr>ri_status := t\<rparr>))"
  "find_field (run_info_fields tm) ''attempt'' = Some (set_int ''attempt'' (\<lambda>i r. r\<lparr>ri_attempt := i\<rparr>))"
  "find_field (run_info_fields tm) ''worker_id'' = Some (set_ptr (\<lambda>x r. r\<lparr>ri_worker_id := x\<rparr>) (set_string ''worker_id''))"
  "find_field (run_info_fields tm) ''scheduled_time'' = Some (set_time (tm_read tm) ''scheduled_time'' (\<lambda>t r. r\<lparr>ri_scheduled_time := t\<rparr>))"
  "find_field (run_info_fields tm) ''started_at'' = Some (set_ptr (\<lambda>x r. r\<lparr>ri_started_at := x\<rparr>) (set_time (tm_read tm) ''started_at''))"
  "find_field (run_info_fields tm) ''finished_at'' = Some (set_ptr (\<lambda>x r. r\<lparr>ri_finished_at := x\<rparr>) (set_time (tm_read tm) ''finished_at''))"
  "find_field (run_info_fields tm) ''next_attempt_at'' =
     Some (set_ptr (\<lambda>x r. r\<lparr>ri_next_attempt_at := x\<rparr>) (set_time (tm_read tm) ''next_attempt_at''))"
  "find_field (run_info_fields tm) ''error'' = Some (set_ptr (\<lambda>x r. r\<lparr>ri_error := x\<rparr>) (set_string ''error''))"
  "find_field (run_info_fields tm) ''output'' = Some (set_ptr (\<lambda>x r. r\<lparr>ri_output := x\<rparr>) (set_string ''output''))"
  by (simp_all add: find_field_def run_info_fields_def)

lemma run_field_unknown:
  "find_field (run_info_fields tm) ''queued_at'' = None" "find_field (run_info_fields tm) ''last_heartbeat_at'' = None"
proof -
  have "upper_char CHR ''q'' \<noteq> upper_char CHR ''w''" by code_simp
  then have "fold_name ''worker_id'' \<noteq> fold_name ''queued_at''" by (intro fold_first_differs) simp_all
  then show "find_field (run_info_fields tm) ''queued_at'' = None"
    by (simp add: find_field_def run_info_fields_def fold_name_differs)
  show "find_field (run_info_fields tm) ''last_heartbeat_at'' = None"
    by (simp add: find_field_def run_info_fields_def fold_name_differs)
qed

lemma set_opt_string:
  "x = Some v \<Longrightarrow> opt_utf8 x \<Longrightarrow>
     JStr v \<noteq> JNull \<and> set_string n (\<lambda>y. upd (Some y)) (print_json (JStr v)) (read_back (JStr v)) s = (None, upd (Some v) s)"
  using set_string_valid [of v n "\<lambda>y. upd (Some y)" s] by (simp add: opt_utf8_def del: read_back.simps print_json.simps)

lemma set_opt_time:
  "times_ok tm show \<Longrightarrow> time_json show v \<noteq> JNull \<and>
     set_time (tm_read tm) n (\<lambda>y. upd (Some y)) (print_json (time_json show v)) (read_back (time_json show v)) s = (None, upd (Some v) s)"
  using set_time_ok [of tm "show" n "\<lambda>y. upd (Some y)" v s] by (simp add: time_json_def del: read_back.simps print_json.simps)

lemmas run_one = sets_field_one [of _ "run_info_fields tm" for tm]
lemmas run_omit = sets_field_omit [of _ "run_info_fields tm" for tm]

definition set_if :: "('a option \<Rightarrow> 's \<Rightarrow> 's) \<Rightarrow> 'a option \<Rightarrow> 's \<Rightarrow> 's" where
  "set_if upd x = (case x of None \<Rightarrow> (\<lambda>s. s) | Some v \<Rightarrow> upd x)"

lemma trigger_status_utf8: "valid_utf8 (trigger_text t)" "valid_utf8 (status_text s)"
  by (cases t; cases s; simp add: valid_ascii)+

definition run_parts :: "(time \<Rightarrow> string) \<Rightarrow> run \<Rightarrow> ((string \<times> string \<times> json) list \<times> (run_info \<Rightarrow> run_info)) list" where
  "run_parts show r =
     [([member ''id'' (JStr (r_id r))], \<lambda>x. x\<lparr>ri_id := r_id r\<rparr>),
      ([member ''job_id'' (JStr (r_job_id r))], \<lambda>x. x\<lparr>ri_job_id := r_job_id r\<rparr>),
      ([member ''scheduled_time'' (time_json show (r_scheduled_time r))], \<lambda>x. x\<lparr>ri_scheduled_time := r_scheduled_time r\<rparr>),
      ([member ''trigger'' (JStr (trigger_text (r_trigger r)))], \<lambda>x. x\<lparr>ri_trigger := trigger_text (r_trigger r)\<rparr>),
      ([member ''status'' (JStr (status_text (r_status r)))], \<lambda>x. x\<lparr>ri_status := status_text (r_status r)\<rparr>),
      ([member ''attempt'' (json_int (r_attempt r))], \<lambda>x. x\<lparr>ri_attempt := r_attempt r\<rparr>),
      (omit ''worker_id'' JStr (r_worker_id r), set_if (\<lambda>y x. x\<lparr>ri_worker_id := y\<rparr>) (r_worker_id r)),
      ([member ''queued_at'' (time_json show (r_queued_at r))], \<lambda>x. x),
      (omit ''started_at'' (time_json show) (r_started_at r), set_if (\<lambda>y x. x\<lparr>ri_started_at := y\<rparr>) (r_started_at r)),
      (omit ''finished_at'' (time_json show) (r_finished_at r), set_if (\<lambda>y x. x\<lparr>ri_finished_at := y\<rparr>) (r_finished_at r)),
      (omit ''last_heartbeat_at'' (time_json show) (r_last_heartbeat_at r), \<lambda>x. x),
      (omit ''next_attempt_at'' (time_json show) (r_next_attempt_at r), set_if (\<lambda>y x. x\<lparr>ri_next_attempt_at := y\<rparr>) (r_next_attempt_at r)),
      (omit ''error'' JStr (r_error r), set_if (\<lambda>y x. x\<lparr>ri_error := y\<rparr>) (r_error r)),
      (omit ''output'' JStr (r_output r), set_if (\<lambda>y x. x\<lparr>ri_output := y\<rparr>) (r_output r))]"

lemma run_parts_set:
  assumes "times_ok tm show" and "run_text_ok r"
  shows "list_all (\<lambda>(ms, f). sets_field False (run_info_fields tm) ms f) (run_parts show r)"
proof -
  note ok = assms(2) [unfolded run_text_ok_def]
  have u: "opt_utf8 (r_worker_id r)" "opt_utf8 (r_error r)" "opt_utf8 (r_output r)" by (simp_all add: ok)
  note t = set_time_ok [OF assms(1)] set_opt_time [OF assms(1)]
  have "sets_field False (run_info_fields tm) (omit ''last_heartbeat_at'' (time_json show) (r_last_heartbeat_at r)) (\<lambda>x. x)"
    by (cases "r_last_heartbeat_at r") (simp_all add: omit_def sets_field_none sets_field_skip run_names run_field_unknown)
  moreover have "sets_field False (run_info_fields tm) [member ''queued_at'' (time_json show (r_queued_at r))] (\<lambda>x. x)"
    by (rule sets_field_skip [OF run_names(6) run_field_unknown(1)])
  moreover have "sets_field False (run_info_fields tm) [member ''attempt'' (json_int (r_attempt r))] (\<lambda>x. x\<lparr>ri_attempt := r_attempt r\<rparr>)"
    by (rule run_one [OF line_names(1) run_field(5)]) (rule set_int_ok, simp add: ok)
  moreover have "sets_field False (run_info_fields tm) [member ''id'' (JStr (r_id r))] (\<lambda>x. x\<lparr>ri_id := r_id r\<rparr>)"
    "sets_field False (run_info_fields tm) [member ''job_id'' (JStr (r_job_id r))] (\<lambda>x. x\<lparr>ri_job_id := r_job_id r\<rparr>)"
    "sets_field False (run_info_fields tm) [member ''trigger'' (JStr (trigger_text (r_trigger r)))] (\<lambda>x. x\<lparr>ri_trigger := trigger_text (r_trigger r)\<rparr>)"
    "sets_field False (run_info_fields tm) [member ''status'' (JStr (status_text (r_status r)))] (\<lambda>x. x\<lparr>ri_status := status_text (r_status r)\<rparr>)"
    by (rule run_one [OF run_names(1) run_field(1)] run_one [OF run_names(2) run_field(2)] run_one [OF run_names(4) run_field(3)]
        run_one [OF line_names(7) run_field(4)]; rule set_string_valid; simp add: ok trigger_status_utf8)+
  moreover have "sets_field False (run_info_fields tm) [member ''scheduled_time'' (time_json show (r_scheduled_time r))]
      (\<lambda>x. x\<lparr>ri_scheduled_time := r_scheduled_time r\<rparr>)"
    unfolding time_json_def by (rule run_one [OF run_names(3) run_field(7)]) (rule t(1))
  moreover have "sets_field False (run_info_fields tm) (omit ''worker_id'' JStr (r_worker_id r)) (set_if (\<lambda>y x. x\<lparr>ri_worker_id := y\<rparr>) (r_worker_id r))"
    "sets_field False (run_info_fields tm) (omit ''error'' JStr (r_error r)) (set_if (\<lambda>y x. x\<lparr>ri_error := y\<rparr>) (r_error r))"
    "sets_field False (run_info_fields tm) (omit ''output'' JStr (r_output r)) (set_if (\<lambda>y x. x\<lparr>ri_output := y\<rparr>) (r_output r))"
    unfolding set_if_def
    by (rule run_omit [OF run_names(5) run_field(6)] run_omit [OF line_names(6) run_field(11)] run_omit [OF run_names(11) run_field(12)];
        rule set_opt_string [OF _ u(1)] set_opt_string [OF _ u(2)] set_opt_string [OF _ u(3)]; assumption)+
  moreover have "sets_field False (run_info_fields tm) (omit ''started_at'' (time_json show) (r_started_at r)) (set_if (\<lambda>y x. x\<lparr>ri_started_at := y\<rparr>) (r_started_at r))"
    "sets_field False (run_info_fields tm) (omit ''finished_at'' (time_json show) (r_finished_at r)) (set_if (\<lambda>y x. x\<lparr>ri_finished_at := y\<rparr>) (r_finished_at r))"
    "sets_field False (run_info_fields tm) (omit ''next_attempt_at'' (time_json show) (r_next_attempt_at r))
      (set_if (\<lambda>y x. x\<lparr>ri_next_attempt_at := y\<rparr>) (r_next_attempt_at r))"
    unfolding set_if_def
    by (rule run_omit [OF run_names(7) run_field(8)] run_omit [OF run_names(8) run_field(9)] run_omit [OF run_names(10) run_field(10)];
        rule t(2))+
  ultimately show ?thesis by (simp add: run_parts_def)
qed

lemma run_decodes:
  assumes "times_ok tm show" and "run_text_ok r"
  shows "decode_struct False (run_info_fields tm) (read_back (run_json show r)) zero_run_info = (None, run_info_of r)"
proof -
  have "run_json show r = JObj (concat (map fst (run_parts show r)))"
    by (simp add: run_json_def run_parts_def)
  moreover have "fold snd (run_parts show r) zero_run_info = run_info_of r"
    by (simp add: run_parts_def set_if_def zero_run_info_def run_info_of_def split: option.split)
  ultimately show ?thesis
    using decode_object [OF sets_field_concat [OF run_parts_set [OF assms]], of zero_run_info] by simp
qed

lemma run_json_facts: "json_ok (run_json show r)" "json_depth (run_json show r) \<le> 1"
proof -
  show "json_ok (run_json show r)"
    by (simp add: run_json_def omit_def member_def time_json_def split: option.split)
  show "json_depth (run_json show r) \<le> 1"
    by (simp add: run_json_def omit_def member_def time_json_def fold_max_le split: option.split)
qed

section \<open>Requests and answers\<close>

lemma do_answer:
  assumes "http m target (map_option print_json body) w = (Inr (answer sv m path (writeJSON c v)), w')" and "c < 400"
    and "content_json (sv_show sv) v = Some js" and "json_ok js" and "json_depth js \<le> max_depth"
    and "decode_struct False fds (read_back js) zero = (None, x)"
  shows "do_request http m target body fds zero w = (Inr x, w')"
proof -
  have "parse_next (print_json js @ [newline]) = Inr (read_back js, [newline])"
    using assms(4,5) by (intro parse_next_print) (simp_all add: delimited_def newline_def)
  with assms show ?thesis
    by (simp add: do_request_def check_status_def answer_def writeJSON_def content_text_def decode_next_def)
qed

lemma do_refused:
  assumes "http m target (map_option print_json body) w = (Inr (answer sv m path (writeError c msg)), w')" and "400 \<le> c"
    and "valid_utf8 msg" and "msg \<noteq> []"
  shows "do_request http m target body fds zero w = (Inl (ErrText (m @ '' '' @ segment path @ '': '' @ msg)), w')"
proof -
  let ?js = "JObj [member ''error'' (JStr msg)]"
  have "find_field error_field ''error'' = Some (set_string ''error'' (\<lambda>t _. t))" by (simp add: find_field_def error_field_def)
  then have "sets_field False error_field [member ''error'' (JStr msg)] (\<lambda>_. msg)"
    by (rule sets_field_one [OF line_names(6)]) (rule set_string_valid [OF assms(3)])
  then have d: "decode_struct False error_field (read_back ?js) [] = (None, msg)" by (rule decode_object)
  have "parse_next (print_json ?js @ [newline]) = Inr (read_back ?js, [newline])"
    by (rule parse_next_print) (simp_all add: member_def max_depth_def delimited_def newline_def)
  with assms d show ?thesis
    by (simp add: do_request_def check_status_def answer_def writeError_def writeJSON_def content_text_def apiError_def
        del: read_back.simps print_json.simps)
qed

lemma segment_run: "segment (''/runs/'' @ PathEscape i) = ''/runs/'' @ i"
  by (simp add: segment_def unescape_escape)

section \<open>\<open>jobctl status\<close>\<close>

text \<open>
  C28: \<open>jobctl status\<close> of a run, through the client, the router, the handler and both ends of the JSON,
  prints the rows of the run as it is stored, field by field, and of a run that is not stored the API's
  error; neither changes anything.
\<close>

theorem status_shows_run:
  assumes "times_ok tm (sv_show sv)" and "undisturbed sv d" and "plain_id i" and "schema_ok d" and "sv_uuid sv i = Some j"
    and "list_all run_text_ok (runs d)"
  shows "status_cmd (api_transport sv) tm [i] (d, k) =
    (case find_run j d of
       Some r \<Rightarrow> Inr (status_rows tm (run_info_of r))
     | None \<Rightarrow> Inl (ErrText (''GET /runs/'' @ i @ '': run not found'')), d, k)"
proof -
  have q: "quiet (sv_env sv 0)" "e_others (sv_env sv 0) d = d" using assms(2) by (simp_all add: undisturbed_def)
  have "distinct (map r_id (runs d))" using assms(4) by (simp only: schema_ok_def runs_ok_def)
  then have g: "GetRun (sv_env sv 0) j d = (case find_run j d of None \<Rightarrow> Inl ErrNotFound | Some r \<Rightarrow> Inr r, d)"
    using GetRun_quiet [of "sv_env sv 0" d j] GetRun_db [of "sv_env sv 0" j d] q by (simp add: prod_eq_iff)
  show ?thesis
  proof (cases "find_run j d")
    case None
    then have "handleGetRun (sv_uuid sv) (sv_env sv 0) \<lparr>h_id = i, h_query = query_get [], h_body = []\<rparr> (fst (d, k)) =
        (writeError 404 ''run not found'', d)"
      using assms(5) g by (simp add: handleGetRun_def pathID_def storeError_def)
    from api_get_run [where sv = sv, OF assms(3) this]
    have "do_request (api_transport sv) ''GET'' (''/runs/'' @ PathEscape i) None (run_info_fields tm) zero_run_info (d, k) =
        (Inl (ErrText (''GET'' @ '' '' @ segment (''/runs/'' @ PathEscape i) @ '': '' @ ''run not found'')), d, k)"
      by (intro do_refused [where sv = sv and c = 404]) (simp_all add: valid_ascii)
    then show ?thesis using None by (simp only: status_cmd_def segment_run) simp
  next
    case (Some r)
    then have h: "handleGetRun (sv_uuid sv) (sv_env sv 0) \<lparr>h_id = i, h_query = query_get [], h_body = []\<rparr> (fst (d, k)) =
        (writeJSON 200 (BRun r), d)"
      using assms(5) g by (simp add: handleGetRun_def pathID_def)
    have "run_text_ok r" using assms(6) lookup_row_Some [OF Some] by (auto simp: list_all_iff)
    from run_decodes [OF assms(1) this] have dec: "decode_struct False (run_info_fields tm) (read_back (run_json (sv_show sv) r)) zero_run_info = (None, run_info_of r)" .
    have "json_depth (run_json (sv_show sv) r) \<le> max_depth"
      using run_json_facts(2) [of "sv_show sv" r] by (simp add: max_depth_def)
    with api_get_run [where sv = sv, OF assms(3) h] dec
    have "do_request (api_transport sv) ''GET'' (''/runs/'' @ PathEscape i) None (run_info_fields tm) zero_run_info (d, k) =
        (Inr (run_info_of r), d, k)"
      by (intro do_answer [where sv = sv and c = 200 and v = "BRun r" and js = "run_json (sv_show sv) r"]) (simp_all add: run_json_facts)
    then show ?thesis using Some by (simp add: status_cmd_def)
  qed
qed

theorem status_shows_run_witness:
  "fst (status_cmd (api_transport (demo_api (demo_env 20 []))) demo_times [''R''] (demo_db 1, ())) =
     Inr [[''run'', ''R''], [''job'', ''J''], [''status'', ''QUEUED''], [''attempt'', ''1''], [''trigger'', ''manual''], [''scheduled'', ''2'']]"
proof -
  have t: "times_ok demo_times (sv_show (demo_api (demo_env 20 [])))" "sv_uuid (demo_api (demo_env 20 [])) ''R'' = Some ''R''"
    "plain_id ''R''" using demo_times_ok by (simp_all add: demo_api_def plain_id_def)
  have d: "demo_db 1 = \<lparr>jobs = [new_job_row ''J'' 1 (demo_new_job 1)], runs = [new_run_row ''R'' ''J'' 2 TriggerManual 2], logs = []\<rparr>"
    by (simp add: demo_db_eq)
  have "list_all run_text_ok (runs (demo_db 1))"
    by (simp add: d new_run_row_def run_text_ok_def opt_utf8_def valid_ascii int64_ok_def int64_min_def int64_max_def)
  from status_shows_run [OF t(1) demo_undisturbed t(3) demo_schema_ok t(2) this, of "()"]
  have s: "fst (status_cmd (api_transport (demo_api (demo_env 20 []))) demo_times [''R''] (demo_db 1, ())) =
      Inr (status_rows demo_times (run_info_of (new_run_row ''R'' ''J'' 2 TriggerManual 2)))"
    by (simp add: d new_run_row_def)
  have "itoa 1 = ''1''" "itoa 2 = ''2''" by code_simp+
  then show ?thesis unfolding s
    by (simp add: status_rows_def run_info_of_def new_run_row_def opt_row_def demo_times_def)
qed

section \<open>\<open>jobctl jobs\<close>\<close>

definition job_info_of :: "job \<Rightarrow> job_info" where
  "job_info_of j = \<lparr>ji_id = j_id j, ji_name = j_name j, ji_type = j_type j, ji_cron_expr = j_cron_expr j,
     ji_timezone = j_timezone j, ji_next_run_at = j_next_run_at j\<rparr>"

definition job_text_ok :: "job \<Rightarrow> bool" where
  "job_text_ok j \<longleftrightarrow> valid_utf8 (j_id j) \<and> valid_utf8 (j_name j) \<and> valid_utf8 (j_type j) \<and> opt_utf8 (j_cron_expr j)
     \<and> valid_utf8 (j_timezone j)
     \<and> (case parse_all (j_payload j) of Inl _ \<Rightarrow> False | Inr p \<Rightarrow> json_ok p \<and> json_depth p \<le> 9000)"

lemma job_names: "utf8_fix ''next_run_at'' = ''next_run_at''" "utf8_fix ''enabled'' = ''enabled''"
  "utf8_fix ''created_at'' = ''created_at''" "utf8_fix ''updated_at'' = ''updated_at''" "utf8_fix ''jobs'' = ''jobs''"
  by (simp_all add: utf8_fix_ascii)

lemma job_field:
  "find_field (job_info_fields tm) ''id'' = Some (set_string ''id'' (\<lambda>t j. j\<lparr>ji_id := t\<rparr>))"
  "find_field (job_info_fields tm) ''name'' = Some (set_string ''name'' (\<lambda>t j. j\<lparr>ji_name := t\<rparr>))"
  "find_field (job_info_fields tm) ''type'' = Some (set_string ''type'' (\<lambda>t j. j\<lparr>ji_type := t\<rparr>))"
  "find_field (job_info_fields tm) ''cron_expr'' = Some (set_ptr (\<lambda>x j. j\<lparr>ji_cron_expr := x\<rparr>) (set_string ''cron_expr''))"
  "find_field (job_info_fields tm) ''timezone'' = Some (set_string ''timezone'' (\<lambda>t j. j\<lparr>ji_timezone := t\<rparr>))"
  "find_field (job_info_fields tm) ''next_run_at'' =
     Some (set_ptr (\<lambda>x j. j\<lparr>ji_next_run_at := x\<rparr>) (set_time (tm_read tm) ''next_run_at''))"
  by (simp_all add: find_field_def job_info_fields_def)

lemma job_field_unknown:
  "k \<in> {''payload'', ''enabled'', ''max_retries'', ''timeout_sec'', ''created_at'', ''updated_at''} \<Longrightarrow>
     find_field (job_info_fields tm) k = None"
proof -
  have "upper_char CHR ''n'' \<noteq> upper_char CHR ''m''" "upper_char CHR ''n'' \<noteq> upper_char CHR ''t''" by code_simp+
  then have "fold_name ''next_run_at'' \<noteq> fold_name ''max_retries''" "fold_name ''next_run_at'' \<noteq> fold_name ''timeout_sec''"
    by (intro fold_first_differs; simp)+
  then show "k \<in> {''payload'', ''enabled'', ''max_retries'', ''timeout_sec'', ''created_at'', ''updated_at''} \<Longrightarrow> ?thesis"
    by (elim insertE emptyE) (simp_all add: find_field_def job_info_fields_def fold_name_differs)
qed

definition job_parts :: "(time \<Rightarrow> string) \<Rightarrow> json \<Rightarrow> job \<Rightarrow> ((string \<times> string \<times> json) list \<times> (job_info \<Rightarrow> job_info)) list" where
  "job_parts show p j =
     [([member ''id'' (JStr (j_id j))], \<lambda>x. x\<lparr>ji_id := j_id j\<rparr>),
      ([member ''name'' (JStr (j_name j))], \<lambda>x. x\<lparr>ji_name := j_name j\<rparr>),
      ([member ''type'' (JStr (j_type j))], \<lambda>x. x\<lparr>ji_type := j_type j\<rparr>),
      ([member ''payload'' p], \<lambda>x. x),
      (omit ''cron_expr'' JStr (j_cron_expr j), set_if (\<lambda>y x. x\<lparr>ji_cron_expr := y\<rparr>) (j_cron_expr j)),
      ([member ''timezone'' (JStr (j_timezone j))], \<lambda>x. x\<lparr>ji_timezone := j_timezone j\<rparr>),
      (omit ''next_run_at'' (time_json show) (j_next_run_at j), set_if (\<lambda>y x. x\<lparr>ji_next_run_at := y\<rparr>) (j_next_run_at j)),
      ([member ''enabled'' (JBool (j_enabled j))], \<lambda>x. x),
      ([member ''max_retries'' (json_int (j_max_retries j))], \<lambda>x. x),
      ([member ''timeout_sec'' (json_int (j_timeout_sec j))], \<lambda>x. x),
      ([member ''created_at'' (time_json show (j_created_at j))], \<lambda>x. x),
      ([member ''updated_at'' (time_json show (j_updated_at j))], \<lambda>x. x)]"

lemma job_parts_set:
  assumes "times_ok tm show" and "job_text_ok j"
  shows "list_all (\<lambda>(ms, f). sets_field False (job_info_fields tm) ms f) (job_parts show p j)"
proof -
  note ok = assms(2) [unfolded job_text_ok_def]
  note one = sets_field_one [of _ "job_info_fields tm"] and om = sets_field_omit [of _ "job_info_fields tm"]
  have skip: "sets_field False (job_info_fields tm) [member k v] (\<lambda>x. x)"
    if "k \<in> {''payload'', ''enabled'', ''max_retries'', ''timeout_sec'', ''created_at'', ''updated_at''}" for k v
    using job_field_unknown [OF that] that job_names create_names(2,4,5) by (intro sets_field_skip) auto
  have "sets_field False (job_info_fields tm) [member ''id'' (JStr (j_id j))] (\<lambda>x. x\<lparr>ji_id := j_id j\<rparr>)"
    "sets_field False (job_info_fields tm) [member ''name'' (JStr (j_name j))] (\<lambda>x. x\<lparr>ji_name := j_name j\<rparr>)"
    "sets_field False (job_info_fields tm) [member ''type'' (JStr (j_type j))] (\<lambda>x. x\<lparr>ji_type := j_type j\<rparr>)"
    "sets_field False (job_info_fields tm) [member ''timezone'' (JStr (j_timezone j))] (\<lambda>x. x\<lparr>ji_timezone := j_timezone j\<rparr>)"
    by (rule one [OF run_names(1) job_field(1)] one [OF create_names(3) job_field(2)] one [OF create_names(7) job_field(3)]
        one [OF create_names(6) job_field(5)]; rule set_string_valid; simp add: ok)+
  moreover have u: "opt_utf8 (j_cron_expr j)" by (simp add: ok)
  have "sets_field False (job_info_fields tm) (omit ''cron_expr'' JStr (j_cron_expr j)) (set_if (\<lambda>y x. x\<lparr>ji_cron_expr := y\<rparr>) (j_cron_expr j))"
    unfolding set_if_def by (rule om [OF create_names(1) job_field(4)]; rule set_opt_string [OF _ u]; assumption)
  moreover have "sets_field False (job_info_fields tm) (omit ''next_run_at'' (time_json show) (j_next_run_at j))
      (set_if (\<lambda>y x. x\<lparr>ji_next_run_at := y\<rparr>) (j_next_run_at j))"
    unfolding set_if_def by (rule om [OF job_names(1) job_field(6)]; rule set_opt_time [OF assms(1)])
  ultimately show ?thesis by (simp add: job_parts_def skip)
qed

lemma job_json_parts: "parse_all (j_payload j) = Inr p \<Longrightarrow> job_json show j = Some (JObj (concat (map fst (job_parts show p j))))"
  by (simp add: job_json_def job_parts_def)

definition job_value :: "(time \<Rightarrow> string) \<Rightarrow> job \<Rightarrow> json" where
  "job_value show j = the (job_json show j)"

lemma job_decodes:
  assumes "times_ok tm show" and "job_text_ok j"
  shows "job_json show j = Some (job_value show j)" and "json_ok (job_value show j)" and "json_depth (job_value show j) \<le> 9001"
    and "decode_struct False (job_info_fields tm) (read_back (job_value show j)) zero_job_info = (None, job_info_of j)"
proof -
  obtain p where p: "parse_all (j_payload j) = Inr p" "json_ok p" "json_depth p \<le> 9000"
    using assms(2) by (auto simp: job_text_ok_def split: sum.splits)
  let ?v = "JObj (concat (map fst (job_parts show p j)))"
  have v: "job_json show j = Some ?v" by (rule job_json_parts [OF p(1)])
  then have w: "job_value show j = ?v" by (simp add: job_value_def)
  with v show "job_json show j = Some (job_value show j)" by simp
  have "fold snd (job_parts show p j) zero_job_info = job_info_of j"
    by (simp add: job_parts_def set_if_def zero_job_info_def job_info_of_def split: option.split)
  then show "decode_struct False (job_info_fields tm) (read_back (job_value show j)) zero_job_info = (None, job_info_of j)"
    using decode_object [OF sets_field_concat [OF job_parts_set [OF assms, of p]], of zero_job_info] w by simp
  show "json_ok (job_value show j)" "json_depth (job_value show j) \<le> 9001"
    unfolding w using p(2,3) by (simp_all add: job_parts_def omit_def member_def time_json_def fold_max_le split: option.split)
qed

lemma all_some_map: "(\<And>x. x \<in> set xs \<Longrightarrow> f x = Some (g x)) \<Longrightarrow> all_some (map f xs) = Some (map g xs)"
  by (induction xs) simp_all

lemma jobs_decode:
  assumes "times_ok tm show" and "list_all job_text_ok js"
  defines "v \<equiv> JObj [member ''jobs'' (JArr (map (job_value show) js))]"
  shows "content_json show (BJobs js) = Some v" and "json_ok v" and "json_depth v \<le> max_depth"
    and "decode_struct False (jobs_fields tm) (read_back v) [] = (None, map job_info_of js)"
proof -
  note d = job_decodes [OF assms(1)]
  have ok: "job_text_ok j" if "j \<in> set js" for j using that assms(2) by (simp add: list_all_iff)
  show "content_json show (BJobs js) = Some v" using all_some_map [where f = "job_json show" and g = "job_value show" and xs = js, OF d(1) [OF ok]] by (simp add: v_def)
  show "json_ok v" using d(2) [OF ok] by (simp add: v_def member_def list_all_iff)
  have "list_all (\<lambda>n. n \<le> 9001) (map json_depth (map (job_value show) js))" using d(3) [OF ok] by (simp add: list_all_iff)
  then have "json_depth (JArr (map (job_value show) js)) \<le> 9002"
    using fold_max_le [of "map json_depth (map (job_value show) js)" 0 9001] by simp
  then show "json_depth v \<le> max_depth" by (simp add: v_def member_def fold_max_le max_depth_def del: json_depth.simps(1))
  have f: "find_field (jobs_fields tm) ''jobs'' = Some (set_list ''jobs'' (job_info_fields tm) zero_job_info (\<lambda>js _. js))"
    by (simp add: jobs_fields_def find_field_def)
  have "sets_field False (jobs_fields tm) [member ''jobs'' (JArr (map (job_value show) js))] (\<lambda>_. map job_info_of js)"
    by (rule sets_field_one [OF job_names(5) f]) (rule set_list_elems [OF d(4) [OF ok]])
  then show "decode_struct False (jobs_fields tm) (read_back v) [] = (None, map job_info_of js)"
    unfolding v_def by (rule decode_object)
qed

text \<open>\<open>jobctl jobs\<close> prints the newest two hundred jobs as they are stored.\<close>

theorem jobs_lists_jobs:
  assumes "times_ok tm (sv_show sv)" and "undisturbed sv d" and "list_all job_text_ok (jobs d)"
  shows "jobs_cmd (api_transport sv) tm (d, k) =
    (Inr ([''ID'', ''NAME'', ''SCHEDULE'', ''NEXT RUN'']
        # map (\<lambda>j. job_row tm (job_info_of j)) (order_limit (\<lambda>j. (- j_created_at j, j_id j)) 200 (jobs d))), d, k)"
proof -
  let ?js = "order_limit (\<lambda>j. (- j_created_at j, j_id j)) 200 (jobs d)"
  have q: "quiet (sv_env sv 0)" "e_others (sv_env sv 0) d = d" using assms(2) by (simp_all add: undisturbed_def)
  have "''200'' = itoa 200" by code_simp
  then have "atoi ''200'' = Some 200" using atoi_itoa [of 200] by (simp add: int64_min_def int64_max_def)
  moreover have "query_get ''limit=200'' ''limit'' = ''200''"
    using cut_at [of "CHR ''=''" "''limit''" "''200''"] by (simp add: query_get_def query_pair_def)
  ultimately have "queryInt \<lparr>h_id = [], h_query = query_get ''limit=200'', h_body = []\<rparr> ''limit'' 50 1 200 = Inr 200"
    by (simp add: queryInt_def)
  moreover have "ListJobs (sv_env sv 0) 200 d = (Inr ?js, d)"
    using q by (simp add: ListJobs_def)
  ultimately have "handleListJobs (sv_env sv 0) \<lparr>h_id = [], h_query = query_get ''limit=200'', h_body = []\<rparr> (fst (d, k)) =
      (writeJSON 200 (BJobs ?js), d)"
    by (simp add: handleListJobs_def)
  note req = api_list_jobs [where sv = sv, OF this]
  have "list_all job_text_ok ?js" using assms(3) set_order_limit [of "\<lambda>j. (- j_created_at j, j_id j)" 200 "jobs d"] by (auto simp: list_all_iff)
  note jd = jobs_decode [OF assms(1) this]
  have "do_request (api_transport sv) ''GET'' ''/jobs?limit=200'' None (jobs_fields tm) [] (d, k) = (Inr (map job_info_of ?js), d, k)"
    using req by (intro do_answer [where sv = sv and c = 200, OF _ _ jd]) simp_all
  then show ?thesis by (simp add: jobs_cmd_def comp_def)
qed

end
