(* ===== verification/JobctlSubmit.thy ===== *)
theory JobctlSubmit
  imports JobctlApi
begin

text \<open>
  \<open>jobctl create\<close> and \<open>jobctl run\<close> against the API's router, handlers and JSON: the row the command makes,
  what it prints, and how a refusal reads on the terminal.
\<close>

section \<open>\<open>jobctl create\<close>\<close>

text \<open>What \<open>create\<close> prints for a job: its id, and when it first runs if it has a schedule.\<close>

definition created_output :: "times \<Rightarrow> job \<Rightarrow> result" where
  "created_output tm j = \<lparr>o_out = [j_id j @ [newline]],
     o_err = (case (j_next_run_at j, j_cron_expr j) of
        (Some t, Some c) \<Rightarrow> [''scheduled '' @ go_quote c @ ''; first run at '' @ tm_date tm t @ [newline]] | _ \<Rightarrow> []),
     o_error = None\<rparr>"

lemma segment_plain: "CHR ''%'' \<notin> set s \<Longrightarrow> segment s = s"
proof -
  have "CHR ''%'' \<notin> set s \<Longrightarrow> unescape_url False s = Some s" by (induction s) auto
  then show "CHR ''%'' \<notin> set s \<Longrightarrow> segment s = s" by (simp add: segment_def)
qed

lemma create_reaches_handler:
  assumes "args_ok a" and "length (print_json (create_body a)) \<le> maxBodyBytes"
    and "newJob (sv_zones sv) (sv_now sv) (meant_request a) = Inl e"
  shows "handleCreateJob (sv_zones sv) (sv_now sv) (sv_env sv 0)
    \<lparr>h_id = [], h_query = query_get [], h_body = print_json (create_body a)\<rparr> d = (writeError 400 (error_text e), d)"
  using create_request_read [OF assms(1,2)] assms(3) by (simp add: handleCreateJob_def)

lemma accepted_schedule:
  assumes "acceptable z now n"
  shows "j_next_run_at (created e n p) \<noteq> None \<longleftrightarrow> j_cron_expr (created e n p) \<noteq> None"
proof (cases "n_cron_expr n")
  case (Some c)
  then have "map_sum id Some (NextRun z c (n_timezone n) now) = Inr (n_next_run_at n)" using assms by (simp add: acceptable_def)
  then have "n_next_run_at n \<noteq> None" by (cases "NextRun z c (n_timezone n) now") (simp_all, metis option.discI)
  with Some show ?thesis by (simp add: created_def new_job_row_def)
qed (use assms in \<open>simp add: acceptable_def created_def new_job_row_def\<close>)

lemma create_stored:
  assumes "times_ok tm (sv_show sv)" and "undisturbed sv d" and "args_ok a" and "ca_name a \<noteq> []"
    and "length (print_json (create_body a)) \<le> maxBodyBytes" and "find_job (e_uuids (sv_env sv 0) 0) d = None"
    and "newJob (sv_zones sv) (sv_now sv) (meant_request a) = x"
    and "case x of Inl e \<Rightarrow> valid_utf8 (error_text e) \<and> error_text e \<noteq> []
       | Inr n \<Rightarrow> CHR 0x00 \<notin> set (n_name n) \<and> e_jsonb (sv_env sv 0) (n_payload n) = Inr p \<and> job_text_ok (created (sv_env sv 0) n p)"
  shows "create (api_transport sv) tm a (d, k) =
    (case x of
       Inl e \<Rightarrow> (failed (ErrText (''POST /jobs: '' @ error_text e)), d, k)
     | Inr n \<Rightarrow> (created_output tm (created (sv_env sv 0) n p), d\<lparr>jobs := jobs d @ [created (sv_env sv 0) n p]\<rparr>, k))"
proof -
  let ?e = "sv_env sv 0" and ?b = "print_json (create_body a)"
  have q: "quiet ?e" "e_others ?e d = d" using assms(2) by (simp_all add: undisturbed_def)
  show ?thesis
  proof (cases x)
    case (Inl e)
    from create_reaches_handler [OF assms(3,5)] assms(7) Inl
    have "handleCreateJob (sv_zones sv) (sv_now sv) ?e \<lparr>h_id = [], h_query = query_get [], h_body = ?b\<rparr> (fst (d, k)) =
        (writeError 400 (error_text e), d)" by simp
    from api_create_job [where sv = sv, OF this]
    have "do_request (api_transport sv) ''POST'' ''/jobs'' (Some (create_body a)) (job_info_fields tm) zero_job_info (d, k) =
        (Inl (ErrText (''POST'' @ '' '' @ segment ''/jobs'' @ '': '' @ error_text e)), d, k)"
      using assms(8) Inl by (intro do_refused [where sv = sv and c = 400]) simp_all
    then show ?thesis using assms(4) Inl by (simp add: create_def segment_plain)
  next
    case (Inr n)
    let ?j = "created ?e n p"
    have n: "CHR 0x00 \<notin> set (n_name n)" "e_jsonb ?e (n_payload n) = Inr p" "job_text_ok ?j" using assms(8) Inr by simp_all
    have a: "acceptable (sv_zones sv) (sv_now sv) n" using assms(7) Inr by (intro newJob_acceptable) simp
    have "handleCreateJob (sv_zones sv) (sv_now sv) ?e \<lparr>h_id = [], h_query = query_get [], h_body = ?b\<rparr> (fst (d, k)) =
        (writeJSON 201 (BJob ?j), d\<lparr>jobs := jobs d @ [?j]\<rparr>)"
      using create_request_read [OF assms(3,5)] assms(7) Inr CreateJob_acceptable [OF a q assms(6)] n by (simp add: handleCreateJob_def)
    note req = api_create_job [where sv = sv, OF this]
    note jd = job_decodes [OF assms(1) n(3)]
    have "json_depth (job_value (sv_show sv) ?j) \<le> max_depth" using jd(3) by (simp add: max_depth_def)
    then have "do_request (api_transport sv) ''POST'' ''/jobs'' (Some (create_body a)) (job_info_fields tm) zero_job_info (d, k) =
        (Inr (job_info_of ?j), d\<lparr>jobs := jobs d @ [?j]\<rparr>, k)"
      using req jd by (intro do_answer [where sv = sv and c = 201 and v = "BJob ?j" and js = "job_value (sv_show sv) ?j"]) simp_all
    then show ?thesis
      using assms(4) Inr accepted_schedule [OF a, of ?e p]
      by (auto simp: create_def created_output_def job_info_of_def split: option.split)
  qed
qed

text \<open>
  \<open>jobctl create\<close> from the command line to the table: the request is one the API reads as it was
  meant; when the API's checks accept it, exactly one job is added, with the trimmed name, the payload
  the flags describe, the retries and timeout given or the defaults, and its id is printed; when they
  refuse it nothing changes and the command fails with their reason.
\<close>

theorem create_stores_job:
  assumes "times_ok tm (sv_show sv)" and "undisturbed sv d" and "args_ok a" and "ca_name a \<noteq> []"
    and "length (print_json (create_body a)) \<le> maxBodyBytes" and "find_job (e_uuids (sv_env sv 0) 0) d = None"
    and "newJob (sv_zones sv) (sv_now sv) (meant_request a) = x"
    and "case x of Inl e \<Rightarrow> valid_utf8 (error_text e) \<and> error_text e \<noteq> []
       | Inr n \<Rightarrow> CHR 0x00 \<notin> set (n_name n) \<and> e_jsonb (sv_env sv 0) (n_payload n) = Inr p \<and> job_text_ok (created (sv_env sv 0) n p)"
  shows "create (api_transport sv) tm a (d, k) =
    (case x of
       Inl e \<Rightarrow> (failed (ErrText (''POST /jobs: '' @ error_text e)), d, k)
     | Inr n \<Rightarrow> (created_output tm (created (sv_env sv 0) n p), d\<lparr>jobs := jobs d @ [created (sv_env sv 0) n p]\<rparr>, k))"
  by (rule create_stored [OF assms])

section \<open>\<open>jobctl run\<close>\<close>

lemma manual_run_text: "valid_utf8 (e_uuids e 0) \<Longrightarrow> valid_utf8 j \<Longrightarrow> run_text_ok (manual_run e j)"
  by (simp add: run_text_ok_def manual_run_def new_run_row_def opt_utf8_def int64_ok_def int64_min_def int64_max_def)

lemma segment_run_job: "segment (''/jobs/'' @ PathEscape i @ ''/run'') = ''/jobs/'' @ i @ ''/run''"
  by (simp add: segment_def unescape_append_escape)

lemma run_queued:
  assumes "times_ok tm (sv_show sv)" and "\<And>n. quiet (sv_env sv n)" and "\<And>n d. e_others (sv_env sv n) d = d" and "schema_ok d"
    and "plain_id i" and "sv_uuid sv i = Some j" and "find_job j d = Some jb" and "valid_utf8 j"
    and "valid_utf8 (e_uuids (sv_env sv 1) 0)" and "find_run (e_uuids (sv_env sv 1) 0) d = None"
    and "(j, e_clock (sv_env sv 1)) \<notin> occurrence ` set (runs d)"
    and "sv_write sv (dispatchMessage (e_uuids (sv_env sv 1) 0) j 1 (j_type jb)) k = (res, k')"
  shows "run_cmd (api_transport sv) tm False [i] (d, k) =
    (case res of
       None \<Rightarrow> (\<lparr>o_out = [e_uuids (sv_env sv 1) 0 @ [newline]], o_err = [], o_error = None\<rparr>,
         d\<lparr>runs := runs d @ [manual_run (sv_env sv 1) j]\<rparr>, k')
     | Some err \<Rightarrow> (failed (ErrText (''POST /jobs/'' @ i @ ''/run: could not dispatch run'')),
         d\<lparr>runs := runs d @
           [fail_queued_row (e_now (sv_env sv 2)) (''dispatch failed: '' @ error_text err) (manual_run (sv_env sv 1) j)]\<rparr>, k'))"
proof -
  let ?r = "manual_run (sv_env sv 1) j" and ?t = "''/jobs/'' @ PathEscape i @ ''/run''"
  let ?req = "\<lparr>h_id = i, h_query = query_get [], h_body = []\<rparr>"
  note h = handleRunJob_cases [of "(d, k)" "sv_env sv 0" "sv_env sv 1" "sv_env sv 2" "sv_uuid sv" ?req j jb "sv_write sv" res k',
      simplified fst_conv snd_conv request.simps, OF assms(4,2,2,2,3,3,3,6,7,10,11,12)]
  have id: "r_id ?r = e_uuids (sv_env sv 1) 0" by (simp add: manual_run_def new_run_row_def)
  show ?thesis
  proof (cases res)
    case None
    note req = api_run_job [where sv = sv and st = "(d, k)", OF assms(5) h [unfolded None option.case]]
    have "json_depth (run_json (sv_show sv) ?r) \<le> max_depth"
      using run_json_facts(2) [of "sv_show sv" ?r] by (simp add: max_depth_def)
    then have "do_request (api_transport sv) ''POST'' ?t None (run_info_fields tm) zero_run_info (d, k) =
        (Inr (run_info_of ?r), d\<lparr>runs := runs d @ [?r]\<rparr>, k')"
      using req run_decodes [OF assms(1) manual_run_text [OF assms(9,8)]]
      by (intro do_answer [where sv = sv and c = 202 and v = "BRun ?r" and js = "run_json (sv_show sv) ?r"]) (simp_all add: run_json_facts)
    then show ?thesis using None id by (simp add: run_cmd_def run_info_of_def)
  next
    case (Some err)
    note req = api_run_job [where sv = sv and st = "(d, k)", OF assms(5) h [unfolded Some option.case]]
    let ?d = "d\<lparr>runs := runs d @ [fail_queued_row (e_now (sv_env sv 2)) (''dispatch failed: '' @ error_text err) ?r]\<rparr>"
    have "do_request (api_transport sv) ''POST'' ?t None (run_info_fields tm) zero_run_info (d, k) =
        (Inl (ErrText (''POST'' @ '' '' @ segment ?t @ '': '' @ ''could not dispatch run'')), ?d, k')"
      using req by (intro do_refused [where sv = sv and c = 502]) (simp_all add: valid_ascii)
    then show ?thesis using Some by (simp only: run_cmd_def segment_run_job) simp
  qed
qed

text \<open>
  C27: \<open>jobctl run\<close> of a stored job queues one run for its first attempt, publishes it to the workers and
  prints its id; when the broker does not take the message, the run is stored as failed with the reason
  and the command fails with the API's error.
\<close>

theorem run_queues_run:
  assumes "times_ok tm (sv_show sv)" and "\<And>n. quiet (sv_env sv n)" and "\<And>n d. e_others (sv_env sv n) d = d" and "schema_ok d"
    and "plain_id i" and "sv_uuid sv i = Some j" and "find_job j d = Some jb" and "valid_utf8 j"
    and "valid_utf8 (e_uuids (sv_env sv 1) 0)" and "find_run (e_uuids (sv_env sv 1) 0) d = None"
    and "(j, e_clock (sv_env sv 1)) \<notin> occurrence ` set (runs d)"
    and "sv_write sv (dispatchMessage (e_uuids (sv_env sv 1) 0) j 1 (j_type jb)) k = (res, k')"
  shows "run_cmd (api_transport sv) tm False [i] (d, k) =
    (case res of
       None \<Rightarrow> (\<lparr>o_out = [e_uuids (sv_env sv 1) 0 @ [newline]], o_err = [], o_error = None\<rparr>,
         d\<lparr>runs := runs d @ [manual_run (sv_env sv 1) j]\<rparr>, k')
     | Some err \<Rightarrow> (failed (ErrText (''POST /jobs/'' @ i @ ''/run: could not dispatch run'')),
         d\<lparr>runs := runs d @
           [fail_queued_row (e_now (sv_env sv 2)) (''dispatch failed: '' @ error_text err) (manual_run (sv_env sv 1) j)]\<rparr>, k'))"
  by (rule run_queued [OF assms])

section \<open>Witnesses\<close>

definition demo_args :: create_args where
  "demo_args = \<lparr>ca_name = ''n'', ca_lines = 3, ca_prefix = [], ca_delay = 0, ca_fail_at = 0, ca_fail_attempts = 0,
     ca_cron = [], ca_tz = [], ca_max_retries = - 1, ca_timeout = 0\<rparr>"

definition demo_new :: new_job where
  "demo_new = \<lparr>n_name = ''n'', n_type = ''generate_text'', n_payload = print_json (create_payload demo_args), n_cron_expr = None,
     n_timezone = ''UTC'', n_next_run_at = None, n_max_retries = 3, n_timeout_sec = 300\<rparr>"

lemma demo_args_ok: "args_ok demo_args" "length (print_json (create_body demo_args)) \<le> maxBodyBytes"
proof -
  show "args_ok demo_args" by (simp add: demo_args_def args_ok_def int64_ok_def int64_min_def int64_max_def valid_ascii)
  have "escape ''n'' = ''n''" by (simp add: escape_plain esc_ascii_def)
  then show "length (print_json (create_body demo_args)) \<le> maxBodyBytes"
    by (simp add: demo_args_def create_body_def create_payload_def given_def nonzero_def member_def maxBodyBytes_def quote_def json_int_def
        itoa_def demo_escapes dec_digits.simps)
qed

lemma demo_new_job: "newJob cron_zones t (meant_request demo_args) = Inr demo_new"
proof -
  have f: "ca_name demo_args = ''n''" "ca_lines demo_args = 3" "ca_prefix demo_args = []" "ca_delay demo_args = 0" "ca_fail_at demo_args = 0"
    "ca_fail_attempts demo_args = 0" "ca_cron demo_args = []" "ca_tz demo_args = []" "ca_max_retries demo_args = - 1" "ca_timeout demo_args = 0"
    by (simp_all add: demo_args_def)
  define pay where "pay = print_json (create_payload demo_args)"
  have ne: "pay \<noteq> []" by (simp add: pay_def create_payload_def)
  have "validate (meant_payload demo_args) = None"
    by (simp add: meant_payload_def validate_def f maxLines_def maxDelayMs_def maxFailAttempts_def)
  then have p: "parseGenerateText pay = Inr (meant_payload demo_args)"
    using create_request_roundtrip [OF demo_args_ok] by (simp add: meant_request_def pay_def)
  have t: "TrimSpace ''n'' = ''n''" "TrimSpace [] = []"
    by (rule TrimSpace_id; simp add: space_seqs_def bytes_def char_of_eq_iff)+
  have "meant_request demo_args = \<lparr>cr_name = ''n'', cr_type = ''generate_text'', cr_payload = pay, cr_cron_expr = [], cr_timezone = [],
      cr_max_retries = None, cr_timeout_sec = None\<rparr>"
    by (simp add: meant_request_def f pay_def)
  then show ?thesis using p ne t
    by (simp add: newJob_def demo_new_def Validate_def TypeGenerateText_def ranged_def cron_zones_def defaultMaxRetries_def
        defaultTimeoutSec_def Let_def flip: pay_def)
qed

lemma demo_create_facts:
  "times_ok demo_times (sv_show (demo_api (demo_env 20 ''K'')))"
  "job_text_ok (created (demo_env 20 ''K'') demo_new (print_json (create_payload demo_args)))"
  "find_job (e_uuids (sv_env (demo_api (demo_env 20 ''K'')) 0) 0) (demo_db 1) = None"
  "newJob (sv_zones (demo_api (demo_env 20 ''K''))) (sv_now (demo_api (demo_env 20 ''K''))) (meant_request demo_args) = Inr demo_new"
  "ca_name demo_args \<noteq> []"
proof -
  show "times_ok demo_times (sv_show (demo_api (demo_env 20 ''K'')))" using demo_times_ok by (simp add: demo_api_def)
  have "json_depth (create_payload demo_args) \<le> max_depth" using create_json_ok(3) [of demo_args] by (simp add: max_depth_def)
  from parse_all_print [OF create_json_ok(1) this]
  have "parse_all (print_json (create_payload demo_args)) = Inr (read_back (create_payload demo_args))" .
  moreover have "json_ok (read_back (create_payload demo_args))" "json_depth (read_back (create_payload demo_args)) \<le> 9000"
    by (simp_all add: create_payload_def demo_args_def nonzero_def given_def member_def json_int_def exI [of "\<lambda>i. itoa 3 = itoa i" 3])
  ultimately show "job_text_ok (created (demo_env 20 ''K'') demo_new (print_json (create_payload demo_args)))"
    by (simp add: job_text_ok_def created_def new_job_row_def demo_env_def demo_new_def valid_ascii opt_utf8_def)
  show "find_job (e_uuids (sv_env (demo_api (demo_env 20 ''K'')) 0) 0) (demo_db 1) = None"
    by (simp add: demo_api_def demo_env_def demo_db_eq new_job_row_def)
  show "newJob (sv_zones (demo_api (demo_env 20 ''K''))) (sv_now (demo_api (demo_env 20 ''K''))) (meant_request demo_args) = Inr demo_new"
    using demo_new_job by (simp add: demo_api_def)
  show "ca_name demo_args \<noteq> []" by (simp add: demo_args_def)
qed

theorem create_stores_job_witness:
  "create (api_transport (demo_api (demo_env 20 ''K''))) demo_times demo_args (demo_db 1, ()) =
     (\<lparr>o_out = [''K'' @ [newline]], o_err = [], o_error = None\<rparr>,
      (demo_db 1)\<lparr>jobs := jobs (demo_db 1) @ [created (demo_env 20 ''K'') demo_new (print_json (create_payload demo_args))]\<rparr>, ())"
proof -
  note f = demo_create_facts
  from create_stores_job [OF f(1) demo_undisturbed demo_args_ok(1) f(5) demo_args_ok(2) f(3,4), of "print_json (create_payload demo_args)" "()"] f(2)
  show ?thesis by (simp add: demo_api_def demo_env_def demo_new_def created_output_def created_def new_job_row_def)
qed

theorem run_queues_run_witness:
  "fst (run_cmd (api_transport (demo_api (demo_env 20 ''S''))) demo_times False [''J''] (demo_db 1, ())) =
     \<lparr>o_out = [''S'' @ [newline]], o_err = [], o_error = None\<rparr>"
proof -
  let ?sv = "demo_api (demo_env 20 ''S'')"
  have t: "times_ok demo_times (sv_show ?sv)" "plain_id ''J''" "sv_uuid ?sv ''J'' = Some ''J''"
    using demo_times_ok by (simp_all add: demo_api_def plain_id_def)
  show ?thesis
    using run_queues_run [of demo_times ?sv "demo_db 1" "''J''" "''J''" "new_job_row ''J'' 1 (demo_new_job 1)" "()" None "()"] t demo_schema_ok [of 1]
    by (simp add: demo_api_def quiet_def demo_env_def demo_db_eq occurrence_def new_run_row_def new_job_row_def valid_ascii)
qed

end
