(* ===== verification/GoFlag.thy ===== *)
theory GoFlag
  imports Json
begin

text \<open>
  The package \<open>flag\<close> of Go's standard library as \<open>jobctl\<close> uses it: string, integer and boolean flags in
  their one- and two-word forms, with \<open>strconv.ParseInt\<close> in base 0 for the integers.
\<close>

section \<open>\<open>strconv.ParseInt(s, 0, 64)\<close>\<close>

datatype num_error = NumSyntax | NumRange

definition uint64_max :: nat where "uint64_max = 2 ^ 64 - 1"

definition lower_code :: "char \<Rightarrow> nat" where
  "lower_code c = (let n = of_char c in if 65 \<le> n \<and> n \<le> 90 then n + 32 else n)"

definition digit36 :: "char \<Rightarrow> nat option" where
  "digit36 c = (if is_digit c then Some (digit_val c)
     else if 97 \<le> lower_code c \<and> lower_code c \<le> 122 then Some (lower_code c - 87) else None)"

fun base_digits :: "nat \<Rightarrow> nat \<Rightarrow> string \<Rightarrow> num_error + nat" where
  "base_digits b n [] = Inr n"
| "base_digits b n (c # cs) =
     (if c = CHR ''_'' then base_digits b n cs
      else case digit36 c of None \<Rightarrow> Inl NumSyntax
        | Some d \<Rightarrow> if b \<le> d then Inl NumSyntax
                    else if uint64_max < n * b + d then Inl NumRange else base_digits b (n * b + d) cs)"

definition base0 :: "string \<Rightarrow> nat \<times> string" where
  "base0 s = (if hd s \<noteq> CHR ''0'' then (10, s)
     else if 3 \<le> length s \<and> lower_code (s ! 1) = 98 then (2, drop 2 s)
     else if 3 \<le> length s \<and> lower_code (s ! 1) = 111 then (8, drop 2 s)
     else if 3 \<le> length s \<and> lower_code (s ! 1) = 120 then (16, drop 2 s)
     else (8, tl s))"

text \<open>\<open>underscoreOK\<close>: the last character seen was a digit, an underscore, or neither.\<close>

datatype seen = SawStart | SawDigit | SawUnderscore | SawOther

fun underscore_scan :: "bool \<Rightarrow> seen \<Rightarrow> string \<Rightarrow> bool" where
  "underscore_scan hex saw [] = (saw \<noteq> SawUnderscore)"
| "underscore_scan hex saw (c # cs) =
     (if is_digit c \<or> hex \<and> 97 \<le> lower_code c \<and> lower_code c \<le> 102 then underscore_scan hex SawDigit cs
      else if c = CHR ''_'' then saw = SawDigit \<and> underscore_scan hex SawUnderscore cs
      else saw \<noteq> SawUnderscore \<and> underscore_scan hex SawOther cs)"

definition underscoreOK :: "string \<Rightarrow> bool" where
  "underscoreOK s =
     (if 2 \<le> length s \<and> hd s = CHR ''0'' \<and> lower_code (s ! 1) \<in> {98, 111, 120}
      then underscore_scan (lower_code (s ! 1) = 120) SawDigit (drop 2 s)
      else underscore_scan False SawStart s)"

definition ParseUint0 :: "string \<Rightarrow> num_error + nat" where
  "ParseUint0 s = (if s = [] then Inl NumSyntax
     else (let (b, ds) = base0 s in case base_digits b 0 ds of
        Inl e \<Rightarrow> Inl e
      | Inr n \<Rightarrow> if CHR ''_'' \<in> set ds \<and> \<not> underscoreOK s then Inl NumSyntax else Inr n))"

definition ParseInt0 :: "string \<Rightarrow> num_error + int" where
  "ParseInt0 s =
     (let neg = (s \<noteq> [] \<and> hd s = CHR ''-''); u = (if s \<noteq> [] \<and> hd s \<in> {CHR ''-'', CHR ''+''} then tl s else s) in
      case ParseUint0 u of
        Inl e \<Rightarrow> Inl e
      | Inr n \<Rightarrow> (let i = (if neg then - int n else int n) in
           if int64_min \<le> i \<and> i \<le> int64_max then Inr i else Inl NumRange))"

definition ParseBool :: "string \<Rightarrow> bool option" where
  "ParseBool s = (if s \<in> {''1'', ''t'', ''T'', ''true'', ''TRUE'', ''True''} then Some True
     else if s \<in> {''0'', ''f'', ''F'', ''false'', ''FALSE'', ''False''} then Some False else None)"

section \<open>\<open>FlagSet.Parse\<close>\<close>

datatype 's flag_value =
    FString "string \<Rightarrow> 's \<Rightarrow> 's"
  | FInt "int \<Rightarrow> 's \<Rightarrow> 's"
  | FBool "bool \<Rightarrow> 's \<Rightarrow> 's"

type_synonym 's flag_set = "(string \<times> 's flag_value) list"

datatype flag_stop = FlagHelp | FlagError string

fun num_error_text :: "num_error \<Rightarrow> string" where
  "num_error_text NumSyntax = ''parse error''"
| "num_error_text NumRange = ''value out of range''"

definition bad_value :: "string \<Rightarrow> string \<Rightarrow> string \<Rightarrow> flag_stop" where
  "bad_value t name why = FlagError (''invalid value '' @ go_quote t @ '' for flag -'' @ name @ '': '' @ why)"

fun set_flag :: "string \<Rightarrow> 's flag_value \<Rightarrow> string \<Rightarrow> 's \<Rightarrow> flag_stop + 's" where
  "set_flag name (FString f) t s = Inr (f t s)"
| "set_flag name (FInt f) t s = (case ParseInt0 t of Inl e \<Rightarrow> Inl (bad_value t name (num_error_text e)) | Inr i \<Rightarrow> Inr (f i s))"
| "set_flag name (FBool f) t s = (case ParseBool t of
     None \<Rightarrow> Inl (FlagError (''invalid boolean value '' @ go_quote t @ '' for -'' @ name @ '': parse error'')) | Some b \<Rightarrow> Inr (f b s))"

fun is_bool_flag :: "'s flag_value \<Rightarrow> bool" where
  "is_bool_flag (FBool f) = True"
| "is_bool_flag _ = False"

text \<open>A word \<open>name=value\<close>, split at the first equals sign after the first character.\<close>

definition flag_word :: "string \<Rightarrow> string \<times> string option" where
  "flag_word w = (if CHR ''='' \<in> set w then (takeWhile (\<lambda>c. c \<noteq> CHR ''='') w, Some (tl (dropWhile (\<lambda>c. c \<noteq> CHR ''='') w)))
     else (w, None))"

text \<open>The value of a flag: in its own word, a boolean's default, or the next argument.\<close>

definition flag_argument :: "string \<Rightarrow> 's flag_value \<Rightarrow> string option \<Rightarrow> string list \<Rightarrow> flag_stop + (string \<times> string list)" where
  "flag_argument name fv v rest = (case v of
     Some t \<Rightarrow> Inr (t, rest)
   | None \<Rightarrow> if is_bool_flag fv then Inr (''true'', rest)
      else (case rest of [] \<Rightarrow> Inl (FlagError (''flag needs an argument: -'' @ name)) | t # rest' \<Rightarrow> Inr (t, rest')))"

definition parse_one :: "'s flag_set \<Rightarrow> string \<Rightarrow> string list \<Rightarrow> 's \<Rightarrow> flag_stop + (string list \<times> 's)" where
  "parse_one fl w rest s =
     (let (name, v) = flag_word w in case map_of fl name of
        None \<Rightarrow> Inl (if name = ''help'' \<or> name = ''h'' then FlagHelp
                     else FlagError (''flag provided but not defined: -'' @ name))
      | Some fv \<Rightarrow> (case flag_argument name fv v rest of
          Inl e \<Rightarrow> Inl e
        | Inr (t, rest') \<Rightarrow> (case set_flag name fv t s of Inl e \<Rightarrow> Inl e | Inr s' \<Rightarrow> Inr (rest', s'))))"

lemma parse_one_shorter: "parse_one fl w rest s = Inr (rest', s') \<Longrightarrow> length rest' \<le> length rest"
  by (auto simp: parse_one_def flag_argument_def split: prod.splits option.splits sum.splits if_splits list.splits)

function parse_flags :: "'s flag_set \<Rightarrow> string list \<Rightarrow> 's \<Rightarrow> flag_stop + (string list \<times> 's)" where
  "parse_flags fl [] s = Inr ([], s)"
| "parse_flags fl (a # rest) s =
     (if length a < 2 \<or> hd a \<noteq> CHR ''-'' then Inr (a # rest, s)
      else if a = ''--'' then Inr (rest, s)
      else (let w = drop (if a ! 1 = CHR ''-'' then 2 else 1) a in
        if hd w \<in> {CHR ''-'', CHR ''=''} then Inl (FlagError (''bad flag syntax: '' @ a))
        else (case parse_one fl w rest s of Inl e \<Rightarrow> Inl e | Inr (rest', s') \<Rightarrow> parse_flags fl rest' s')))"
  by pat_completeness auto
termination
  by (relation "measure (\<lambda>(fl, args, s). length args)") (auto dest: parse_one_shorter)

section \<open>What is written is read back\<close>

lemma base_digits_append:
  "base_digits b n (xs @ ys) = (case base_digits b n xs of Inl e \<Rightarrow> Inl e | Inr m \<Rightarrow> base_digits b m ys)"
  by (induction b n xs rule: base_digits.induct) (simp_all split: option.split)

lemma digit36_char: "d < 10 \<Longrightarrow> digit36 (digit_char d) = Some d"
  by (simp add: digit36_def digit_char_digit)

lemma digit_not_underscore: "is_digit c \<Longrightarrow> c \<noteq> CHR ''_''"
  by (auto simp: is_digit_def)

lemma base_digits_dec: "n \<le> uint64_max \<Longrightarrow> base_digits 10 0 (dec_digits n) = Inr n"
proof (induction n rule: dec_digits.induct)
  case (1 n)
  have "n mod 10 < 10" by simp
  then have c: "digit_char (n mod 10) \<noteq> CHR ''_''" "digit36 (digit_char (n mod 10)) = Some (n mod 10)"
    using digit_not_underscore digit_char_digit digit36_char by blast+
  show ?case
  proof (cases "n < 10")
    case True
    then show ?thesis using 1(2) c by (subst dec_digits.simps) (simp add: not_less)
  next
    case False
    then have "base_digits 10 0 (dec_digits (n div 10)) = Inr (n div 10)" using 1 by simp
    then show ?thesis using False 1(2) c by (subst dec_digits.simps) (simp add: base_digits_append not_less)
  qed
qed

lemma dec_digits_leading: "0 < n \<Longrightarrow> hd (dec_digits n) \<noteq> CHR ''0''"
proof (induction n rule: dec_digits.induct)
  case (1 n)
  show ?case
  proof (cases "n < 10")
    case True
    have "digit_char n \<noteq> CHR ''0''"
    proof
      assume "digit_char n = CHR ''0''"
      then have "digit_val (digit_char n) = digit_val CHR ''0''" by simp
      with True 1(2) show False by (simp add: digit_char_digit) (simp add: digit_val_def)
    qed
    with True show ?thesis by (subst dec_digits.simps) simp
  next
    case False
    with 1 show ?thesis by (subst dec_digits.simps) simp
  qed
qed

lemma ParseUint0_dec: "n \<le> uint64_max \<Longrightarrow> ParseUint0 (dec_digits n) = Inr n"
proof (cases "n = 0")
  case True
  then show ?thesis
    by (simp add: dec_digits.simps digit_char_def ParseUint0_def base0_def char_of_eq_iff)
next
  case False
  assume n: "n \<le> uint64_max"
  have "CHR ''_'' \<notin> set (dec_digits n)" using dec_digits_all digit_not_underscore by blast
  then show ?thesis using False base_digits_dec [OF n] dec_digits_leading [of n] by (simp add: ParseUint0_def base0_def)
qed

lemma ParseInt0_itoa:
  assumes "int64_min \<le> i" and "i \<le> int64_max"
  shows "ParseInt0 (itoa i) = Inr i"
proof (cases "i < 0")
  case True
  then have "ParseUint0 (dec_digits (nat (- i))) = Inr (nat (- i))"
    using assms by (intro ParseUint0_dec) (simp add: int64_min_def uint64_max_def)
  with True assms show ?thesis by (simp add: ParseInt0_def itoa_def)
next
  case False
  then have "ParseUint0 (dec_digits (nat i)) = Inr (nat i)"
    using assms by (intro ParseUint0_dec) (simp add: int64_max_def uint64_max_def)
  moreover have "is_digit (hd (dec_digits (nat i)))" by (rule dec_digits_all [of _ "nat i"]) simp
  then have "hd (dec_digits (nat i)) \<noteq> CHR ''-''" "hd (dec_digits (nat i)) \<noteq> CHR ''+''" by (simp_all add: digit_not_sign)
  ultimately show ?thesis using False assms by (simp add: ParseInt0_def itoa_def)
qed

text \<open>A flag in its one-word form.\<close>

definition flag_form :: "string \<Rightarrow> string \<Rightarrow> string" where
  "flag_form name t = CHR ''-'' # name @ CHR ''='' # t"

lemma cut_word:
  "c \<notin> set a \<Longrightarrow> takeWhile (\<lambda>x. x \<noteq> c) (a @ c # b) = a \<and> dropWhile (\<lambda>x. x \<noteq> c) (a @ c # b) = c # b"
  by (induction a) auto

lemma parse_flag_form:
  assumes "map_of fl name = Some fv" and "set_flag name fv t s = Inr s'" and "CHR ''='' \<notin> set name" and "name \<noteq> []"
    and "hd name \<noteq> CHR ''-''"
  shows "parse_flags fl (flag_form name t # rest) s = parse_flags fl rest s'"
proof -
  have w: "flag_word (name @ CHR ''='' # t) = (name, Some t)"
    using cut_word [OF assms(3)] by (simp add: flag_word_def)
  obtain c cs where "name = c # cs" using assms(4) by (cases name) simp_all
  then have h: "flag_form name t ! 1 \<noteq> CHR ''-''" "hd (name @ CHR ''='' # t) \<noteq> CHR ''-''" "hd (name @ CHR ''='' # t) \<noteq> CHR ''=''"
    "flag_form name t \<noteq> ''--''" "\<not> length (flag_form name t) < 2" "hd (flag_form name t) = CHR ''-''"
    using assms(3,5) by (auto simp: flag_form_def)
  have "drop (if flag_form name t ! 1 = CHR ''-'' then 2 else 1) (flag_form name t) = name @ CHR ''='' # t"
    using h(1) by (simp add: flag_form_def)
  moreover have "parse_one fl (name @ CHR ''='' # t) rest s = Inr (rest, s')"
    using assms(1,2) w by (simp add: parse_one_def flag_argument_def)
  ultimately show ?thesis using h by (simp add: Let_def)
qed

end
