(* ===== verification/JobctlMain.thy ===== *)
theory JobctlMain
  imports JobctlSubmit GoFlag App
begin

text \<open>
  \<open>main\<close> of \<open>cmd/jobctl/main.go\<close> and the flags of its commands: from the words of the command line to the
  exit code. The list of flags the library prints after its own messages is left out.
\<close>

section \<open>Flags\<close>

definition create_flags :: "create_args flag_set" where
  "create_flags =
     [(''name'', FString (\<lambda>t a. a\<lparr>ca_name := t\<rparr>)),
      (''lines'', FInt (\<lambda>i a. a\<lparr>ca_lines := i\<rparr>)),
      (''prefix'', FString (\<lambda>t a. a\<lparr>ca_prefix := t\<rparr>)),
      (''delay-ms'', FInt (\<lambda>i a. a\<lparr>ca_delay := i\<rparr>)),
      (''fail-at'', FInt (\<lambda>i a. a\<lparr>ca_fail_at := i\<rparr>)),
      (''fail-attempts'', FInt (\<lambda>i a. a\<lparr>ca_fail_attempts := i\<rparr>)),
      (''cron'', FString (\<lambda>t a. a\<lparr>ca_cron := t\<rparr>)),
      (''tz'', FString (\<lambda>t a. a\<lparr>ca_tz := t\<rparr>)),
      (''max-retries'', FInt (\<lambda>i a. a\<lparr>ca_max_retries := i\<rparr>)),
      (''timeout'', FInt (\<lambda>i a. a\<lparr>ca_timeout := i\<rparr>))]"

definition create_defaults :: create_args where
  "create_defaults = \<lparr>ca_name = [], ca_lines = 10, ca_prefix = [], ca_delay = 0, ca_fail_at = 0, ca_fail_attempts = 0,
     ca_cron = [], ca_tz = [], ca_max_retries = -1, ca_timeout = 0\<rparr>"

definition follow_flags :: "bool flag_set" where
  "follow_flags = [(''f'', FBool (\<lambda>b _. b))]"

definition api_flags :: "string flag_set" where
  "api_flags = [(''api'', FString (\<lambda>t _. t))]"

section \<open>\<open>main\<close>\<close>

text \<open>The exit code, what is printed, and the rows of a table.\<close>

record outcome =
  x_code :: int
  x_out :: "string list"
  x_table :: "string list list"
  x_err :: "string list"

definition usage :: "string list" where
  "usage = map (\<lambda>l. l @ [newline])
     [''usage: jobctl [-api URL] <command> [flags] [args]'', [], ''commands:'',
      ''  jobs                      list jobs'',
      ''  create -name N [flags]    create a generate_text job (jobctl create -h for flags)'',
      ''  run [-f] <job-id>         trigger a run; -f follows its log'',
      ''  status <run-id>           show a run'',
      ''  logs [-f] <run-id>        print a run's log; -f follows it until the run ends'']"

text \<open>\<open>flag.ExitOnError\<close>: asking for help exits with 0, any other stop with 2.\<close>

fun flag_exit :: "string list \<Rightarrow> flag_stop \<Rightarrow> outcome" where
  "flag_exit u FlagHelp = \<lparr>x_code = 0, x_out = [], x_table = [], x_err = u\<rparr>"
| "flag_exit u (FlagError m) = \<lparr>x_code = 2, x_out = [], x_table = [], x_err = (m @ [newline]) # u\<rparr>"

definition usage_exit :: outcome where
  "usage_exit = \<lparr>x_code = 2, x_out = [], x_table = [], x_err = usage\<rparr>"

text \<open>A command has returned. The dereference of a nil pointer in \<open>create\<close> is a panic, which exits with 2.\<close>

definition nil_panic :: error where
  "nil_panic = ErrText ''panic: invalid memory address or nil pointer dereference''"

definition finish :: "result \<Rightarrow> outcome" where
  "finish r = \<lparr>x_code = (case o_error r of None \<Rightarrow> 0 | Some e \<Rightarrow> if e = nil_panic then 2 else 1),
     x_out = o_out r, x_table = [],
     x_err = o_err r @ (case o_error r of None \<Rightarrow> []
       | Some e \<Rightarrow> [(if e = nil_panic then [] else ''jobctl: '') @ error_text e @ [newline]])\<rparr>"

definition finish_table :: "string list list res \<Rightarrow> outcome" where
  "finish_table r = (case r of Inl e \<Rightarrow> finish (failed e) | Inr t \<Rightarrow> \<lparr>x_code = 0, x_out = [], x_table = t, x_err = []\<rparr>)"

definition TrimRight_slash :: "string \<Rightarrow> string" where
  "TrimRight_slash s = rev (dropWhile (\<lambda>c. c = CHR ''/'') (rev s))"

text \<open>One command, of its name and the words after it; \<open>None\<close> if \<open>logs\<close> pages forever.\<close>

definition command :: "'w transport \<Rightarrow> times \<Rightarrow> string \<Rightarrow> string list \<Rightarrow> 'w \<Rightarrow> (outcome \<times> 'w) option" where
  "command http tm cmd args w =
     (if cmd = ''jobs'' then Some (apfst finish_table (jobs_cmd http tm w))
      else if cmd = ''create'' then
        (case parse_flags create_flags args create_defaults of
           Inl st \<Rightarrow> Some (flag_exit [] st, w) | Inr (rest, a) \<Rightarrow> Some (apfst finish (create http tm a w)))
      else if cmd = ''run'' then
        (case parse_flags follow_flags args False of
           Inl st \<Rightarrow> Some (flag_exit [] st, w) | Inr (rest, f) \<Rightarrow> Some (apfst finish (run_cmd http tm f rest w)))
      else if cmd = ''status'' then Some (apfst finish_table (status_cmd http tm args w))
      else if cmd = ''logs'' then
        (case parse_flags follow_flags args False of
           Inl st \<Rightarrow> Some (flag_exit [] st, w) | Inr (rest, f) \<Rightarrow> map_option (apfst finish) (logs_cmd http tm f rest w))
      else Some (usage_exit, w))"

text \<open>The server a base address leads to is a parameter.\<close>

definition jobctl_main :: "environ \<Rightarrow> (string \<Rightarrow> 'w transport) \<Rightarrow> times \<Rightarrow> string list \<Rightarrow> 'w \<Rightarrow> (outcome \<times> 'w) option" where
  "jobctl_main os http tm args w =
     (case parse_flags api_flags args (Env os ''JOBSYS_API'' ''http://localhost:8080'') of
        Inl st \<Rightarrow> Some (flag_exit usage st, w)
      | Inr ([], base) \<Rightarrow> Some (usage_exit, w)
      | Inr (cmd # rest, base) \<Rightarrow> command (http (TrimRight_slash base)) tm cmd rest w)"

section \<open>The command line means what its flags say\<close>

definition create_words :: "create_args \<Rightarrow> string list" where
  "create_words a =
     [flag_form ''name'' (ca_name a), flag_form ''lines'' (itoa (ca_lines a)), flag_form ''prefix'' (ca_prefix a),
      flag_form ''delay-ms'' (itoa (ca_delay a)), flag_form ''fail-at'' (itoa (ca_fail_at a)),
      flag_form ''fail-attempts'' (itoa (ca_fail_attempts a)), flag_form ''cron'' (ca_cron a), flag_form ''tz'' (ca_tz a),
      flag_form ''max-retries'' (itoa (ca_max_retries a)), flag_form ''timeout'' (itoa (ca_timeout a))]"

lemma set_flag_itoa: "int64_ok i \<Longrightarrow> set_flag name (FInt f) (itoa i) s = Inr (f i s)"
  by (simp add: ParseInt0_itoa int64_ok_def)

lemma create_lookups:
  "map_of create_flags ''name'' = Some (FString (\<lambda>t a. a\<lparr>ca_name := t\<rparr>))"
  "map_of create_flags ''lines'' = Some (FInt (\<lambda>i a. a\<lparr>ca_lines := i\<rparr>))"
  "map_of create_flags ''prefix'' = Some (FString (\<lambda>t a. a\<lparr>ca_prefix := t\<rparr>))"
  "map_of create_flags ''delay-ms'' = Some (FInt (\<lambda>i a. a\<lparr>ca_delay := i\<rparr>))"
  "map_of create_flags ''fail-at'' = Some (FInt (\<lambda>i a. a\<lparr>ca_fail_at := i\<rparr>))"
  "map_of create_flags ''fail-attempts'' = Some (FInt (\<lambda>i a. a\<lparr>ca_fail_attempts := i\<rparr>))"
  "map_of create_flags ''cron'' = Some (FString (\<lambda>t a. a\<lparr>ca_cron := t\<rparr>))"
  "map_of create_flags ''tz'' = Some (FString (\<lambda>t a. a\<lparr>ca_tz := t\<rparr>))"
  "map_of create_flags ''max-retries'' = Some (FInt (\<lambda>i a. a\<lparr>ca_max_retries := i\<rparr>))"
  "map_of create_flags ''timeout'' = Some (FInt (\<lambda>i a. a\<lparr>ca_timeout := i\<rparr>))"
  by (simp_all add: create_flags_def)

lemma create_words_read:
  assumes "args_ok a"
  shows "parse_flags create_flags (create_words a @ rest) create_defaults = parse_flags create_flags rest a"
proof -
  have i: "int64_ok (ca_lines a)" "int64_ok (ca_delay a)" "int64_ok (ca_fail_at a)" "int64_ok (ca_fail_attempts a)"
    "int64_ok (ca_max_retries a)" "int64_ok (ca_timeout a)"
    using assms by (simp_all add: args_ok_def)
  have str: "parse_flags create_flags (flag_form n t # ws) s = parse_flags create_flags ws (f t s)"
    if "map_of create_flags n = Some (FString f)" "CHR ''='' \<notin> set n" "n \<noteq> []" "hd n \<noteq> CHR ''-''" for n t ws f s
    using parse_flag_form [OF that(1) _ that(2,3,4), of t s "f t s" ws] by simp
  have int: "parse_flags create_flags (flag_form n (itoa v) # ws) s = parse_flags create_flags ws (f v s)"
    if "map_of create_flags n = Some (FInt f)" "CHR ''='' \<notin> set n" "n \<noteq> []" "hd n \<noteq> CHR ''-''" "int64_ok v" for n v ws f s
    by (rule parse_flag_form [OF that(1) set_flag_itoa [OF that(5)] that(2,3,4)])
  have eta: "\<lparr>ca_name = ca_name a, ca_lines = ca_lines a, ca_prefix = ca_prefix a, ca_delay = ca_delay a,
      ca_fail_at = ca_fail_at a, ca_fail_attempts = ca_fail_attempts a, ca_cron = ca_cron a, ca_tz = ca_tz a,
      ca_max_retries = ca_max_retries a, ca_timeout = ca_timeout a\<rparr> = a" by (cases a) simp
  show ?thesis
    unfolding create_words_def append_Cons append_Nil
    by (simp add: eta create_lookups(1,3,7,8) [THEN str] create_lookups(2,4,5,6,9,10) [THEN int] i create_defaults_def del: parse_flags.simps)
qed

lemma create_words_parsed:
  assumes "args_ok a"
  shows "parse_flags create_flags (create_words a) create_defaults = Inr ([], a)"
  using create_words_read [OF assms, of "[]"] by simp

lemma api_word: "parse_flags api_flags (flag_form ''api'' url # ''create'' # ws) base = Inr (''create'' # ws, url)"
proof -
  have "map_of api_flags ''api'' = Some (FString (\<lambda>t _. t))" by (simp add: api_flags_def)
  from parse_flag_form [OF this, of url base url "''create'' # ws"] show ?thesis by simp
qed

lemma main_create:
  "jobctl_main os http tm (flag_form ''api'' url # ''create'' # ws) w = command (http (TrimRight_slash url)) tm ''create'' ws w"
  by (simp only: jobctl_main_def api_word sum.case prod.case list.case)

text \<open>
  Which flags the API's checks accept, and the row they describe: \<open>i\<close> its id, \<open>t\<close> the time of the insert,
  \<open>now\<close> the API's clock, \<open>p\<close> what the \<open>jsonb\<close> column keeps of the payload. Both are written from the usage
  text and the handlers' documentation, apart from the maps the client builds and the API reads.
\<close>

definition zone_of :: "create_args \<Rightarrow> string" where
  "zone_of a = (if ca_tz a = [] then ''UTC'' else ca_tz a)"

definition flags_accepted :: "('loc, 'sched) zones \<Rightarrow> time \<Rightarrow> create_args \<Rightarrow> bool" where
  "flags_accepted z now a \<longleftrightarrow> TrimSpace (ca_name a) \<noteq> []
     \<and> 1 \<le> ca_lines a \<and> ca_lines a \<le> 100000 \<and> 0 \<le> ca_delay a \<and> ca_delay a \<le> 10000
     \<and> 0 \<le> ca_fail_at a \<and> ca_fail_at a \<le> ca_lines a \<and> 0 \<le> ca_fail_attempts a \<and> ca_fail_attempts a \<le> 10
     \<and> zone_of a \<noteq> ''Local'' \<and> (\<exists>loc. z_load z (zone_of a) = Inr loc)
     \<and> (TrimSpace (ca_cron a) = [] \<or> (\<exists>t. NextRun z (TrimSpace (ca_cron a)) (zone_of a) now = Inr t))
     \<and> ca_max_retries a \<le> 10 \<and> ca_timeout a \<le> 86400"

definition meant_job :: "('loc, 'sched) zones \<Rightarrow> time \<Rightarrow> uuid \<Rightarrow> time \<Rightarrow> string \<Rightarrow> create_args \<Rightarrow> job" where
  "meant_job z now i t p a = (let c = TrimSpace (ca_cron a) in
     \<lparr>j_id = i, j_name = TrimSpace (ca_name a), j_type = ''generate_text'', j_payload = p,
      j_cron_expr = (if c = [] then None else Some c), j_timezone = zone_of a,
      j_next_run_at = (if c = [] then None else case NextRun z c (zone_of a) now of Inl _ \<Rightarrow> None | Inr u \<Rightarrow> Some u),
      j_enabled = True, j_max_retries = (if ca_max_retries a < 0 then 3 else ca_max_retries a),
      j_timeout_sec = (if ca_timeout a \<le> 0 then 300 else ca_timeout a), j_created_at = t, j_updated_at = t\<rparr>)"

lemma validate_meant:
  "validate (meant_payload a) = None \<longleftrightarrow> 1 \<le> ca_lines a \<and> ca_lines a \<le> 100000 \<and> 0 \<le> ca_delay a \<and> ca_delay a \<le> 10000
     \<and> 0 \<le> ca_fail_at a \<and> ca_fail_at a \<le> ca_lines a \<and> 0 \<le> ca_fail_attempts a \<and> ca_fail_attempts a \<le> 10"
  by (auto simp: validate_def meant_payload_def maxLines_def maxDelayMs_def maxFailAttempts_def)

lemma newJob_meant_eq:
  assumes "args_ok a" and "length (print_json (create_body a)) \<le> maxBodyBytes"
  shows "newJob z now (meant_request a) =
    (if TrimSpace (ca_name a) = [] then Inl (ErrText ''name is required'')
     else case validate (meant_payload a) of Some e \<Rightarrow> Inl e | None \<Rightarrow>
     if (case z_load z (zone_of a) of Inl _ \<Rightarrow> True | Inr _ \<Rightarrow> False) \<or> zone_of a = ''Local'' then Inl (unknown_timezone (zone_of a))
     else case (if TrimSpace (ca_cron a) = [] then Inr (None, None)
                else case NextRun z (TrimSpace (ca_cron a)) (zone_of a) now of Inl e \<Rightarrow> Inl e | Inr t \<Rightarrow> Inr (Some (TrimSpace (ca_cron a)), Some t)) of
       Inl e \<Rightarrow> Inl e
     | Inr (cron, next) \<Rightarrow>
         if 10 < ca_max_retries a then Inl (ErrText ''max_retries must be between 0 and 10'')
         else if 86400 < ca_timeout a then Inl (ErrText ''timeout_sec must be between 1 and 86400'')
         else Inr \<lparr>n_name = TrimSpace (ca_name a), n_type = ''generate_text'', n_payload = print_json (create_payload a), n_cron_expr = cron,
                n_timezone = zone_of a, n_next_run_at = next, n_max_retries = (if ca_max_retries a < 0 then 3 else ca_max_retries a),
                n_timeout_sec = (if ca_timeout a \<le> 0 then 300 else ca_timeout a)\<rparr>)"
proof -
  have "parseGenerateText (print_json (create_payload a)) =
      (case validate (meant_payload a) of Some e \<Rightarrow> Inl e | None \<Rightarrow> Inr (meant_payload a))"
    using create_request_roundtrip [OF assms] by (simp add: meant_request_def)
  then have v: "Validate ''generate_text'' (print_json (create_payload a)) = validate (meant_payload a)"
    by (simp add: Validate_def TypeGenerateText_def split: option.split)
  have ne: "print_json (create_payload a) \<noteq> []" by (simp add: create_payload_def)
  have m: "ranged ''max_retries'' 0 maxMaxRetries defaultMaxRetries (if ca_max_retries a \<ge> 0 then Some (ca_max_retries a) else None) =
      (if 10 < ca_max_retries a then Inl (ErrText ''max_retries must be between 0 and 10'')
       else Inr (if ca_max_retries a < 0 then 3 else ca_max_retries a))"
    by (simp add: ranged_def maxMaxRetries_def defaultMaxRetries_def itoa_def dec_digits.simps digit_char_def char_of_eq_iff)
  have t: "ranged ''timeout_sec'' 1 maxTimeoutSec defaultTimeoutSec (if ca_timeout a > 0 then Some (ca_timeout a) else None) =
      (if 86400 < ca_timeout a then Inl (ErrText ''timeout_sec must be between 1 and 86400'')
       else Inr (if ca_timeout a \<le> 0 then 300 else ca_timeout a))"
    by (simp add: ranged_def maxTimeoutSec_def defaultTimeoutSec_def itoa_def dec_digits.simps digit_char_def char_of_eq_iff)
  show ?thesis
    unfolding newJob_def Let_def
    by (simp only: meant_request_def create_request.simps v ne m t zone_of_def [symmetric] if_False)
       (simp only: if_distrib [of "case_sum _ _"] sum.case cong: if_cong sum.case_cong option.case_cong)
qed

lemma newJob_accepts:
  assumes "args_ok a" and "length (print_json (create_body a)) \<le> maxBodyBytes" and "flags_accepted z now a"
  shows "\<exists>n. newJob z now (meant_request a) = Inr n \<and> n_name n = TrimSpace (ca_name a)
     \<and> n_payload n = print_json (create_payload a) \<and> created e n p = meant_job z now (e_uuids e 0) (e_now e) p a"
proof -
  note f = assms(3) [unfolded flags_accepted_def]
  have v: "validate (meant_payload a) = None" unfolding validate_meant using f by simp
  obtain loc where loc: "z_load z (zone_of a) = Inr loc" using f by blast
  have r: "TrimSpace (ca_name a) \<noteq> []" "zone_of a \<noteq> ''Local''" "\<not> 10 < ca_max_retries a" "\<not> 86400 < ca_timeout a" using f by simp_all
  note e = newJob_meant_eq [OF assms(1,2), of z now] created_def new_job_row_def meant_job_def Let_def
  show ?thesis
  proof (cases "TrimSpace (ca_cron a) = []")
    case True
    then show ?thesis by (simp add: e v loc r)
  next
    case False
    then obtain t where "NextRun z (TrimSpace (ca_cron a)) (zone_of a) now = Inr t" using f by blast
    with False show ?thesis by (simp add: e v loc r)
  qed
qed

lemma newJob_refuses:
  assumes "args_ok a" and "length (print_json (create_body a)) \<le> maxBodyBytes" and "\<not> flags_accepted z now a"
  shows "\<exists>err. newJob z now (meant_request a) = Inl err"
proof (rule ccontr)
  assume "\<not> (\<exists>err. newJob z now (meant_request a) = Inl err)"
  then obtain n where n: "newJob z now (meant_request a) = Inr n" by (cases "newJob z now (meant_request a)") simp_all
  note e = n [unfolded newJob_meant_eq [OF assms(1,2), of z now]]
  have nm: "TrimSpace (ca_name a) \<noteq> []" using e by (simp split: if_splits)
  have v: "validate (meant_payload a) = None" using e nm by (cases "validate (meant_payload a)") simp_all
  obtain loc where loc: "z_load z (zone_of a) = Inr loc" using e nm v by (cases "z_load z (zone_of a)") simp_all
  have l: "zone_of a \<noteq> ''Local''" using e nm v by (simp split: if_splits)
  let ?c = "if TrimSpace (ca_cron a) = [] then Inr (None, None)
    else case NextRun z (TrimSpace (ca_cron a)) (zone_of a) now of Inl e \<Rightarrow> Inl e | Inr t \<Rightarrow> Inr (Some (TrimSpace (ca_cron a)), Some t)"
  obtain x where x: "?c = Inr x" using e nm v loc l by (cases ?c) simp_all
  have c: "TrimSpace (ca_cron a) = [] \<or> (\<exists>t. NextRun z (TrimSpace (ca_cron a)) (zone_of a) now = Inr t)"
    using x by (cases "NextRun z (TrimSpace (ca_cron a)) (zone_of a) now") (simp_all split: if_splits)
  have "ca_max_retries a \<le> 10 \<and> ca_timeout a \<le> 86400"
    using e [unfolded x] nm v loc l by (cases x) (simp split: if_splits)
  with nm v loc l c assms(3) show False unfolding flags_accepted_def validate_meant by blast
qed

lemma main_create_stored:
  assumes "times_ok tm (sv_show sv)" and "undisturbed sv d" and "args_ok a" and "ca_name a \<noteq> []"
    and "length (print_json (create_body a)) \<le> maxBodyBytes" and "find_job (e_uuids (sv_env sv 0) 0) d = None"
    and "newJob (sv_zones sv) (sv_now sv) (meant_request a) = x"
    and "case x of Inl e \<Rightarrow> valid_utf8 (error_text e) \<and> error_text e \<noteq> []
       | Inr n \<Rightarrow> CHR 0x00 \<notin> set (n_name n) \<and> e_jsonb (sv_env sv 0) (n_payload n) = Inr p \<and> job_text_ok (created (sv_env sv 0) n p)"
    and "http (TrimRight_slash url) = api_transport sv"
  shows "jobctl_main os http tm (flag_form ''api'' url # ''create'' # create_words a) (d, k) = Some (case x of
       Inl e \<Rightarrow> (\<lparr>x_code = 1, x_out = [], x_table = [], x_err = [''jobctl: POST /jobs: '' @ error_text e @ [newline]]\<rparr>, d, k)
     | Inr n \<Rightarrow> (\<lparr>x_code = 0, x_out = [e_uuids (sv_env sv 0) 0 @ [newline]], x_table = [],
          x_err = o_err (created_output tm (created (sv_env sv 0) n p))\<rparr>,
         d\<lparr>jobs := jobs d @ [created (sv_env sv 0) n p]\<rparr>, k))"
proof -
  have m: "jobctl_main os http tm (flag_form ''api'' url # ''create'' # create_words a) (d, k) =
      Some (apfst finish (create (api_transport sv) tm a (d, k)))"
    by (simp add: main_create command_def create_words_parsed [OF assms(3)] assms(9))
  show ?thesis
    unfolding m create_stored [OF assms(1-8)]
    by (simp add: finish_def failed_def created_output_def created_def new_job_row_def nil_panic_def split: sum.split)
qed

text \<open>
  C26: \<open>jobctl -api=URL create\<close> from the words of the command line to the row of the table. When the flags
  pass the API's checks, exactly one row is added, every column of it as the flags say (with the
  defaults of the flags left out), its payload one a worker reads as the lines, the prefix, the pause
  and the failures asked for; its id is printed, with the first run of a schedule, and the exit code
  is 0. When they do not, nothing is stored, the reason goes to standard error, and the exit code is 1.
  The documented behaviour of \<open>jsonb\<close> it relies on: what is kept of the payload decodes to the same
  values. A name without a zero byte is asked for (Postgres cannot store one), and a row whose texts
  and times the API can print.
\<close>

theorem jobctl_create_stores_job:
  assumes "times_ok tm (sv_show sv)" and "undisturbed sv d" and "args_ok a" and "ca_name a \<noteq> []"
    and "length (print_json (create_body a)) \<le> maxBodyBytes" and "find_job (e_uuids (sv_env sv 0) 0) d = None"
    and "e_jsonb (sv_env sv 0) (print_json (create_payload a)) = Inr p"
    and "parseGenerateText p = parseGenerateText (print_json (create_payload a))"
    and "j = meant_job (sv_zones sv) (sv_now sv) (e_uuids (sv_env sv 0) 0) (e_now (sv_env sv 0)) p a"
    and "CHR 0x00 \<notin> set (j_name j)" and "job_text_ok j"
    and "\<And>err. newJob (sv_zones sv) (sv_now sv) (meant_request a) = Inl err \<Longrightarrow> valid_utf8 (error_text err) \<and> error_text err \<noteq> []"
    and "http (TrimRight_slash url) = api_transport sv"
  shows "if flags_accepted (sv_zones sv) (sv_now sv) a
    then jobctl_main os http tm (flag_form ''api'' url # ''create'' # create_words a) (d, k) =
        Some (\<lparr>x_code = 0, x_out = [j_id j @ [newline]], x_table = [], x_err = (case (j_next_run_at j, j_cron_expr j) of
           (Some t, Some c) \<Rightarrow> [''scheduled '' @ go_quote c @ ''; first run at '' @ tm_date tm t @ [newline]] | _ \<Rightarrow> [])\<rparr>,
         d\<lparr>jobs := jobs d @ [j]\<rparr>, k)
      \<and> parseGenerateText (j_payload j) = Inr \<lparr>p_lines = ca_lines a, p_prefix = ca_prefix a, p_delay_ms = ca_delay a,
          p_fail_at = ca_fail_at a, p_fail_attempts = ca_fail_attempts a\<rparr>
    else \<exists>err. newJob (sv_zones sv) (sv_now sv) (meant_request a) = Inl err
      \<and> jobctl_main os http tm (flag_form ''api'' url # ''create'' # create_words a) (d, k) =
          Some (\<lparr>x_code = 1, x_out = [], x_table = [], x_err = [''jobctl: POST /jobs: '' @ error_text err @ [newline]]\<rparr>, d, k)"
proof (cases "flags_accepted (sv_zones sv) (sv_now sv) a")
  case True
  from newJob_accepts [OF assms(3,5) True, of "sv_env sv 0" p] obtain n
    where n: "newJob (sv_zones sv) (sv_now sv) (meant_request a) = Inr n" "n_name n = TrimSpace (ca_name a)"
      "n_payload n = print_json (create_payload a)" "created (sv_env sv 0) n p = j"
    using assms(9) by blast
  have nm: "j_name j = TrimSpace (ca_name a)" by (simp add: assms(9) meant_job_def Let_def)
  have i: "j_id j = e_uuids (sv_env sv 0) 0" "j_payload j = p" by (simp_all add: assms(9) meant_job_def Let_def)
  from True have "validate (meant_payload a) = None" unfolding validate_meant flags_accepted_def by simp
  then have "parseGenerateText (j_payload j) = Inr (meant_payload a)"
    using create_request_roundtrip [OF assms(3,5)] by (simp add: i assms(8) meant_request_def)
  moreover from main_create_stored [OF assms(1-6) n(1), of p http url os k] assms(7,10,11,13) n
  have "jobctl_main os http tm (flag_form ''api'' url # ''create'' # create_words a) (d, k) =
      Some (\<lparr>x_code = 0, x_out = [j_id j @ [newline]], x_table = [], x_err = o_err (created_output tm j)\<rparr>, d\<lparr>jobs := jobs d @ [j]\<rparr>, k)"
    by (simp add: nm i)
  ultimately show ?thesis using True by (simp add: created_output_def meant_payload_def)
next
  case False
  from newJob_refuses [OF assms(3,5) False] obtain err where e: "newJob (sv_zones sv) (sv_now sv) (meant_request a) = Inl err" by blast
  from main_create_stored [OF assms(1-6) e, of p http url os k] assms(12) [OF e] assms(13) False e show ?thesis by simp
qed

section \<open>Exit codes and what is sent\<close>

text \<open>A transport that keeps a record of the requests made through it, with their answers.\<close>

type_synonym sent = "((string \<times> string) \<times> http_response res) list"

definition recorded :: "'w transport \<Rightarrow> ('w \<times> sent) transport" where
  "recorded http m path body wl = (case http m path body (fst wl) of (x, w') \<Rightarrow> (x, w', snd wl @ [((m, path), x)]))"

definition posts :: "sent \<Rightarrow> (string \<times> string) list" where
  "posts l = map fst (filter (\<lambda>(q, x). fst q \<noteq> ''GET'') l)"

text \<open>
  What a command did: requests were sent, the ones that are no reading among them are \<open>ps\<close>, and the first
  answer that is a failure is the error the command returns.
\<close>

definition told :: "(string \<times> string) list \<Rightarrow> sent \<Rightarrow> sent \<Rightarrow> error option \<Rightarrow> bool" where
  "told ps l l' err \<longleftrightarrow> (\<exists>new. l' = l @ new \<and> new \<noteq> [] \<and> posts new = ps
     \<and> (\<forall>q x e. (q, x) \<in> set new \<and> check_status x = Inl e \<longrightarrow> err = Some e))"

lemma told_one: "m \<noteq> ''GET'' \<Longrightarrow> (\<And>e. check_status x = Inl e \<Longrightarrow> err = Some e) \<Longrightarrow> told [(m, path)] l (l @ [((m, path), x)]) err"
  and told_get: "(\<And>e. check_status x = Inl e \<Longrightarrow> err = Some e) \<Longrightarrow> told [] l (l @ [((''GET'', path), x)]) err"
  by (simp_all add: told_def posts_def)

lemma told_more:
  assumes "told ps l l1 None" and "told qs l1 l2 err"
  shows "told (ps @ qs) l l2 err"
proof -
  obtain new where n: "l1 = l @ new" "new \<noteq> []" "posts new = ps" "\<forall>q x e. (q, x) \<in> set new \<and> check_status x = Inl e \<longrightarrow> None = Some e"
    using assms(1) unfolding told_def by blast
  obtain new' where n': "l2 = l1 @ new'" "posts new' = qs" "\<forall>q x e. (q, x) \<in> set new' \<and> check_status x = Inl e \<longrightarrow> err = Some e"
    using assms(2) unfolding told_def by blast
  have "l2 = l @ (new @ new')" "new @ new' \<noteq> []" "posts (new @ new') = ps @ qs" using n n' by (simp_all add: posts_def)
  moreover have "err = Some e" if "(q, x) \<in> set (new @ new')" "check_status x = Inl e" for q x e
    using that n(4) n'(3) by (metis Un_iff option.discI set_append)
  ultimately show ?thesis unfolding told_def by blast
qed

lemma do_request_told:
  assumes "do_request (recorded http) m path body fds zero (w, l) = (v, w', l')"
  shows "told (if m = ''GET'' then [] else [(m, path)]) l l' (case v of Inl e \<Rightarrow> Some e | Inr _ \<Rightarrow> None)"
proof -
  obtain x u where x: "http m path (map_option print_json body) w = (x, u)" by fastforce
  then have l: "l' = l @ [((m, path), x)]" and e: "check_status x = Inl e \<Longrightarrow> v = Inl e" for e
    using assms by (auto simp: do_request_def recorded_def)
  show ?thesis unfolding l by (cases "m = ''GET''") (simp_all add: told_one told_get e)
qed

lemma follow_told:
  assumes "follow (recorded http) tm i (w, l) = (r, w', l')"
  shows "told [] l l' (o_error r)"
proof -
  let ?p = "''/runs/'' @ PathEscape i @ ''/logs/stream''"
  obtain x u where x: "http ''GET'' ?p None w = (x, u)" by fastforce
  then have "l' = l @ [((''GET'', ?p), x)]" and e: "check_status x = Inl e \<Longrightarrow> r = failed e" for e
    using assms by (auto simp: follow_def recorded_def)
  then show ?thesis using told_get [of x "o_error r" l ?p] by (simp add: failed_def)
qed

lemma logs_loop_told_any:
  "logs_loop h tm i n out wl = Some y \<Longrightarrow> h = recorded http \<longrightarrow> told [] (snd wl) (snd (snd y)) (o_error (fst y))"
proof (induction rule: logs_loop.raw_induct [rotated, consumes 1, case_names step])
  case (step loop h tm i n out wl y)
  show ?case
  proof
    assume h: "h = recorded http"
    obtain v w' l' where d: "do_request h ''GET'' (logs_path i n) None (page_fields tm) zero_page wl = (v, w', l')"
      by (metis prod.collapse)
    then have t: "told [] (snd wl) l' (case v of Inl e \<Rightarrow> Some e | Inr _ \<Rightarrow> None)"
      using do_request_told [of http "''GET''" "logs_path i n" None "page_fields tm" zero_page "fst wl" "snd wl"] by (simp add: h)
    show "told [] (snd wl) (snd (snd y)) (o_error (fst y))"
    proof (cases v)
      case (Inl e)
      then show ?thesis using step(2) d t by auto
    next
      case (Inr p)
      show ?thesis
      proof (cases "length (pg_lines p) < 1000")
        case True
        then show ?thesis using step(2) d t Inr by auto
      next
        case False
        then have "loop h tm i (pg_next_seq p) (out @ map (printLine tm) (pg_lines p)) (w', l') = Some y"
          using step(2) d Inr by (simp add: Let_def)
        from step(1) [OF this] h have "told [] l' (snd (snd y)) (o_error (fst y))" by simp
        with t Inr show ?thesis using told_more [of "[]" "snd wl" l' "[]"] by simp
      qed
    qed
  qed
qed

lemma logs_loop_told:
  "logs_loop (recorded http) tm i n out (w, l) = Some (r, w', l') \<Longrightarrow> told [] l l' (o_error r)"
  using logs_loop_told_any by fastforce

lemma jobs_told:
  assumes "jobs_cmd (recorded http) tm (w, l) = (r, w', l')"
  shows "told [] l l' (case r of Inl e \<Rightarrow> Some e | Inr _ \<Rightarrow> None)"
proof -
  obtain v u l1 where d: "do_request (recorded http) ''GET'' ''/jobs?limit=200'' None (jobs_fields tm) [] (w, l) = (v, u, l1)"
    by (metis prod.collapse)
  from do_request_told [OF d] assms [unfolded jobs_cmd_def d] show ?thesis by (cases v) auto
qed

lemma status_told:
  assumes "status_cmd (recorded http) tm [i] (w, l) = (r, w', l')"
  shows "told [] l l' (case r of Inl e \<Rightarrow> Some e | Inr _ \<Rightarrow> None)"
proof -
  obtain v u l1 where d: "do_request (recorded http) ''GET'' (''/runs/'' @ PathEscape i) None (run_info_fields tm) zero_run_info (w, l) = (v, u, l1)"
    by (metis prod.collapse)
  from do_request_told [OF d] assms [unfolded status_cmd_def list.case d] show ?thesis by (cases v) auto
qed

lemma create_told:
  assumes "create (recorded http) tm a (w, l) = (r, w', l')" and "ca_name a \<noteq> []"
  shows "told [(''POST'', ''/jobs'')] l l' (o_error r)"
proof -
  obtain v u l1 where d: "do_request (recorded http) ''POST'' ''/jobs'' (Some (create_body a)) (job_info_fields tm) zero_job_info (w, l) = (v, u, l1)"
    by (metis prod.collapse)
  note t = do_request_told [OF d, simplified]
  show ?thesis
  proof (cases v)
    case (Inl e)
    with t assms show ?thesis by (auto simp: create_def d failed_def)
  next
    case (Inr j)
    with t have "told [(''POST'', ''/jobs'')] l l1 x" for x by (auto simp: told_def)
    moreover have "l' = l1" using assms Inr by (simp add: create_def d)
    ultimately show ?thesis by simp
  qed
qed

lemma run_told:
  assumes "run_cmd (recorded http) tm f [i] (w, l) = (r, w', l')"
  shows "told [(''POST'', ''/jobs/'' @ PathEscape i @ ''/run'')] l l' (o_error r)"
proof -
  obtain v u l1 where d: "do_request (recorded http) ''POST'' (''/jobs/'' @ PathEscape i @ ''/run'') None (run_info_fields tm) zero_run_info (w, l) = (v, u, l1)"
    by (metis prod.collapse)
  have t: "told [(''POST'', ''/jobs/'' @ PathEscape i @ ''/run'')] l l1 (case v of Inl e \<Rightarrow> Some e | Inr _ \<Rightarrow> None)"
    using do_request_told [OF d] by simp
  note r = assms [unfolded run_cmd_def list.case d]
  show ?thesis
  proof (cases v)
    case (Inl e)
    with t r show ?thesis by (auto simp: failed_def)
  next
    case (Inr q)
    show ?thesis
    proof (cases f)
      case False
      with Inr t r show ?thesis by auto
    next
      case True
      obtain r' u' l2 where g: "follow (recorded http) tm (ri_id q) (u, l1) = (r', u', l2)" by (metis prod.collapse)
      have "told [(''POST'', ''/jobs/'' @ PathEscape i @ ''/run'')] l l1 None" using t Inr by simp
      from told_more [OF this follow_told [OF g]] True Inr r g show ?thesis by auto
    qed
  qed
qed

lemma logs_told:
  assumes "logs_cmd (recorded http) tm f [i] (w, l) = Some (r, w', l')"
  shows "told [] l l' (o_error r)"
  using assms follow_told [of http tm i w l] logs_loop_told [of http tm i 1 "[]" w l] by (simp add: logs_cmd_def split: if_splits)

text \<open>
  The command lines \<open>jobctl\<close> answers by itself, with the exit code and what goes to standard error: a
  request for help, flags that do not parse, no command or one it does not know, \<open>create\<close> without a name,
  and \<open>run\<close>, \<open>logs\<close> and \<open>status\<close> of anything but one id.
\<close>

definition stopped :: "string list \<Rightarrow> flag_stop \<Rightarrow> int \<times> string list" where
  "stopped u st = (case st of FlagHelp \<Rightarrow> (0, u) | FlagError m \<Rightarrow> (2, (m @ [newline]) # u))"

definition one_id :: "string \<Rightarrow> string list \<Rightarrow> (int \<times> string list) option" where
  "one_id form ids = (if length ids = 1 then None else Some (1, [''jobctl: usage: jobctl '' @ form @ [newline]]))"

definition answered_command :: "string \<Rightarrow> string list \<Rightarrow> (int \<times> string list) option" where
  "answered_command cmd args =
     (if cmd = ''jobs'' then None
      else if cmd = ''create'' then
        (case parse_flags create_flags args create_defaults of Inl st \<Rightarrow> Some (stopped [] st)
         | Inr (_, a) \<Rightarrow> if ca_name a = [] then Some (1, [''jobctl: create: -name is required'' @ [newline]]) else None)
      else if cmd = ''status'' then one_id ''status <run-id>'' args
      else if cmd = ''run'' \<or> cmd = ''logs'' then
        (case parse_flags follow_flags args False of Inl st \<Rightarrow> Some (stopped [] st)
         | Inr (ids, _) \<Rightarrow> one_id (cmd @ '' [-f] '' @ (if cmd = ''run'' then ''<job-id>'' else ''<run-id>'')) ids)
      else Some (2, usage))"

definition answered_line :: "environ \<Rightarrow> string list \<Rightarrow> (int \<times> string list) option" where
  "answered_line os args = (case parse_flags api_flags args (Env os ''JOBSYS_API'' ''http://localhost:8080'') of
       Inl st \<Rightarrow> Some (stopped usage st)
     | Inr (words, _) \<Rightarrow> (case words of [] \<Rightarrow> Some (2, usage) | cmd # rest \<Rightarrow> answered_command cmd rest))"

text \<open>The requests a command line asks for that change something on the server.\<close>

definition command_posts :: "string \<Rightarrow> string list \<Rightarrow> (string \<times> string) list" where
  "command_posts cmd args =
     (if cmd = ''create'' then [(''POST'', ''/jobs'')]
      else if cmd = ''run'' then
        (case parse_flags follow_flags args False of Inr ([i], _) \<Rightarrow> [(''POST'', ''/jobs/'' @ PathEscape i @ ''/run'')] | _ \<Rightarrow> [])
      else [])"

definition meant_posts :: "environ \<Rightarrow> string list \<Rightarrow> (string \<times> string) list" where
  "meant_posts os args = (case parse_flags api_flags args (Env os ''JOBSYS_API'' ''http://localhost:8080'') of
     Inr (cmd # rest, _) \<Rightarrow> command_posts cmd rest | _ \<Rightarrow> [])"

text \<open>The outcome of a command that returned the error \<open>err\<close>.\<close>

definition reported :: "error option \<Rightarrow> outcome \<Rightarrow> bool" where
  "reported err x \<longleftrightarrow> (case err of None \<Rightarrow> x_code x = 0
     | Some e \<Rightarrow> x_code x = (if e = nil_panic then 2 else 1) \<and> x_err x \<noteq> []
         \<and> last (x_err x) = (if e = nil_panic then [] else ''jobctl: '') @ error_text e @ [newline])"

definition answered_ok :: "(int \<times> string list) option \<Rightarrow> (string \<times> string) list \<Rightarrow> 'w \<times> sent \<Rightarrow> outcome \<times> 'w \<times> sent \<Rightarrow> bool" where
  "answered_ok a ps w y \<longleftrightarrow> (case a of
     Some (c, e) \<Rightarrow> y = (\<lparr>x_code = c, x_out = [], x_table = [], x_err = e\<rparr>, w)
   | None \<Rightarrow> \<exists>err. told ps (snd w) (snd (snd y)) err \<and> reported err (fst y))"

lemma finish_reported: "reported (o_error r) (finish r)"
  by (simp add: reported_def finish_def split: option.split)

lemma finish_table_reported: "reported (case r of Inl e \<Rightarrow> Some e | Inr _ \<Rightarrow> None) (finish_table r)"
  by (cases r) (simp_all add: reported_def finish_table_def finish_def failed_def)

lemma flag_exit_stopped: "stopped u st = (c, e) \<Longrightarrow> flag_exit u st = \<lparr>x_code = c, x_out = [], x_table = [], x_err = e\<rparr>"
  by (cases st) (simp_all add: stopped_def)

lemma not_one: "length xs \<noteq> 1 \<Longrightarrow> (case xs of [y] \<Rightarrow> f y | _ \<Rightarrow> z) = z"
  by (auto split: list.split)

lemma finish_message:
  assumes "hd m \<noteq> CHR ''p''" and "m \<noteq> []"
  shows "finish (failed (ErrText m)) = \<lparr>x_code = 1, x_out = [], x_table = [], x_err = [''jobctl: '' @ m @ [newline]]\<rparr>"
  using assms by (auto simp: finish_def failed_def nil_panic_def)

lemma answered_jobs:
  assumes "command (recorded http) tm ''jobs'' args (u, l) = Some y"
  shows "answered_ok (answered_command ''jobs'' args) (command_posts ''jobs'' args) (u, l) y"
proof -
  obtain r u' l' where j: "jobs_cmd (recorded http) tm (u, l) = (r, u', l')" by (metis prod.collapse)
  show ?thesis using assms j jobs_told [of http tm u l] finish_table_reported [of r]
    by (auto simp: command_def answered_ok_def answered_command_def command_posts_def)
qed

lemma answered_create:
  assumes "command (recorded http) tm ''create'' args (u, l) = Some y"
  shows "answered_ok (answered_command ''create'' args) (command_posts ''create'' args) (u, l) y"
proof -
  show ?thesis
  proof (cases "parse_flags create_flags args create_defaults")
    case (Inl st)
    then show ?thesis using assms flag_exit_stopped [of "[]" st]
      by (cases "stopped [] st") (auto simp: command_def answered_ok_def answered_command_def)
  next
    case (Inr z)
    obtain rest a where z: "z = (rest, a)" by fastforce
    show ?thesis
    proof (cases "ca_name a = []")
      case True
      then show ?thesis using assms Inr z finish_message [of "''create: -name is required''"]
        by (auto simp: command_def answered_ok_def answered_command_def create_def)
    next
      case False
      obtain r u' l' where j: "create (recorded http) tm a (u, l) = (r, u', l')" by (metis prod.collapse)
      show ?thesis using assms Inr z False j create_told [of http tm a u l r u' l'] finish_reported [of r]
        by (auto simp: command_def answered_ok_def answered_command_def command_posts_def)
    qed
  qed
qed

lemma answered_run:
  assumes "command (recorded http) tm ''run'' args (u, l) = Some y"
  shows "answered_ok (answered_command ''run'' args) (command_posts ''run'' args) (u, l) y"
proof -
  show ?thesis
  proof (cases "parse_flags follow_flags args False")
    case (Inl st)
    then show ?thesis using assms flag_exit_stopped [of "[]" st]
      by (cases "stopped [] st") (auto simp: command_def answered_ok_def answered_command_def)
  next
    case (Inr z)
    obtain ids f where z: "z = (ids, f)" by fastforce
    show ?thesis
    proof (cases "length ids = 1")
      case False
      then show ?thesis using assms Inr z finish_message [of "''usage: jobctl run [-f] <job-id>''"]
        by (auto simp: command_def answered_ok_def answered_command_def run_cmd_def one_id_def not_one)
    next
      case True
      then obtain i where i: "ids = [i]" by (cases ids) auto
      obtain r u' l' where j: "run_cmd (recorded http) tm f [i] (u, l) = (r, u', l')" by (metis prod.collapse)
      show ?thesis using assms Inr z i j run_told [of http tm f i u l r u' l'] finish_reported [of r]
        by (auto simp: command_def answered_ok_def answered_command_def command_posts_def one_id_def)
    qed
  qed
qed

lemma answered_status:
  assumes "command (recorded http) tm ''status'' args (u, l) = Some y"
  shows "answered_ok (answered_command ''status'' args) (command_posts ''status'' args) (u, l) y"
proof -
  show ?thesis
  proof (cases "length args = 1")
    case False
    then show ?thesis using assms finish_message [of "''usage: jobctl status <run-id>''"]
      by (auto simp: command_def answered_ok_def answered_command_def status_cmd_def one_id_def not_one finish_table_def)
  next
    case True
    then obtain i where i: "args = [i]" by (cases args) auto
    obtain r u' l' where j: "status_cmd (recorded http) tm [i] (u, l) = (r, u', l')" by (metis prod.collapse)
    show ?thesis using assms i j status_told [of http tm i u l r u' l'] finish_table_reported [of r]
      by (auto simp: command_def answered_ok_def answered_command_def command_posts_def one_id_def)
  qed
qed

lemma answered_logs:
  assumes "command (recorded http) tm ''logs'' args (u, l) = Some y"
  shows "answered_ok (answered_command ''logs'' args) (command_posts ''logs'' args) (u, l) y"
proof -
  show ?thesis
  proof (cases "parse_flags follow_flags args False")
    case (Inl st)
    then show ?thesis using assms flag_exit_stopped [of "[]" st]
      by (cases "stopped [] st") (auto simp: command_def answered_ok_def answered_command_def)
  next
    case (Inr z)
    obtain ids f where z: "z = (ids, f)" by fastforce
    show ?thesis
    proof (cases "length ids = 1")
      case False
      then show ?thesis using assms Inr z finish_message [of "''usage: jobctl logs [-f] <run-id>''"]
        by (auto simp: command_def answered_ok_def answered_command_def logs_cmd_def one_id_def not_one)
    next
      case True
      then obtain i where i: "ids = [i]" by (cases ids) auto
      obtain r u' l' where j: "logs_cmd (recorded http) tm f [i] (u, l) = Some (r, u', l')" "y = (finish r, u', l')"
        using assms Inr z i by (cases "logs_cmd (recorded http) tm f [i] (u, l)") (auto simp: command_def)
      show ?thesis using assms Inr z i j logs_told [of http tm f i u l r u' l'] finish_reported [of r]
        by (auto simp: answered_ok_def answered_command_def command_posts_def one_id_def)
    qed
  qed
qed

lemma command_answered:
  assumes "command (recorded http) tm cmd args (u, l) = Some y"
  shows "answered_ok (answered_command cmd args) (command_posts cmd args) (u, l) y"
proof (cases "cmd \<in> {''jobs'', ''create'', ''run'', ''status'', ''logs''}")
  case True
  then consider "cmd = ''jobs''" | "cmd = ''create''" | "cmd = ''run''" | "cmd = ''status''" | "cmd = ''logs''" by blast
  then show ?thesis using assms
    by cases (simp_all only: answered_jobs answered_create answered_run answered_status answered_logs)
next
  case False
  with assms show ?thesis by (simp add: command_def answered_ok_def answered_command_def usage_exit_def)
qed

lemma main_answered:
  assumes "jobctl_main os (\<lambda>base. recorded (http base)) tm args (w, []) = Some y"
  shows "answered_ok (answered_line os args) (meant_posts os args) (w, []) y"
proof (cases "parse_flags api_flags args (Env os ''JOBSYS_API'' ''http://localhost:8080'')")
  case (Inl st)
  then show ?thesis using assms flag_exit_stopped [of usage st]
    by (cases "stopped usage st") (auto simp: jobctl_main_def answered_line_def answered_ok_def)
next
  case (Inr z)
  obtain ws base where z: "z = (ws, base)" by fastforce
  show ?thesis
  proof (cases ws)
    case Nil
    then show ?thesis using assms Inr z by (simp add: jobctl_main_def answered_line_def answered_ok_def usage_exit_def)
  next
    case (Cons cmd rest)
    then have "command (recorded (http (TrimRight_slash base))) tm cmd rest (w, []) = Some y"
      using assms Inr z by (simp add: jobctl_main_def)
    from command_answered [OF this] show ?thesis using Inr z Cons by (simp add: answered_line_def meant_posts_def)
  qed
qed

text \<open>
  C38: whatever words \<open>jobctl\<close> is given and however the server behaves. A command line that is wrong, or
  asks for help, is answered by the client alone: not one request is sent, and it exits with the code
  and the message for that mistake (0 for help, 2 with the usage for flags that do not parse and for
  no or an unknown command, 1 for \<open>create\<close> without a name and for anything but one id). Any other line
  sends something, and of the requests that are no reading exactly the ones its command is for: one
  \<open>POST /jobs\<close> for \<open>create\<close>, one \<open>POST /jobs/ID/run\<close> for \<open>run\<close>, none for the rest. It then exits with 0 only
  if every answer was a success; after a request that failed or was refused, it exits with 1 and prints
  that reason. The one other code is the 2 of the panic of \<open>create\<close> on a next run without a schedule.
\<close>

theorem jobctl_exit_codes:
  assumes "jobctl_main os (\<lambda>base. recorded (http base)) tm args (w, []) = Some (x, w', sent)"
  shows "(case answered_line os args of
      Some (c, e) \<Rightarrow> sent = [] \<and> w' = w \<and> x = \<lparr>x_code = c, x_out = [], x_table = [], x_err = e\<rparr>
    | None \<Rightarrow> sent \<noteq> [] \<and> posts sent = meant_posts os args \<and> x_code x \<in> {0, 1, 2}
        \<and> (x_code x = 0 \<longrightarrow> (\<forall>(q, a) \<in> set sent. \<exists>r. check_status a = Inr r))
        \<and> (\<forall>(q, a) \<in> set sent. \<forall>e. check_status a = Inl e \<and> e \<noteq> nil_panic \<longrightarrow>
             x_code x = 1 \<and> last (x_err x) = ''jobctl: '' @ error_text e @ [newline])
        \<and> (x_code x = 1 \<longrightarrow> (\<exists>m. last (x_err x) = ''jobctl: '' @ m @ [newline]))
        \<and> (x_code x = 2 \<longrightarrow> last (x_err x) = error_text nil_panic @ [newline]))"
proof (cases "answered_line os args")
  case (Some ce)
  then show ?thesis using main_answered [OF assms] by (cases ce) (simp add: answered_ok_def)
next
  case None
  then obtain err where t: "told (meant_posts os args) [] sent err" and r: "reported err x"
    using main_answered [OF assms] by (auto simp: answered_ok_def)
  have n: "sent \<noteq> []" "posts sent = meant_posts os args" and f: "\<And>q a e. (q, a) \<in> set sent \<Longrightarrow> check_status a = Inl e \<Longrightarrow> err = Some e"
    using t by (auto simp: told_def)
  have ok: "\<exists>r. check_status a = Inr r" if "x_code x = 0" "(q, a) \<in> set sent" for q a
    using f [OF that(2)] r that(1) by (cases "check_status a") (auto simp: reported_def split: if_splits)
  have bad: "x_code x = 1 \<and> last (x_err x) = ''jobctl: '' @ error_text e @ [newline]"
    if "(q, a) \<in> set sent" "check_status a = Inl e" "e \<noteq> nil_panic" for q a e
    using f [OF that(1,2)] r that(3) by (simp add: reported_def)
  have codes: "x_code x \<in> {0, 1, 2}" "x_code x = 1 \<longrightarrow> (\<exists>m. last (x_err x) = ''jobctl: '' @ m @ [newline])"
    "x_code x = 2 \<longrightarrow> last (x_err x) = error_text nil_panic @ [newline]"
    using r by (cases err; auto simp: reported_def split: if_splits)+
  show ?thesis unfolding None option.case using n codes ok bad by blast
qed

text \<open>A server that refuses every connection.\<close>

definition refusing :: "unit transport" where
  "refusing m path body s = (Inl (ErrText ''connection refused''), s)"

theorem jobctl_exit_codes_witness:
  "\<exists>x y z sent. jobctl_main (\<lambda>_. []) (\<lambda>_. recorded refusing) demo_times [''create''] ((), []) = Some (x, (), [])
      \<and> x_code x = 1 \<and> x_err x = [''jobctl: create: -name is required'' @ [newline]]
    \<and> jobctl_main (\<lambda>_. []) (\<lambda>_. recorded refusing) demo_times [''start''] ((), []) = Some (y, (), []) \<and> x_code y = 2 \<and> x_err y = usage
    \<and> jobctl_main (\<lambda>_. []) (\<lambda>_. recorded refusing) demo_times [''run'', ''J''] ((), []) = Some (z, (), sent)
      \<and> x_code z = 1 \<and> last (x_err z) = ''jobctl: connection refused'' @ [newline] \<and> posts sent = [(''POST'', ''/jobs/J/run'')]"
proof -
  let ?main = "\<lambda>args. jobctl_main (\<lambda>_. []) (\<lambda>base. recorded ((\<lambda>_. refusing) base)) demo_times args ((), [])"
  obtain x sx where x: "?main [''create''] = Some (x, (), sx)"
    by (simp add: jobctl_main_def command_def create_def create_defaults_def)
  obtain y sy where y: "?main [''start''] = Some (y, (), sy)"
    by (simp add: jobctl_main_def command_def)
  obtain z sz where z: "?main [''run'', ''J''] = Some (z, (), sz)" "((''POST'', ''/jobs/J/run''), Inl (ErrText ''connection refused'')) \<in> set sz"
    by (simp add: jobctl_main_def command_def run_cmd_def do_request_def recorded_def refusing_def check_status_def PathEscape_def path_safe_def
        between_def)
  have "PathEscape ''J'' = ''J''" by (simp add: PathEscape_def path_safe_def between_def)
  then have a: "answered_line (\<lambda>_. []) [''create''] = Some (1, [''jobctl: create: -name is required'' @ [newline]])"
    "answered_line (\<lambda>_. []) [''start''] = Some (2, usage)" "answered_line (\<lambda>_. []) [''run'', ''J''] = None"
    "meant_posts (\<lambda>_. []) [''run'', ''J''] = [(''POST'', ''/jobs/J/run'')]"
    by (simp_all add: answered_line_def answered_command_def one_id_def create_defaults_def meant_posts_def command_posts_def)
  from jobctl_exit_codes [OF z(1)] z(2)
  have "x_code z = 1 \<and> last (x_err z) = ''jobctl: connection refused'' @ [newline] \<and> posts sz = [(''POST'', ''/jobs/J/run'')]"
    by (auto simp: a check_status_def nil_panic_def)
  with jobctl_exit_codes [OF x] jobctl_exit_codes [OF y] x y z(1) show ?thesis by (simp add: a)
qed

text \<open>
  \<open>create\<close> looks only at the flags before the first word that is none: the words after it, flags included,
  are dropped without a message.
\<close>

theorem create_drops_later_words:
  assumes "args_ok a" and "t = [] \<or> hd t \<noteq> CHR ''-''"
  shows "command http tm ''create'' (create_words a @ t # ws) w = Some (apfst finish (create http tm a w))"
proof -
  have "parse_flags create_flags (t # ws) a = Inr (t # ws, a)" using assms(2) by (cases t) simp_all
  then show ?thesis using create_words_read [OF assms(1), of "t # ws"] by (simp add: command_def)
qed

theorem create_drops_later_words_witness:
  "command demo_server demo_times ''create'' (create_words demo_args @ [''report'', ''-lines=5'']) () =
     Some (apfst finish (create demo_server demo_times demo_args ()))"
  by (rule create_drops_later_words [OF demo_args_ok(1)]) simp

theorem jobctl_create_stores_job_witness:
  "jobctl_main (\<lambda>_. []) (\<lambda>_. api_transport (demo_api (demo_env 20 ''K''))) demo_times
       (flag_form ''api'' ''http://api:8080/'' # ''create'' # create_words demo_args) (demo_db 1, ()) =
     Some (\<lparr>x_code = 0, x_out = [''K'' @ [newline]], x_table = [], x_err = []\<rparr>,
      (demo_db 1)\<lparr>jobs := jobs (demo_db 1) @ [meant_job cron_zones 20 ''K'' 20 (print_json (create_payload demo_args)) demo_args]\<rparr>, ())"
proof -
  note f = demo_create_facts
  let ?e = "demo_env 20 ''K''" and ?p = "print_json (create_payload demo_args)"
  have t: "TrimSpace ''n'' = ''n''" "TrimSpace [] = []"
    by (rule TrimSpace_id; simp add: space_seqs_def bytes_def char_of_eq_iff)+
  have good: "flags_accepted cron_zones u demo_args" for u
    by (simp add: flags_accepted_def demo_args_def zone_of_def t cron_zones_def)
  have j: "meant_job cron_zones u ''K'' 20 ?p demo_args = created ?e demo_new ?p" for u
    by (simp add: meant_job_def demo_args_def zone_of_def t Let_def created_def new_job_row_def demo_env_def demo_new_def)
  from jobctl_create_stores_job [OF f(1) demo_undisturbed demo_args_ok(1) f(5) demo_args_ok(2) f(3), of ?p
      "created ?e demo_new ?p" "\<lambda>_. api_transport (demo_api ?e)" "''http://api:8080/''" "\<lambda>_. []" "()"] f(2,4) good j
  show ?thesis by (simp add: demo_api_def demo_env_def created_def new_job_row_def demo_new_def)
qed

end
