(* ===== verification/Pipeline.thy ===== *)
theory Pipeline
  imports WorkerProps JobctlMain
begin

text \<open>
  The parts together: dispatch messages delivered to workers, one after the other, until a run has ended,
  and the whole way of a job from the command line to its output.
\<close>

section \<open>Deliveries\<close>

text \<open>
  A message reaches a worker: \<open>consume\<close> claims the run and starts the goroutine that executes it. Each
  delivery can be to another worker.
\<close>

record delivery =
  y_cfg :: config
  y_msg :: string
  y_claim :: env
  y_attempt :: attempt_env

definition deliver :: "'k writer \<Rightarrow> delivery \<Rightarrow> 'k world \<Rightarrow> 'k world" where
  "deliver wr y w = (case claim (y_cfg y) (y_claim y) (y_msg y) (w_db w) of
     (None, d) \<Rightarrow> w\<lparr>w_db := d\<rparr>
   | (Some r, d) \<Rightarrow> execute (y_cfg y) wr (y_attempt y) r (w\<lparr>w_db := d\<rparr>))"

text \<open>
  A delivery whose message names run \<open>i\<close>, and during which nothing goes wrong: no store call fails or meets other sessions in
  the claim, the load and the final write, and no shutdown or timeout stops the job. Heartbeats and
  log inserts may fail.
\<close>

definition carries :: "uuid \<Rightarrow> delivery \<Rightarrow> bool" where
  "carries i y \<longleftrightarrow> (case DecodeDispatch (y_msg y) of Inl e \<Rightarrow> False | Inr q \<Rightarrow> q_run_id q = i)"

definition undistracted :: "delivery \<Rightarrow> bool" where
  "undistracted y \<longleftrightarrow> solo (y_claim y) \<and> quiet (y_claim y) \<and> solo (x_load (y_attempt y)) \<and> quiet (x_load (y_attempt y))
     \<and> list_all beats_alone (x_moves (y_attempt y)) \<and> solo (x_final (y_attempt y)) \<and> quiet (x_final (y_attempt y))
     \<and> calm (x_ctx (y_attempt y)) \<and> x_stop (y_attempt y) = None"

definition smooth :: "uuid \<Rightarrow> delivery \<Rightarrow> bool" where
  "smooth i y \<longleftrightarrow> carries i y \<and> undistracted y"

lemmas smooth_defs = smooth_def carries_def undistracted_def

text \<open>Each delivery of a run on attempt \<open>a\<close> comes after the backoff of the attempt before it.\<close>

fun on_time :: "int \<Rightarrow> time \<Rightarrow> delivery list \<Rightarrow> bool" where
  "on_time a due [] = True"
| "on_time a due (y # ys) = (due \<le> e_now (y_claim y)
     \<and> on_time (a + 1) (e_now (x_final (y_attempt y)) + interval_us (retryDelay (y_cfg y) a)) ys)"

definition waiting :: "uuid \<Rightarrow> int \<Rightarrow> time \<Rightarrow> job \<Rightarrow> db \<Rightarrow> bool" where
  "waiting i a due j d \<longleftrightarrow> schema_ok d \<and> (\<exists>r. find_run i d = Some r \<and> r_status r = StatusQueued \<and> r_attempt r = a
     \<and> (case r_next_attempt_at r of None \<Rightarrow> True | Some t \<Rightarrow> t \<le> due) \<and> find_job (r_job_id r) d = Some j)"

lemma claim_waiting:
  assumes "waiting i a due j d" and "smooth i y" and "due \<le> e_now (y_claim y)"
  obtains r d' where "claim (y_cfg y) (y_claim y) (y_msg y) d = (Some r, d')" "schema_ok d'" "find_run i d' = Some r"
    "r_id r = i" "owns (c_id (y_cfg y)) a r" "r_attempt r = a" "find_job (r_job_id r) d' = Some j"
proof -
  let ?e = "y_claim y" and ?c = "c_id (y_cfg y)"
  obtain r0 where r0: "find_run i d = Some r0" "r_status r0 = StatusQueued" "r_attempt r0 = a"
    "case r_next_attempt_at r0 of None \<Rightarrow> True | Some t \<Rightarrow> t \<le> due" "find_job (r_job_id r0) d = Some j" and s: "schema_ok d"
    using assms(1) by (auto simp: waiting_def)
  have e: "quiet ?e" "solo ?e" using assms(2) by (simp_all add: smooth_defs)
  then have o: "e_others ?e d = d" by simp
  obtain q where q: "DecodeDispatch (y_msg y) = Inr q" "q_run_id q = i" using assms(2) by (auto simp: smooth_defs split: sum.splits)
  have "claimable (e_now ?e) r0" using r0(2,4) assms(3) by (auto simp: claimable_def split: option.splits)
  moreover obtain z d1 where z: "ClaimRun ?e i ?c d = (z, d1)" by (cases "ClaimRun ?e i ?c d")
  ultimately have c: "ClaimRun ?e i ?c d = (Inr (Some (claim_row (e_now ?e) ?c r0)), d1)"
    using ClaimRun_quiet [OF e(1), of d i ?c] s r0(1) o by simp
  have st: "table_step d d1" using ClaimRun_step [of ?e d i ?c] o c by simp
  have f: "find_run i d1 = Some (claim_row (e_now ?e) ?c r0)" using ClaimRun_claimed [OF _ c] s o by auto
  show thesis
  proof (rule that)
    show "claim (y_cfg y) ?e (y_msg y) d = (Some (claim_row (e_now ?e) ?c r0), d1)" using q c by (simp add: claim_def)
    show "schema_ok d1" using table_step_schema [OF st s] .
    show "find_run i d1 = Some (claim_row (e_now ?e) ?c r0)" by (rule f)
    show "r_id (claim_row (e_now ?e) ?c r0) = i" using lookup_row_Some [OF f] by simp
    show "find_job (r_job_id (claim_row (e_now ?e) ?c r0)) d1 = Some j"
      using table_step_frame [OF st] r0(5) by (simp add: claim_row_def)
  qed (simp_all add: claim_row_def owns_def r0(3))
qed

lemma deliver_settles:
  assumes "waiting i a due j (w_db w)" and "smooth i y" and "due \<le> e_now (y_claim y)" and "a < int4_max"
  obtains r where "find_run i (w_db (deliver wr y w)) = Some r"
    "settled (y_cfg y) (y_attempt y) j a (fst (Job.Run (x_ctx (y_attempt y)) (j_type j) (j_payload j) a)) r"
    "find_job (r_job_id r) (w_db (deliver wr y w)) = Some j" "schema_ok (w_db (deliver wr y w))"
proof -
  obtain r d where c: "claim (y_cfg y) (y_claim y) (y_msg y) (w_db w) = (Some r, d)" "schema_ok d" "find_run i d = Some r"
    "r_id r = i" "owns (c_id (y_cfg y)) a r" "r_attempt r = a" "find_job (r_job_id r) d = Some j"
    by (rule claim_waiting [OF assms(1-3)])
  have x: "deliver wr y w = execute (y_cfg y) wr (y_attempt y) r (w\<lparr>w_db := d\<rparr>)" by (simp add: deliver_def c(1))
  have "\<exists>r'. find_run (r_id r) (w_db (deliver wr y w)) = Some r'
    \<and> settled (y_cfg y) (y_attempt y) j (r_attempt r) (fst (Job.Run (x_ctx (y_attempt y)) (j_type j) (j_payload j) (r_attempt r))) r'
    \<and> r_job_id r' = r_job_id r \<and> schema_ok (w_db (deliver wr y w)) \<and> jobs (w_db (deliver wr y w)) = jobs d"
    unfolding x using execute_outcome [of "w\<lparr>w_db := d\<rparr>" r "y_cfg y" j "y_attempt y" wr] c assms(2,4)
    by (simp add: smooth_defs)
  with c that show thesis by auto
qed

section \<open>A run to its end\<close>

text \<open>How a run of a job ends that is only ever stopped by its own payload.\<close>

definition last_attempt :: "job \<Rightarrow> generate_text \<Rightarrow> int" where
  "last_attempt j p = min (p_fail_attempts p) (j_max_retries j) + 1"

definition ended_as_meant :: "job \<Rightarrow> generate_text \<Rightarrow> run \<Rightarrow> bool" where
  "ended_as_meant j p r \<longleftrightarrow> r_attempt r = last_attempt j p
     \<and> (if p_fail_attempts p \<le> j_max_retries j
        then r_status r = StatusSucceeded \<and> r_output r = Some (full_text p) \<and> r_error r = None
        else r_status r = StatusFailed \<and> r_error r = Some (''deliberate failure of attempt '' @ itoa (last_attempt j p)
               @ '' (fail_attempts='' @ itoa (p_fail_attempts p) @ '')''))"

lemma ended_as_meant_eq:
  "ended_as_meant j p r \<longleftrightarrow> r_attempt r = min (p_fail_attempts p) (j_max_retries j) + 1
     \<and> (if p_fail_attempts p \<le> j_max_retries j
        then r_status r = StatusSucceeded \<and> r_output r = Some (full_text p) \<and> r_error r = None
        else r_status r = StatusFailed \<and> r_error r = Some (''deliberate failure of attempt '' @ itoa (j_max_retries j + 1)
               @ '' (fail_attempts='' @ itoa (p_fail_attempts p) @ '')''))"
proof -
  have "min (p_fail_attempts p) (j_max_retries j) = j_max_retries j" if "\<not> p_fail_attempts p \<le> j_max_retries j" using that by simp
  then show ?thesis unfolding ended_as_meant_def last_attempt_def by (cases "p_fail_attempts p \<le> j_max_retries j") auto
qed

lemma stored_retries: "schema_ok d \<Longrightarrow> find_job i d = Some j \<Longrightarrow> 0 \<le> j_max_retries j"
  using lookup_row_Some [of j_id i "jobs d" j] by (simp add: schema_defs job_checks_def)

lemma attempt_result:
  assumes "j_type j = TypeGenerateText" and "parseGenerateText (j_payload j) = Inr p" and "p_fail_at p = 0" and "calm c"
  shows "fst (Job.Run c (j_type j) (j_payload j) a) =
    (if a \<le> p_fail_attempts p
     then Inl (ErrText (''deliberate failure of attempt '' @ itoa a @ '' (fail_attempts='' @ itoa (p_fail_attempts p) @ '')''))
     else Inr (full_text p))"
  using generateText_outcome [OF parse_valid [OF assms(2)] assms(4), of a] assms(1-3) by (simp add: Job.Run_def)

lemma deliver_last:
  assumes "waiting i (last_attempt j p) due j (w_db w)" and "smooth i y" and "due \<le> e_now (y_claim y)" and "last_attempt j p < int4_max"
    and "j_type j = TypeGenerateText" and "parseGenerateText (j_payload j) = Inr p" and "p_fail_at p = 0"
  shows "\<exists>r. find_run i (w_db (deliver wr y w)) = Some r \<and> ended_as_meant j p r"
proof -
  have c: "calm (x_ctx (y_attempt y))" "x_stop (y_attempt y) = None" using assms(2) by (simp_all add: smooth_defs)
  obtain r where r: "find_run i (w_db (deliver wr y w)) = Some r"
    "settled (y_cfg y) (y_attempt y) j (last_attempt j p) (fst (Job.Run (x_ctx (y_attempt y)) (j_type j) (j_payload j) (last_attempt j p))) r"
    by (rule deliver_settles [OF assms(1-4), of wr])
  have "ended_as_meant j p r"
    using r(2) c(2) unfolding attempt_result [OF assms(5-7) c(1)]
    by (auto simp: settled_def ended_as_meant_def last_attempt_def split: if_splits)
  with r(1) show ?thesis by blast
qed

lemma deliver_retried:
  assumes "waiting i a due j (w_db w)" and "smooth i y" and "due \<le> e_now (y_claim y)" and "a < last_attempt j p" and "a < int4_max"
    and "j_type j = TypeGenerateText" and "parseGenerateText (j_payload j) = Inr p" and "p_fail_at p = 0"
  shows "waiting i (a + 1) (e_now (x_final (y_attempt y)) + interval_us (retryDelay (y_cfg y) a)) j (w_db (deliver wr y w))"
proof -
  have c: "calm (x_ctx (y_attempt y))" "x_stop (y_attempt y) = None" using assms(2) by (simp_all add: smooth_defs)
  obtain r where r: "find_run i (w_db (deliver wr y w)) = Some r"
    "settled (y_cfg y) (y_attempt y) j a (fst (Job.Run (x_ctx (y_attempt y)) (j_type j) (j_payload j) a)) r"
    "find_job (r_job_id r) (w_db (deliver wr y w)) = Some j" "schema_ok (w_db (deliver wr y w))"
    by (rule deliver_settles [OF assms(1-3,5), of wr])
  have "a \<le> p_fail_attempts p" "a \<le> j_max_retries j" using assms(4) by (simp_all add: last_attempt_def)
  then show ?thesis
    using r c(2) unfolding attempt_result [OF assms(6-8) c(1)] by (simp add: waiting_def settled_def)
qed

lemma deliveries_end:
  assumes "j_type j = TypeGenerateText" and "parseGenerateText (j_payload j) = Inr p" and "p_fail_at p = 0"
    and "last_attempt j p < int4_max"
  shows "waiting i a due j (w_db w) \<Longrightarrow> list_all (smooth i) ys \<Longrightarrow> on_time a due ys \<Longrightarrow> ys \<noteq> []
    \<Longrightarrow> a + int (length ys) = last_attempt j p + 1
    \<Longrightarrow> \<exists>r. find_run i (w_db (fold (deliver wr) ys w)) = Some r \<and> ended_as_meant j p r"
proof (induction ys arbitrary: a due w)
  case (Cons y ys)
  show ?case
  proof (cases "ys = []")
    case True
    then have "a = last_attempt j p" using Cons.prems by simp
    with Cons.prems True show ?thesis using deliver_last [OF _ _ _ assms(4,1,2,3), of i due w y wr] by simp
  next
    case False
    then have "1 \<le> int (length ys)" by (cases ys) simp_all
    then have a: "a < last_attempt j p" "a < int4_max" using Cons.prems(5) assms(4) by simp_all
    have "waiting i (a + 1) (e_now (x_final (y_attempt y)) + interval_us (retryDelay (y_cfg y) a)) j (w_db (deliver wr y w))"
      using Cons.prems by (intro deliver_retried [OF Cons.prems(1) _ _ a assms(1,2,3)]) simp_all
    from Cons.IH [OF this] Cons.prems False show ?thesis by simp
  qed
qed simp

lemma run_ends:
  assumes "waiting i 1 due j (w_db w)" and "j_type j = TypeGenerateText" and "parseGenerateText (j_payload j) = Inr p"
    and "p_fail_at p = 0" and "list_all (smooth i) ys" and "on_time 1 due ys" and "int (length ys) = last_attempt j p"
  shows "\<exists>r. find_run i (w_db (fold (deliver wr) ys w)) = Some r
    \<and> r_attempt r = min (p_fail_attempts p) (j_max_retries j) + 1
    \<and> (if p_fail_attempts p \<le> j_max_retries j
       then r_status r = StatusSucceeded \<and> r_output r = Some (full_text p) \<and> r_error r = None
       else r_status r = StatusFailed \<and> r_error r = Some (''deliberate failure of attempt '' @ itoa (j_max_retries j + 1)
              @ '' (fail_attempts='' @ itoa (p_fail_attempts p) @ '')''))"
proof -
  have v: "0 \<le> p_fail_attempts p" "p_fail_attempts p \<le> 10" using parse_valid [OF assms(3)] by (simp_all add: validate_None)
  have m: "0 \<le> j_max_retries j" using assms(1) stored_retries by (metis waiting_def)
  have "last_attempt j p < int4_max" using v(2) by (simp add: last_attempt_def int4_max_def)
  moreover have "ys \<noteq> []" using assms(7) v(1) m by (auto simp: last_attempt_def)
  moreover have "1 + int (length ys) = last_attempt j p + 1" using assms(7) by simp
  ultimately obtain r where r: "find_run i (w_db (fold (deliver wr) ys w)) = Some r" "ended_as_meant j p r"
    using deliveries_end [OF assms(2-4) _ assms(1,5,6), of wr] by blast
  then show ?thesis unfolding ended_as_meant_eq by blast
qed

text \<open>
  C8: a queued run reaches the end its job's payload means it to have, in exactly as many deliveries as
  its attempts: when the job fails its first \<open>f\<close> attempts and has at least \<open>f\<close> retries, attempt \<open>f + 1\<close>
  succeeds with the full output; with fewer retries the run fails for good on attempt
  \<open>max_retries + 1\<close> with that attempt's error. Any workers may take the deliveries, each after the
  backoff of the attempt before it.
\<close>

theorem retries_reach_the_end:
  assumes "waiting i 1 due j (w_db w)" and "j_type j = TypeGenerateText" and "parseGenerateText (j_payload j) = Inr p"
    and "p_fail_at p = 0" and "list_all (smooth i) ys" and "on_time 1 due ys" and "int (length ys) = last_attempt j p"
  shows "\<exists>r. find_run i (w_db (fold (deliver wr) ys w)) = Some r
    \<and> r_attempt r = min (p_fail_attempts p) (j_max_retries j) + 1
    \<and> (if p_fail_attempts p \<le> j_max_retries j
       then r_status r = StatusSucceeded \<and> r_output r = Some (full_text p) \<and> r_error r = None
       else r_status r = StatusFailed \<and> r_error r = Some (''deliberate failure of attempt '' @ itoa (j_max_retries j + 1)
              @ '' (fail_attempts='' @ itoa (p_fail_attempts p) @ '')''))"
  by (rule run_ends [OF assms])

section \<open>From the command line to the output\<close>

lemma newJob_type: "newJob z t req = Inr n \<Longrightarrow> n_type n = cr_type req"
  unfolding newJob_def Let_def
  by (auto split: if_splits option.splits sum.splits prod.splits)

lemma created_schema:
  assumes "undisturbed sv d" and "schema_ok d" and "find_job (e_uuids (sv_env sv 0) 0) d = None"
    and "newJob (sv_zones sv) (sv_now sv) req = Inr n" and "CHR 0x00 \<notin> set (n_name n)"
    and "e_jsonb (sv_env sv 0) (n_payload n) = Inr pay"
  shows "schema_ok (d\<lparr>jobs := jobs d @ [created (sv_env sv 0) n pay]\<rparr>)"
proof -
  have q: "quiet (sv_env sv 0)" "e_others (sv_env sv 0) d = d" using assms(1) by (simp_all add: undisturbed_def)
  have "CreateJob (sv_env sv 0) n d = (Inr (created (sv_env sv 0) n pay), d\<lparr>jobs := jobs d @ [created (sv_env sv 0) n pay]\<rparr>)"
    using CreateJob_acceptable [OF newJob_acceptable [OF assms(4)] q assms(3)] assms(5,6) by simp
  with CreateJob_schema [of "sv_env sv 0" d n] q(2) assms(2) show ?thesis by simp
qed

lemma no_run_of_missing_job:
  assumes "schema_ok d" and "find_job i d = None"
  shows "(i, t) \<notin> occurrence ` set (runs d)"
proof
  assume "(i, t) \<in> occurrence ` set (runs d)"
  then obtain r where "r \<in> set (runs d)" "r_job_id r = i" by (auto simp: occurrence_def)
  with schema_run_job [OF assms(1)] assms(2) show False by force
qed

lemma started_waits:
  assumes "schema_ok d" and "quiet e" and "e_others e d = d" and "find_job i d = Some j"
    and "find_run (e_uuids e 0) d = None" and "(i, e_clock e) \<notin> occurrence ` set (runs d)"
  shows "waiting (e_uuids e 0) 1 due j (d\<lparr>runs := runs d @ [manual_run e i]\<rparr>)"
proof -
  have "find_job i d \<noteq> None" using assms(4) by simp
  from CreateManualRun_ok [OF assms(1-3) this assms(5,6)]
  have "CreateManualRun e i d = (Inr (manual_run e i), d\<lparr>runs := runs d @ [manual_run e i]\<rparr>)" by (simp add: manual_run_def Let_def)
  with CreateManualRun_schema [of e d i] assms(1,3) have "schema_ok (d\<lparr>runs := runs d @ [manual_run e i]\<rparr>)" by simp
  moreover have "find_run (e_uuids e 0) (d\<lparr>runs := runs d @ [manual_run e i]\<rparr>) = Some (manual_run e i)"
    using assms(5) by (simp add: lookup_row_append manual_run_def new_run_row_def)
  ultimately show ?thesis using assms(4) by (simp add: waiting_def manual_run_def new_run_row_def)
qed

lemma messages:
  assumes "R \<noteq> []" and "valid_utf8 R" and "valid_utf8 i" and "valid_utf8 t"
    and "y_msg (hd ys) = m_value (dispatchMessage R i 1 t)" and "list_all undistracted ys" and "list_all (carries R) (tl ys)"
  shows "list_all (smooth R) ys"
proof -
  have "DecodeDispatch (m_value (dispatchMessage R i 1 t)) = Inr \<lparr>q_run_id = R, q_job_id = i, q_job_type = t, q_attempt = 1\<rparr>"
    using dispatch_decodes [OF assms(1-4), of 1] by (simp add: int64_min_def int64_max_def)
  then have "carries R (hd ys)" by (simp add: carries_def assms(5))
  with assms(6,7) show ?thesis by (cases ys) (simp_all add: list_all_iff smooth_def)
qed

text \<open>
  C9: the whole way of a job. \<open>jobctl create\<close> prints the id of the stored job; \<open>jobctl run\<close> of that id
  prints the id of the run and the broker gets its message; when workers take the messages of its
  attempts, the first of them that very message, the run ends as the flags of the command line said:
  with the text of the lines, after the attempts that were meant to fail, if the job has the retries
  for them, and failed otherwise.
\<close>

theorem job_from_command_to_output:
  assumes "times_ok tm (sv_show sv)" and "times_ok tm (sv_show sv2)" and "undisturbed sv d" and "schema_ok d"
    and "args_ok a" and "ca_name a \<noteq> []" and "length (print_json (create_body a)) \<le> maxBodyBytes" and "ca_fail_at a = 0"
    and "newJob (sv_zones sv) (sv_now sv) (meant_request a) = Inr n" and "CHR 0x00 \<notin> set (n_name n)"
    and "e_jsonb (sv_env sv 0) (n_payload n) = Inr pay" and "parseGenerateText pay = Inr (meant_payload a)"
    and "j = created (sv_env sv 0) n pay" and "job_text_ok j" and "find_job (j_id j) d = None"
    and "plain_id (j_id j)" and "sv_uuid sv2 (j_id j) = Some (j_id j)"
    and "\<And>n. quiet (sv_env sv2 n)" and "\<And>n d. e_others (sv_env sv2 n) d = d"
    and "R = e_uuids (sv_env sv2 1) 0" and "R \<noteq> []" and "valid_utf8 R" and "find_run R d = None"
    and "sv_write sv2 (dispatchMessage R (j_id j) 1 (j_type j)) k = (None, k')"
    and "d1 = d\<lparr>jobs := jobs d @ [j]\<rparr>" and "d2 = d1\<lparr>runs := runs d @ [manual_run (sv_env sv2 1) (j_id j)]\<rparr>" and "w_db w = d2"
    and "list_all undistracted ys" and "y_msg (hd ys) = m_value (dispatchMessage R (j_id j) 1 (j_type j))"
    and "list_all (carries R) (tl ys)" and "on_time 1 due ys"
    and "int (length ys) = min (ca_fail_attempts a) (j_max_retries j) + 1"
  shows "create (api_transport sv) tm a (d, k0) = (created_output tm j, d1, k0)
    \<and> run_cmd (api_transport sv2) tm False [j_id j] (d1, k) = (\<lparr>o_out = [R @ [newline]], o_err = [], o_error = None\<rparr>, d2, k')
    \<and> (\<exists>r. find_run R (w_db (fold (deliver wr) ys w)) = Some r
        \<and> r_attempt r = min (ca_fail_attempts a) (j_max_retries j) + 1
        \<and> (if ca_fail_attempts a \<le> j_max_retries j
           then r_status r = StatusSucceeded \<and> r_output r = Some (full_text (meant_payload a))
           else r_status r = StatusFailed))"
proof -
  let ?e = "sv_env sv 0" and ?e2 = "sv_env sv2 1"
  have id: "e_uuids ?e 0 = j_id j" by (simp add: assms(13) created_def new_job_row_def)
  have ty: "j_type j = TypeGenerateText" "valid_utf8 (j_id j)" "valid_utf8 (j_type j)"
    using newJob_type [OF assms(9)] assms(14) by (simp_all add: assms(13) created_def new_job_row_def meant_request_def TypeGenerateText_def job_text_ok_def)
  have "create (api_transport sv) tm a (d, k0) = (created_output tm j, d1, k0)"
    using create_stored [OF assms(1,3,5-7) _ assms(9), of pay k0] assms(10,11,13-15,25) id by simp
  moreover have s1: "schema_ok d1"
    using created_schema [OF assms(3,4) _ assms(9-11)] assms(13,15,25) id by simp
  have f1: "find_job (j_id j) d1 = Some j" "find_run R d1 = None" "(j_id j, e_clock ?e2) \<notin> occurrence ` set (runs d1)"
    using assms(15,23,25) no_run_of_missing_job [OF assms(4,15)] by (simp_all add: lookup_row_append)
  have "run_cmd (api_transport sv2) tm False [j_id j] (d1, k) = (\<lparr>o_out = [R @ [newline]], o_err = [], o_error = None\<rparr>, d2, k')"
    using run_queued [OF assms(2,18,19) s1 assms(16,17) f1(1) ty(2), of k None k'] assms(20,22,24,26) f1(2,3) by (simp add: assms(25))
  moreover have wt: "waiting R 1 due j (w_db w)"
    using started_waits [OF s1 assms(18,19) f1(1)] f1(2,3) by (simp add: assms(20,25,26,27))
  moreover have p: "parseGenerateText (j_payload j) = Inr (meant_payload a)" "p_fail_at (meant_payload a) = 0"
    "p_fail_attempts (meant_payload a) = ca_fail_attempts a"
    using assms(8,12) by (simp_all add: assms(13) created_def new_job_row_def meant_payload_def)
  have "int (length ys) = last_attempt j (meant_payload a)" using assms(32) p(3) by (simp add: last_attempt_def)
  from run_ends [OF wt ty(1) p(1,2) messages [OF assms(21,22) ty(2,3) assms(29,28,30)] assms(31) this, of wr]
  have "\<exists>r. find_run R (w_db (fold (deliver wr) ys w)) = Some r
        \<and> r_attempt r = min (ca_fail_attempts a) (j_max_retries j) + 1
        \<and> (if ca_fail_attempts a \<le> j_max_retries j
           then r_status r = StatusSucceeded \<and> r_output r = Some (full_text (meant_payload a))
           else r_status r = StatusFailed)"
    unfolding p(3) by (cases "ca_fail_attempts a \<le> j_max_retries j") auto
  ultimately show ?thesis by blast
qed

section \<open>Witnesses\<close>

text \<open>A job whose first attempt fails, with a run of it queued, and two deliveries.\<close>

definition retry_args :: create_args where
  "retry_args = demo_args\<lparr>ca_fail_attempts := 1\<rparr>"

definition retry_job :: job where
  "retry_job = new_job_row ''K'' 1 (demo_new\<lparr>n_payload := print_json (create_payload retry_args)\<rparr>)"

definition retry_db :: db where
  "retry_db = \<lparr>jobs = [retry_job], runs = [new_run_row ''R'' ''K'' 2 TriggerManual 2], logs = []\<rparr>"

definition demo_delivery :: "uuid \<Rightarrow> time \<Rightarrow> delivery" where
  "demo_delivery i t = \<lparr>y_cfg = demo_cfg, y_msg = m_value (dispatchMessage i ''K'' 1 ''generate_text''), y_claim = demo_env t '''',
     y_attempt = demo_attempt None\<rparr>"

lemma args_payload_parsed:
  assumes "args_ok a" and "validate (meant_payload a) = None" and "length (print_json (create_body a)) \<le> maxBodyBytes"
  shows "parseGenerateText (print_json (create_payload a)) = Inr (meant_payload a)"
  using create_request_roundtrip [OF assms(1,3)] assms(2) by (simp add: meant_request_def)

lemma retry_args_ok: "args_ok retry_args" "validate (meant_payload retry_args) = None" "length (print_json (create_body retry_args)) \<le> maxBodyBytes"
proof -
  show "args_ok retry_args" using demo_args_ok(1) by (simp add: retry_args_def args_ok_def int64_ok_def int64_min_def int64_max_def)
  show "validate (meant_payload retry_args) = None" by (simp add: validate_None meant_payload_def retry_args_def demo_args_def)
  have "escape ''n'' = ''n''" "escape ''fail_attempts'' = ''fail_attempts''" by (simp_all add: escape_plain esc_ascii_def)
  then show "length (print_json (create_body retry_args)) \<le> maxBodyBytes"
    by (simp add: retry_args_def demo_args_def create_body_def create_payload_def given_def nonzero_def member_def maxBodyBytes_def quote_def
        json_int_def itoa_def demo_escapes dec_digits.simps)
qed

lemma demo_delivery_facts:
  "i \<noteq> [] \<Longrightarrow> valid_utf8 i \<Longrightarrow> smooth i (demo_delivery i t)" "undistracted (demo_delivery i t)"
  "e_now (y_claim (demo_delivery i t)) = t" "e_now (x_final (y_attempt (demo_delivery i t))) = 9"
  "retryDelay (y_cfg (demo_delivery i t)) 1 = 5 * Second" "y_msg (demo_delivery i t) = m_value (dispatchMessage i ''K'' 1 ''generate_text'')"
proof -
  show u: "undistracted (demo_delivery i t)"
    by (simp add: undistracted_def demo_delivery_def demo_attempt_def solo_def quiet_def demo_env_def calm_def calm_ctx_def)
  show "smooth i (demo_delivery i t)" if "i \<noteq> []" "valid_utf8 i"
    using messages [OF that, of "''K''" "''generate_text''" "[demo_delivery i t]"] u by (simp add: valid_ascii demo_delivery_def)
  show "retryDelay (y_cfg (demo_delivery i t)) 1 = 5 * Second"
    by (simp add: demo_delivery_def demo_cfg_def default_config_def retryDelay_def time_units)
qed (simp_all add: demo_delivery_def demo_attempt_def demo_env_def)

lemma retry_waiting: "waiting ''R'' 1 2 retry_job retry_db"
proof -
  have "schema_ok retry_db"
    by (simp add: schema_defs retry_db_def retry_job_def new_job_row_def new_run_row_def demo_new_def job_checks_def int4_max_def)
  then show ?thesis by (simp add: waiting_def retry_db_def retry_job_def new_job_row_def new_run_row_def)
qed

theorem retries_reach_the_end_witness:
  "\<exists>r. find_run ''R'' (w_db (fold (deliver send) [demo_delivery ''R'' 3, demo_delivery ''R'' 6000000]
         \<lparr>w_db = retry_db, w_broker = [], w_files = []\<rparr>)) = Some r
     \<and> r_status r = StatusSucceeded \<and> r_attempt r = 2 \<and> r_output r = Some (full_text (meant_payload retry_args))"
proof -
  let ?ys = "[demo_delivery ''R'' 3, demo_delivery ''R'' 6000000]" and ?w = "\<lparr>w_db = retry_db, w_broker = [], w_files = []\<rparr>"
  have j: "j_type retry_job = TypeGenerateText" "parseGenerateText (j_payload retry_job) = Inr (meant_payload retry_args)"
    "p_fail_at (meant_payload retry_args) = 0" "p_fail_attempts (meant_payload retry_args) = 1" "j_max_retries retry_job = 3"
    using args_payload_parsed [OF retry_args_ok]
    by (simp_all add: retry_job_def new_job_row_def demo_new_def TypeGenerateText_def meant_payload_def retry_args_def demo_args_def)
  have s: "list_all (smooth ''R'') ?ys" by (simp add: demo_delivery_facts valid_ascii)
  have o: "on_time 1 2 ?ys" by (simp add: demo_delivery_facts interval_us_def time_units)
  have "waiting ''R'' 1 2 retry_job (w_db ?w)" by (simp add: retry_waiting)
  from retries_reach_the_end [OF this j(1,2,3) s o, of send] j(4,5)
  have "\<exists>r. find_run ''R'' (w_db (fold (deliver send) ?ys ?w)) = Some r \<and> r_attempt r = 2
     \<and> r_status r = StatusSucceeded \<and> r_output r = Some (full_text (meant_payload retry_args)) \<and> r_error r = None"
    by (simp add: last_attempt_def)
  then show ?thesis by blast
qed

theorem job_from_command_to_output_witness:
  "\<exists>o1 d1 d2 r. create (api_transport (demo_api (demo_env 20 ''K''))) demo_times demo_args (demo_db 1, ()) = (o1, d1, ())
     \<and> run_cmd (api_transport (demo_api (demo_env 20 ''S''))) demo_times False [''K''] (d1, ()) =
         (\<lparr>o_out = [''S'' @ [newline]], o_err = [], o_error = None\<rparr>, d2, ())
     \<and> find_run ''S'' (w_db (fold (deliver send) [demo_delivery ''S'' 30] \<lparr>w_db = d2, w_broker = [], w_files = []\<rparr>)) = Some r
     \<and> r_status r = StatusSucceeded \<and> r_output r = Some (full_text (meant_payload demo_args))"
proof -
  let ?sv = "demo_api (demo_env 20 ''K'')" and ?sv2 = "demo_api (demo_env 20 ''S'')"
  define pay where "pay = print_json (create_payload demo_args)"
  define j where "j = created (sv_env ?sv 0) demo_new pay"
  define d1 where "d1 = (demo_db 1)\<lparr>jobs := jobs (demo_db 1) @ [j]\<rparr>"
  define d2 where "d2 = d1\<lparr>runs := runs (demo_db 1) @ [manual_run (sv_env ?sv2 1) (j_id j)]\<rparr>"
  note f = demo_create_facts
  have t: "times_ok demo_times (sv_show ?sv2)" using demo_times_ok by (simp add: demo_api_def)
  have a: "ca_fail_at demo_args = 0" "ca_fail_attempts demo_args = 0" "validate (meant_payload demo_args) = None"
    by (simp_all add: demo_args_def meant_payload_def validate_None)
  have n: "CHR 0x00 \<notin> set (n_name demo_new)" "e_jsonb (sv_env ?sv 0) (n_payload demo_new) = Inr pay"
    "parseGenerateText pay = Inr (meant_payload demo_args)"
    using args_payload_parsed [OF demo_args_ok(1) a(3) demo_args_ok(2)] by (simp_all add: demo_new_def demo_api_def demo_env_def pay_def)
  have j: "j_id j = ''K''" "j_type j = ''generate_text''" "j_max_retries j = 3" "job_text_ok j" "find_job (j_id j) (demo_db 1) = None"
    using f(2,3) by (simp_all add: j_def pay_def created_def new_job_row_def demo_api_def demo_env_def demo_new_def)
  have i: "plain_id (j_id j)" "sv_uuid ?sv2 (j_id j) = Some (j_id j)" "\<And>n. quiet (sv_env ?sv2 n)" "\<And>n d. e_others (sv_env ?sv2 n) d = d"
    "''S'' = e_uuids (sv_env ?sv2 1) 0" "''S'' \<noteq> []" "valid_utf8 ''S''" "find_run ''S'' (demo_db 1) = None"
    "sv_write ?sv2 (dispatchMessage ''S'' (j_id j) 1 (j_type j)) () = (None, ())"
    by (simp_all add: j plain_id_def demo_api_def quiet_def demo_env_def valid_ascii demo_db_eq new_run_row_def)
  have y: "list_all undistracted [demo_delivery ''S'' 30]" "y_msg (hd [demo_delivery ''S'' 30]) = m_value (dispatchMessage ''S'' (j_id j) 1 (j_type j))"
    "list_all (carries ''S'') (tl [demo_delivery ''S'' 30])" "on_time 1 20 [demo_delivery ''S'' 30]"
    "int (length [demo_delivery ''S'' 30]) = min (ca_fail_attempts demo_args) (j_max_retries j) + 1"
    by (simp_all add: demo_delivery_facts j a)
  have w: "w_db \<lparr>w_db = d2, w_broker = [], w_files = []\<rparr> = d2" by simp
  from job_from_command_to_output [OF f(1) t demo_undisturbed demo_schema_ok demo_args_ok(1) f(5) demo_args_ok(2) a(1) f(4) n j_def j(4,5)
      i d1_def d2_def w y, of "()" send] a(2) j(1,3)
  show ?thesis by auto
qed

end
