(* ===== verification/AttemptLog.thy ===== *)
theory AttemptLog
  imports Pipeline
begin

text \<open>
  What an attempt leaves in \<open>job_logs\<close>: the goroutines of Attempt, the job of Job and the deliveries of
  Pipeline put together, up to the complete log of a run that took several attempts.
\<close>

section \<open>The lines of one attempt\<close>

text \<open>Lines numbered from 1 without a gap are what is read back in order.\<close>

lemma all_lines_eq:
  assumes "schema_ok d" and "stored_lines i a d = set hist" and "map l_seq hist = [1..n]"
  shows "all_lines i a d = hist"
proof -
  let ?ls = "all_lines i a d"
  have s: "set ?ls = set hist" using assms(2) by (simp add: all_lines_def stored_lines_def)
  have "distinct (map l_seq ?ls)" "sorted (map l_seq ?ls)"
    using all_lines_distinct [OF assms(1)] all_lines_sorted by blast+
  moreover have "distinct (map l_seq hist)" "sorted (map l_seq hist)" unfolding assms(3) by simp_all
  moreover have "set (map l_seq ?ls) = set (map l_seq hist)" using s by simp
  ultimately have e: "map l_seq ?ls = map l_seq hist" by (metis sorted_distinct_set_unique)
  have "inj_on l_seq (set ?ls \<union> set hist)" using \<open>distinct (map l_seq hist)\<close> s by (simp add: distinct_map)
  with e show ?thesis by (metis inj_on_map_eq_map)
qed

text \<open>The levels a job logs at are those the table allows.\<close>

lemma gen_loop_levels:
  "fst ` set (snd (gen_loop c p pre every i b log)) \<subseteq> fst ` set log \<union> {''info'', ''error''}"
proof (induction "nat (p_lines p + 1 - i)" arbitrary: i b log)
  case 0
  then show ?case by (auto simp: gen_loop_end)
next
  case (Suc n)
  then have i: "i \<le> p_lines p" and n: "n = nat (p_lines p + 1 - (i + 1))" by simp_all
  have pr: "fst ` set (progress p every i) \<subseteq> {''info'', ''error''}" by (auto simp: progress_def)
  note ih = Suc.hyps(1) [OF n, of "b @ text_line pre i" "log @ progress p every i"]
  have "(\<exists>e x. gen_loop c p pre every i b log = (Inl e, log @ x) \<and> fst ` set x \<subseteq> {''info'', ''error''})
    \<or> gen_loop c p pre every i b log = gen_loop c p pre every (i + 1) (b @ text_line pre i) (log @ progress p every i)"
    using i by (subst gen_loop.simps, subst (3) gen_loop.simps)
      (auto simp: sleep_def Let_def progress_def split: option.split)
  then show ?case using ih pr by (elim disjE exE conjE) (auto simp: image_Un)
qed

lemma Run_levels: "fst ` set (snd (Job.Run c t pay a)) \<subseteq> set log_levels"
proof -
  have "fst ` set (snd (generateText c p a)) \<subseteq> {''info'', ''error''}" for p
  proof -
    let ?g = "gen_loop c p (if p_prefix p = [] then ''line'' else p_prefix p) (max 1 (p_lines p div 20)) 1 []
      [(''info'', ''generating '' @ itoa (p_lines p) @ '' lines'')]"
    obtain res log where g: "?g = (res, log)" by (cases ?g)
    have "fst ` set log \<subseteq> {''info'', ''error''}"
      using gen_loop_levels [of c p "if p_prefix p = [] then ''line'' else p_prefix p" "max 1 (p_lines p div 20)" 1 "[]"
          "[(''info'', ''generating '' @ itoa (p_lines p) @ '' lines'')]"] unfolding g by auto
    then show ?thesis unfolding generateText_def Let_def g by (cases res) (auto simp: image_Un)
  qed
  then have "fst ` set (snd (generateText c p a)) \<subseteq> set log_levels" for p by (force simp: log_levels_def)
  then show ?thesis by (simp add: Job.Run_def split: sum.split)
qed

text \<open>The lines of other runs and attempts stay as they are.\<close>

definition other_lines :: "uuid \<Rightarrow> int \<Rightarrow> db \<Rightarrow> (uuid \<times> log_line) list" where
  "other_lines i a d = filter (\<lambda>x. \<not> (fst x = i \<and> l_attempt (snd x) = a)) (logs d)"

lemma append_app_others: "other_lines i a (append_app i a y b d) = other_lines i a d"
proof -
  have "filter (\<lambda>x. \<not> (fst x = i \<and> l_attempt (snd x) = a)) (fold (insert_log i a) b t)
      = filter (\<lambda>x. \<not> (fst x = i \<and> l_attempt (snd x) = a)) t" for t
    by (induction b arbitrary: t) (simp_all add: insert_log_def Let_def)
  then show ?thesis
    using AppendLogs_db_cases [of "alone y" i a b d] by (auto simp: other_lines_def append_app_def alone_def)
qed

lemma attempt_others:
  assumes "list_all beats_alone ms"
  shows "other_lines (r_id r) (r_attempt r) (k_sink (at_log (run_attempt cfg r ms ty lines d))) = other_lines (r_id r) (r_attempt r) d"
proof (rule run_attempt_keeps [where P = "\<lambda>l d'. other_lines (r_id r) (r_attempt r) d' = other_lines (r_id r) (r_attempt r) d"])
  fix e d'
  assume m: "MBeat e \<in> set ms" and o: "other_lines (r_id r) (r_attempt r) d' = other_lines (r_id r) (r_attempt r) d"
  have "solo e" using assms m by (auto simp: list_all_iff)
  then have "table_step d' (snd (Heartbeat e (r_id r) (c_id cfg) (r_attempt r) d'))" using Heartbeat_step [of e d'] by simp
  from table_step_frame [OF this] o
  show "other_lines (r_id r) (r_attempt r) (snd (Heartbeat e (r_id r) (c_id cfg) (r_attempt r) d')) = other_lines (r_id r) (r_attempt r) d"
    by (simp add: other_lines_def)
qed (simp_all add: append_app_others)

lemma other_all_lines: "other_lines i a d' = other_lines i a d \<Longrightarrow> (i', a') \<noteq> (i, a) \<Longrightarrow> all_lines i' a' d' = all_lines i' a' d"
proof -
  assume o: "other_lines i a d' = other_lines i a d" and n: "(i', a') \<noteq> (i, a)"
  have "filter (\<lambda>x. fst x = i' \<and> l_attempt (snd x) = a') (logs d) =
      filter (\<lambda>x. fst x = i' \<and> l_attempt (snd x) = a') (other_lines i a d)" for d :: db
    using n unfolding other_lines_def filter_filter by (intro filter_cong) auto
  then show ?thesis by (simp add: all_lines_def o)
qed

section \<open>Executing an attempt\<close>

text \<open>No store call made while the attempt runs fails, and its heartbeats meet no other session.\<close>

definition all_told :: "attempt_env \<Rightarrow> bool" where
  "all_told x \<longleftrightarrow> list_all calm_move (x_moves x) \<and> quiet (snd (x_rest x))"

lemma calm_beats: "list_all calm_move ms \<Longrightarrow> list_all beats_alone ms"
proof -
  have "calm_move m \<Longrightarrow> beats_alone m" for m by (cases m) simp_all
  then show "list_all calm_move ms \<Longrightarrow> list_all beats_alone ms" by (simp add: list_all_iff)
qed

lemma attempt_schema:
  assumes "schema_ok d" and "list_all beats_alone ms"
  shows "schema_ok (k_sink (at_log (run_attempt cfg r ms ty lines d)))"
proof (rule run_attempt_keeps [where P = "\<lambda>l d'. schema_ok d'"])
  fix e d'
  assume m: "MBeat e \<in> set ms" and s: "schema_ok d'"
  have "solo e" using assms(2) m by (auto simp: list_all_iff)
  with table_step_schema [OF Heartbeat_step [of e d']] s
  show "schema_ok (snd (Heartbeat e (r_id r) (c_id cfg) (r_attempt r) d'))" by simp
qed (use assms(1) append_app_keeps in blast)+

lemma execute_lines:
  assumes "schema_ok (w_db w)" and "find_run (r_id r) (w_db w) \<noteq> None" and "find_job (r_job_id r) (w_db w) = Some j"
    and "solo (x_load x)" and "quiet (x_load x)" and "solo (x_final x)" and "all_told x"
    and "stored_lines (r_id r) (r_attempt r) (w_db w) = {}"
  shows "map entry_of (all_lines (r_id r) (r_attempt r) (w_db (execute cfg wr x r w))) =
      snd (Job.Run (x_ctx x) (j_type j) (j_payload j) (r_attempt r))
    \<and> map l_seq (all_lines (r_id r) (r_attempt r) (w_db (execute cfg wr x r w))) =
      [1..int (length (snd (Job.Run (x_ctx x) (j_type j) (j_payload j) (r_attempt r))))]
    \<and> other_lines (r_id r) (r_attempt r) (w_db (execute cfg wr x r w)) = other_lines (r_id r) (r_attempt r) (w_db w)"
proof -
  let ?d = "w_db w"
  let ?res = "Job.Run (x_ctx x) (j_type j) (j_payload j) (r_attempt r)"
  let ?s = "run_attempt cfg r (x_moves x) (x_rest x) (snd ?res) ?d"
  let ?d3 = "k_sink (at_log ?s)"
  have ms: "list_all calm_move (x_moves x)" "list_all beats_alone (x_moves x)" "quiet (snd (x_rest x))"
    using assms(7) calm_beats by (simp_all add: all_told_def)
  have g: "GetJob (x_load x) (r_job_id r) ?d = (Inr j, ?d)"
    using GetJob_quiet [of "x_load x" ?d "r_job_id r"] GetJob_db [of "x_load x" "r_job_id r" ?d] assms(1,3,4,5)
    by (simp add: prod_eq_iff schema_defs)
  have e: "execute cfg wr x r w = settle cfg wr x r j (fst ?res) (cause_of x (at_lost ?s)) (w\<lparr>w_db := ?d3\<rparr>)"
    by (simp add: execute_def g Let_def split_def)
  have lg: "logs (w_db (execute cfg wr x r w)) = logs ?d3"
    unfolding e using table_step_frame [OF settle_step [OF assms(6), of "w\<lparr>w_db := ?d3\<rparr>" cfg wr r j]] by simp
  obtain hist where h: "map entry_of hist = snd ?res" "map l_seq hist = [1..int (length (snd ?res))]"
    "stored_lines (r_id r) (r_attempt r) ?d3 = set hist"
    by (rule run_attempt_log [where ok = True, OF assms(8) ms(2), of "x_rest x" "snd ?res" cfg]) (use assms(2) ms Run_levels in blast)+
  have "all_lines (r_id r) (r_attempt r) ?d3 = hist"
    by (rule all_lines_eq [OF attempt_schema [OF assms(1) ms(2)] h(3,2)])
  moreover have "all_lines i a (w_db (execute cfg wr x r w)) = all_lines i a ?d3" for i a using lg by (simp add: all_lines_def)
  moreover have "other_lines (r_id r) (r_attempt r) (w_db (execute cfg wr x r w)) = other_lines (r_id r) (r_attempt r) ?d3"
    using lg by (simp add: other_lines_def)
  ultimately show ?thesis using h attempt_others [OF ms(2)] by simp
qed

text \<open>
  C21: executing an attempt leaves its whole log in the database. However the job, the flusher and the
  heartbeat interleave, if no insert fails then the stored lines of the attempt, read back in order,
  are exactly what the job logged, numbered from 1, and the lines of every other run and attempt are
  as they were.
\<close>

theorem execute_stores_log:
  assumes "schema_ok (w_db w)" and "find_run (r_id r) (w_db w) \<noteq> None" and "find_job (r_job_id r) (w_db w) = Some j"
    and "solo (x_load x)" and "quiet (x_load x)" and "solo (x_final x)" and "all_told x"
    and "stored_lines (r_id r) (r_attempt r) (w_db w) = {}"
  shows "map entry_of (all_lines (r_id r) (r_attempt r) (w_db (execute cfg wr x r w))) =
      snd (Job.Run (x_ctx x) (j_type j) (j_payload j) (r_attempt r))
    \<and> map l_seq (all_lines (r_id r) (r_attempt r) (w_db (execute cfg wr x r w))) =
      [1..int (length (snd (Job.Run (x_ctx x) (j_type j) (j_payload j) (r_attempt r))))]
    \<and> (\<forall>i a. (i, a) \<noteq> (r_id r, r_attempt r) \<longrightarrow> all_lines i a (w_db (execute cfg wr x r w)) = all_lines i a (w_db w))"
proof -
  note l = execute_lines [OF assms, of cfg wr]
  then have "all_lines i a (w_db (execute cfg wr x r w)) = all_lines i a (w_db w)" if "(i, a) \<noteq> (r_id r, r_attempt r)" for i a
    using other_all_lines that by metis
  with l show ?thesis by blast
qed

section \<open>The log of a run of several attempts\<close>

text \<open>What an attempt of an undisturbed job logs: its progress about 20 times, and its failure if it is meant to fail.\<close>

definition meant_log :: "generate_text \<Rightarrow> int \<Rightarrow> log_entry list" where
  "meant_log p a =
     (''info'', ''generating '' @ itoa (p_lines p) @ '' lines'')
     # concat (map (progress p (max 1 (p_lines p div 20))) [1..p_lines p])
     @ (if a \<le> p_fail_attempts p
        then [(''error'', ''failing attempt '' @ itoa a @ '' on purpose (fail_attempts='' @ itoa (p_fail_attempts p) @ '')'')] else [])"

lemma gen_loop_calm_log:
  assumes "calm c" and "\<not> (i \<le> p_fail_at p \<and> p_fail_at p \<le> p_lines p)"
  shows "snd (gen_loop c p pre every i b log) = log @ concat (map (progress p every) [i..p_lines p])"
  using assms
proof (induction "nat (p_lines p + 1 - i)" arbitrary: i b log)
  case 0
  then show ?case by (simp add: gen_loop_end)
next
  case (Suc n)
  then have i: "i \<le> p_lines p" by simp
  with Suc.prems have f: "i \<noteq> p_fail_at p" "\<not> (i + 1 \<le> p_fail_at p \<and> p_fail_at p \<le> p_lines p)" by auto
  have n: "n = nat (p_lines p + 1 - (i + 1))" using Suc.hyps(2) by simp
  show ?case using Suc.hyps(1) [OF n Suc.prems(1) f(2)] gen_loop_step [OF i _ f(1)] Suc.prems(1) upto_step [OF i]
    by (simp add: calm_def)
qed

lemma attempt_logs:
  assumes "j_type j = TypeGenerateText" and "parseGenerateText (j_payload j) = Inr p" and "p_fail_at p = 0" and "calm c"
  shows "snd (Job.Run c (j_type j) (j_payload j) a) = meant_log p a"
proof -
  let ?pre = "if p_prefix p = [] then ''line'' else p_prefix p"
  let ?g = "gen_loop c p ?pre (max 1 (p_lines p div 20)) 1 [] [(''info'', ''generating '' @ itoa (p_lines p) @ '' lines'')]"
  have f: "\<not> (1 \<le> p_fail_at p \<and> p_fail_at p \<le> p_lines p)" using assms(3) by simp
  obtain b log where g: "?g = (Inr b, log)"
    using gen_loop_output [OF assms(4) f] by (metis prod.collapse)
  have "log = (''info'', ''generating '' @ itoa (p_lines p) @ '' lines'') # concat (map (progress p (max 1 (p_lines p div 20))) [1..p_lines p])"
    using gen_loop_calm_log [OF assms(4) f, of ?pre "max 1 (p_lines p div 20)" "[]" "[(''info'', ''generating '' @ itoa (p_lines p) @ '' lines'')]"]
    unfolding g by simp
  then have "snd (generateText c p a) = meant_log p a"
    unfolding generateText_def Let_def g meant_log_def by simp
  with assms(1,2) show ?thesis by (simp add: Job.Run_def)
qed

text \<open>The lines of an attempt whose log is complete: what was logged, in order, numbered from 1.\<close>

definition whole_log :: "log_entry list \<Rightarrow> log_line list \<Rightarrow> bool" where
  "whole_log es ls \<longleftrightarrow> map entry_of ls = es \<and> map l_seq ls = [1..int (length es)]"

lemma deliver_lines:
  assumes "waiting i a due j (w_db w)" and "smooth i y" and "due \<le> e_now (y_claim y)" and "all_told (y_attempt y)"
    and "all_lines i a (w_db w) = []"
  shows "whole_log (snd (Job.Run (x_ctx (y_attempt y)) (j_type j) (j_payload j) a)) (all_lines i a (w_db (deliver wr y w)))
    \<and> other_lines i a (w_db (deliver wr y w)) = other_lines i a (w_db w)
    \<and> (\<forall>b. b \<noteq> a \<longrightarrow> all_lines i b (w_db (deliver wr y w)) = all_lines i b (w_db w))"
proof -
  obtain r d where c: "claim (y_cfg y) (y_claim y) (y_msg y) (w_db w) = (Some r, d)" "schema_ok d" "find_run i d = Some r"
    "r_id r = i" "owns (c_id (y_cfg y)) a r" "r_attempt r = a" "find_job (r_job_id r) d = Some j"
    by (rule claim_waiting [OF assms(1-3)])
  have so: "solo (y_claim y)" "solo (x_load (y_attempt y))" "quiet (x_load (y_attempt y))" "solo (x_final (y_attempt y))"
    using assms(2) by (simp_all add: smooth_defs)
  have "logs d = logs (w_db w)"
  proof -
    obtain q where q: "ClaimRun (y_claim y) q (c_id (y_cfg y)) (w_db w) = (Inr (Some r), d)"
      using c(1) unfolding claim_def by (auto split: sum.splits option.splits prod.splits)
    have "table_step (w_db w) d" using ClaimRun_step [of "y_claim y" "w_db w" q "c_id (y_cfg y)"] so(1) q by simp
    then show ?thesis using table_step_frame by blast
  qed
  then have l: "all_lines i' b d = all_lines i' b (w_db w)" "other_lines i' b d = other_lines i' b (w_db w)" for i' b
    by (simp_all add: all_lines_def other_lines_def)
  have "stored_lines (r_id r) (r_attempt r) d = set (all_lines i a d)" by (simp add: c(4,6) stored_lines_def all_lines_def)
  then have z: "stored_lines (r_id r) (r_attempt r) d = {}" using l(1) assms(5) by simp
  have x: "deliver wr y w = execute (y_cfg y) wr (y_attempt y) r (w\<lparr>w_db := d\<rparr>)" by (simp add: deliver_def c(1))
  note e = execute_lines [of "w\<lparr>w_db := d\<rparr>" r j "y_attempt y" "y_cfg y" wr, folded x]
  have "find_run (r_id r) d \<noteq> None" using c(3,4) by simp
  with e c(2,6,7) so(2-4) assms(4) z
  have m: "whole_log (snd (Job.Run (x_ctx (y_attempt y)) (j_type j) (j_payload j) a)) (all_lines i a (w_db (deliver wr y w)))"
    and o: "other_lines i a (w_db (deliver wr y w)) = other_lines i a d"
    by (simp_all add: c(4) whole_log_def)
  from o have "all_lines i b (w_db (deliver wr y w)) = all_lines i b (w_db w)" if "b \<noteq> a" for b
    using other_all_lines [of i a "w_db (deliver wr y w)" d i b] that l(1) by simp
  with m o l(2) show ?thesis by simp
qed

lemma deliveries_lines:
  assumes "j_type j = TypeGenerateText" and "parseGenerateText (j_payload j) = Inr p" and "p_fail_at p = 0"
    and "last_attempt j p < int4_max"
  shows "waiting i a due j (w_db w) \<Longrightarrow> list_all (smooth i) ys \<Longrightarrow> on_time a due ys \<Longrightarrow> list_all (\<lambda>y. all_told (y_attempt y)) ys
    \<Longrightarrow> a + int (length ys) = last_attempt j p + 1 \<Longrightarrow> \<forall>b \<ge> a. all_lines i b (w_db w) = []
    \<Longrightarrow> (\<forall>b. a \<le> b \<and> b \<le> last_attempt j p \<longrightarrow> whole_log (meant_log p b) (all_lines i b (w_db (fold (deliver wr) ys w))))
      \<and> (\<forall>b < a. all_lines i b (w_db (fold (deliver wr) ys w)) = all_lines i b (w_db w))"
proof (induction ys arbitrary: a due w)
  case (Cons y ys)
  let ?w = "deliver wr y w" and ?due = "e_now (x_final (y_attempt y)) + interval_us (retryDelay (y_cfg y) a)"
  have y: "smooth i y" "due \<le> e_now (y_claim y)" "all_told (y_attempt y)" "all_lines i a (w_db w) = []" using Cons.prems by simp_all
  then have calm: "calm (x_ctx (y_attempt y))" by (simp add: smooth_defs)
  note dl = deliver_lines [OF Cons.prems(1) y, of wr, unfolded attempt_logs [OF assms(1-3) calm]]
  show ?case
  proof (cases "ys = []")
    case True
    then have "a = last_attempt j p" using Cons.prems(5) by simp
    with dl True show ?thesis by (auto dest: order_antisym)
  next
    case False
    then have "1 \<le> int (length ys)" by (cases ys) simp_all
    then have a: "a < last_attempt j p" "a < int4_max" using Cons.prems(5) assms(4) by simp_all
    have w: "waiting i (a + 1) ?due j (w_db ?w)" by (rule deliver_retried [OF Cons.prems(1) y(1,2) a assms(1-3)])
    have e: "\<forall>b \<ge> a + 1. all_lines i b (w_db ?w) = []" using dl Cons.prems(6) by simp
    have "(\<forall>b. a + 1 \<le> b \<and> b \<le> last_attempt j p \<longrightarrow> whole_log (meant_log p b) (all_lines i b (w_db (fold (deliver wr) ys ?w))))
      \<and> (\<forall>b < a + 1. all_lines i b (w_db (fold (deliver wr) ys ?w)) = all_lines i b (w_db ?w))"
      by (rule Cons.IH [OF w _ _ _ _ e]) (use Cons.prems in simp_all)
    then have ih: "a + 1 \<le> b \<and> b \<le> last_attempt j p \<Longrightarrow> whole_log (meant_log p b) (all_lines i b (w_db (fold (deliver wr) ys ?w)))"
      "b < a + 1 \<Longrightarrow> all_lines i b (w_db (fold (deliver wr) ys ?w)) = all_lines i b (w_db ?w)" for b by blast+
    have "whole_log (meant_log p b) (all_lines i b (w_db (fold (deliver wr) ys ?w)))" if "a \<le> b" "b \<le> last_attempt j p" for b
    proof (cases "b = a")
      case True
      with ih(2) [of a] dl show ?thesis by simp
    qed (use ih(1) [of b] that in simp)
    moreover have "all_lines i b (w_db (fold (deliver wr) ys ?w)) = all_lines i b (w_db w)" if "b < a" for b
      using ih(2) [of b] dl that by simp
    ultimately show ?thesis by simp
  qed
qed auto

text \<open>
  C13: a run leaves the complete log of every attempt. When its deliveries meet no failure, then after the
  last of them the log of each attempt from the first to the last, read back in order, is exactly what
  that attempt was meant to log: its progress, and that it failed on purpose if it did. No attempt
  loses a line to another, to a retry or to the flusher's timing.
\<close>

theorem retries_leave_whole_log:
  assumes "waiting i 1 due j (w_db w)" and "j_type j = TypeGenerateText" and "parseGenerateText (j_payload j) = Inr p"
    and "p_fail_at p = 0" and "list_all (smooth i) ys" and "on_time 1 due ys" and "int (length ys) = last_attempt j p"
    and "list_all (\<lambda>y. all_told (y_attempt y)) ys" and "\<forall>b \<ge> 1. all_lines i b (w_db w) = []"
  shows "\<forall>b \<in> {1..last_attempt j p}. map entry_of (all_lines i b (w_db (fold (deliver wr) ys w))) = meant_log p b"
proof -
  have "p_fail_attempts p \<le> 10" using parse_valid [OF assms(3)] by (simp add: validate_None)
  then have "last_attempt j p < int4_max" by (simp add: last_attempt_def int4_max_def)
  from deliveries_lines [OF assms(2-4) this assms(1,5,6,8) _ assms(9), of wr] assms(7) show ?thesis by (simp add: whole_log_def)
qed

section \<open>Witnesses\<close>

lemma demo_all_told: "all_told (demo_attempt st)"
  by (simp add: all_told_def demo_attempt_def solo_def quiet_def demo_env_def)

lemma retry_job_facts:
  "j_type retry_job = TypeGenerateText" "parseGenerateText (j_payload retry_job) = Inr (meant_payload retry_args)"
  "p_fail_at (meant_payload retry_args) = 0" "last_attempt retry_job (meant_payload retry_args) = 2"
  using args_payload_parsed [OF retry_args_ok]
  by (simp_all add: last_attempt_def retry_job_def new_job_row_def demo_new_def TypeGenerateText_def meant_payload_def retry_args_def demo_args_def)

theorem execute_stores_log_witness:
  "map entry_of (all_lines ''R'' 1 (w_db (execute demo_cfg send (demo_attempt None) (new_run_row ''R'' ''K'' 2 TriggerManual 2)
       \<lparr>w_db = retry_db, w_broker = [], w_files = []\<rparr>))) = meant_log (meant_payload retry_args) 1"
proof -
  let ?x = "demo_attempt None" and ?r = "new_run_row ''R'' ''K'' 2 TriggerManual 2" and ?w = "\<lparr>w_db = retry_db, w_broker = [], w_files = []\<rparr>"
  have x: "solo (x_load ?x)" "quiet (x_load ?x)" "solo (x_final ?x)" "calm (x_ctx ?x)"
    by (simp_all add: demo_attempt_def solo_def quiet_def demo_env_def calm_def calm_ctx_def)
  have d: "schema_ok retry_db" "find_run (r_id ?r) retry_db \<noteq> None" "find_job (r_job_id ?r) retry_db = Some retry_job"
    "stored_lines (r_id ?r) (r_attempt ?r) retry_db = {}" "r_id ?r = ''R''" "r_attempt ?r = 1"
    using retry_waiting by (simp_all add: waiting_def retry_db_def retry_job_def new_job_row_def new_run_row_def stored_lines_def)
  from execute_stores_log [of ?w ?r retry_job ?x demo_cfg send] d(1-4) x(1-3) demo_all_told
  show ?thesis using attempt_logs [OF retry_job_facts(1-3) x(4)] by (simp add: d(5,6))
qed

lemma retry_story:
  "list_all (smooth ''R'') [demo_delivery ''R'' 3, demo_delivery ''R'' 6000000]"
  "list_all (\<lambda>y. all_told (y_attempt y)) [demo_delivery ''R'' 3, demo_delivery ''R'' 6000000]"
  "on_time 1 2 [demo_delivery ''R'' 3, demo_delivery ''R'' 6000000]"
  "waiting ''R'' 1 2 retry_job (w_db \<lparr>w_db = retry_db, w_broker = [], w_files = []\<rparr>)"
  "\<forall>b \<ge> 1. all_lines ''R'' b (w_db \<lparr>w_db = retry_db, w_broker = [], w_files = []\<rparr>) = []"
  using demo_all_told
  by (simp_all add: demo_delivery_facts valid_ascii interval_us_def time_units retry_waiting)
     (simp_all add: demo_delivery_def all_lines_def retry_db_def)

theorem retries_leave_whole_log_witness:
  "map entry_of (all_lines ''R'' 1 (w_db (fold (deliver send) [demo_delivery ''R'' 3, demo_delivery ''R'' 6000000]
         \<lparr>w_db = retry_db, w_broker = [], w_files = []\<rparr>))) = meant_log (meant_payload retry_args) 1
   \<and> map entry_of (all_lines ''R'' 2 (w_db (fold (deliver send) [demo_delivery ''R'' 3, demo_delivery ''R'' 6000000]
         \<lparr>w_db = retry_db, w_broker = [], w_files = []\<rparr>))) = meant_log (meant_payload retry_args) 2"
proof -
  let ?ys = "[demo_delivery ''R'' 3, demo_delivery ''R'' 6000000]" and ?w = "\<lparr>w_db = retry_db, w_broker = [], w_files = []\<rparr>"
  from retries_leave_whole_log [OF retry_story(4) retry_job_facts(1-3) retry_story(1,3) _ retry_story(2,5), of send] retry_job_facts(4)
  have "\<forall>b \<in> {1..2}. map entry_of (all_lines ''R'' b (w_db (fold (deliver send) ?ys ?w))) = meant_log (meant_payload retry_args) b"
    by simp
  then show ?thesis by (metis atLeastAtMost_iff one_le_numeral order_refl)
qed

end
