(* ===== verification/Terminal.thy ===== *)
theory Terminal
  imports AttemptLog
begin

text \<open>
  From the payload of a job to the terminal: what \<open>jobctl logs\<close> prints of a run whose attempts have been
  delivered is what its last attempt was meant to log.
\<close>

section \<open>What is logged can be sent\<close>

definition log_good :: "db \<Rightarrow> bool" where
  "log_good d \<longleftrightarrow> list_all (\<lambda>x. line_ok (snd x) \<and> l_seq (snd x) < int64_max) (logs d)"

definition entry_ok :: "log_entry \<Rightarrow> bool" where
  "entry_ok e \<longleftrightarrow> valid_utf8 (fst e) \<and> valid_utf8 (snd e)"

lemma itoa_ascii: "list_all (\<lambda>c. ord c < 0x80) (itoa i)"
proof -
  have "ord c < 0x80" if "is_digit c \<or> c = CHR ''-''" for c :: char
    using that by (auto simp: is_digit_def)
  then show ?thesis using itoa_chars [of _ i] by (auto simp: list_all_iff)
qed

lemma meant_log_ok: "list_all entry_ok (meant_log p a)"
proof -
  have a: "list_all (\<lambda>c. ord c < 0x80) (''generating '' @ itoa (p_lines p) @ '' lines'')"
    "list_all (\<lambda>c. ord c < 0x80) (''wrote '' @ itoa k @ ''/'' @ itoa (p_lines p) @ '' lines'')"
    "list_all (\<lambda>c. ord c < 0x80) (''failing attempt '' @ itoa a @ '' on purpose (fail_attempts='' @ itoa (p_fail_attempts p) @ '')'')" for k
    by (simp_all add: itoa_ascii)
  have l: "valid_utf8 ''info''" "valid_utf8 ''error''" by (simp_all add: valid_ascii)
  have "list_all entry_ok (progress p every k)" for every k
    using valid_ascii [OF a(2)] l by (simp add: progress_def entry_ok_def)
  then have "list_all entry_ok (concat (map (progress p every) ks))" for every ks
    by (induction ks) simp_all
  then show ?thesis using valid_ascii [OF a(1)] valid_ascii [OF a(3)] l by (simp add: meant_log_def entry_ok_def)
qed

lemma meant_log_length:
  assumes "validate p = None"
  shows "int (length (meant_log p a)) \<le> 100002"
proof -
  have "length (progress p every k) \<le> 1" for every k by (simp add: progress_def)
  from add_mono [OF this] have "length (concat (map (progress p every) ks)) \<le> length ks" for every ks
    by (induction ks) simp_all
  from this [of "max 1 (p_lines p div 20)" "[1..p_lines p]"]
  have "length (concat (map (progress p (max 1 (p_lines p div 20))) [1..p_lines p])) \<le> nat (p_lines p)" by simp
  moreover have "p_lines p \<le> 100000" using assms by (simp add: validate_None)
  ultimately have "length (concat (map (progress p (max 1 (p_lines p div 20))) [1..p_lines p])) \<le> 100000" by linarith
  then show ?thesis by (simp add: meant_log_def)
qed

lemma whole_log_in:
  assumes "whole_log es ls" and "l \<in> set ls"
  shows "entry_of l \<in> set es" "1 \<le> l_seq l" "l_seq l \<le> int (length es)"
proof -
  have "entry_of l \<in> set (map entry_of ls)" "l_seq l \<in> set (map l_seq ls)" using assms(2) by simp_all
  then show "entry_of l \<in> set es" "1 \<le> l_seq l" "l_seq l \<le> int (length es)"
    using assms(1) unfolding whole_log_def by simp_all
qed

lemma whole_log_ok:
  assumes "whole_log es ls" and "list_all entry_ok es" and "int (length es) < int64_max" and "l \<in> set ls" and "int64_ok (l_attempt l)"
  shows "line_ok l \<and> l_seq l < int64_max"
  using whole_log_in [OF assms(1,4)] assms(2,3,5)
  by (auto simp: list_all_iff line_ok_def entry_ok_def entry_of_def int64_ok_def int64_min_def)

lemma log_good_grows:
  assumes "log_good d" and "other_lines i a d' = other_lines i a d" and "whole_log es (all_lines i a d')"
    and "list_all entry_ok es" and "int (length es) < int64_max" and "int64_ok a"
  shows "log_good d'"
proof -
  have "line_ok (snd x) \<and> l_seq (snd x) < int64_max" if "x \<in> set (logs d')" for x
  proof (cases "fst x = i \<and> l_attempt (snd x) = a")
    case True
    with that have "snd x \<in> set (all_lines i a d')" by (auto simp: all_lines_def)
    with whole_log_ok [OF assms(3-5)] True assms(6) show ?thesis by simp
  next
    case False
    with that have "x \<in> set (other_lines i a d')" by (simp add: other_lines_def)
    with assms(1,2) show ?thesis by (simp add: log_good_def list_all_iff other_lines_def)
  qed
  then show ?thesis by (simp add: log_good_def list_all_iff)
qed

section \<open>After the deliveries\<close>

lemma deliveries_good:
  assumes "j_type j = TypeGenerateText" and "parseGenerateText (j_payload j) = Inr p" and "p_fail_at p = 0"
    and "last_attempt j p < int4_max"
  shows "waiting i a due j (w_db w) \<Longrightarrow> list_all (smooth i) ys \<Longrightarrow> on_time a due ys \<Longrightarrow> list_all (\<lambda>y. all_told (y_attempt y)) ys
    \<Longrightarrow> a + int (length ys) = last_attempt j p + 1 \<Longrightarrow> \<forall>b \<ge> a. all_lines i b (w_db w) = [] \<Longrightarrow> 0 \<le> a \<Longrightarrow> log_good (w_db w)
    \<Longrightarrow> log_good (w_db (fold (deliver wr) ys w)) \<and> schema_ok (w_db (fold (deliver wr) ys w))"
proof (induction ys arbitrary: a due w)
  case Nil
  then show ?case by (simp add: waiting_def)
next
  case (Cons y ys)
  let ?w = "deliver wr y w" and ?due = "e_now (x_final (y_attempt y)) + interval_us (retryDelay (y_cfg y) a)"
  have y: "smooth i y" "due \<le> e_now (y_claim y)" "all_told (y_attempt y)" "all_lines i a (w_db w) = []" using Cons.prems by simp_all
  then have c: "calm (x_ctx (y_attempt y))" by (simp add: smooth_defs)
  note dl = deliver_lines [OF Cons.prems(1) y, of wr, unfolded attempt_logs [OF assms(1-3) c]]
  have "a \<le> last_attempt j p" using Cons.prems(5) by simp
  then have a: "a < int4_max" "int64_ok a" using assms(4) Cons.prems(7) by (simp_all add: int64_ok_def int64_min_def int64_max_def int4_max_def)
  have n: "int (length (meant_log p a)) < int64_max"
    using meant_log_length [OF parse_valid [OF assms(2)], of a] by (simp add: int64_max_def)
  have g: "log_good (w_db ?w)" using log_good_grows [OF Cons.prems(8) _ _ meant_log_ok n a(2)] dl by blast
  show ?case
  proof (cases "ys = []")
    case True
    with g deliver_settles [OF Cons.prems(1) y(1,2) a(1), of wr] show ?thesis by auto
  next
    case False
    then have "1 \<le> int (length ys)" by (cases ys) simp_all
    then have "a < last_attempt j p" using Cons.prems(5) by simp
    then have w: "waiting i (a + 1) ?due j (w_db ?w)" by (rule deliver_retried [OF Cons.prems(1) y(1,2) _ a(1) assms(1-3)])
    have e: "\<forall>b \<ge> a + 1. all_lines i b (w_db ?w) = []" using dl Cons.prems(6) by simp
    have "log_good (w_db (fold (deliver wr) ys ?w)) \<and> schema_ok (w_db (fold (deliver wr) ys ?w))"
      by (rule Cons.IH [OF w _ _ _ _ e _ g]) (use Cons.prems in simp_all)
    then show ?thesis by simp
  qed
qed

text \<open>
  C12: what the terminal shows of a run. When a run has been delivered once per attempt and no insert of
  a log line failed, \<open>jobctl logs\<close>, asked of the API's router and handlers over the resulting
  database, prints page after page exactly the lines its last attempt was meant to log, each once and
  in order: its progress, and that it failed on purpose if it did.
\<close>

theorem terminal_shows_meant_log:
  assumes "waiting i 1 due j (w_db w)" and "j_type j = TypeGenerateText" and "parseGenerateText (j_payload j) = Inr p"
    and "p_fail_at p = 0" and "list_all (smooth i) ys" and "on_time 1 due ys" and "int (length ys) = last_attempt j p"
    and "list_all (\<lambda>y. all_told (y_attempt y)) ys" and "\<forall>b \<ge> 1. all_lines i b (w_db w) = []" and "log_good (w_db w)"
    and "d = w_db (fold (deliver wr) ys w)"
    and "times_ok tm (sv_show sv)" and "undisturbed sv d" and "plain_id name" and "sv_uuid sv name = Some i"
  shows "\<exists>ls. logs_cmd (api_transport sv) tm False [name] (d, k) =
      Some (\<lparr>o_out = map (printLine tm) ls, o_err = [], o_error = None\<rparr>, d, k)
    \<and> map entry_of ls = meant_log p (last_attempt j p)"
proof -
  have v: "0 \<le> p_fail_attempts p" "p_fail_attempts p \<le> 10" using parse_valid [OF assms(3)] by (simp_all add: validate_None)
  have m: "0 \<le> j_max_retries j" using assms(1) stored_retries by (metis waiting_def)
  have la: "last_attempt j p < int4_max" "1 \<le> last_attempt j p" using v m by (simp_all add: last_attempt_def int4_max_def)
  have n: "1 + int (length ys) = last_attempt j p + 1" "ys \<noteq> []" using assms(7) la(2) by auto
  obtain r where r: "find_run i d = Some r" "ended_as_meant j p r"
    using deliveries_end [OF assms(2-4) la(1) assms(1,5,6) n(2,1), of wr] assms(11) by blast
  then have ra: "r_attempt r = last_attempt j p" by (simp add: ended_as_meant_def)
  have wl: "whole_log (meant_log p (r_attempt r)) (all_lines i (r_attempt r) d)"
    using deliveries_lines [OF assms(2-4) la(1) assms(1,5,6,8) n(1) assms(9), of wr] la(2) by (simp add: ra assms(11))
  have g: "log_good d" "schema_ok d"
    using deliveries_good [OF assms(2-4) la(1) assms(1,5,6,8) n(1) assms(9) _ assms(10), of wr] by (simp_all add: assms(11))
  then have "db_good d" "list_all (\<lambda>x. line_ok (snd x)) (logs d)" by (simp_all add: db_good_def log_good_def list_all_iff)
  moreover have "int64_ok (r_attempt r)" using la by (simp add: ra int64_ok_def int64_min_def int64_max_def int4_max_def)
  ultimately have p: "logs_cmd (api_transport sv) tm False [name] (d, k) =
      Some (\<lparr>o_out = map (printLine tm) (lines_from i (r_attempt r) 1 d), o_err = [], o_error = None\<rparr>, d, k)"
    using logs_cmd_prints [OF assms(12-14) _ assms(15) r(1)] by blast
  have "lines_from i (r_attempt r) 1 d = all_lines i (r_attempt r) d"
    using whole_log_in(2) [OF wl] by (simp add: lines_from_def)
  with p wl show ?thesis by (auto simp: ra whole_log_def)
qed

text \<open>A job that fails its first attempt: the log of the second one.\<close>

theorem terminal_shows_meant_log_witness:
  "\<exists>ls. logs_cmd (api_transport (demo_api (demo_env 20 []))) demo_times False [''R'']
        (w_db (fold (deliver send) [demo_delivery ''R'' 3, demo_delivery ''R'' 6000000] \<lparr>w_db = retry_db, w_broker = [], w_files = []\<rparr>), ()) =
      Some (\<lparr>o_out = map (printLine demo_times) ls, o_err = [], o_error = None\<rparr>,
        w_db (fold (deliver send) [demo_delivery ''R'' 3, demo_delivery ''R'' 6000000] \<lparr>w_db = retry_db, w_broker = [], w_files = []\<rparr>), ())
    \<and> map entry_of ls = meant_log (meant_payload retry_args) 2"
proof -
  let ?ys = "[demo_delivery ''R'' 3, demo_delivery ''R'' 6000000]" and ?w = "\<lparr>w_db = retry_db, w_broker = [], w_files = []\<rparr>"
  let ?sv = "demo_api (demo_env 20 [])"
  have w: "log_good (w_db ?w)" by (simp add: log_good_def retry_db_def)
  have a: "times_ok demo_times (sv_show ?sv)" "plain_id ''R''" "sv_uuid ?sv ''R'' = Some ''R''"
    using demo_times_ok by (simp_all add: demo_api_def plain_id_def)
  have l: "int (length ?ys) = last_attempt retry_job (meant_payload retry_args)" using retry_job_facts(4) by simp
  from terminal_shows_meant_log [OF retry_story(4) retry_job_facts(1-3) retry_story(1,3) l retry_story(2,5) w refl a(1) demo_undisturbed a(2,3), of send "()"] retry_job_facts(4)
  show ?thesis by simp
qed

end
