(* ===== verification/Recovery.thy ===== *)
theory Recovery
  imports Pipeline
begin

text \<open>
  What the three queries of a maintenance pass do to each run and to the rows in front of it. They
  take the oldest rows first, at most \<open>maintenanceBatch\<close> at a time.
\<close>

section \<open>What the three queries pick\<close>

definition unfinished :: "run \<Rightarrow> bool" where
  "unfinished r \<longleftrightarrow> \<not> final_status (r_status r)"

definition backlog :: "db \<Rightarrow> nat" where
  "backlog d = length (filter unfinished (runs d))"

lemma filter_length_le: "(\<And>x. P x \<Longrightarrow> Q x) \<Longrightarrow> length (filter P xs) \<le> length (filter Q xs)"
  by (induction xs) auto

definition redispatch_row :: "db \<Rightarrow> run \<Rightarrow> redispatch" where
  "redispatch_row d r = \<lparr>d_run_id = r_id r, d_job_id = r_job_id r,
     d_job_type = (case find_job (r_job_id r) d of None \<Rightarrow> [] | Some j \<Rightarrow> j_type j),
     d_status = r_status r, d_attempt = r_attempt r\<rparr>"

text \<open>A store call of the maintenance pass that meets nobody else.\<close>

definition unhindered :: "env \<Rightarrow> bool" where
  "unhindered e \<longleftrightarrow> solo e \<and> quiet e \<and> e_locked e = []"

lemma unhindered_simps: "unhindered e \<Longrightarrow> solo e \<and> quiet e \<and> e_others e d = d \<and> e_locked e = []"
  by (simp add: unhindered_def)

section \<open>Overdue runs\<close>

text \<open>
  A run that no worker will go on with by itself: its worker stopped heartbeating, its retry has fallen
  due, or its message has not been answered for \<open>SweepAfter\<close>.
\<close>

definition overdue :: "config \<Rightarrow> time \<Rightarrow> run \<Rightarrow> bool" where
  "overdue cfg now r \<longleftrightarrow> (case r_status r of
     StatusRunning \<Rightarrow> (case r_last_heartbeat_at r of None \<Rightarrow> False | Some t \<Rightarrow> t < now - interval_us (c_stale_after cfg))
   | StatusQueued \<Rightarrow> (case r_next_attempt_at r of
        Some t \<Rightarrow> t \<le> now | None \<Rightarrow> r_queued_at r < now - interval_us (c_sweep_after cfg))
   | _ \<Rightarrow> False)"

text \<open>The row a pass leaves for a run it has put back.\<close>

definition brought_back :: "run \<Rightarrow> run \<Rightarrow> bool" where
  "brought_back r r' \<longleftrightarrow> r_status r' = StatusQueued \<and> r_next_attempt_at r' = None \<and> r_id r' = r_id r \<and> r_job_id r' = r_job_id r
     \<and> r_attempt r' = (if r_status r = StatusRunning then r_attempt r + 1 else r_attempt r)"

lemma redispatch_message:
  "find_job (r_job_id r) d = Some j \<Longrightarrow> message_of (redispatch_row d r) = dispatchMessage (r_id r) (r_job_id r) (r_attempt r) (j_type j)"
  by (simp add: message_of_def redispatch_row_def)

lemma brought_back_message:
  assumes "brought_back r q" and "find_job (r_job_id r) d = Some j"
  shows "message_of (redispatch_row d q) =
      dispatchMessage (r_id r) (r_job_id r) (if r_status r = StatusRunning then r_attempt r + 1 else r_attempt r) (j_type j)
    \<and> d_status (redispatch_row d q) \<noteq> StatusFailed"
proof -
  have "find_job (r_job_id q) d = Some j" using assms by (simp add: brought_back_def)
  from redispatch_message [OF this] assms(1) show ?thesis by (simp add: brought_back_def redispatch_row_def)
qed

section \<open>One query\<close>

definition picked :: "(run \<Rightarrow> time) \<Rightarrow> (run \<Rightarrow> bool) \<Rightarrow> db \<Rightarrow> run \<Rightarrow> bool" where
  "picked k P d r \<longleftrightarrow> r_id r \<in> set (map r_id (order_limit k maintenanceBatch (filter P (runs d))))"

definition served :: "(run \<Rightarrow> time) \<Rightarrow> (run \<Rightarrow> bool) \<Rightarrow> (run \<Rightarrow> run) \<Rightarrow> db \<Rightarrow> db" where
  "served k P f d = d\<lparr>runs := map (\<lambda>r. if picked k P d r then f r else r) (runs d)\<rparr>"

definition reply :: "(run \<Rightarrow> time) \<Rightarrow> (run \<Rightarrow> bool) \<Rightarrow> (run \<Rightarrow> run) \<Rightarrow> db \<Rightarrow> redispatch list" where
  "reply k P f d = collectRedispatches d (map f (filter (picked k P d) (runs d)))"

abbreviation last_beat :: "run \<Rightarrow> time" where "last_beat r \<equiv> time_or_0 (r_last_heartbeat_at r)"
abbreviation due_time :: "run \<Rightarrow> time" where "due_time r \<equiv> time_or_0 (r_next_attempt_at r)"
abbreviation reaped :: "env \<Rightarrow> db \<Rightarrow> run \<Rightarrow> run" where "reaped e d r \<equiv> reap_row (e_now e) (exhausted d r) r"

definition reapable :: "db \<Rightarrow> bool" where
  "reapable d \<longleftrightarrow> (\<forall>r \<in> set (runs d). r_status r = StatusRunning \<longrightarrow> r_attempt r < int4_max)"

lemma picked_iff:
  assumes "schema_ok d" and "r \<in> set (runs d)"
  shows "picked k P d r \<longleftrightarrow> r \<in> set (order_limit k maintenanceBatch (filter P (runs d)))"
proof
  assume "picked k P d r"
  then have "r_id r \<in> r_id ` set (order_limit k maintenanceBatch (filter P (runs d)))" by (simp add: picked_def)
  from picked_row [OF assms(1) _ assms(2) this, of "\<lambda>x. x \<in> set (order_limit k maintenanceBatch (filter P (runs d)))"]
  show "r \<in> set (order_limit k maintenanceBatch (filter P (runs d)))" using order_limit_in by fastforce
qed (simp add: picked_def)

lemma picked_P: "schema_ok d \<Longrightarrow> r \<in> set (runs d) \<Longrightarrow> picked k P d r \<Longrightarrow> P r"
  using picked_iff [of d r k P] order_limit_in [of r k maintenanceBatch "filter P (runs d)"] by simp

lemma stale_no_overflow:
  assumes "schema_ok d" and "reapable d"
  shows "\<not> attempt_overflows (\<lambda>r. picked last_beat (is_stale e s d) d r \<and> \<not> exhausted d r) (runs d)"
proof -
  have "r_attempt r < int4_max" if "r \<in> set (runs d)" and "picked last_beat (is_stale e s d) d r" for r
  proof -
    from assms(1) that have "is_stale e s d r" by (rule picked_P)
    with assms(2) that(1) show ?thesis by (simp add: reapable_def is_stale_def)
  qed
  then show ?thesis by (fastforce simp: attempt_overflows_def)
qed

lemma ReapStale_serves:
  assumes "unhindered e" and "schema_ok d" and "reapable d"
  shows "ReapStale e s maintenanceBatch d = (Inr (reply last_beat (is_stale e s d) (reaped e d) d), served last_beat (is_stale e s d) (reaped e d) d)"
proof -
  have p: "r_id r \<in> set (map r_id (stale_runs e s maintenanceBatch d)) \<longleftrightarrow> picked last_beat (is_stale e s d) d r" for r d
    by (simp add: picked_def stale_runs_def)
  show ?thesis unfolding ReapStale_def Let_def p sql_update_def split reply_def served_def
    using unhindered_simps [OF assms(1)] stale_no_overflow [OF assms(2,3)] by simp
qed

lemma DueRetries_serves:
  assumes "unhindered e"
  shows "DueRetries e maintenanceBatch d = (Inr (reply due_time (is_due_retry e d) (retry_row (e_now e)) d), served due_time (is_due_retry e d) (retry_row (e_now e)) d)"
proof -
  have p: "r_id r \<in> set (map r_id (due_retries e maintenanceBatch d)) \<longleftrightarrow> picked due_time (is_due_retry e d) d r" for r d
    by (simp add: picked_def due_retries_def)
  show ?thesis unfolding DueRetries_def Let_def p sql_update_def split reply_def served_def
    using unhindered_simps [OF assms] by simp
qed

lemma SweepQueued_serves:
  assumes "unhindered e"
  shows "SweepQueued e s maintenanceBatch d = (Inr (reply r_queued_at (is_stuck e s d) (sweep_row (e_now e)) d), served r_queued_at (is_stuck e s d) (sweep_row (e_now e)) d)"
proof -
  have p: "r_id r \<in> set (map r_id (stuck_runs e s maintenanceBatch d)) \<longleftrightarrow> picked r_queued_at (is_stuck e s d) d r" for r d
    by (simp add: picked_def stuck_runs_def)
  show ?thesis unfolding SweepQueued_def Let_def p sql_update_def split reply_def served_def
    using unhindered_simps [OF assms] by simp
qed

text \<open>What a query does to one run.\<close>

lemma served_find:
  assumes "schema_ok d" and "find_run i d = Some r" and "\<And>r. r_id (f r) = r_id r"
  shows "find_run i (served k P f d) = Some (if picked k P d r then f r else r)"
    and "picked k P d r \<Longrightarrow> P r \<and> redispatch_row d (f r) \<in> set (reply k P f d)"
proof -
  have r: "r \<in> set (runs d)" using lookup_row_Some [OF assms(2)] by simp
  show "find_run i (served k P f d) = Some (if picked k P d r then f r else r)"
    using find_after_update [OF assms(2,3), of "picked k P d"] by (simp add: served_def)
  show "P r \<and> redispatch_row d (f r) \<in> set (reply k P f d)" if "picked k P d r"
    using picked_P [OF assms(1) r that] r that by (auto simp: reply_def collectRedispatches_def redispatch_row_def)
qed

lemma served_cases:
  assumes "schema_ok d" and "find_run i d = Some r" and "\<And>r. r_id (f r) = r_id r"
  obtains (taken) "P r" "find_run i (served k P f d) = Some (f r)" "redispatch_row d (f r) \<in> set (reply k P f d)"
    | (left) "find_run i (served k P f d) = Some r" "\<not> picked k P d r"
proof (cases "picked k P d r")
  case True
  note f = served_find(1) [OF assms, where k = k and P = P] and p = served_find(2) [OF assms True]
  show thesis by (rule taken) (use f p True in simp_all)
next
  case False
  show thesis by (rule left) (use False served_find(1) [OF assms, where k = k and P = P] in simp_all)
qed

lemma served_jobs [simp]: "jobs (served k P f d) = jobs d"
  by (simp add: served_def)

text \<open>Oldest first: a run that is not picked has a whole batch of picked rows in front of it.\<close>

lemma served_front_le:
  assumes "schema_ok d" and "\<And>x. x \<in> set (runs d) \<Longrightarrow> P x \<Longrightarrow> R (f x) \<Longrightarrow> R x"
  shows "length (filter R (runs (served k P f d))) \<le> length (filter R (runs d))"
proof -
  have "R (if picked k P d x then f x else x) \<Longrightarrow> R x" if "x \<in> set (runs d)" for x
    using picked_P [OF assms(1) that] assms(2) [OF that] by (auto split: if_splits)
  then have "length (filter (R \<circ> (\<lambda>x. if picked k P d x then f x else x)) xs) \<le> length (filter R xs)"
    if "set xs \<subseteq> set (runs d)" for xs
    using that by (induction xs) auto
  then show ?thesis by (simp add: served_def filter_map)
qed

lemma served_front_less:
  assumes "schema_ok d" and "r \<in> set (runs d)" and "P r" and "\<not> picked k P d r"
    and "\<And>x. x \<in> set (runs d) \<Longrightarrow> P x \<Longrightarrow> \<not> R (f x)" and "\<And>x. P x \<Longrightarrow> k x \<le> k r \<Longrightarrow> R x"
  shows "length (filter R (runs (served k P f d))) + maintenanceBatch \<le> length (filter R (runs d))"
proof -
  let ?q = "order_limit k maintenanceBatch (filter P (runs d))" and ?Q = "picked k P d"
  have r: "r \<in> set (filter P (runs d))" "r \<notin> set ?q" using assms(2-4) picked_iff [OF assms(1,2)] by auto
  then have len: "length ?q = maintenanceBatch"
    using order_limit_all [of "filter P (runs d)" maintenanceBatch k] unfolding length_order_limit
    by (cases "length (filter P (runs d)) \<le> maintenanceBatch") simp_all
  have ids: "distinct (map r_id (runs d))" using assms(1) by (simp add: schema_defs)
  then have dq: "distinct ?q"
    using distinct_order_limit [of r_id "filter P (runs d)" k maintenanceBatch] by (metis distinct_map distinct_map_filter)
  have "set ?q \<subseteq> set (filter (\<lambda>x. R x \<and> ?Q x) (runs d))"
  proof
    fix x assume x: "x \<in> set ?q"
    then have m: "x \<in> set (runs d)" "P x" using order_limit_in [OF x] by simp_all
    with x show "x \<in> set (filter (\<lambda>x. R x \<and> ?Q x) (runs d))"
      using assms(6) order_limit_least [OF x r] picked_iff [OF assms(1) m(1)] by simp
  qed
  then have "card (set ?q) \<le> card (set (filter (\<lambda>x. R x \<and> ?Q x) (runs d)))" by (rule card_mono [rotated]) simp
  then have a: "maintenanceBatch \<le> length (filter (\<lambda>x. R x \<and> ?Q x) (runs d))"
    using distinct_card [OF dq] len card_length [of "filter (\<lambda>x. R x \<and> ?Q x) (runs d)"] by linarith
  have n: "\<not> R (f x)" if "x \<in> set (runs d)" "?Q x" for x
    using picked_P [OF assms(1) that] assms(5) that(1) by blast
  have "length (filter (R \<circ> (\<lambda>x. if ?Q x then f x else x)) xs) + length (filter (\<lambda>x. R x \<and> ?Q x) xs) \<le> length (filter R xs)"
    if "set xs \<subseteq> set (runs d)" for xs
    using that n by (induction xs) auto
  with a show ?thesis by (simp add: served_def filter_map) (meson le_trans add_le_mono order_refl)
qed

section \<open>The rows in front of a run\<close>

text \<open>
  An overdue run waits in one of three queues: for the reaper by its last heartbeat, for the retry
  dispatcher by its due time, for the sweeper by the time it was queued.
\<close>

definition in_front :: "run \<Rightarrow> run \<Rightarrow> bool" where
  "in_front r x \<longleftrightarrow> (case r_status r of
     StatusRunning \<Rightarrow> r_status x = StatusRunning \<and> r_last_heartbeat_at x \<noteq> None \<and> last_beat x \<le> last_beat r
   | StatusQueued \<Rightarrow> r_status x = StatusQueued
       \<and> (if r_next_attempt_at r \<noteq> None then r_next_attempt_at x \<noteq> None \<and> due_time x \<le> due_time r else r_queued_at x \<le> r_queued_at r)
   | _ \<Rightarrow> False)"

definition ahead :: "run \<Rightarrow> db \<Rightarrow> nat" where
  "ahead r d = length (filter (in_front r) (runs d))"

lemma ahead_backlog: "ahead r d \<le> backlog d"
  unfolding ahead_def backlog_def
  by (rule filter_length_le) (simp add: in_front_def unfinished_def final_status_def split: status.splits)

lemma ahead_self:
  assumes "find_run i d = Some r" and "overdue cfg t r"
  shows "0 < ahead r d"
proof -
  have "in_front r r" using assms(2) by (auto simp: overdue_def in_front_def split: status.splits option.splits)
  then have "r \<in> set (filter (in_front r) (runs d))" using lookup_row_Some [OF assms(1)] by simp
  then show ?thesis unfolding ahead_def by (metis length_pos_if_in_set)
qed

text \<open>No query moves a row in front of a run, and the rows that are picked leave the queue they were picked from.\<close>

definition late :: "time \<Rightarrow> run \<Rightarrow> bool" where
  "late t r \<longleftrightarrow> (r_status r = StatusQueued \<and> r_next_attempt_at r = None \<longrightarrow> r_queued_at r < t)"

lemma overdue_late: "overdue cfg t r \<Longrightarrow> 0 \<le> c_sweep_after cfg \<Longrightarrow> t \<le> t' \<Longrightarrow> late t' r"
  using interval_us_nonneg [of "c_sweep_after cfg"] by (auto simp: overdue_def late_def split: status.splits option.splits)

lemma reaped_not_in_front: "is_stale e s d x \<Longrightarrow> row_ok x \<Longrightarrow> late (e_now e) r \<Longrightarrow> \<not> in_front r (reap_row (e_now e) ex x)"
  by (auto simp: is_stale_def row_ok_def in_front_def late_def reap_row_def split: status.splits)

lemma retried_not_in_front: "is_due_retry e d x \<Longrightarrow> late (e_now e) r \<Longrightarrow> \<not> in_front r (retry_row (e_now e) x)"
  by (auto simp: is_due_retry_def in_front_def late_def retry_row_def split: status.splits)

lemma swept_in_front: "is_stuck e s d x \<Longrightarrow> late (e_now e) r \<Longrightarrow> in_front r (sweep_row (e_now e) x) \<Longrightarrow>
    in_front r x \<and> r_status r = StatusQueued \<and> r_next_attempt_at r \<noteq> None"
  by (auto simp: is_stuck_def in_front_def late_def sweep_row_def split: status.splits if_splits)

lemma picked_in_front:
  "is_stale e s d x \<Longrightarrow> r_status r = StatusRunning \<Longrightarrow> last_beat x \<le> last_beat r \<Longrightarrow> in_front r x"
  "is_due_retry e d x \<Longrightarrow> r_status r = StatusQueued \<Longrightarrow> r_next_attempt_at r \<noteq> None \<Longrightarrow> due_time x \<le> due_time r \<Longrightarrow> in_front r x"
  "is_stuck e s d x \<Longrightarrow> r_status r = StatusQueued \<Longrightarrow> r_next_attempt_at r = None \<Longrightarrow> r_queued_at x \<le> r_queued_at r \<Longrightarrow> in_front r x"
  by (auto simp: is_stale_def is_due_retry_def is_stuck_def in_front_def split: option.splits)

section \<open>The three queries of a pass\<close>

definition after_reap :: "config \<Rightarrow> env \<Rightarrow> db \<Rightarrow> db" where
  "after_reap cfg e d = served last_beat (is_stale e (c_stale_after cfg) d) (reaped e d) d"

definition after_retries :: "env \<Rightarrow> db \<Rightarrow> db" where
  "after_retries e d = served due_time (is_due_retry e d) (retry_row (e_now e)) d"

definition after_sweep :: "config \<Rightarrow> env \<Rightarrow> db \<Rightarrow> db" where
  "after_sweep cfg e d = served r_queued_at (is_stuck e (c_sweep_after cfg) d) (sweep_row (e_now e)) d"

definition reap_reply :: "config \<Rightarrow> env \<Rightarrow> db \<Rightarrow> redispatch list" where
  "reap_reply cfg e d = reply last_beat (is_stale e (c_stale_after cfg) d) (reaped e d) d"

definition retries_reply :: "env \<Rightarrow> db \<Rightarrow> redispatch list" where
  "retries_reply e d = reply due_time (is_due_retry e d) (retry_row (e_now e)) d"

definition sweep_reply :: "config \<Rightarrow> env \<Rightarrow> db \<Rightarrow> redispatch list" where
  "sweep_reply cfg e d = reply r_queued_at (is_stuck e (c_sweep_after cfg) d) (sweep_row (e_now e)) d"

lemmas after_defs = after_reap_def after_retries_def after_sweep_def reap_reply_def retries_reply_def sweep_reply_def

lemma after_jobs [simp]:
  "jobs (after_reap cfg e d) = jobs d" "jobs (after_retries e d) = jobs d" "jobs (after_sweep cfg e d) = jobs d"
  by (simp_all add: after_defs)

lemma table_step_db_ok: "table_step d d' \<Longrightarrow> db_ok d \<Longrightarrow> db_ok d'"
  using runs_step_rows_ok [OF table_step_runs] table_step_schema by (auto simp: db_ok_def list_all_iff)

lemma after_db_ok:
  assumes "unhindered e" and "db_ok d"
  shows "reapable d \<Longrightarrow> db_ok (after_reap cfg e d)" "db_ok (after_retries e d)" "db_ok (after_sweep cfg e d)"
proof -
  have s: "schema_ok d" "e_others e d = d" using assms unhindered_simps by (simp_all add: db_ok_def)
  show "db_ok (after_reap cfg e d)" if "reapable d"
    using ReapStale_step [of e d "c_stale_after cfg" maintenanceBatch] ReapStale_serves [OF assms(1) s(1) that] s assms(2)
    by (simp add: after_defs table_step_db_ok)
  show "db_ok (after_retries e d)"
    using DueRetries_step [of e d maintenanceBatch] DueRetries_serves [OF assms(1)] s assms(2) by (simp add: after_defs table_step_db_ok)
  show "db_ok (after_sweep cfg e d)"
    using SweepQueued_step [of e d "c_sweep_after cfg" maintenanceBatch] SweepQueued_serves [OF assms(1)] s assms(2)
    by (simp add: after_defs table_step_db_ok)
qed

lemma served_reapable:
  assumes "reapable d" and "\<And>r. r_status (f r) = StatusRunning \<Longrightarrow> r_status r = StatusRunning \<and> r_attempt (f r) = r_attempt r"
  shows "reapable (served k P f d)"
  using assms by (auto simp: reapable_def served_def)

lemma after_reapable:
  assumes "reapable d"
  shows "reapable (after_reap cfg e d)" "reapable (after_retries e d)" "reapable (after_sweep cfg e d)"
  unfolding after_defs
  by (rule served_reapable [OF assms]; simp add: reap_row_def retry_row_def sweep_row_def split: if_splits)+

text \<open>What each does to one run, and to the rows in front of another.\<close>

lemma reap_find:
  assumes "schema_ok d" and "find_run i d = Some r"
  obtains (taken) "is_stale e (c_stale_after cfg) d r" "find_run i (after_reap cfg e d) = Some (reaped e d r)"
      "redispatch_row d (reaped e d r) \<in> set (reap_reply cfg e d)"
    | (left) "find_run i (after_reap cfg e d) = Some r" "\<not> picked last_beat (is_stale e (c_stale_after cfg) d) d r"
  by (rule served_cases [OF assms, where f = "reaped e d" and k = last_beat and P = "is_stale e (c_stale_after cfg) d", folded after_defs])
     (simp add: reap_row_def, (rule that; assumption)+)

lemma retries_find:
  assumes "schema_ok d" and "find_run i d = Some r"
  obtains (taken) "is_due_retry e d r" "find_run i (after_retries e d) = Some (retry_row (e_now e) r)"
      "redispatch_row d (retry_row (e_now e) r) \<in> set (retries_reply e d)"
    | (left) "find_run i (after_retries e d) = Some r" "\<not> picked due_time (is_due_retry e d) d r"
  by (rule served_cases [OF assms, where f = "retry_row (e_now e)" and k = due_time and P = "is_due_retry e d", folded after_defs])
     (simp add: retry_row_def, (rule that; assumption)+)

lemma sweep_find:
  assumes "schema_ok d" and "find_run i d = Some r"
  obtains (taken) "is_stuck e (c_sweep_after cfg) d r" "find_run i (after_sweep cfg e d) = Some (sweep_row (e_now e) r)"
      "redispatch_row d (sweep_row (e_now e) r) \<in> set (sweep_reply cfg e d)"
    | (left) "find_run i (after_sweep cfg e d) = Some r" "\<not> picked r_queued_at (is_stuck e (c_sweep_after cfg) d) d r"
  by (rule served_cases [OF assms, where f = "sweep_row (e_now e)" and k = r_queued_at and P = "is_stuck e (c_sweep_after cfg) d", folded after_defs])
     (simp add: sweep_row_def, (rule that; assumption)+)

lemma after_ahead:
  assumes "db_ok d" and "late (e_now e) r"
  shows "ahead r (after_reap cfg e d) \<le> ahead r d" "ahead r (after_retries e d) \<le> ahead r d" "ahead r (after_sweep cfg e d) \<le> ahead r d"
proof -
  have s: "schema_ok d" and ok: "\<And>x. x \<in> set (runs d) \<Longrightarrow> row_ok x" using assms(1) by (simp_all add: db_ok_def list_all_iff)
  show "ahead r (after_reap cfg e d) \<le> ahead r d" unfolding ahead_def after_defs
    by (rule served_front_le [OF s]) (use reaped_not_in_front ok assms(2) in blast)
  show "ahead r (after_retries e d) \<le> ahead r d" unfolding ahead_def after_defs
    by (rule served_front_le [OF s]) (use retried_not_in_front assms(2) in blast)
  show "ahead r (after_sweep cfg e d) \<le> ahead r d" unfolding ahead_def after_defs
    by (rule served_front_le [OF s]) (use swept_in_front assms(2) in blast)
qed

lemma after_ahead_less:
  assumes "db_ok d" and "late (e_now e) r" and "r \<in> set (runs d)"
  shows "r_status r = StatusRunning \<Longrightarrow> is_stale e (c_stale_after cfg) d r \<Longrightarrow> \<not> picked last_beat (is_stale e (c_stale_after cfg) d) d r \<Longrightarrow>
      ahead r (after_reap cfg e d) + maintenanceBatch \<le> ahead r d"
    and "r_status r = StatusQueued \<Longrightarrow> r_next_attempt_at r \<noteq> None \<Longrightarrow> is_due_retry e d r \<Longrightarrow> \<not> picked due_time (is_due_retry e d) d r \<Longrightarrow>
      ahead r (after_retries e d) + maintenanceBatch \<le> ahead r d"
    and "r_status r = StatusQueued \<Longrightarrow> r_next_attempt_at r = None \<Longrightarrow> is_stuck e (c_sweep_after cfg) d r \<Longrightarrow>
      \<not> picked r_queued_at (is_stuck e (c_sweep_after cfg) d) d r \<Longrightarrow> ahead r (after_sweep cfg e d) + maintenanceBatch \<le> ahead r d"
proof -
  have s: "schema_ok d" and ok: "\<And>x. x \<in> set (runs d) \<Longrightarrow> row_ok x" using assms(1) by (simp_all add: db_ok_def list_all_iff)
  show "ahead r (after_reap cfg e d) + maintenanceBatch \<le> ahead r d"
    if "r_status r = StatusRunning" "is_stale e (c_stale_after cfg) d r" "\<not> picked last_beat (is_stale e (c_stale_after cfg) d) d r"
    unfolding ahead_def after_defs
    by (rule served_front_less [OF s assms(3) that(2,3)]) (use reaped_not_in_front ok assms(2) picked_in_front(1) that(1) in blast)+
  show "ahead r (after_retries e d) + maintenanceBatch \<le> ahead r d"
    if "r_status r = StatusQueued" "r_next_attempt_at r \<noteq> None" "is_due_retry e d r" "\<not> picked due_time (is_due_retry e d) d r"
    unfolding ahead_def after_defs
    by (rule served_front_less [OF s assms(3) that(3,4)]) (use retried_not_in_front assms(2) picked_in_front(2) that(1,2) in blast)+
  show "ahead r (after_sweep cfg e d) + maintenanceBatch \<le> ahead r d"
    if "r_status r = StatusQueued" "r_next_attempt_at r = None" "is_stuck e (c_sweep_after cfg) d r"
      "\<not> picked r_queued_at (is_stuck e (c_sweep_after cfg) d) d r"
    unfolding ahead_def after_defs
    by (rule served_front_less [OF s assms(3) that(3,4)]) (use swept_in_front assms(2) picked_in_front(3) that(1,2) in blast)+
qed

end
