(* ===== verification/Drain.thy ===== *)
theory Drain
  imports Recovery
begin

text \<open>
  That no unfinished run is left behind. Each pass serves an overdue run or a whole batch of rows in
  front of it, and lets nobody overtake it, so a backlog of any size is worked off.
\<close>

section \<open>One pass\<close>

lemma pass_is:
  assumes "unhindered e1" and "unhindered e2" and "unhindered e3" and "db_ok (w_db w)" and "reapable (w_db w)"
    and "d1 = after_reap cfg e1 (w_db w)" and "d2 = after_retries e2 d1" and "w' = maintain_pass cfg send e1 e2 e3 w"
  shows "w_db w' = after_sweep cfg e3 d2" and "w_broker w' = w_broker w @ map message_of
    (filter (\<lambda>x. d_status x \<noteq> StatusFailed) (reap_reply cfg e1 (w_db w)) @ retries_reply e2 d1 @ sweep_reply cfg e3 d2)"
proof -
  have c: "ReapStale e1 (c_stale_after cfg) maintenanceBatch (w_db w) = (Inr (reap_reply cfg e1 (w_db w)), d1)"
    "DueRetries e2 maintenanceBatch d1 = (Inr (retries_reply e2 d1), d2)"
    "SweepQueued e3 (c_sweep_after cfg) maintenanceBatch d2 = (Inr (sweep_reply cfg e3 d2), after_sweep cfg e3 d2)"
    using ReapStale_serves [OF assms(1) _ assms(5)] DueRetries_serves [OF assms(2)] SweepQueued_serves [OF assms(3)] assms(4,6,7)
    by (simp_all add: after_defs db_ok_def)
  show "w_db w' = after_sweep cfg e3 d2" using c by (simp add: assms(8) maintain_pass_def)
  show "w_broker w' = w_broker w @ map message_of
    (filter (\<lambda>x. d_status x \<noteq> StatusFailed) (reap_reply cfg e1 (w_db w)) @ retries_reply e2 d1 @ sweep_reply cfg e3 d2)"
    using c by (simp add: assms(8) maintain_pass_def rows_of_def fold_send)
qed

text \<open>Where a run can be after it has been served. It stays there until a worker takes it.\<close>

definition requeued :: "run \<Rightarrow> int \<Rightarrow> db \<Rightarrow> bool" where
  "requeued r a d \<longleftrightarrow> (\<exists>r'. find_run (r_id r) d = Some r' \<and> r_status r' = StatusQueued \<and> r_next_attempt_at r' = None
     \<and> r_attempt r' = a \<and> r_job_id r' = r_job_id r)"

definition given_up :: "run \<Rightarrow> db \<Rightarrow> bool" where
  "given_up r d \<longleftrightarrow> (\<exists>r'. find_run (r_id r) d = Some r' \<and> r_status r' = StatusFailed \<and> r_attempt r' = r_attempt r
     \<and> r_error r' = Some (lost_worker_error r))"

lemma stays_reap:
  assumes "schema_ok d"
  shows "requeued r a d \<Longrightarrow> requeued r a (after_reap cfg e d)" "given_up r d \<Longrightarrow> given_up r (after_reap cfg e d)"
proof -
  have k: "find_run i (after_reap cfg e d) = Some q" if "find_run i d = Some q" "r_status q \<noteq> StatusRunning" for i q
  proof (rule reap_find [OF assms that(1), of e cfg])
    assume "is_stale e (c_stale_after cfg) d q"
    with that(2) show ?thesis by (simp add: is_stale_def)
  qed
  show "requeued r a d \<Longrightarrow> requeued r a (after_reap cfg e d)" using k unfolding requeued_def by (metis status.distinct(1))
  show "given_up r d \<Longrightarrow> given_up r (after_reap cfg e d)" using k unfolding given_up_def by (metis status.distinct(11) status.distinct(5))
qed

lemma stays_retries:
  assumes "schema_ok d"
  shows "requeued r a d \<Longrightarrow> requeued r a (after_retries e d)" "given_up r d \<Longrightarrow> given_up r (after_retries e d)"
proof -
  have k: "find_run i (after_retries e d) = Some q" if "find_run i d = Some q" "r_status q \<noteq> StatusQueued \<or> r_next_attempt_at q = None" for i q
  proof (rule retries_find [OF assms that(1), of e])
    assume "is_due_retry e d q"
    with that(2) show ?thesis by (cases "r_next_attempt_at q") (simp_all add: is_due_retry_def)
  qed
  show "requeued r a d \<Longrightarrow> requeued r a (after_retries e d)" using k unfolding requeued_def by (metis status.distinct(1))
  show "given_up r d \<Longrightarrow> given_up r (after_retries e d)" using k unfolding given_up_def by (metis status.distinct(11) status.distinct(5))
qed

lemma stays_sweep:
  assumes "schema_ok d"
  shows "requeued r a d \<Longrightarrow> requeued r a (after_sweep cfg e d)" "given_up r d \<Longrightarrow> given_up r (after_sweep cfg e d)"
proof -
  have k: "\<exists>t. find_run i (after_sweep cfg e d) = Some (q\<lparr>r_queued_at := t\<rparr>)" if "find_run i d = Some q" for i q
  proof (rule sweep_find [OF assms that, of e cfg])
    assume "find_run i (after_sweep cfg e d) = Some (sweep_row (e_now e) q)"
    then show ?thesis by (auto simp: sweep_row_def)
  next
    assume "find_run i (after_sweep cfg e d) = Some q"
    moreover have "q = q\<lparr>r_queued_at := r_queued_at q\<rparr>" by simp
    ultimately show ?thesis by metis
  qed
  show "requeued r a (after_sweep cfg e d)" if "requeued r a d"
    using that unfolding requeued_def by (elim exE conjE) (drule k, elim exE, intro exI conjI, assumption, simp_all)
  show "given_up r (after_sweep cfg e d)" if "given_up r d"
    using that unfolding given_up_def by (elim exE conjE) (drule k, elim exE, intro exI conjI, assumption, simp_all)
qed

text \<open>A run that has not been served keeps its place in its queue.\<close>

definition same_place :: "run \<Rightarrow> run \<Rightarrow> bool" where
  "same_place r r' \<longleftrightarrow> r' = r \<or> r_status r = StatusQueued \<and> r_next_attempt_at r \<noteq> None \<and> (\<exists>t. r' = r\<lparr>r_queued_at := t\<rparr>)"

lemma same_place_front: "same_place r r' \<Longrightarrow> ahead r' d = ahead r d"
proof -
  assume "same_place r r'"
  then have "in_front r' = in_front r" by (auto simp: same_place_def in_front_def fun_eq_iff split: status.splits)
  then show ?thesis by (simp add: ahead_def)
qed

lemma same_place_fields:
  "same_place r r' \<Longrightarrow> r_id r' = r_id r \<and> r_status r' = r_status r \<and> r_attempt r' = r_attempt r \<and> r_job_id r' = r_job_id r
     \<and> r_worker_id r' = r_worker_id r"
  by (auto simp: same_place_def)

lemma same_place_overdue: "same_place r r' \<Longrightarrow> overdue cfg t r \<Longrightarrow> t \<le> t' \<Longrightarrow> overdue cfg t' r'"
  by (auto simp: same_place_def overdue_def split: status.splits option.splits)

text \<open>The message of a row that a query put back in the queue.\<close>

lemma back_in_queue:
  assumes "find_run i d = Some r" and "find_run i d' = Some q" and "brought_back r q"
  shows "requeued r (r_attempt q) d'"
proof -
  have "r_id r = i" using lookup_row_Some [OF assms(1)] by simp
  with assms(2,3) show ?thesis by (simp add: requeued_def brought_back_def)
qed

definition next_attempt :: "run \<Rightarrow> int" where
  "next_attempt r = (if r_status r = StatusRunning then r_attempt r + 1 else r_attempt r)"

lemma brought_back_attempt: "brought_back r q \<Longrightarrow> r_attempt q = next_attempt r"
  by (simp add: brought_back_def next_attempt_def)

lemma back_with_message:
  assumes "redispatch_row d' q \<in> set xs" and "brought_back r q" and "find_job (r_job_id r) d' = Some j"
  shows "dispatchMessage (r_id r) (r_job_id r) (next_attempt r) (j_type j) \<in> set (map message_of xs)
    \<and> dispatchMessage (r_id r) (r_job_id r) (next_attempt r) (j_type j) \<in> set (map message_of (filter (\<lambda>x. d_status x \<noteq> StatusFailed) xs))"
  using brought_back_message [OF assms(2,3)] assms(1) unfolding next_attempt_def by (auto intro!: image_eqI [of _ _ "redispatch_row d' q"])

text \<open>What a pass does for an overdue run: it serves the run, or a whole batch of rows in front of it.\<close>

definition outcome :: "run \<Rightarrow> job \<Rightarrow> 'k world \<Rightarrow> db \<Rightarrow> message set \<Rightarrow> bool" where
  "outcome r j w d ms \<longleftrightarrow>
     \<not> (r_status r = StatusRunning \<and> j_max_retries j < r_attempt r) \<and> requeued r (next_attempt r) d \<and> dispatchMessage (r_id r) (r_job_id r) (next_attempt r) (j_type j) \<in> ms
   \<or> r_status r = StatusRunning \<and> j_max_retries j < r_attempt r \<and> given_up r d
   \<or> (\<exists>r'. find_run (r_id r) d = Some r' \<and> same_place r r' \<and> ahead r d + maintenanceBatch \<le> ahead r (w_db w))"

lemma serves_stale:
  assumes "db_ok (w_db w)" and "reapable (w_db w)" and "unhindered e1" and "unhindered e2" and "unhindered e3"
    and "find_run (r_id r) (w_db w) = Some r" and "find_job (r_job_id r) (w_db w) = Some j"
    and "r_status r = StatusRunning" and "overdue cfg (e_now e1) r"
    and "d1 = after_reap cfg e1 (w_db w)" and "d2 = after_retries e2 d1" and "d3 = after_sweep cfg e3 d2"
  shows "outcome r j w d3 (set (map message_of (filter (\<lambda>x. d_status x \<noteq> StatusFailed) (reap_reply cfg e1 (w_db w)))))"
proof -
  let ?d = "w_db w"
  have ok: "db_ok d1" "db_ok d2" "schema_ok ?d" "schema_ok d1" "schema_ok d2"
    using assms(1) after_db_ok assms(2-5,10-11) by (auto simp: db_ok_def)
  have st: "is_stale e1 (c_stale_after cfg) ?d r"
    using assms(3,7-9) by (simp add: is_stale_def overdue_def unhindered_def)
  have nx: "r_next_attempt_at r = None"
    using assms(1,6,8) lookup_row_Some [OF assms(6)] by (auto simp: db_ok_def list_all_iff row_ok_def)
  have l: "late t r" for t using assms(8) by (simp add: late_def)
  show ?thesis
  proof (rule reap_find [OF ok(3) assms(6), of e1 cfg, folded assms(10)])
    assume f: "find_run (r_id r) d1 = Some (reaped e1 ?d r)" and m: "redispatch_row ?d (reaped e1 ?d r) \<in> set (reap_reply cfg e1 ?d)"
    have ex: "exhausted ?d r \<longleftrightarrow> j_max_retries j < r_attempt r" using assms(7) by (simp add: exhausted_def)
    show ?thesis
    proof (cases "exhausted ?d r")
      case True
      then have "given_up r d1" using f by (simp add: given_up_def reap_row_def)
      then have "given_up r d3" using stays_retries(2) [OF ok(4)] stays_sweep(2) [OF ok(5)] assms(11,12) by simp
      with True ex assms(8) show ?thesis by (simp add: outcome_def)
    next
      case False
      then have b: "brought_back r (reaped e1 ?d r)" using assms(8) nx by (simp add: brought_back_def reap_row_def)
      have "requeued r (next_attempt r) d3"
        using back_in_queue [OF assms(6) f b] brought_back_attempt [OF b] stays_retries(1) [OF ok(4)] stays_sweep(1) [OF ok(5)] assms(11,12) by simp
      with False ex back_with_message [OF m b assms(7)] show ?thesis by (simp add: outcome_def)
    qed
  next
    assume f: "find_run (r_id r) d1 = Some r" and np: "\<not> picked last_beat (is_stale e1 (c_stale_after cfg) ?d) ?d r"
    have f2: "find_run (r_id r) d2 = Some r"
      by (rule retries_find [OF ok(4) f, of e2, folded assms(11)]) (use assms(8) in \<open>simp_all add: is_due_retry_def\<close>)
    have f3: "find_run (r_id r) d3 = Some r"
      by (rule sweep_find [OF ok(5) f2, of e3 cfg, folded assms(12)]) (use assms(8) in \<open>simp_all add: is_stuck_def\<close>)
    have "ahead r d1 + maintenanceBatch \<le> ahead r ?d"
      unfolding assms(10) by (rule after_ahead_less(1) [OF assms(1) l _ assms(8) st np]) (use lookup_row_Some [OF assms(6)] in simp)
    moreover have "ahead r d2 \<le> ahead r d1" "ahead r d3 \<le> ahead r d2"
      unfolding assms(11,12) using after_ahead(2) [OF ok(1) l] after_ahead(3) [OF ok(2) l] assms(11) by simp_all
    ultimately have "ahead r d3 + maintenanceBatch \<le> ahead r ?d" by linarith
    with f3 show ?thesis by (auto simp: outcome_def same_place_def)
  qed
qed

lemma serves_retry:
  assumes "db_ok (w_db w)" and "reapable (w_db w)" and "unhindered e1" and "unhindered e2" and "unhindered e3" and "e_now e1 \<le> e_now e2"
    and "find_run (r_id r) (w_db w) = Some r" and "find_job (r_job_id r) (w_db w) = Some j"
    and "r_status r = StatusQueued" and "r_next_attempt_at r \<noteq> None" and "overdue cfg (e_now e1) r"
    and "d1 = after_reap cfg e1 (w_db w)" and "d2 = after_retries e2 d1" and "d3 = after_sweep cfg e3 d2"
  shows "outcome r j w d3 (set (map message_of (retries_reply e2 d1)))"
proof -
  let ?d = "w_db w"
  have ok: "db_ok d1" "db_ok d2" "schema_ok ?d" "schema_ok d1" "schema_ok d2"
    using assms(1) after_db_ok assms(2-5,12-13) by (auto simp: db_ok_def)
  have l: "late t r" for t using assms(10) by (auto simp: late_def)
  have f: "find_run (r_id r) d1 = Some r"
    by (rule reap_find [OF ok(3) assms(7), of e1 cfg, folded assms(12)]) (use assms(9) in \<open>simp_all add: is_stale_def\<close>)
  have j: "find_job (r_job_id r) d1 = Some j" using assms(8,12) by simp
  have due: "is_due_retry e2 d1 r"
    using assms(4,6,9-11) j by (auto simp: is_due_retry_def overdue_def unhindered_def)
  show ?thesis
  proof (rule retries_find [OF ok(4) f, of e2, folded assms(13)])
    assume f2: "find_run (r_id r) d2 = Some (retry_row (e_now e2) r)" and m: "redispatch_row d1 (retry_row (e_now e2) r) \<in> set (retries_reply e2 d1)"
    have b: "brought_back r (retry_row (e_now e2) r)" using assms(9) by (simp add: brought_back_def retry_row_def)
    have "requeued r (next_attempt r) d3"
      using back_in_queue [OF assms(7) f2 b] brought_back_attempt [OF b] stays_sweep(1) [OF ok(5)] assms(14) by simp
    with assms(9) back_with_message [OF m b j] show ?thesis by (simp add: outcome_def)
  next
    assume f2: "find_run (r_id r) d2 = Some r" and np: "\<not> picked due_time (is_due_retry e2 d1) d1 r"
    have f3: "\<exists>r'. find_run (r_id r) d3 = Some r' \<and> same_place r r'"
    proof (rule sweep_find [OF ok(5) f2, of e3 cfg, folded assms(14)])
      assume "find_run (r_id r) d3 = Some (sweep_row (e_now e3) r)"
      moreover have "same_place r (sweep_row (e_now e3) r)" using assms(9,10) by (auto simp: same_place_def sweep_row_def)
      ultimately show ?thesis by blast
    qed (auto simp: same_place_def)
    have "ahead r d2 + maintenanceBatch \<le> ahead r d1"
      unfolding assms(13) by (rule after_ahead_less(2) [OF ok(1) l _ assms(9,10) due np]) (use lookup_row_Some [OF f] in simp)
    moreover have "ahead r d1 \<le> ahead r ?d" "ahead r d3 \<le> ahead r d2"
      unfolding assms(12,14) using after_ahead(1) [OF assms(1) l] after_ahead(3) [OF ok(2) l] by simp_all
    ultimately have "ahead r d3 + maintenanceBatch \<le> ahead r ?d" by linarith
    with f3 show ?thesis by (auto simp: outcome_def)
  qed
qed

lemma serves_stuck:
  assumes "db_ok (w_db w)" and "reapable (w_db w)" and "unhindered e1" and "unhindered e2" and "unhindered e3"
    and "e_now e1 \<le> e_now e2" and "e_now e2 \<le> e_now e3" and "0 \<le> c_sweep_after cfg"
    and "find_run (r_id r) (w_db w) = Some r" and "find_job (r_job_id r) (w_db w) = Some j"
    and "r_status r = StatusQueued" and "r_next_attempt_at r = None" and "overdue cfg (e_now e1) r"
    and "d1 = after_reap cfg e1 (w_db w)" and "d2 = after_retries e2 d1" and "d3 = after_sweep cfg e3 d2"
  shows "outcome r j w d3 (set (map message_of (sweep_reply cfg e3 d2)))"
proof -
  let ?d = "w_db w"
  have ok: "db_ok d1" "db_ok d2" "schema_ok ?d" "schema_ok d1" "schema_ok d2"
    using assms(1) after_db_ok assms(2-5,14-15) by (auto simp: db_ok_def)
  have l: "late (e_now e1) r" "late (e_now e2) r" "late (e_now e3) r" using overdue_late [OF assms(13,8)] assms(6,7) by simp_all
  have f: "find_run (r_id r) d1 = Some r"
    by (rule reap_find [OF ok(3) assms(9), of e1 cfg, folded assms(14)]) (use assms(11) in \<open>simp_all add: is_stale_def\<close>)
  have f2: "find_run (r_id r) d2 = Some r"
    by (rule retries_find [OF ok(4) f, of e2, folded assms(15)]) (use assms(12) in \<open>simp_all add: is_due_retry_def\<close>)
  have j: "find_job (r_job_id r) d2 = Some j" using assms(10,14,15) by simp
  have st: "is_stuck e3 (c_sweep_after cfg) d2 r"
    using assms(5-7,11-13) j by (auto simp: is_stuck_def overdue_def unhindered_def)
  show ?thesis
  proof (rule sweep_find [OF ok(5) f2, of e3 cfg, folded assms(16)])
    assume f3: "find_run (r_id r) d3 = Some (sweep_row (e_now e3) r)" and m: "redispatch_row d2 (sweep_row (e_now e3) r) \<in> set (sweep_reply cfg e3 d2)"
    have b: "brought_back r (sweep_row (e_now e3) r)" using assms(11,12) by (simp add: brought_back_def sweep_row_def)
    from back_in_queue [OF assms(9) f3 b] brought_back_attempt [OF b] back_with_message [OF m b j] assms(11)
    show ?thesis by (simp add: outcome_def)
  next
    assume f3: "find_run (r_id r) d3 = Some r" and np: "\<not> picked r_queued_at (is_stuck e3 (c_sweep_after cfg) d2) d2 r"
    have "ahead r d3 + maintenanceBatch \<le> ahead r d2"
      unfolding assms(16) by (rule after_ahead_less(3) [OF ok(2) l(3) _ assms(11,12) st np]) (use lookup_row_Some [OF f2] in simp)
    moreover have "ahead r d1 \<le> ahead r ?d" "ahead r d2 \<le> ahead r d1"
      unfolding assms(14,15) using after_ahead(1) [OF assms(1) l(1)] after_ahead(2) [OF ok(1) l(2)] assms(14) by simp_all
    ultimately have "ahead r d3 + maintenanceBatch \<le> ahead r ?d" by linarith
    with f3 show ?thesis by (auto simp: outcome_def same_place_def)
  qed
qed

lemma outcome_mono: "outcome r j w d ms \<Longrightarrow> ms \<subseteq> ms' \<Longrightarrow> outcome r j w d ms'"
  unfolding outcome_def by blast

lemma pass_serves:
  assumes "db_ok (w_db w)" and "reapable (w_db w)" and "unhindered e1" and "unhindered e2" and "unhindered e3"
    and "e_now e1 \<le> e_now e2" and "e_now e2 \<le> e_now e3" and "0 \<le> c_sweep_after cfg"
    and "find_run (r_id r) (w_db w) = Some r" and "find_job (r_job_id r) (w_db w) = Some j" and "overdue cfg (e_now e1) r"
    and "w' = maintain_pass cfg send e1 e2 e3 w"
  shows "outcome r j w (w_db w') (set (drop (length (w_broker w)) (w_broker w')))"
proof -
  define d1 where "d1 = after_reap cfg e1 (w_db w)"
  define d2 where "d2 = after_retries e2 d1"
  note p = pass_is [OF assms(3-5,1,2) d1_def d2_def assms(12)]
  have m: "set (drop (length (w_broker w)) (w_broker w')) = set (map message_of (filter (\<lambda>x. d_status x \<noteq> StatusFailed) (reap_reply cfg e1 (w_db w))))
      \<union> set (map message_of (retries_reply e2 d1)) \<union> set (map message_of (sweep_reply cfg e3 d2))"
    unfolding p(2) by (simp add: image_Un Un_assoc)
  consider "r_status r = StatusRunning" | "r_status r = StatusQueued" "r_next_attempt_at r \<noteq> None" | "r_status r = StatusQueued" "r_next_attempt_at r = None"
    using assms(11) unfolding overdue_def by (cases "r_status r") (auto simp del: not_None_eq)
  then show ?thesis
  proof cases
    case 1
    show ?thesis unfolding p(1) m
      by (rule outcome_mono [OF serves_stale [OF assms(1-5,9,10) 1 assms(11) d1_def d2_def refl]]) blast
  next
    case 2
    show ?thesis unfolding p(1) m
      by (rule outcome_mono [OF serves_retry [OF assms(1-6,9,10) 2 assms(11) d1_def d2_def refl]]) blast
  next
    case 3
    show ?thesis unfolding p(1) m
      by (rule outcome_mono [OF serves_stuck [OF assms(1-10) 3 assms(11) d1_def d2_def refl]]) blast
  qed
qed

section \<open>Pass after pass\<close>

definition calm_ticks :: "tick list \<Rightarrow> bool" where
  "calm_ticks ticks \<longleftrightarrow> list_all (\<lambda>(e1, e2, e3). unhindered e1 \<and> unhindered e2 \<and> unhindered e3) ticks"

definition tick_times :: "tick list \<Rightarrow> time list" where
  "tick_times ticks = concat (map (\<lambda>(e1, e2, e3). [e_now e1, e_now e2, e_now e3]) ticks)"

lemma pass_keeps:
  assumes "db_ok (w_db w)" and "reapable (w_db w)" and "unhindered e1" and "unhindered e2" and "unhindered e3"
    and "w' = maintain_pass cfg send e1 e2 e3 w"
  shows "db_ok (w_db w')" "reapable (w_db w')" "jobs (w_db w') = jobs (w_db w)" "\<exists>ms. w_broker w' = w_broker w @ ms"
    "requeued r a (w_db w) \<Longrightarrow> requeued r a (w_db w')" "given_up r (w_db w) \<Longrightarrow> given_up r (w_db w')"
proof -
  define d1 where "d1 = after_reap cfg e1 (w_db w)"
  define d2 where "d2 = after_retries e2 d1"
  note p = pass_is [OF assms(3-5,1,2) d1_def d2_def assms(6)]
  have ok: "db_ok d1" "db_ok d2" "reapable d1" "reapable d2"
    unfolding d1_def d2_def using after_db_ok after_reapable assms(1-4) by blast+
  then have s: "schema_ok (w_db w)" "schema_ok d1" "schema_ok d2" using assms(1) by (simp_all add: db_ok_def)
  show "db_ok (w_db w')" "reapable (w_db w')" using after_db_ok(3) [OF assms(5) ok(2)] after_reapable(3) [OF ok(4)] p(1) by simp_all
  show "jobs (w_db w') = jobs (w_db w)" by (simp add: p(1) d1_def d2_def)
  show "\<exists>ms. w_broker w' = w_broker w @ ms" using p(2) by blast
  show "requeued r a (w_db w) \<Longrightarrow> requeued r a (w_db w')"
    using stays_reap(1) [OF s(1)] stays_retries(1) [OF s(2)] stays_sweep(1) [OF s(3)] p(1) by (simp add: d1_def d2_def)
  show "given_up r (w_db w) \<Longrightarrow> given_up r (w_db w')"
    using stays_reap(2) [OF s(1)] stays_retries(2) [OF s(2)] stays_sweep(2) [OF s(3)] p(1) by (simp add: d1_def d2_def)
qed

lemma maintain_keeps:
  assumes "calm_ticks ticks" and "db_ok (w_db w)" and "reapable (w_db w)"
  shows "db_ok (w_db (maintain cfg send ticks w)) \<and> jobs (w_db (maintain cfg send ticks w)) = jobs (w_db w)
    \<and> (\<exists>ms. w_broker (maintain cfg send ticks w) = w_broker w @ ms)
    \<and> (requeued r a (w_db w) \<longrightarrow> requeued r a (w_db (maintain cfg send ticks w)))
    \<and> (given_up r (w_db w) \<longrightarrow> given_up r (w_db (maintain cfg send ticks w)))"
  using assms
proof (induction ticks arbitrary: w)
  case (Cons x ticks)
  obtain e1 e2 e3 where x: "x = (e1, e2, e3)" by (metis prod_cases3)
  have u: "unhindered e1" "unhindered e2" "unhindered e3" "calm_ticks ticks" using Cons.prems(1) by (simp_all add: x calm_ticks_def)
  note k = pass_keeps [OF Cons.prems(2,3) u(1-3) refl, where cfg = cfg]
  from Cons.IH [OF u(4) k(1,2)] k(3-4) k(5) [of r a] k(6) [of r] show ?case by (simp add: x) (metis append_assoc)
qed simp

text \<open>What is left of an outcome once the last batch in front of the run has been served.\<close>

definition restored :: "run \<Rightarrow> job \<Rightarrow> db \<Rightarrow> message set \<Rightarrow> bool" where
  "restored r j d ms \<longleftrightarrow>
     \<not> (r_status r = StatusRunning \<and> j_max_retries j < r_attempt r) \<and> requeued r (next_attempt r) d \<and> dispatchMessage (r_id r) (r_job_id r) (next_attempt r) (j_type j) \<in> ms
   \<or> r_status r = StatusRunning \<and> j_max_retries j < r_attempt r \<and> given_up r d"

lemma restored_same_place: "same_place r r' \<Longrightarrow> restored r' j d ms \<Longrightarrow> restored r j d ms"
  using same_place_fields [of r r'] by (auto simp: restored_def requeued_def given_up_def next_attempt_def lost_worker_error_def)

lemma restored_mono: "restored r j d ms \<Longrightarrow> ms \<subseteq> ms' \<Longrightarrow> restored r j d ms'"
  unfolding restored_def by blast

lemma drop_append_subset: "set (drop (length ys) zs) \<subseteq> set (drop (length xs) zs)" if "ys = xs @ vs"
  using that by (metis drop_drop length_append add.commute set_drop_subset)

lemma maintain_serves:
  assumes "calm_ticks ticks" and "sorted (t # tick_times ticks)" and "0 \<le> c_sweep_after cfg" and "db_ok (w_db w)" and "reapable (w_db w)"
    and "find_run (r_id r) (w_db w) = Some r" and "find_job (r_job_id r) (w_db w) = Some j" and "overdue cfg t r"
    and "ahead r (w_db w) \<le> length ticks * maintenanceBatch"
  shows "restored r j (w_db (maintain cfg send ticks w)) (set (drop (length (w_broker w)) (w_broker (maintain cfg send ticks w))))"
  using assms
proof (induction ticks arbitrary: w r t)
  case Nil
  with ahead_self [OF Nil.prems(6,8)] show ?case by simp
next
  case (Cons x ticks)
  obtain e1 e2 e3 where x: "x = (e1, e2, e3)" by (metis prod_cases3)
  let ?w = "maintain_pass cfg send e1 e2 e3 w" and ?w' = "maintain cfg send (x # ticks) w"
  have u: "unhindered e1" "unhindered e2" "unhindered e3" "calm_ticks ticks" using Cons.prems(1) by (simp_all add: x calm_ticks_def)
  have t: "t \<le> e_now e1" "e_now e1 \<le> e_now e2" "e_now e2 \<le> e_now e3" "sorted (e_now e3 # tick_times ticks)"
    using Cons.prems(2) by (auto simp: x tick_times_def)
  have od: "overdue cfg (e_now e1) r" using same_place_overdue [OF _ Cons.prems(8) t(1), of r] by (simp add: same_place_def)
  note k = pass_keeps [OF Cons.prems(4,5) u(1-3) refl, where cfg = cfg]
  have w': "?w' = maintain cfg send ticks ?w" by (simp add: x)
  note later = maintain_keeps [OF u(4) k(1,2), where cfg = cfg]
  obtain ms where ms: "w_broker ?w = w_broker w @ ms" using k(4) by blast
  note sub = drop_append_subset [OF ms]
  obtain ns where ns: "w_broker ?w' = w_broker ?w @ ns" using later unfolding w' by blast
  have "outcome r j w (w_db ?w) (set (drop (length (w_broker w)) (w_broker ?w)))"
    by (rule pass_serves [OF Cons.prems(4,5) u(1-3) t(2,3) Cons.prems(3,6,7) od refl])
  then consider "restored r j (w_db ?w) (set (drop (length (w_broker w)) (w_broker ?w)))"
    | r' where "find_run (r_id r) (w_db ?w) = Some r'" "same_place r r'" "ahead r (w_db ?w) + maintenanceBatch \<le> ahead r (w_db w)"
    unfolding outcome_def restored_def by blast
  then show ?case
  proof cases
    case 1
    have "set (drop (length (w_broker w)) (w_broker ?w)) \<subseteq> set (drop (length (w_broker w)) (w_broker ?w'))"
      using ms ns by simp
    with 1 later show ?thesis unfolding w' [symmetric] restored_def by blast
  next
    case 2
    have f: "r_id r' = r_id r" "r_job_id r' = r_job_id r" using same_place_fields [OF 2(2)] by simp_all
    have "ahead r' (w_db ?w) \<le> length ticks * maintenanceBatch"
      using 2(3) Cons.prems(9) same_place_front [OF 2(2)] by simp
    moreover have "overdue cfg (e_now e3) r'" using same_place_overdue [OF 2(2) od] t(2,3) by simp
    ultimately have "restored r' j (w_db ?w') (set (drop (length (w_broker ?w)) (w_broker ?w')))"
      unfolding w' using Cons.IH [OF u(4) t(4) Cons.prems(3) k(1,2), of r'] 2(1) Cons.prems(7) k(3) f by simp
    from restored_mono [OF restored_same_place [OF 2(2) this] sub] show ?thesis .
  qed
qed

lemma maintenance_restores:
  assumes "db_ok (w_db w)" and "calm_ticks ticks" and "sorted (tick_times ticks)" and "0 \<le> c_sweep_after cfg"
    and "backlog (w_db w) \<le> length ticks * maintenanceBatch" and "reapable (w_db w)"
    and "find_run i (w_db w) = Some r" and "find_job (r_job_id r) (w_db w) = Some j" and "overdue cfg (hd (tick_times ticks)) r"
    and "w' = maintain cfg send ticks w"
  shows "restored r j (w_db w') (set (drop (length (w_broker w)) (w_broker w')))"
proof -
  have i: "r_id r = i" using lookup_row_Some [OF assms(7)] by simp
  have "0 < length ticks * maintenanceBatch"
    using ahead_self [OF assms(7,9)] ahead_backlog [of r "w_db w"] assms(5) by linarith
  then have "tick_times ticks \<noteq> []" by (cases ticks) (auto simp: tick_times_def)
  then have s: "sorted (hd (tick_times ticks) # tick_times ticks)" using assms(3) by (cases "tick_times ticks") simp_all
  have "ahead r (w_db w) \<le> length ticks * maintenanceBatch" using ahead_backlog [of r "w_db w"] assms(5) by linarith
  from maintain_serves [OF assms(2) s assms(4,1,6) _ assms(8,9) this] assms(7) show ?thesis by (simp add: i assms(10))
qed

lemma maintenance_puts_back:
  assumes "db_ok (w_db w)" and "calm_ticks ticks" and "sorted (tick_times ticks)" and "0 \<le> c_sweep_after cfg"
    and "backlog (w_db w) \<le> length ticks * maintenanceBatch" and "reapable (w_db w)"
    and "find_run i (w_db w) = Some r" and "find_job (r_job_id r) (w_db w) = Some j" and "overdue cfg (hd (tick_times ticks)) r"
    and "w' = maintain cfg send ticks w" and "a = (if r_status r = StatusRunning then r_attempt r + 1 else r_attempt r)"
  shows "if r_status r = StatusRunning \<and> j_max_retries j < r_attempt r then given_up r (w_db w')
    else waiting i a t j (w_db w') \<and> dispatchMessage i (r_job_id r) a (j_type j) \<in> set (drop (length (w_broker w)) (w_broker w'))"
proof -
  have i: "r_id r = i" using lookup_row_Some [OF assms(7)] by simp
  note out = maintenance_restores [OF assms(1-10)]
  have "db_ok (w_db w')" "jobs (w_db w') = jobs (w_db w)"
    using maintain_keeps [OF assms(2,1,6), of cfg] by (simp_all add: assms(10))
  with assms(8) have "waiting i a t j (w_db w')" if "requeued r a (w_db w')"
    using that unfolding requeued_def i waiting_def by (auto simp: db_ok_def)
  with out show ?thesis unfolding restored_def next_attempt_def i assms(11) by (auto split: if_splits)
qed

text \<open>
  C10: no unfinished run is stranded, however large the backlog. Whether its worker died, its retry fell
  due or its dispatch message was lost, after as many maintenance passes that meet no failure as there
  are batches of unfinished runs the run is back: it is queued for its next attempt (or the same one, if
  it never started), free to be claimed at once, and a message for exactly that attempt is on the
  topic; unless its worker died with the retries used up, when the run is failed.
\<close>

theorem no_run_is_stranded:
  assumes "db_ok (w_db w)" and "calm_ticks ticks" and "sorted (tick_times ticks)" and "0 \<le> c_sweep_after cfg"
    and "backlog (w_db w) \<le> length ticks * maintenanceBatch" and "reapable (w_db w)"
    and "find_run i (w_db w) = Some r" and "find_job (r_job_id r) (w_db w) = Some j" and "overdue cfg (hd (tick_times ticks)) r"
    and "w' = maintain cfg send ticks w" and "a = (if r_status r = StatusRunning then r_attempt r + 1 else r_attempt r)"
  shows "waiting i a t j (w_db w')
      \<and> dispatchMessage i (r_job_id r) a (j_type j) \<in> set (drop (length (w_broker w)) (w_broker w'))
    \<or> r_status r = StatusRunning \<and> j_max_retries j < r_attempt r \<and> (\<exists>r'. find_run i (w_db w') = Some r' \<and> r_status r' = StatusFailed)"
  using maintenance_puts_back [OF assms, of t] lookup_row_Some [OF assms(7)] unfolding given_up_def by (auto split: if_splits)

text \<open>
  The last attempt of a run whose next attempt is \<open>a\<close>: the one the job means it to end with, or \<open>a\<close> itself
  when that is later, because the attempts before it were lost.
\<close>

definition ended_at :: "generate_text \<Rightarrow> int \<Rightarrow> run \<Rightarrow> bool" where
  "ended_at p n q \<longleftrightarrow> r_attempt q = n
     \<and> (if p_fail_attempts p < n then r_status q = StatusSucceeded \<and> r_output q = Some (full_text p) \<and> r_error q = None
        else r_status q = StatusFailed \<and> r_error q = Some (''deliberate failure of attempt '' @ itoa n
               @ '' (fail_attempts='' @ itoa (p_fail_attempts p) @ '')''))"

lemma ended_as_meant_at: "ended_as_meant j p q \<Longrightarrow> ended_at p (last_attempt j p) q"
  by (auto simp: ended_as_meant_def ended_at_def last_attempt_def split: if_splits)

lemma deliver_late:
  assumes "waiting i a due j (w_db w)" and "smooth i y" and "due \<le> e_now (y_claim y)" and "last_attempt j p \<le> a" and "a < int4_max"
    and "j_type j = TypeGenerateText" and "parseGenerateText (j_payload j) = Inr p" and "p_fail_at p = 0"
  shows "\<exists>q. find_run i (w_db (deliver wr y w)) = Some q \<and> ended_at p a q"
proof -
  have c: "calm (x_ctx (y_attempt y))" "x_stop (y_attempt y) = None" using assms(2) by (simp_all add: smooth_defs)
  obtain q where q: "find_run i (w_db (deliver wr y w)) = Some q"
    "settled (y_cfg y) (y_attempt y) j a (fst (Job.Run (x_ctx (y_attempt y)) (j_type j) (j_payload j) a)) q"
    by (rule deliver_settles [OF assms(1-3,5), of wr])
  have "j_max_retries j < a" if "a \<le> p_fail_attempts p" using assms(4) that by (auto simp: last_attempt_def)
  then have "ended_at p a q"
    using q(2) c(2) unfolding attempt_result [OF assms(6-8) c(1)]
    by (auto simp: settled_def ended_at_def split: if_splits)
  with q(1) show ?thesis by blast
qed

lemma deliveries_end_late:
  assumes "waiting i a due j (w_db w)" and "j_type j = TypeGenerateText" and "parseGenerateText (j_payload j) = Inr p" and "p_fail_at p = 0"
    and "max a (last_attempt j p) < int4_max" and "list_all (smooth i) ys" and "on_time a due ys"
    and "a + int (length ys) = max a (last_attempt j p) + 1"
  shows "\<exists>q. find_run i (w_db (fold (deliver wr) ys w)) = Some q \<and> ended_at p (max a (last_attempt j p)) q"
proof -
  have ne: "ys \<noteq> []" using assms(8) by auto
  show ?thesis
  proof (cases "last_attempt j p \<le> a")
    case True
    then obtain y where y: "ys = [y]" using assms(8) ne by (cases ys) (auto simp: max_def)
    with True assms deliver_late [OF assms(1) _ _ True _ assms(2-4), of y wr] show ?thesis by (simp add: max_def)
  next
    case False
    then have m: "max a (last_attempt j p) = last_attempt j p" by simp
    with deliveries_end [OF assms(2-4) _ assms(1,6,7) ne, of wr] assms(5,8) ended_as_meant_at show ?thesis by fastforce
  qed
qed

text \<open>A message of a run that was given up is dropped: its claim is refused.\<close>

lemma deliver_finished:
  assumes "schema_ok (w_db w)" and "find_run i (w_db w) = Some q" and "r_status q = StatusFailed" and "smooth i y"
  shows "schema_ok (w_db (deliver wr y w)) \<and> find_run i (w_db (deliver wr y w)) = Some q"
proof -
  let ?e = "y_claim y" and ?c = "c_id (y_cfg y)" and ?d = "w_db w"
  have e: "quiet ?e" "e_others ?e ?d = ?d" using assms(4) by (simp_all add: smooth_defs)
  obtain m where m: "DecodeDispatch (y_msg y) = Inr m" "q_run_id m = i" using assms(4) by (auto simp: smooth_defs split: sum.splits)
  have n: "\<not> claimable (e_now ?e) q" using assms(3) by (simp add: claimable_def)
  obtain z d1 where z: "ClaimRun ?e i ?c ?d = (z, d1)" by fastforce
  have "z = Inr None" using ClaimRun_quiet [OF e(1), of ?d i ?c] assms(1,2) n e(2) z by simp
  with z m have c: "claim (y_cfg y) ?e (y_msg y) ?d = (None, d1)" by (simp add: claim_def)
  have st: "table_step ?d d1" using ClaimRun_step [of ?e ?d i ?c] e(2) z by simp
  have "r_id q = i" using lookup_row_Some [OF assms(2)] by simp
  then have "find_run i (snd (ClaimRun ?e i ?c ?d)) = Some q"
    unfolding ClaimRun_db using find_after_update [OF assms(2), of "claim_row (e_now ?e) ?c" "\<lambda>r. r_id r = i \<and> claimable (e_now ?e) r"] n e
    by (auto simp: pg_def quiet_def sql_update_def claim_row_def Let_def split: option.splits sum.splits)
  with z table_step_schema [OF st assms(1)] c show ?thesis by (simp add: deliver_def)
qed

lemma deliveries_finished:
  assumes "schema_ok (w_db w)" and "find_run i (w_db w) = Some q" and "r_status q = StatusFailed" and "list_all (smooth i) ys"
  shows "find_run i (w_db (fold (deliver wr) ys w)) = Some q"
  using assms
proof (induction ys arbitrary: w)
  case (Cons y ys)
  from Cons.prems(4) have "smooth i y" "list_all (smooth i) ys" by simp_all
  with Cons.IH deliver_finished [OF Cons.prems(1-3), of y wr] Cons.prems(3) show ?case by simp
qed simp

text \<open>
  C11: a run that was lost still comes to its end. Its worker died, its retry is due or its message is
  lost; maintenance works off the backlog, and then the messages of the attempts that are left are
  delivered without disturbance, each when it is due, of a job without \<open>fail_at\<close>. Let \<open>a\<close> be the run's
  next attempt (one after the dead worker's) and \<open>n\<close> the last: the one the job is meant to end with, or
  \<open>a\<close> when that comes later. The run ends on attempt \<open>n\<close>: succeeded with the full output when \<open>n\<close> is past
  the attempts that fail on purpose, and otherwise failed for good with that attempt's error. So a job
  that never fails on purpose, whose worker dies on attempt 1, succeeds on attempt 2. When a worker
  died on the last attempt the job's retries allow, the run is failed with the error that names that worker,
  and further deliveries change nothing.
\<close>

theorem lost_run_ends:
  assumes "db_ok (w_db w)" and "calm_ticks ticks" and "sorted (tick_times ticks)" and "0 \<le> c_sweep_after cfg"
    and "backlog (w_db w) \<le> length ticks * maintenanceBatch" and "reapable (w_db w)"
    and "find_run i (w_db w) = Some r" and "find_job (r_job_id r) (w_db w) = Some j" and "overdue cfg (hd (tick_times ticks)) r"
    and "w' = maintain cfg send ticks w" and "a = (if r_status r = StatusRunning then r_attempt r + 1 else r_attempt r)"
    and "j_type j = TypeGenerateText" and "parseGenerateText (j_payload j) = Inr p" and "p_fail_at p = 0"
    and "n = max a (min (p_fail_attempts p) (j_max_retries j) + 1)" and "n < int4_max"
    and "list_all (smooth i) ys" and "on_time a due ys" and "a + int (length ys) = n + 1"
  shows "\<exists>q. find_run i (w_db (fold (deliver wr) ys w')) = Some q
    \<and> (if r_status r = StatusRunning \<and> j_max_retries j < r_attempt r
       then r_status q = StatusFailed \<and> r_attempt q = r_attempt r \<and> r_error q = Some (lost_worker_error r)
       else r_attempt q = n
         \<and> (if p_fail_attempts p < n then r_status q = StatusSucceeded \<and> r_output q = Some (full_text p) \<and> r_error q = None
            else r_status q = StatusFailed \<and> r_error q = Some (''deliberate failure of attempt '' @ itoa n
                   @ '' (fail_attempts='' @ itoa (p_fail_attempts p) @ '')'')))"
proof (cases "r_status r = StatusRunning \<and> j_max_retries j < r_attempt r")
  case True
  have i: "r_id r = i" using lookup_row_Some [OF assms(7)] by simp
  have s: "schema_ok (w_db w')" using maintain_keeps [OF assms(2,1,6), of cfg] by (simp add: assms(10) db_ok_def)
  have "given_up r (w_db w')" using maintenance_puts_back [OF assms(1-11), of t] True by simp
  then obtain q where q: "find_run i (w_db w') = Some q" "r_status q = StatusFailed" "r_attempt q = r_attempt r"
    "r_error q = Some (lost_worker_error r)" unfolding given_up_def i by blast
  from deliveries_finished [OF s q(1,2) assms(17), of wr] q True show ?thesis by auto
next
  case False
  then have w: "waiting i a due j (w_db w')" using maintenance_puts_back [OF assms(1-11), of due] by (simp add: False)
  have n: "n = max a (last_attempt j p)" by (simp add: assms(15) last_attempt_def)
  from deliveries_end_late [OF w assms(12-14) _ assms(17,18), of wr] assms(16,19)
  obtain q where "find_run i (w_db (fold (deliver wr) ys w')) = Some q" "ended_at p n q" unfolding n by blast
  with False show ?thesis by (auto simp: ended_at_def)
qed

section \<open>Witnesses\<close>

lemma demo_claimed_db_ok: "db_ok (demo_claimed m)"
  unfolding demo_claimed_def by (rule run_ops_db_ok [OF demo_db_ok])

definition demo_ticks :: "tick list" where
  "demo_ticks = map (\<lambda>t. (demo_env t '''', demo_env t '''', demo_env (t + 5) '''')) [20000000, 30000000]"

lemma demo_ticks_facts:
  "calm_ticks demo_ticks" "sorted (tick_times demo_ticks)" "hd (tick_times demo_ticks) = 20000000" "length demo_ticks = 2"
  by (simp_all add: calm_ticks_def unhindered_def solo_def quiet_def tick_times_def demo_ticks_def demo_env_def)

lemma no_run_is_stranded_witness:
  "waiting ''R'' 2 20000000 (new_job_row ''J'' 1 (demo_new_job 1)) (w_db (maintain demo_cfg send demo_ticks demo_world))
     \<and> dispatchMessage ''R'' ''J'' 2 (j_type (new_job_row ''J'' 1 (demo_new_job 1)))
         \<in> set (drop (length (w_broker demo_world)) (w_broker (maintain demo_cfg send demo_ticks demo_world)))"
proof -
  note c = demo_ticks_facts(1) and s = demo_ticks_facts(2-4)
  have d: "w_db demo_world = demo_claimed 1" by (simp add: demo_world_def)
  have r: "runs (demo_claimed 1) = [demo_claimed_run]" by (simp add: demo_claimed_eq demo_claimed_run_def)
  have b: "backlog (demo_claimed 1) \<le> 2 * maintenanceBatch" "reapable (demo_claimed 1)" "0 \<le> c_sweep_after demo_cfg"
    by (simp_all add: backlog_def reapable_def r maintenanceBatch_def demo_claimed_find int4_max_def demo_cfg_def default_config_def time_units)
  have st: "r_status demo_claimed_run = StatusRunning" "overdue demo_cfg 20000000 demo_claimed_run"
    by (simp_all add: overdue_def demo_claimed_run_def claim_row_def demo_env_def demo_cfg_def default_config_def time_units interval_us_def)
  have m: "\<not> j_max_retries (new_job_row ''J'' 1 (demo_new_job 1)) < r_attempt demo_claimed_run"
    by (simp add: demo_claimed_find new_job_row_def demo_new_job_def)
  from no_run_is_stranded [OF _ c s(1) b(3) _ _ _ _ _ refl refl, of demo_world "''R''" demo_claimed_run "new_job_row ''J'' 1 (demo_new_job 1)" 20000000]
    demo_claimed_db_ok b st m demo_claimed_find s(2,3) show ?thesis unfolding d by simp
qed

text \<open>The worker of the first attempt dies; the second attempt succeeds, of a job that means to fail once or never.\<close>

definition lost_run :: run where
  "lost_run = claim_row 3 ''w'' (new_run_row ''R'' ''K'' 2 TriggerManual 2)"

definition plain_job :: job where
  "plain_job = retry_job\<lparr>j_payload := print_json (create_payload demo_args)\<rparr>"

definition lost_world :: "job \<Rightarrow> message list world" where
  "lost_world j = \<lparr>w_db = retry_db\<lparr>runs := [lost_run], jobs := [j]\<rparr>, w_broker = [], w_files = []\<rparr>"

lemma lost_run_fields: "r_status lost_run = StatusRunning" "r_attempt lost_run = 1" "r_job_id lost_run = ''K''" "r_id lost_run = ''R''"
  by (simp_all add: lost_run_def claim_row_def new_run_row_def)

lemma lost_world_facts:
  assumes "j \<in> {retry_job, plain_job}"
  shows "db_ok (w_db (lost_world j))" "backlog (w_db (lost_world j)) \<le> length demo_ticks * maintenanceBatch"
    "reapable (w_db (lost_world j))" "find_run ''R'' (w_db (lost_world j)) = Some lost_run"
    "find_job (r_job_id lost_run) (w_db (lost_world j)) = Some j"
proof -
  note s = demo_ticks_facts(2-4) and l = lost_run_fields
  have j: "j_id j = ''K''" "job_checks j" using assms
    by (auto simp: plain_job_def retry_job_def new_job_row_def demo_new_def job_checks_def int4_max_def)
  have "row_ok lost_run" by (simp add: row_ok_def lost_run_def claim_row_def new_run_row_def)
  moreover have "schema_ok (w_db (lost_world j))"
    using j by (simp add: schema_defs lost_world_def lost_run_def claim_row_def retry_db_def new_run_row_def job_checks_def int4_max_def)
  ultimately show "db_ok (w_db (lost_world j))" by (simp add: db_ok_def lost_world_def)
  show "backlog (w_db (lost_world j)) \<le> length demo_ticks * maintenanceBatch" "reapable (w_db (lost_world j))"
    by (simp_all add: backlog_def reapable_def lost_world_def l s(3) maintenanceBatch_def int4_max_def)
  show "find_run ''R'' (w_db (lost_world j)) = Some lost_run" "find_job (r_job_id lost_run) (w_db (lost_world j)) = Some j"
    using j(1) by (simp_all add: lost_world_def l)
qed

theorem lost_run_ends_witness:
  "\<exists>q r. find_run ''R'' (w_db (fold (deliver send) [demo_delivery ''R'' 40000000] (maintain demo_cfg send demo_ticks (lost_world retry_job)))) = Some q
     \<and> r_attempt q = 2 \<and> r_status q = StatusSucceeded \<and> r_output q = Some (full_text (meant_payload retry_args))
     \<and> find_run ''R'' (w_db (fold (deliver send) [demo_delivery ''R'' 40000000] (maintain demo_cfg send demo_ticks (lost_world plain_job)))) = Some r
     \<and> p_fail_attempts (meant_payload demo_args) = 0
     \<and> r_attempt r = 2 \<and> r_status r = StatusSucceeded \<and> r_output r = Some (full_text (meant_payload demo_args))"
proof -
  let ?ys = "[demo_delivery ''R'' 40000000]"
  note c = demo_ticks_facts(1) and s = demo_ticks_facts(2-4) and l = lost_run_fields
  have g: "0 \<le> c_sweep_after demo_cfg" by (simp add: demo_cfg_def default_config_def time_units)
  have od: "overdue demo_cfg (hd (tick_times demo_ticks)) lost_run"
    by (simp add: s(2) overdue_def lost_run_def claim_row_def demo_cfg_def default_config_def time_units interval_us_def)
  have y: "list_all (smooth ''R'') ?ys" "on_time 2 0 ?ys" by (simp_all add: demo_delivery_facts valid_ascii)
  have j: "j_type retry_job = TypeGenerateText" "parseGenerateText (j_payload retry_job) = Inr (meant_payload retry_args)"
    "p_fail_at (meant_payload retry_args) = 0" "p_fail_attempts (meant_payload retry_args) = 1" "j_max_retries retry_job = 3"
    using args_payload_parsed [OF retry_args_ok]
    by (simp_all add: retry_job_def new_job_row_def demo_new_def TypeGenerateText_def meant_payload_def retry_args_def demo_args_def)
  have k: "j_type plain_job = TypeGenerateText" "parseGenerateText (j_payload plain_job) = Inr (meant_payload demo_args)"
    "p_fail_at (meant_payload demo_args) = 0" "p_fail_attempts (meant_payload demo_args) = 0" "j_max_retries plain_job = 3"
    using args_payload_parsed [OF demo_args_ok(1) _ demo_args_ok(2)] j(1,5)
    by (simp_all add: plain_job_def meant_payload_def demo_args_def validate_None)
  note f = lost_world_facts [of retry_job] and h = lost_world_facts [of plain_job]
  have "0 < (2 :: int)" "(2 :: int) < int4_max" by (simp_all add: int4_max_def)
  with lost_run_ends [OF f(1) c s(1) g f(2-5) od refl refl j(1-3) refl _ y(1), of 0 send] y(2) j(4,5) l(1,2)
  obtain q where q: "find_run ''R'' (w_db (fold (deliver send) ?ys (maintain demo_cfg send demo_ticks (lost_world retry_job)))) = Some q"
    "r_attempt q = 2 \<and> r_status q = StatusSucceeded \<and> r_output q = Some (full_text (meant_payload retry_args))" by auto
  from \<open>(2 :: int) < int4_max\<close> lost_run_ends [OF h(1) c s(1) g h(2-5) od refl refl k(1-3) refl _ y(1), of 0 send] y(2) k(4,5) l(1,2)
  obtain r where r: "find_run ''R'' (w_db (fold (deliver send) ?ys (maintain demo_cfg send demo_ticks (lost_world plain_job)))) = Some r"
    "r_attempt r = 2 \<and> r_status r = StatusSucceeded \<and> r_output r = Some (full_text (meant_payload demo_args))" by auto
  from q r k(4) show ?thesis by blast
qed

end
