(* ===== verification/System.thy ===== *)
theory System
  imports Drain AttemptLog Scheduler "HOL-Library.Sublist"
begin

text \<open>
  The whole system as one machine: any number of API servers, scheduler replicas and workers on one
  database and one topic. An event is what one of the programs does, from one HTTP request to one
  executed attempt; what the others commit while it goes on is in the environments of its store calls.
  Messages come in any order, any number of times, or not at all, and a worker can die at any point.
\<close>

section \<open>Events\<close>

datatype ('loc, 'sched, 'k) sys_event =
    SysRequest "('loc, 'sched, 'k) api_server" string string "string option"
      \<comment> \<open>an HTTP request: method, target, body\<close>
  | SysPass "('loc, 'sched) zones" "'k writer" pass   \<comment> \<open>a batch of a scheduler's tick\<close>
  | SysDeliver "'k writer" delivery                    \<comment> \<open>a worker reads a message and executes what it claims\<close>
  | SysDies delivery                                   \<comment> \<open>a worker dies after the moves of the delivery\<close>
  | SysMaintain config "'k writer" env env env         \<comment> \<open>a maintenance pass of a worker\<close>

text \<open>The attempt a worker goes on to execute after it has read a message.\<close>

definition claimed :: "delivery \<Rightarrow> db \<Rightarrow> (uuid \<times> int) list" where
  "claimed y d = (case fst (claim (y_cfg y) (y_claim y) (y_msg y) d) of
     None \<Rightarrow> [] | Some r \<Rightarrow> [(r_id r, r_attempt r)])"

text \<open>The death of a worker: it has claimed and loaded, and some moves of the attempt are made, but nothing settles it.\<close>

definition dies :: "delivery \<Rightarrow> 'k world \<Rightarrow> 'k world" where
  "dies y w = (case claim (y_cfg y) (y_claim y) (y_msg y) (w_db w) of
     (None, d) \<Rightarrow> w\<lparr>w_db := d\<rparr>
   | (Some r, d) \<Rightarrow> (case GetJob (x_load (y_attempt y)) (r_job_id r) d of
        (Inl err, d') \<Rightarrow> w\<lparr>w_db := d'\<rparr>
      | (Inr j, d') \<Rightarrow> w\<lparr>w_db := k_sink (at_log (attempt_moves (y_cfg y) r (x_moves (y_attempt y))
            \<lparr>at_lines = snd (Job.Run (x_ctx (y_attempt y)) (j_type j) (j_payload j) (r_attempt r)), at_lost = False,
             at_log = newRunLogger (r_attempt r) d'\<rparr>))\<rparr>))"

fun sys_step :: "('loc, 'sched, 'k) sys_event \<Rightarrow> 'k world \<Rightarrow> (uuid \<times> int) list \<times> 'k world" where
  "sys_step (SysRequest sv m target body) w = (case api_transport sv m target body (w_db w, w_broker w) of
     (resp, d, k) \<Rightarrow> ([], w\<lparr>w_db := d, w_broker := k\<rparr>))"
| "sys_step (SysPass z wr p) w = (case tick_pass z wr p (w_db w, w_broker w) of
     (fired, d, k) \<Rightarrow> ([], w\<lparr>w_db := d, w_broker := k\<rparr>))"
| "sys_step (SysDeliver wr y) w = (claimed y (w_db w), deliver wr y w)"
| "sys_step (SysDies y) w = (claimed y (w_db w), dies y w)"
| "sys_step (SysMaintain cfg wr e1 e2 e3) w = ([], maintain_pass cfg wr e1 e2 e3 w)"

text \<open>A run of the system: the attempts its workers began to execute, in order, and where it ends.\<close>

fun sys_run :: "('loc, 'sched, 'k) sys_event list \<Rightarrow> 'k world \<Rightarrow> (uuid \<times> int) list \<times> 'k world" where
  "sys_run [] w = ([], w)"
| "sys_run (ev # evs) w = (case sys_step ev w of (xs, w1) \<Rightarrow> (case sys_run evs w1 of (ys, w2) \<Rightarrow> (xs @ ys, w2)))"

section \<open>What the others do\<close>

text \<open>The other sessions of the database are programs of the system: they change it by the calls of the store only.\<close>

definition lawful :: "env \<Rightarrow> bool" where
  "lawful e \<longleftrightarrow> (\<forall>d. \<exists>ops. e_others e d = snd (run_ops ops d))"

definition lawful_attempt :: "attempt_env \<Rightarrow> bool" where
  "lawful_attempt x \<longleftrightarrow> lawful (x_load x) \<and> (\<forall>e. MBeat e \<in> set (x_moves x) \<longrightarrow> lawful e) \<and> lawful (x_final x)"

fun lawful_event :: "('loc, 'sched, 'k) sys_event \<Rightarrow> bool" where
  "lawful_event (SysRequest sv m target body) = (\<forall>n. lawful (sv_env sv n))"
| "lawful_event (SysPass z wr p) = lawful (fst p)"
| "lawful_event (SysDeliver wr y) = (lawful (y_claim y) \<and> lawful_attempt (y_attempt y))"
| "lawful_event (SysDies y) = (lawful (y_claim y) \<and> lawful_attempt (y_attempt y))"
| "lawful_event (SysMaintain cfg wr e1 e2 e3) = (lawful e1 \<and> lawful e2 \<and> lawful e3)"

section \<open>Every program acts through the store\<close>

text \<open>A history of store calls leads from one database to another, with these claims among its own.\<close>

definition by_calls :: "db \<Rightarrow> (uuid \<times> int) list \<Rightarrow> db \<Rightarrow> bool" where
  "by_calls d xs d' \<longleftrightarrow> (\<exists>ops. snd (run_ops ops d) = d' \<and> subseq xs (events claim_events ops d))"

lemma run_ops_append: "snd (run_ops (xs @ ys) d) = snd (run_ops ys (snd (run_ops xs d)))"
  by (induction xs arbitrary: d) (auto simp: Let_def split_def)

lemma events_append: "events f (xs @ ys) d = events f xs d @ events f ys (snd (run_ops xs d))"
  by (induction xs arbitrary: d) (auto simp: Let_def split_def)

lemma by_calls_refl [intro]: "by_calls d [] d"
  unfolding by_calls_def by (intro exI [of _ "[]"]) simp

lemma by_calls_trans: "by_calls d xs d1 \<Longrightarrow> by_calls d1 ys d2 \<Longrightarrow> by_calls d (xs @ ys) d2"
  unfolding by_calls_def
proof (elim exE conjE)
  fix ops1 ops2
  assume "snd (run_ops ops1 d) = d1" "subseq xs (events claim_events ops1 d)"
    "snd (run_ops ops2 d1) = d2" "subseq ys (events claim_events ops2 d1)"
  then show "\<exists>ops. snd (run_ops ops d) = d2 \<and> subseq (xs @ ys) (events claim_events ops d)"
    by (intro exI [of _ "ops1 @ ops2"]) (simp add: run_ops_append events_append list_emb_append_mono)
qed

lemma by_calls_then: "by_calls d [] d1 \<Longrightarrow> by_calls d1 xs d2 \<Longrightarrow> by_calls d xs d2"
  using by_calls_trans [of d "[]" d1 xs d2] by simp

lemma by_calls_op: "by_calls d (claim_events p (fst (exec_op e p d))) (snd (exec_op e p d))"
  unfolding by_calls_def by (intro exI [of _ "[(e, p)]"]) (simp add: Let_def split_def)

lemma by_calls_weaken: "by_calls d xs d' \<Longrightarrow> by_calls d [] d'"
  unfolding by_calls_def by auto

lemma lawful_others: "lawful e \<Longrightarrow> by_calls d [] (e_others e d)"
  unfolding lawful_def by_calls_def by (metis list_emb_Nil)

lemma lawful_call:
  assumes "lawful e" and "d' = snd (exec_op e p (e_others e d))"
  shows "by_calls d [] d'"
  using by_calls_then [OF lawful_others [OF assms(1)] by_calls_weaken [OF by_calls_op]] assms(2) by simp

text \<open>A call whose other sessions come first is the call alone on what they leave.\<close>

lemma alone_fields [simp]:
  "e_now (alone e) = e_now e" "e_clock (alone e) = e_clock e" "e_locked (alone e) = e_locked e"
  "e_uuids (alone e) = e_uuids e" "e_fault (alone e) = e_fault e" "e_jsonb (alone e) = e_jsonb e"
  by (simp_all add: alone_def)

lemma pg_alone: "pg e q d = pg (alone e) q (e_others e d)"
  by (simp add: pg_def Let_def)

lemma picks_alone [simp]:
  "is_stale (alone e) = is_stale e" "is_stuck (alone e) = is_stuck e" "is_due_retry (alone e) = is_due_retry e" "is_due (alone e) = is_due e"
  unfolding fun_eq_iff is_stale_def is_stuck_def is_due_retry_def is_due_def alone_fields by simp_all

lemma queries_alone [simp]:
  "stale_runs (alone e) s n d = stale_runs e s n d" "stuck_runs (alone e) s n d = stuck_runs e s n d"
  "due_retries (alone e) n d = due_retries e n d" "due_jobs (alone e) n d = due_jobs e n d"
  by (simp_all add: stale_runs_def stuck_runs_def due_retries_def due_jobs_def)

lemma fire_jobs_alone [simp]: "fire_jobs (alone e) next k js fired errs d = fire_jobs e next k js fired errs d"
  by (induction js arbitrary: k fired errs d) (simp_all split: sum.split prod.split)

lemma calls_alone:
  "CreateJob e n d = CreateJob (alone e) n (e_others e d)"
  "SetJobEnabled e i en nx d = SetJobEnabled (alone e) i en nx (e_others e d)"
  "FailQueuedRun e i reason d = FailQueuedRun (alone e) i reason (e_others e d)"
  "Heartbeat e i w a d = Heartbeat (alone e) i w a (e_others e d)"
  "FinishRun e i w a st out er d = FinishRun (alone e) i w a st out er (e_others e d)"
  "FailOrRetry e i w a msg b d = FailOrRetry (alone e) i w a msg b (e_others e d)"
  "ReleaseRun e i w a reason d = ReleaseRun (alone e) i w a reason (e_others e d)"
  "ReapStale e s m d = ReapStale (alone e) s m (e_others e d)"
  "SweepQueued e s m d = SweepQueued (alone e) s m (e_others e d)"
  "DueRetries e m d = DueRetries (alone e) m (e_others e d)"
  unfolding CreateJob_def SetJobEnabled_def FailQueuedRun_def Heartbeat_def FinishRun_def FailOrRetry_def ReleaseRun_def
    ReapStale_def SweepQueued_def DueRetries_def
  by (simp_all only: alone_fields queries_alone) (rule pg_alone)+

lemma claims_alone:
  "CreateManualRun e i d = CreateManualRun (alone e) i (e_others e d)"
  "ClaimRun e i w d = ClaimRun (alone e) i w (e_others e d)"
  "FireDueJobs e m nx d = FireDueJobs (alone e) m nx (e_others e d)"
  unfolding CreateManualRun_def ClaimRun_def FireDueJobs_def
  by (simp_all only: alone_fields queries_alone fire_jobs_alone pg_alone [of e _ d])

text \<open>Each call of a program is in the history.\<close>

lemma store_calls:
  assumes "lawful e"
  shows "by_calls d [] (snd (CreateJob e n d))" "by_calls d [] (snd (SetJobEnabled e i en nx d))"
    "by_calls d [] (snd (CreateManualRun e i d))" "by_calls d [] (snd (FailQueuedRun e i reason d))"
    "by_calls d [] (snd (Heartbeat e i w a d))" "by_calls d [] (snd (FinishRun e i w a StatusSucceeded (Some out) None d))"
    "by_calls d [] (snd (FailOrRetry e i w a msg b d))" "by_calls d [] (snd (ReleaseRun e i w a reason d))"
    "by_calls d [] (snd (ReapStale e s m d))" "by_calls d [] (snd (SweepQueued e s m d))"
    "by_calls d [] (snd (DueRetries e m d))" "by_calls d [] (snd (FireDueJobs e m nxt d))"
proof -
  show "by_calls d [] (snd (CreateJob e n d))"
    by (rule lawful_call [OF assms, where p = "OpCreateJob n"]) (simp add: calls_alone(1) [of e])
  show "by_calls d [] (snd (SetJobEnabled e i en nx d))"
    by (rule lawful_call [OF assms, where p = "OpSetJobEnabled i en nx"]) (simp add: calls_alone(2) [of e])
  show "by_calls d [] (snd (CreateManualRun e i d))"
    by (rule lawful_call [OF assms, where p = "OpCreateManualRun i"]) (simp add: claims_alone(1) [of e])
  show "by_calls d [] (snd (FailQueuedRun e i reason d))"
    by (rule lawful_call [OF assms, where p = "OpFailQueuedRun i reason"]) (simp add: calls_alone(3) [of e])
  show "by_calls d [] (snd (Heartbeat e i w a d))"
    by (rule lawful_call [OF assms, where p = "OpHeartbeat i w a"]) (simp add: calls_alone(4) [of e])
  show "by_calls d [] (snd (FinishRun e i w a StatusSucceeded (Some out) None d))"
    by (rule lawful_call [OF assms, where p = "OpSucceed i w a out"]) (simp add: calls_alone(5) [of e])
  show "by_calls d [] (snd (FailOrRetry e i w a msg b d))"
    by (rule lawful_call [OF assms, where p = "OpFailOrRetry i w a msg b"]) (simp add: calls_alone(6) [of e])
  show "by_calls d [] (snd (ReleaseRun e i w a reason d))"
    by (rule lawful_call [OF assms, where p = "OpReleaseRun i w a reason"]) (simp add: calls_alone(7) [of e])
  show "by_calls d [] (snd (ReapStale e s m d))"
    by (rule lawful_call [OF assms, where p = "OpReapStale s m"]) (simp add: calls_alone(8) [of e])
  show "by_calls d [] (snd (SweepQueued e s m d))"
    by (rule lawful_call [OF assms, where p = "OpSweepQueued s m"]) (simp add: calls_alone(9) [of e])
  show "by_calls d [] (snd (DueRetries e m d))"
    by (rule lawful_call [OF assms, where p = "OpDueRetries m"]) (simp add: calls_alone(10) [of e])
  show "by_calls d [] (snd (FireDueJobs e m nxt d))"
    by (rule lawful_call [OF assms, where p = "OpFireDueJobs m nxt"]) (simp add: claims_alone(3) [of e])
qed

lemma reads_calls:
  assumes "lawful e"
  shows "by_calls d [] (snd (GetJob e i d))" "by_calls d [] (snd (ListJobs e m d))" "by_calls d [] (snd (GetRun e i d))"
    "by_calls d [] (snd (ListRuns e ji m d))" "by_calls d [] (snd (ListLogs e i a s m d))"
  using lawful_others [OF assms] by (simp_all add: GetJob_db ListJobs_db GetRun_db ListRuns_db ListLogs_db)

section \<open>The workers\<close>

lemma append_calls: "by_calls d [] (append_app i a y b d)"
  using by_calls_weaken [OF by_calls_op [of d "OpAppendLogs i a b" y]] by (simp add: append_app_def)

lemma by_calls_append: "by_calls d [] d' \<Longrightarrow> by_calls d [] (append_app i a y b d')"
  using by_calls_then append_calls by blast

lemma by_calls_beat: "lawful e \<Longrightarrow> by_calls d [] d' \<Longrightarrow> by_calls d [] (snd (Heartbeat e i w a d'))"
  using by_calls_then store_calls(5) by blast

lemma moves_calls:
  assumes "\<forall>e. MBeat e \<in> set ms \<longrightarrow> lawful e" and "by_calls d [] (k_sink (at_log s))"
  shows "by_calls d [] (k_sink (at_log (attempt_moves cfg r ms s)))"
  by (rule attempt_keeps [where P = "\<lambda>l d'. by_calls d [] d'"]) (use assms by_calls_append by_calls_beat in blast)+

lemma attempt_calls:
  assumes "\<forall>e. MBeat e \<in> set ms \<longrightarrow> lawful e"
  shows "by_calls d [] (k_sink (at_log (run_attempt cfg r ms ty lines d)))"
  by (rule run_attempt_keeps [where P = "\<lambda>l d'. by_calls d [] d'"]) (use assms by_calls_append by_calls_beat in blast)+

lemma settle_calls:
  assumes "lawful (x_final x)"
  shows "by_calls (w_db w) [] (w_db (settle cfg wr x r j result c w))"
proof -
  let ?e = "x_final x"
  have f: "by_calls (w_db w) [] (w_db (fail cfg ?e r m w))" for m
    using store_calls(7) [OF assms] by (simp add: fail_def)
  have s: "by_calls (w_db w) [] (w_db (succeed cfg ?e r out (writeOutputFile cfg (x_file x) r out w)))" for out
    using store_calls(6) [OF assms] by (simp add: succeed_def writeOutputFile_def)
  have l: "by_calls (w_db w) [] (w_db (release cfg wr ?e r t w))" for t
    using store_calls(8) [OF assms, of "w_db w" "r_id r" "c_id cfg" "r_attempt r" "release_reason cfg"]
    by (cases "ReleaseRun ?e (r_id r) (c_id cfg) (r_attempt r) (release_reason cfg) (w_db w)")
       (simp add: release_def split: sum.split bool.split)
  show ?thesis using f s l by (auto simp: settle_def split: sum.split option.split cause.split stop.split)
qed

lemma execute_calls:
  assumes "lawful_attempt x"
  shows "by_calls (w_db w) [] (w_db (execute cfg wr x r w))"
proof -
  have x: "lawful (x_load x)" "\<forall>e. MBeat e \<in> set (x_moves x) \<longrightarrow> lawful e" "lawful (x_final x)"
    using assms by (simp_all add: lawful_attempt_def)
  obtain g d where g: "GetJob (x_load x) (r_job_id r) (w_db w) = (g, d)" by fastforce
  then have d: "by_calls (w_db w) [] d" using reads_calls(1) [OF x(1), of "w_db w" "r_job_id r"] by simp
  show ?thesis
  proof (cases g)
    case (Inl err)
    have "by_calls d [] (w_db (fail cfg (x_final x) r m (w\<lparr>w_db := d\<rparr>)))" for m
      using store_calls(7) [OF x(3)] by (simp add: fail_def)
    with by_calls_then [OF d] Inl g show ?thesis by (simp add: execute_def)
  next
    case (Inr j)
    let ?res = "Job.Run (x_ctx x) (j_type j) (j_payload j) (r_attempt r)"
    let ?s = "run_attempt cfg r (x_moves x) (x_rest x) (snd ?res) d"
    let ?w = "w\<lparr>w_db := k_sink (at_log ?s)\<rparr>"
    have "by_calls d [] (w_db ?w)" using attempt_calls [OF x(2)] by simp
    moreover have "by_calls (w_db ?w) [] (w_db (settle cfg wr x r j (fst ?res) (cause_of x (at_lost ?s)) ?w))"
      by (rule settle_calls [OF x(3)])
    moreover have "execute cfg wr x r w = settle cfg wr x r j (fst ?res) (cause_of x (at_lost ?s)) ?w"
      by (simp add: execute_def g Inr Let_def split_def)
    ultimately show ?thesis using by_calls_then [OF d] by_calls_then by metis
  qed
qed

text \<open>A claim is the one event of a delivery.\<close>

lemma claim_calls:
  assumes "lawful (y_claim y)" and "claim (y_cfg y) (y_claim y) (y_msg y) d = (c, d')"
  shows "by_calls d (claimed y d) d'"
proof (cases "DecodeDispatch (y_msg y)")
  case (Inl e)
  with assms(2) show ?thesis by (auto simp: claim_def claimed_def)
next
  case (Inr q)
  let ?e = "y_claim y" and ?p = "OpClaimRun (q_run_id q) (c_id (y_cfg y))"
  let ?d = "e_others (y_claim y) d"
  have x: "ClaimRun ?e (q_run_id q) (c_id (y_cfg y)) d = ClaimRun (alone ?e) (q_run_id q) (c_id (y_cfg y)) ?d"
    by (rule claims_alone(2))
  have "d' = snd (exec_op ?e ?p ?d)"
    using assms(2) unfolding claim_def Inr sum.case x by (auto split: sum.splits option.splits prod.splits)
  moreover have "claimed y d = claim_events ?p (fst (exec_op ?e ?p ?d))"
    unfolding claimed_def claim_def Inr sum.case x
    by (cases "ClaimRun (alone ?e) (q_run_id q) (c_id (y_cfg y)) ?d")
       (simp add: claim_events_def split: sum.split option.split)
  moreover have "by_calls d (claim_events ?p (fst (exec_op ?e ?p ?d))) (snd (exec_op ?e ?p ?d))"
    by (rule by_calls_then [OF lawful_others [OF assms(1)] by_calls_op])
  ultimately show ?thesis by metis
qed

lemma deliver_calls:
  assumes "lawful (y_claim y)" and "lawful_attempt (y_attempt y)"
  shows "by_calls (w_db w) (claimed y (w_db w)) (w_db (deliver wr y w))"
proof -
  obtain c d where c: "claim (y_cfg y) (y_claim y) (y_msg y) (w_db w) = (c, d)" by fastforce
  note cl = claim_calls [OF assms(1) c]
  show ?thesis
  proof (cases c)
    case None
    with c cl show ?thesis by (simp add: deliver_def)
  next
    case (Some r)
    have "by_calls d [] (w_db (deliver wr y w))"
      using execute_calls [OF assms(2), of "w\<lparr>w_db := d\<rparr>"] c Some by (simp add: deliver_def)
    from by_calls_trans [OF cl this] show ?thesis by simp
  qed
qed

lemma dies_calls:
  assumes "lawful (y_claim y)" and "lawful_attempt (y_attempt y)"
  shows "by_calls (w_db w) (claimed y (w_db w)) (w_db (dies y w))"
proof -
  have x: "lawful (x_load (y_attempt y))" "\<forall>e. MBeat e \<in> set (x_moves (y_attempt y)) \<longrightarrow> lawful e"
    using assms(2) by (simp_all add: lawful_attempt_def)
  obtain c d where c: "claim (y_cfg y) (y_claim y) (y_msg y) (w_db w) = (c, d)" by fastforce
  note cl = claim_calls [OF assms(1) c]
  show ?thesis
  proof (cases c)
    case None
    with c cl show ?thesis by (simp add: dies_def)
  next
    case (Some r)
    obtain g d1 where g: "GetJob (x_load (y_attempt y)) (r_job_id r) d = (g, d1)" by fastforce
    then have d1: "by_calls d [] d1" using reads_calls(1) [OF x(1), of d "r_job_id r"] by simp
    have "by_calls d [] (w_db (dies y w))"
    proof (cases g)
      case (Inl err)
      with d1 g c Some show ?thesis by (simp add: dies_def)
    next
      case (Inr j)
      have "by_calls d [] (k_sink (at_log (attempt_moves (y_cfg y) r (x_moves (y_attempt y))
          \<lparr>at_lines = lines, at_lost = False, at_log = newRunLogger (r_attempt r) d1\<rparr>)))" for lines
        by (rule moves_calls [OF x(2)]) (use d1 in \<open>simp add: newRunLogger_def startRunLogger_def\<close>)
      with g c Some Inr show ?thesis by (simp add: dies_def)
    qed
    from by_calls_trans [OF cl this] show ?thesis by simp
  qed
qed

lemma maintain_calls:
  assumes "lawful e1" and "lawful e2" and "lawful e3"
  shows "by_calls (w_db w) [] (w_db (maintain_pass cfg wr e1 e2 e3 w))"
proof -
  obtain xs d1 where 1: "ReapStale e1 (c_stale_after cfg) maintenanceBatch (w_db w) = (xs, d1)" by fastforce
  obtain ys d2 where 2: "DueRetries e2 maintenanceBatch d1 = (ys, d2)" by fastforce
  obtain zs d3 where 3: "SweepQueued e3 (c_sweep_after cfg) maintenanceBatch d2 = (zs, d3)" by fastforce
  have "by_calls (w_db w) [] d1" using store_calls(9) [OF assms(1), of "w_db w" "c_stale_after cfg" maintenanceBatch] 1 by simp
  moreover have "by_calls d1 [] d2" using store_calls(11) [OF assms(2), of d1 maintenanceBatch] 2 by simp
  moreover have "by_calls d2 [] d3" using store_calls(10) [OF assms(3), of d2 "c_sweep_after cfg" maintenanceBatch] 3 by simp
  ultimately have "by_calls (w_db w) [] d3" using by_calls_then by blast
  then show ?thesis by (simp add: maintain_pass_def 1 2 3)
qed

section \<open>The scheduler and the API\<close>

lemma pass_calls_store:
  assumes "lawful (fst p)" and "tick_pass z wr p (d, k) = (fired, d', k')"
  shows "by_calls d [] d'"
  using assms(2) store_calls(12) [OF assms(1), of d batch "sched_next z (snd p)"]
  by (simp add: tick_pass_def Let_def split_def)

lemma lists_calls:
  assumes "lawful e"
  shows "by_calls d [] (snd (handleListJobs e r d))" "by_calls d [] (snd (handleGetJob u e r d))"
    "by_calls d [] (snd (handleListRuns u e r d))" "by_calls d [] (snd (handleGetRun u e r d))"
proof -
  note c = reads_calls [OF assms, of d]
  show "by_calls d [] (snd (handleListJobs e r d))"
    using c(2) by (auto simp: handleListJobs_def split: sum.split prod.split) (metis snd_conv)+
  show "by_calls d [] (snd (handleGetJob u e r d))"
    using c(1) by (auto simp: handleGetJob_def split: sum.split prod.split) (metis snd_conv)+
  show "by_calls d [] (snd (handleListRuns u e r d))"
    using c(4) by (auto simp: handleListRuns_def Let_def split: sum.split prod.split) (metis snd_conv)+
  show "by_calls d [] (snd (handleGetRun u e r d))"
    using c(3) by (auto simp: handleGetRun_def split: sum.split prod.split) (metis snd_conv)+
qed

lemma create_calls: "lawful e \<Longrightarrow> by_calls d [] (snd (handleCreateJob z now e r d))"
  using store_calls(1) [of e d] by (auto simp: handleCreateJob_def split: sum.split prod.split) (metis snd_conv)+

lemma logs_calls:
  assumes "lawful e1" and "lawful e2"
  shows "by_calls d [] (snd (handleListLogs u e1 e2 r d))"
proof (cases "pathID u r")
  case (Inr i)
  obtain g d1 where g: "GetRun e1 i d = (g, d1)" by fastforce
  then have d1: "by_calls d [] d1" using reads_calls(3) [OF assms(1), of d i] by simp
  have "by_calls d [] (snd (ListLogs e2 i' a s m d1))" for i' a s m
    using by_calls_then [OF d1 reads_calls(5) [OF assms(2)]] .
  with d1 show ?thesis using Inr g
    by (auto simp: handleListLogs_def split: sum.split prod.split) (metis snd_conv)+
qed (auto simp: handleListLogs_def)

lemma enable_calls:
  assumes "lawful e1" and "lawful e2"
  shows "by_calls d [] (snd (handleSetEnabled u z now b e1 e2 r d))"
proof (cases "pathID u r")
  case (Inr i)
  obtain g d1 where g: "GetJob e1 i d = (g, d1)" by fastforce
  then have d1: "by_calls d [] d1" using reads_calls(1) [OF assms(1), of d i] by simp
  have set: "by_calls d [] d2" if "SetJobEnabled e2 i b nx d1 = (res, d2)" for nx res d2
    using by_calls_then [OF d1 store_calls(2) [OF assms(2), of d1 i b nx]] that by simp
  show ?thesis
  proof (cases g)
    case (Inl err)
    with Inr g d1 show ?thesis by (simp add: handleSetEnabled_def)
  next
    case job: (Inr j)
    let ?next = "case j_cron_expr j of
      Some c \<Rightarrow> if b then map_sum (ErrWrap ''compute next run'') Some (NextRun z c (j_timezone j) now) else Inr None | None \<Rightarrow> Inr None"
    have "by_calls d [] (snd (case ?next of Inl err \<Rightarrow> (storeError ''job'' err, d1)
        | Inr next \<Rightarrow> (case SetJobEnabled e2 i b next d1 of
            (Inl err, d2) \<Rightarrow> (storeError ''job'' err, d2) | (Inr j', d2) \<Rightarrow> (writeJSON 200 (BJob j'), d2))))"
      using d1 set by (cases ?next) (simp_all split: prod.split sum.split)
    with Inr g job show ?thesis by (simp add: handleSetEnabled_def)
  qed
qed (auto simp: handleSetEnabled_def)

lemma run_calls:
  assumes "lawful e1" and "lawful e2" and "lawful e3"
  shows "by_calls d [] (fst (snd (handleRunJob u wr e1 e2 e3 r (d, k))))"
proof (cases "pathID u r")
  case (Inr i)
  obtain g d1 where g: "GetJob e1 i d = (g, d1)" by fastforce
  then have d1: "by_calls d [] d1" using reads_calls(1) [OF assms(1), of d i] by simp
  show ?thesis
  proof (cases g)
    case (Inl err)
    with Inr g d1 show ?thesis by (simp add: handleRunJob_def)
  next
    case job: (Inr j)
    obtain c d2 where c: "CreateManualRun e2 (j_id j) d1 = (c, d2)" by fastforce
    then have d2: "by_calls d [] d2" using by_calls_then [OF d1 store_calls(3) [OF assms(2), of d1 "j_id j"]] by simp
    have "by_calls d [] (snd (FailQueuedRun e3 i' reason d2))" for i' reason
      using by_calls_then [OF d2 store_calls(4) [OF assms(3)]] .
    with d2 show ?thesis using Inr g job c
      by (cases c) (simp_all add: handleRunJob_def split: prod.split option.split)
  qed
qed (auto simp: handleRunJob_def)

lemma handle_calls:
  assumes "\<And>n. lawful (sv_env sv n)" and "handle sv ep r (d, k) = Some (resp, d', k')"
  shows "by_calls d [] d'"
proof -
  have o: "by_calls d [] (fst (snd (on_db f (d, k))))" if "\<And>d. by_calls d [] (snd (f d))" for f :: "db \<Rightarrow> response \<times> db"
    using that [of d] by (simp add: on_db_def split_def)
  have h: "(case handle sv ep r (d, k) of None \<Rightarrow> True | Some z \<Rightarrow> by_calls d [] (fst (snd z)))"
    using o [OF lists_calls(1) [OF assms(1)]] o [OF lists_calls(2) [OF assms(1)]] o [OF lists_calls(3) [OF assms(1)]]
      o [OF lists_calls(4) [OF assms(1)]] o [OF create_calls [OF assms(1)]] o [OF logs_calls [OF assms(1) assms(1)]]
      o [OF enable_calls [OF assms(1) assms(1)]] run_calls [OF assms(1) assms(1) assms(1)]
    by (cases ep) (simp_all add: by_calls_refl)
  with assms(2) show ?thesis by simp
qed

lemma request_calls:
  assumes "\<And>n. lawful (sv_env sv n)" and "api_transport sv m target body (d, k) = (resp, d', k')"
  shows "by_calls d [] d'"
proof -
  obtain path q where c: "cut CHR ''?'' target = (path, q)" by fastforce
  show ?thesis
  proof (cases "route m path")
    case None
    with assms(2) c show ?thesis by (auto simp: api_transport_def)
  next
    case (Some ei)
    obtain ep i where ei: "ei = (ep, i)" by fastforce
    let ?r = "\<lparr>h_id = i, h_query = query_get q, h_body = (case body of None \<Rightarrow> [] | Some b \<Rightarrow> b)\<rparr>"
    show ?thesis
    proof (cases "handle sv ep ?r (d, k)")
      case None
      with assms(2) c Some ei show ?thesis by (auto simp: api_transport_def)
    next
      case h: (Some z)
      obtain resp1 d1 k1 where z: "z = (resp1, d1, k1)" by (metis prod_cases3)
      with assms(2) c Some ei h have "d' = d1" by (simp add: api_transport_def)
      with handle_calls [OF assms(1) h [unfolded z]] show ?thesis by simp
    qed
  qed
qed

section \<open>The whole system\<close>

lemma subseq_distinct: "subseq xs ys \<Longrightarrow> distinct ys \<Longrightarrow> distinct xs"
  by (induction rule: list_emb.induct) (auto dest: list_emb_set)

lemma sys_step_calls:
  assumes "lawful_event ev"
  shows "by_calls (w_db w) (fst (sys_step ev w)) (w_db (snd (sys_step ev w)))"
proof (cases ev)
  case (SysRequest sv m target body)
  obtain resp d k where a: "api_transport sv m target body (w_db w, w_broker w) = (resp, d, k)" by (metis prod_cases3)
  with SysRequest assms request_calls [OF _ a] show ?thesis by simp
next
  case (SysPass z wr p)
  obtain fired d k where t: "tick_pass z wr p (w_db w, w_broker w) = (fired, d, k)" by (metis prod_cases3)
  with SysPass assms pass_calls_store [OF _ t] show ?thesis by simp
next
  case (SysDeliver wr y)
  with assms deliver_calls [of y w wr] show ?thesis by simp
next
  case (SysDies y)
  with assms dies_calls [of y w] show ?thesis by simp
next
  case (SysMaintain cfg wr e1 e2 e3)
  with assms maintain_calls [of e1 e2 e3 w cfg wr] show ?thesis by simp
qed

lemma sys_run_calls:
  "list_all lawful_event evs \<Longrightarrow> by_calls (w_db w) (fst (sys_run evs w)) (w_db (snd (sys_run evs w)))"
proof (induction evs arbitrary: w)
  case Nil
  then show ?case by (simp add: by_calls_refl)
next
  case (Cons ev evs)
  obtain xs w1 where s: "sys_step ev w = (xs, w1)" by fastforce
  obtain ys w2 where r: "sys_run evs w1 = (ys, w2)" by fastforce
  have "by_calls (w_db w) xs (w_db w1)" using sys_step_calls [of ev w] Cons.prems s by simp
  moreover have "by_calls (w_db w1) ys (w_db w2)" using Cons.IH [of w1] Cons.prems r by simp
  ultimately show ?case using by_calls_trans s r by simp
qed

text \<open>
  C2: the whole system refines the store. Whatever requests clients send, whatever messages the topic
  delivers, loses or repeats, wherever workers die and whatever the programs do at the same time, the
  database goes through a history of store calls, and the attempts the workers began to execute are,
  in order, among the claims of that history.
\<close>

theorem system_refines_store:
  assumes "list_all lawful_event evs"
  shows "\<exists>ops. w_db (snd (sys_run evs w)) = snd (run_ops ops (w_db w))
    \<and> subseq (fst (sys_run evs w)) (events claim_events ops (w_db w))"
  using sys_run_calls [OF assms, of w] unfolding by_calls_def by metis

text \<open>
  C1: no attempt is executed twice. In every execution of the whole system, however its programs
  interleave, fail and die, no two workers begin to execute the same attempt of a run, and the
  database keeps its constraints and the shape of every run.
\<close>

theorem no_attempt_executed_twice:
  assumes "list_all lawful_event evs" and "db_ok (w_db w)"
  shows "distinct (fst (sys_run evs w)) \<and> db_ok (w_db (snd (sys_run evs w)))"
proof -
  obtain ops where ops: "w_db (snd (sys_run evs w)) = snd (run_ops ops (w_db w))"
    "subseq (fst (sys_run evs w)) (events claim_events ops (w_db w))"
    using sys_run_calls [OF assms(1), of w] unfolding by_calls_def by metis
  have "schema_ok (w_db w)" using assms(2) by (simp add: db_ok_def)
  then have "distinct (events claim_events ops (w_db w))"
    using claims.history_distinct [of "w_db w" ops] by (simp add: claims_history)
  with ops run_ops_db_ok [OF assms(2), of ops] show ?thesis by (metis subseq_distinct)
qed

section \<open>Witnesses\<close>

text \<open>A worker dies with the run, the run is reaped, and its new message arrives twice.\<close>

definition demo_story :: "(unit, unit, message list) sys_event list" where
  "demo_story = [SysDies (demo_delivery ''R'' 3),
     SysMaintain demo_cfg send (demo_env 20000000 '''') (demo_env 20000000 '''') (demo_env 20000000 ''''),
     SysDeliver send (demo_delivery ''R'' 20000001), SysDeliver send (demo_delivery ''R'' 20000002)]"

definition story_world :: "message list world" where
  "story_world = \<lparr>w_db = retry_db, w_broker = [], w_files = []\<rparr>"

lemma demo_lawful: "lawful (demo_env t i)"
  unfolding lawful_def by (intro allI exI [of _ "[]"]) (simp add: demo_env_def)

lemma demo_story_lawful: "list_all lawful_event demo_story"
proof -
  have "lawful_attempt (demo_attempt st)" for st
    by (auto simp: lawful_attempt_def demo_attempt_def demo_lawful)
  then show ?thesis by (simp add: demo_story_def demo_delivery_def demo_lawful)
qed

lemma story_world_ok: "db_ok (w_db story_world)"
  using retry_waiting by (simp add: waiting_def story_world_def db_ok_def retry_db_def row_ok_def new_run_row_def)

theorem no_attempt_executed_twice_witness:
  "distinct (fst (sys_run demo_story story_world)) \<and> db_ok (w_db (snd (sys_run demo_story story_world)))"
  by (rule no_attempt_executed_twice [OF demo_story_lawful story_world_ok])

theorem system_refines_store_witness:
  "\<exists>ops. w_db (snd (sys_run demo_story story_world)) = snd (run_ops ops retry_db)
    \<and> subseq (fst (sys_run demo_story story_world)) (events claim_events ops retry_db)"
  using system_refines_store [OF demo_story_lawful, of story_world] by (simp add: story_world_def)

end
