(* ===== verification/Spec2Isabelle.thy ===== *)
theory Spec2Isabelle
  imports Migrate StreamProps WorkerProcess ApiProcess ApiLog Terminal System
begin

text \<open>
  \<^bold>\<open>jobsys\<close> is a small distributed job system in Go: an HTTP API with a cron scheduler, a pool of
  workers fed through a Kafka topic, a command-line client, and Postgres as the source of truth. This
  library models its programs under \<open>cmd/\<close> and \<open>internal/\<close> in HOL and proves what makes them correct.

  \<^bold>\<open>How the parts interact.\<close> A run is a row of \<open>job_runs\<close>. The API (\<open>handleRunJob\<close>) or the scheduler
  (\<open>Tick\<close>, \<open>FireDueJobs\<close>) inserts it QUEUED and publishes its id (\<open>Dispatch\<close>). A worker reads the message
  (\<open>consume_step\<close>), claims the run (\<open>ClaimRun\<close>), executes one attempt of the job (\<open>execute\<close>,
  \<open>generateText\<close>) while it heartbeats and writes the log in batches (\<open>run_logger\<close>, \<open>AppendLogs\<close>), and settles
  the attempt (\<open>FinishRun\<close>, \<open>FailOrRetry\<close>, \<open>ReleaseRun\<close>). Every worker also reaps runs whose worker died,
  sweeps runs whose message was lost and dispatches due retries (\<open>maintain_pass\<close>). Clients read rows and
  logs through the handlers of the API, page by page or as a stream of events (\<open>stream_step\<close>), which
  \<open>jobctl\<close> prints.

  \<^bold>\<open>The theories, in the order of the code.\<close>

  \<^item> Prelude, GoStd, GoTime: lookups and conditional updates of tables, ordering and limits; Go's 64-bit
    integers with their wrap-around (\<open>wrap64\<close>), \<open>strconv\<close>, \<open>strings\<close>, \<open>time.ParseDuration\<close>.
  \<^item> Json, JsonRound: \<open>encoding/json\<close> on bytes, reading (with the decoder's stack, its depth limit and its
    repair of UTF-8) and writing, and the proof that what is written is read back.
  \<^item> Models, StoreJobs, StoreRuns, StoreWorker, StoreSchedule: the rows of \<open>internal/store/models.go\<close>, the
    constraints of \<open>migrations/001_init.sql\<close> (\<open>schema_ok\<close>), and every operation of \<open>jobs.go\<close>, \<open>runs.go\<close>,
    \<open>worker.go\<close>, \<open>retry.go\<close> and \<open>schedule.go\<close> of \<open>internal/store\<close> as a function of the database and of the call's
    environment \<open>env\<close>: what other sessions committed before the statement runs (\<open>e_others\<close>, any function),
    the transaction's time, the rows other sessions hold locked (\<open>SKIP LOCKED\<close>), the new ids, and a
    possible failure, before the commit or after it with the reply lost.
  \<^item> RunRows, StoreSteps, Lifecycle, AtMostOnce, RunHistory, StoreProps: each operation as a step of one row,
    histories of calls by any number of processes, the locale \<open>progress_store\<close> from which both
    at-most-once properties follow by two interpretations, the abstract machine of a run's phases
    and the refinement, the invariants.
  \<^item> Migrate: \<open>internal/store/migrate.go\<close>.
  \<^item> Job, JobProps: \<open>internal/job/job.go\<close>: payloads, validation, the execution loop with cancellation, cron.
  \<^item> Queue: \<open>internal/queue/queue.go\<close>: messages and \<open>CheckTopic\<close>.
  \<^item> App: \<open>internal/app/app.go\<close> and \<open>loadConfig\<close> of \<open>cmd/worker/main.go\<close>. Startup: \<open>store.Open\<close>, \<open>OpenDB\<close>,
    \<open>WaitForTopic\<close>, the settings of the Kafka writer and reader, \<open>api migrate\<close>; what is opened, used and
    closed is a list of events (\<open>held\<close>). Process: \<open>run\<close> and \<open>main\<close> of \<open>cmd/worker\<close>, \<open>serve\<close> and \<open>main\<close> of \<open>cmd/api\<close>,
    the latter a machine of \<open>serve\<close>, the scheduler's goroutine and the listener's.
  \<^item> RunLog: \<open>internal/worker/runlog.go\<close> as a machine of two goroutines and a mutex; the locale \<open>log_sink\<close> is
    what it needs of the store, interpreted on \<open>AppendLogs\<close>. Attempt: the job with its log, the flusher and
    the heartbeat as one machine over the database (\<open>run_attempt\<close>), from which \<open>execute\<close> is built.
  \<^item> Worker, WorkerProps: \<open>claim\<close>, \<open>execute\<close> and everything it calls, \<open>retryDelay\<close>, the maintenance pass of
    \<open>internal/worker/worker.go\<close>. Consume: \<open>Run\<close> and \<open>consume\<close>, with slots, wait groups, contexts and the
    goroutines of the jobs as one machine whose events are the interleavings.
  \<^item> Scheduler: \<open>internal/scheduler/scheduler.go\<close>.
  \<^item> Api, ApiProps: \<open>internal/api/api.go\<close> and \<open>handlers.go\<close>, every handler with its error branches.
    Stream, StreamProps: the live log of \<open>stream.go\<close> as a machine that makes one store call per step.
  \<^item> Wire: the bytes of events and log pages, and \<open>readEvents\<close> with \<open>bufio.Scanner\<close>. Jobctl, JobctlProps:
    the commands of \<open>cmd/jobctl/main.go\<close>, what they send and how they read it back.
  \<^item> ApiHttp: \<open>Routes\<close> with the matching of \<open>http.ServeMux\<close>, \<open>net/url\<close>'s escaping and queries, and the JSON of
    every response; \<open>api_transport\<close> is the API as the client's other end. JobctlLogs, JobctlApi, JobctlSubmit:
    each command of \<open>jobctl\<close> composed with the client, the router, the handler and the store. The locale
    \<open>log_pages\<close> is what paging needs of a server, interpreted on \<open>api_transport\<close>. ApiLog: \<open>statusRecorder\<close> and
    \<open>logRequests\<close> over the calls a handler makes on its response writer.
  \<^item> GoFlag, JobctlMain: the package \<open>flag\<close> with \<open>strconv.ParseInt\<close>, the flags of every command, and \<open>main\<close> of
    \<open>jobctl\<close> from the words of the command line to the exit code.
  \<^item> Pipeline: dispatch messages delivered to workers until a run has ended (\<open>deliver\<close>), and the whole way of
    a job from \<open>jobctl create\<close> to its stored output. Recovery, Drain: the loop of \<open>maintain\<close> over runs whose
    worker, message or retry was lost, with a backlog of any size (\<open>ahead\<close> counts the rows that are served
    before a run). AttemptLog:
    what attempts and whole runs leave in \<open>job_logs\<close>. Terminal: what \<open>jobctl logs\<close> prints of it.
  \<^item> System: any number of API servers, scheduler replicas and workers as one machine (\<open>sys_run\<close>) whose
    events are requests, batches of a tick, deliveries, maintenance passes and the deaths of workers. Every
    execution of it is a history of store calls, so what holds of all histories holds of the system.

  \<^bold>\<open>What the lemmas show.\<close> Safety of the store in every history (a run's attempt is claimed and settled
  at most once, a stale worker changes nothing, finished runs are final, retries are bounded), the
  exact effect of the operations, the outcome of an executed attempt, the slots and the shutdown of a
  worker, the completeness of the log from the job's payload to the terminal, that maintenance brings every
  overdue run back and such a run still ends as its job means it to, that a tick fires every due job
  once, the effect of each API request, round trips of the JSON formats and of the command line,
  termination of the loops that wait or page, that the processes close what they open and when they
  exit with which code, and, of all parts together, that a created job's run ends as its flags say and
  that no attempt is executed twice, whichever programs die and however they interleave.

  \<^bold>\<open>Loops.\<close> Structural or well-founded recursion wherever the code's loop ends by itself. \<open>Tick\<close> and
  \<open>logs_loop\<close> may run forever and are partial functions to an option; that they return under the stated
  conditions is part of \<open>Tick_fires_every_due_job\<close> and \<open>logs_prints_log\<close>. \<open>WaitFor\<close> recurses on the number of checks its
  deadline leaves, which \<open>WaitFor_returns\<close> bounds. Machines (\<open>log_step\<close>, \<open>consume_step\<close>, \<open>stream_step\<close>) take a
  list of inputs, one per step, so every interleaving is some list. \<open>run_attempt\<close> ends whatever its list of
  moves is: after it the job and the flusher take turns for \<open>togo\<close> rounds, which \<open>rounds_close\<close> shows
  to be enough.

  \<^bold>\<open>Parameters.\<close> Postgres (its concurrency is \<open>env\<close>; \<open>jsonb\<close> normalisation \<open>e_jsonb\<close>), the Kafka client
  (\<open>writer\<close>, \<open>dial\<close>), the answers of both at startup (\<open>outside\<close>), \<open>robfig/cron\<close> and the zone database (\<open>zones\<close>), \<open>uuid.Parse\<close> (\<open>uuid_of\<close>), the formats of
  \<open>time.Time\<close>, the HTTP exchange of the client (\<open>transport\<close>), the operating system's environment, and
  the SQL of a migration file.

  \<^bold>\<open>Not modelled.\<close> The process logs of \<open>log/slog\<close> other than the request log, the column widths of
  \<open>text/tabwriter\<close>, and the text that \<open>flag\<close> prints after its own messages: formatting by a library. The
  web page and its script, the Docker and Kubernetes files and the tests are not Go programs of the
  system.
\<close>

end
